(* ===== verification/Prelude.thy ===== *)
theory Prelude
  imports Main "HOL-Library.Word" "HOL-Library.Signed_Division"
begin

unbundle bit_operations_syntax

text \<open>
  Shared vocabulary of the development: bytes and byte strings, big-endian integers as
  \<^verbatim>\<open>encoding/binary\<close> reads and writes them, the wrap-around of Go's fixed-width integer
  conversions, decimal rendering as \<^verbatim>\<open>strconv.AppendInt\<close> does it, and the generic list
  facts the component theories use.

  A byte is an \<open>8 word\<close>.  A Go slice is a list; \<open>s[:k]\<close> and \<open>s[k:]\<close> are \<open>take\<close> and
  \<open>drop\<close> behind the bound checks of the source.  A nil-able slice (a column value that may
  be SQL NULL) is an \<open>option\<close>.  A fixed-width signed integer is an \<open>int\<close> that a
  conversion puts back into range (\<open>int16_of\<close>, \<open>int32_of\<close>, \<open>int64_of\<close>).
\<close>

section \<open>Bytes and text\<close>

type_synonym byte = "8 word"
type_synonym bytes = "byte list"

named_theorems be_simps \<open>big-endian encoding and decoding\<close>
named_theorems ascii_simps \<open>literals as byte strings\<close>
named_theorems json_intros \<open>membership in the JSON grammar\<close>

text \<open>A Go string or rune literal as bytes; every literal of the source is ASCII.\<close>

definition asc :: "string \<Rightarrow> bytes" where
  "asc s = map of_char s"

abbreviation ch :: "char \<Rightarrow> byte" where
  "ch c \<equiv> of_char c"

lemma asc_Nil [ascii_simps]: "asc [] = []"
  by (simp add: asc_def)

lemma asc_Cons [ascii_simps]: "asc (c # s) = of_char c # asc s"
  by (simp add: asc_def)

lemma length_asc [simp]: "length (asc s) = length s"
  by (simp add: asc_def)

section \<open>Fixed-width integers\<close>

text \<open>Go's conversions \<open>int16(x)\<close>, \<open>int32(x)\<close>, \<open>int64(x)\<close>: keep the low bits, read as two's complement.\<close>

definition int16_of :: "int \<Rightarrow> int" where
  "int16_of x = signed_take_bit 15 x"

definition int32_of :: "int \<Rightarrow> int" where
  "int32_of x = signed_take_bit 31 x"

definition int64_of :: "int \<Rightarrow> int" where
  "int64_of x = signed_take_bit 63 x"

text \<open>\<open>binary.BigEndian\<close>: the unsigned value of a byte string, and the low \<open>n\<close> bytes of an integer.\<close>

fun be_get :: "bytes \<Rightarrow> int" where
  "be_get [] = 0"
| "be_get (b # bs) = uint b * 256 ^ length bs + be_get bs"

fun be_put :: "nat \<Rightarrow> int \<Rightarrow> bytes" where
  "be_put 0 v = []"
| "be_put (Suc n) v = word_of_int (v div 256 ^ n) # be_put n v"

lemma length_be_put [simp]: "length (be_put n v) = n"
  by (induction n) simp_all

lemma be_get_nonneg [simp]: "0 \<le> be_get bs"
  by (induction bs) simp_all

lemma be_get_less: "be_get bs < 256 ^ length bs"
proof (induction bs)
  case (Cons b bs)
  have "uint b < 256" using uint_lt2p [of b] by simp
  then have "uint b * 256 ^ length bs + 256 ^ length bs \<le> (256::int) * 256 ^ length bs"
    using mult_right_mono [of "uint b + 1" "256::int" "256 ^ length bs"] by (simp add: algebra_simps)
  with Cons.IH have "uint b * 256 ^ length bs + be_get bs < 256 * 256 ^ length bs" by linarith
  then show ?case by simp
qed simp

lemma be_get_put [be_simps]: "be_get (be_put n v) = v mod 256 ^ n"
proof (induction n)
  case (Suc n)
  have u: "uint (word_of_int (v div 256 ^ n) :: byte) = (v div 256 ^ n) mod 256"
    by (simp add: uint_word_of_int)
  have "v mod 256 ^ Suc n = 256 ^ n * ((v div 256 ^ n) mod 256) + v mod 256 ^ n"
    using mod_mult2_eq' [of v "256 ^ n" 256] by (simp add: zmod_zmult2_eq mult.commute)
  with Suc u show ?case by (simp add: mult.commute)
qed simp

lemma be_put_mod: "be_put n (v mod 256 ^ n) = be_put n v"
proof -
  have "k \<le> n \<Longrightarrow> be_put k (v mod 256 ^ n) = be_put k v" for k
  proof (induction k)
    case (Suc k)
    have n: "(256::int) ^ n = 256 ^ k * (256 * 256 ^ (n - Suc k))"
      using power_add [of "256::int" "Suc k" "n - Suc k"] Suc.prems by (simp add: mult.assoc mult.left_commute)
    have "v mod 256 ^ n div 256 ^ k mod 256 = v div 256 ^ k mod 256"
      unfolding n by (simp add: zmod_zmult2_eq [of _ _ "256 ^ k"] zmod_zmult2_eq)
    then have "(word_of_int (v mod 256 ^ n div 256 ^ k) :: byte) = word_of_int (v div 256 ^ k)"
      by (simp add: word_of_int_eq_iff take_bit_eq_mod)
    with Suc show ?case by simp
  qed simp
  then show ?thesis by simp
qed

lemma be_put_get [be_simps]: "be_put (length bs) (be_get bs) = bs"
proof (induction bs)
  case (Cons b bs)
  have "(uint b * 256 ^ length bs + be_get bs) div 256 ^ length bs = uint b"
    using be_get_less [of bs] by (simp add: div_add1_eq)
  moreover have "be_put (length bs) (uint b * 256 ^ length bs + be_get bs) = bs"
    using be_put_mod [of "length bs" "uint b * 256 ^ length bs + be_get bs"]
      be_put_mod [of "length bs" "be_get bs"] Cons by simp
  ultimately show ?case by simp
qed simp

lemma be_get_put_append [be_simps]: "be_get (take n (be_put n v @ bs)) = v mod 256 ^ n"
  by (simp add: be_get_put)

lemma signed_take_bit_mod:
  "n < m \<Longrightarrow> signed_take_bit n (v mod 2 ^ m) = signed_take_bit n (v :: int)"
  by (simp flip: take_bit_eq_mod add: signed_take_bit_take_bit)

lemma int16_of_mod [be_simps]: "int16_of (v mod 256 ^ 2) = int16_of v"
  using signed_take_bit_mod [of 15 16 v] by (simp add: int16_of_def)

lemma int32_of_mod [be_simps]: "int32_of (v mod 256 ^ 4) = int32_of v"
  using signed_take_bit_mod [of 31 32 v] by (simp add: int32_of_def)

lemma int64_of_mod [be_simps]: "int64_of (v mod 256 ^ 8) = int64_of v"
  using signed_take_bit_mod [of 63 64 v] by (simp add: int64_of_def)

lemma int16_of_id: "- (2 ^ 15) \<le> v \<Longrightarrow> v < 2 ^ 15 \<Longrightarrow> int16_of v = v"
  by (simp add: int16_of_def signed_take_bit_int_eq_self)

lemma int32_of_id: "- (2 ^ 31) \<le> v \<Longrightarrow> v < 2 ^ 31 \<Longrightarrow> int32_of v = v"
  by (simp add: int32_of_def signed_take_bit_int_eq_self)

lemma int64_of_id: "- (2 ^ 63) \<le> v \<Longrightarrow> v < 2 ^ 63 \<Longrightarrow> int64_of v = v"
  by (simp add: int64_of_def signed_take_bit_int_eq_self)

lemma int16_of_range: "- (2 ^ 15) \<le> int16_of v" "int16_of v < 2 ^ 15"
  using signed_take_bit_int_greater_eq_minus_exp [of 15 v] signed_take_bit_int_less_exp [of 15 v]
  by (simp_all add: int16_of_def)

lemma int32_of_range: "- (2 ^ 31) \<le> int32_of v" "int32_of v < 2 ^ 31"
  using signed_take_bit_int_greater_eq_minus_exp [of 31 v] signed_take_bit_int_less_exp [of 31 v]
  by (simp_all add: int32_of_def)

lemma int64_of_range: "- (2 ^ 63) \<le> int64_of v" "int64_of v < 2 ^ 63"
  using signed_take_bit_int_greater_eq_minus_exp [of 63 v] signed_take_bit_int_less_exp [of 63 v]
  by (simp_all add: int64_of_def)

text \<open>Go's \<open>/\<close> and \<open>%\<close> truncate towards zero: \<open>sdiv\<close> and \<open>smod\<close>.\<close>

lemma sdiv_nonneg: "0 \<le> a \<Longrightarrow> 0 < b \<Longrightarrow> (a::int) sdiv b = a div b"
  by (auto simp: signed_divide_int_def sgn_if)

lemma smod_nonneg: "0 \<le> a \<Longrightarrow> 0 < b \<Longrightarrow> (a::int) smod b = a mod b"
  by (cases "a = 0") (simp_all add: signed_modulo_int_def sgn_if)

section \<open>Positional numerals\<close>

text \<open>
  \<^verbatim>\<open>strconv.AppendInt\<close> and \<^verbatim>\<open>strconv.AppendUint\<close>: the digits of a number in a base, most
  significant first, without leading zeros.
\<close>

fun nat_digits :: "nat \<Rightarrow> nat \<Rightarrow> nat list" where
  "nat_digits b n = (if b < 2 \<or> n < b then [n] else nat_digits b (n div b) @ [n mod b])"

declare nat_digits.simps [simp del]

definition digits_value :: "nat \<Rightarrow> nat list \<Rightarrow> nat" where
  "digits_value b ds = foldl (\<lambda>a d. a * b + d) 0 ds"

lemma digits_value_snoc [simp]: "digits_value b (ds @ [d]) = digits_value b ds * b + d"
  by (simp add: digits_value_def)

lemma digits_value_nat_digits: "digits_value b (nat_digits b n) = n"
proof (induction b n rule: nat_digits.induct)
  case (1 b n)
  show ?case
  proof (cases "b < 2 \<or> n < b")
    case True
    then show ?thesis by (simp add: nat_digits.simps [of b n] digits_value_def)
  next
    case False
    with 1 have "digits_value b (nat_digits b (n div b)) = n div b" by simp
    with False show ?thesis by (simp add: nat_digits.simps [of b n])
  qed
qed

lemma nat_digits_inject: "nat_digits b m = nat_digits b n \<Longrightarrow> m = n"
  by (metis digits_value_nat_digits)

lemma nat_digits_nonempty [simp]: "nat_digits b n \<noteq> []"
  by (subst nat_digits.simps) simp

lemma nat_digits_less: "2 \<le> b \<Longrightarrow> d \<in> set (nat_digits b n) \<Longrightarrow> d < b"
proof (induction b n rule: nat_digits.induct)
  case (1 b n)
  then show ?case
    by (cases "n < b") (auto simp: nat_digits.simps [of b n])
qed

lemma hd_nat_digits: "2 \<le> b \<Longrightarrow> 0 < n \<Longrightarrow> 0 < hd (nat_digits b n)"
proof (induction b n rule: nat_digits.induct)
  case (1 b n)
  then show ?case
    by (cases "n < b") (auto simp: nat_digits.simps [of b n] hd_append div_greater_zero_iff)
qed

text \<open>Go's \<open>byte('0' + d)\<close>.\<close>

definition dig :: "int \<Rightarrow> byte" where
  "dig d = word_of_int (48 + d)"

definition is_digit :: "byte \<Rightarrow> bool" where
  "is_digit c \<longleftrightarrow> 48 \<le> c \<and> c \<le> 57"

definition dec_nat :: "nat \<Rightarrow> bytes" where
  "dec_nat n = map (\<lambda>d. dig (int d)) (nat_digits 10 n)"

definition dec_int :: "int \<Rightarrow> bytes" where
  "dec_int v = (if v < 0 then [ch CHR ''-''] else []) @ dec_nat (nat \<bar>v\<bar>)"

lemma uint_dig: "0 \<le> d \<Longrightarrow> d < 10 \<Longrightarrow> uint (dig d) = 48 + d"
  unfolding dig_def uint_word_of_int by simp

lemma is_digit_dig: "0 \<le> d \<Longrightarrow> d < 10 \<Longrightarrow> is_digit (dig d)"
  by (simp add: is_digit_def word_le_def uint_dig)

lemma is_digit_not_structural [simp]:
  "is_digit c \<Longrightarrow> c \<noteq> 34" "is_digit c \<Longrightarrow> c \<noteq> 92" "is_digit c \<Longrightarrow> 32 \<le> c"
  "is_digit c \<Longrightarrow> c \<noteq> 45" "is_digit c \<Longrightarrow> c \<noteq> 43" "is_digit c \<Longrightarrow> c \<noteq> 46"
  by (auto simp: is_digit_def intro: order.trans [of 32 48 c])

lemma dec_nat_digits: "list_all is_digit (dec_nat n)"
  by (auto simp: dec_nat_def list_all_iff intro!: is_digit_dig dest: nat_digits_less [rotated])

lemma dec_nat_nonempty [simp]: "dec_nat n \<noteq> []"
  by (simp add: dec_nat_def)

lemma dig_inject: "0 \<le> d \<Longrightarrow> d < 10 \<Longrightarrow> 0 \<le> e \<Longrightarrow> e < 10 \<Longrightarrow> dig d = dig e \<longleftrightarrow> d = e"
  by (metis add_left_cancel uint_dig)

lemma dec_nat_no_leading_zero: "0 < n \<Longrightarrow> hd (dec_nat n) \<noteq> 48"
proof -
  assume n: "0 < n"
  let ?d = "int (hd (nat_digits 10 n))"
  have d: "0 < ?d" "?d < 10"
    using hd_nat_digits [of 10 n] nat_digits_less [of 10 "hd (nat_digits 10 n)" n] n by simp_all
  have "dig ?d \<noteq> dig 0" using d by (subst dig_inject) auto
  then show ?thesis by (simp add: dec_nat_def hd_map dig_def)
qed

lemma dec_nat_zero: "dec_nat 0 = [48]"
  by (simp add: dec_nat_def nat_digits.simps dig_def)

lemma dec_nat_inject: "dec_nat m = dec_nat n \<Longrightarrow> m = n"
proof -
  assume "dec_nat m = dec_nat n"
  then have "map (\<lambda>d. nat (uint d - 48)) (dec_nat m) = map (\<lambda>d. nat (uint d - 48)) (dec_nat n)" by simp
  moreover have "map (\<lambda>d. nat (uint d - 48)) (dec_nat k) = nat_digits 10 k" for k
    by (auto simp: dec_nat_def uint_dig dest: nat_digits_less [rotated] intro!: map_idI)
  ultimately show ?thesis by (auto dest: nat_digits_inject)
qed

section \<open>Lists\<close>

text \<open>Elements separated by a byte, as the row writers emit them.\<close>

fun join :: "'a \<Rightarrow> 'a list list \<Rightarrow> 'a list" where
  "join sep [] = []"
| "join sep [x] = x"
| "join sep (x # y # xs) = x @ sep # join sep (y # xs)"

lemma join_Cons: "join sep (x # xs) = x @ (if xs = [] then [] else sep # join sep xs)"
  by (cases xs) simp_all

lemma join_snoc: "join sep (xs @ [x]) = join sep xs @ (if xs = [] then [] else [sep]) @ x"
  by (induction xs rule: join.induct) (auto simp: join_Cons)

text \<open>Go's \<open>s[a:b]\<close> behind a check that \<open>a \<le> b \<le> len(s)\<close>.\<close>

definition slice :: "nat \<Rightarrow> nat \<Rightarrow> 'a list \<Rightarrow> 'a list" where
  "slice a b s = take (b - a) (drop a s)"

lemma slice_self [simp]: "slice a a s = []"
  by (simp add: slice_def)

lemma slice_Suc: "a \<le> b \<Longrightarrow> b < length s \<Longrightarrow> slice a (Suc b) s = slice a b s @ [s ! b]"
  by (simp add: slice_def Suc_diff_le take_Suc_conv_app_nth)

lemma slice_length [simp]: "slice a (length s) s = drop a s"
  by (simp add: slice_def)

lemma slice_append: "a \<le> b \<Longrightarrow> b \<le> c \<Longrightarrow> slice a b s @ slice b c s = slice a c s"
  using take_add [of "b - a" "c - b" "drop a s"] by (simp add: slice_def)

text \<open>The digits of \<^verbatim>\<open>const hex = "0123456789abcdef"\<close>.\<close>

definition hex_digit :: "byte \<Rightarrow> byte" where
  "hex_digit n = asc ''0123456789abcdef'' ! unat n"

text \<open>\<^verbatim>\<open>hex[b>>4], hex[b&0xF]\<close>.\<close>

definition hex_byte :: "byte \<Rightarrow> bytes" where
  "hex_byte b = [hex_digit (drop_bit 4 b), hex_digit (b AND 15)]"

lemma length_hex_byte [simp]: "length (hex_byte b) = 2"
  by (simp add: hex_byte_def)

lemma and_15: "(b :: byte) AND 15 = take_bit 4 b"
  by (simp add: take_bit_eq_mask mask_eq_exp_minus_1)

lemma nibble_bounds: "unat (drop_bit 4 (b :: byte)) < 16" "unat (b AND 15 :: byte) < 16"
proof -
  have "unat b < 256" using unsigned_less [of b] by simp
  then show "unat (drop_bit 4 b) < 16" by (simp add: drop_bit_eq_div unat_div_distrib)
  show "unat (b AND 15) < 16" by (simp add: and_15 take_bit_eq_mod unat_mod_distrib)
qed

lemma nibble_join: "uint (drop_bit 4 (b :: byte)) * 16 + uint (b AND 15) = uint b"
  by (simp add: and_15 drop_bit_eq_div take_bit_eq_mod uint_div_distrib uint_mod_distrib)

end
