(* ===== verification/Json.thy ===== *)
theory Json
  imports Prelude
begin

text \<open>
  The target language of the encoders: JSON as RFC 8259 defines it, over bytes.  Bytes from
  0x80 up are accepted inside strings as they are; the driver passes the server's UTF-8
  through and so does this grammar.  Strings and numbers are decidable predicates
  (\<open>json_chars\<close>, \<open>json_number\<close>), values an inductive one (\<open>json_value\<close>).  \<open>unescape\<close> reads a
  string body back, which is what the round trip of the escaper is stated against.
  Nothing here models code of the repository.
\<close>

section \<open>Strings\<close>

definition hex_val :: "byte \<Rightarrow> int option" where
  "hex_val c =
     (if 48 \<le> c \<and> c \<le> 57 then Some (uint c - 48)
      else if 97 \<le> c \<and> c \<le> 102 then Some (uint c - 87)
      else if 65 \<le> c \<and> c \<le> 70 then Some (uint c - 55)
      else None)"

definition is_hex :: "byte \<Rightarrow> bool" where
  "is_hex c \<longleftrightarrow> hex_val c \<noteq> None"

text \<open>The single-character escapes and what they stand for.\<close>

definition simple_escape :: "byte \<Rightarrow> byte option" where
  "simple_escape c =
     (if c = ch CHR ''\"'' then Some (ch CHR ''\"'')
      else if c = 92 then Some 92
      else if c = ch CHR ''/'' then Some (ch CHR ''/'')
      else if c = ch CHR ''b'' then Some 8
      else if c = ch CHR ''f'' then Some 12
      else if c = ch CHR ''n'' then Some 10
      else if c = ch CHR ''r'' then Some 13
      else if c = ch CHR ''t'' then Some 9
      else None)"

text \<open>A byte that stands for itself inside a string.\<close>

definition plain_char :: "byte \<Rightarrow> bool" where
  "plain_char c \<longleftrightarrow> 32 \<le> c \<and> c \<noteq> 34 \<and> c \<noteq> 92"

text \<open>
  Reading a string body back to bytes.  A \<open>\u\<close> escape is read when it names a code point
  below 0x80, which is one byte of UTF-8 and covers every escape the driver writes.
\<close>

fun unescape :: "bytes \<Rightarrow> bytes option" where
  "unescape [] = Some []"
| "unescape (c # s) =
     (if c \<noteq> 92 then (if plain_char c then map_option ((#) c) (unescape s) else None)
      else (case s of
          [] \<Rightarrow> None
        | e # s' \<Rightarrow>
            (if e = ch CHR ''u'' then
               (case s' of
                  a # b # x # y # s'' \<Rightarrow>
                    (case (hex_val a, hex_val b, hex_val x, hex_val y) of
                       (Some va, Some vb, Some vx, Some vy) \<Rightarrow>
                         (if va * 4096 + vb * 256 + vx * 16 + vy < 128
                          then map_option ((#) (word_of_int (vx * 16 + vy))) (unescape s'')
                          else None)
                     | _ \<Rightarrow> None)
                | _ \<Rightarrow> None)
             else (case simple_escape e of
                     None \<Rightarrow> None
                   | Some r \<Rightarrow> map_option ((#) r) (unescape s')))))"

text \<open>The body of a JSON string: every byte plain or part of an escape.\<close>

fun json_chars :: "bytes \<Rightarrow> bool" where
  "json_chars [] \<longleftrightarrow> True"
| "json_chars (c # s) \<longleftrightarrow>
     (if c \<noteq> 92 then plain_char c \<and> json_chars s
      else (case s of
          [] \<Rightarrow> False
        | e # s' \<Rightarrow>
            (if e = ch CHR ''u'' then
               (case s' of
                  a # b # x # y # s'' \<Rightarrow> is_hex a \<and> is_hex b \<and> is_hex x \<and> is_hex y \<and> json_chars s''
                | _ \<Rightarrow> False)
             else simple_escape e \<noteq> None \<and> json_chars s')))"

definition json_string :: "bytes \<Rightarrow> bool" where
  "json_string v \<longleftrightarrow> (\<exists>s. json_chars s \<and> v = 34 # s @ [34])"

lemma json_chars_plain [simp]: "plain_char c \<Longrightarrow> json_chars (c # s) \<longleftrightarrow> json_chars s"
  by (auto simp: plain_char_def)

lemma json_chars_all_plain: "list_all plain_char s \<Longrightarrow> json_chars s"
  by (induction s) (simp_all del: json_chars.simps(2))

lemma json_chars_plain_append:
  "list_all plain_char s \<Longrightarrow> json_chars (s @ t) \<longleftrightarrow> json_chars t"
  by (induction s) (simp_all del: json_chars.simps(2))

lemma json_stringI [json_intros]: "json_chars s \<Longrightarrow> json_string (34 # s @ [34])"
  by (auto simp: json_string_def)

lemma unescape_plain [simp]: "plain_char c \<Longrightarrow> unescape (c # s) = map_option ((#) c) (unescape s)"
  by (auto simp: plain_char_def)

declare unescape.simps(2) [simp del] json_chars.simps(2) [simp del]

lemma unescape_plain_append:
  "list_all plain_char s \<Longrightarrow> unescape (s @ t) = map_option ((@) s) (unescape t)"
  by (induction s) (cases "unescape t"; simp)+

lemma unescape_simple:
  "simple_escape e = Some r \<Longrightarrow> unescape (92 # e # s) = map_option ((#) r) (unescape s)"
  by (auto simp: unescape.simps(2) simple_escape_def split: if_splits)

text \<open>What \<open>unescape\<close> reads is a string body.\<close>

lemma unescape_json_chars: "unescape s = Some t \<Longrightarrow> json_chars s"
proof (induction s arbitrary: t rule: length_induct)
  case (1 s)
  then have IH: "length s' < length s \<Longrightarrow> unescape s' = Some t' \<Longrightarrow> json_chars s'" for s' t'
    by blast
  show ?case
  proof (cases s)
    case (Cons c s')
    with "1.prems" IH show ?thesis
      by (fastforce simp: unescape.simps(2) [of c s'] json_chars.simps(2) [of c s'] is_hex_def
          split: if_splits list.splits option.splits)
  qed simp
qed

section \<open>Numbers\<close>

definition json_int :: "bytes \<Rightarrow> bool" where
  "json_int ds \<longleftrightarrow> ds \<noteq> [] \<and> list_all is_digit ds \<and> (hd ds = 48 \<longrightarrow> length ds = 1)"

definition json_frac :: "bytes \<Rightarrow> bool" where
  "json_frac f \<longleftrightarrow> f = [] \<or> (\<exists>ds. f = 46 # ds \<and> ds \<noteq> [] \<and> list_all is_digit ds)"

definition json_exp :: "bytes \<Rightarrow> bool" where
  "json_exp e \<longleftrightarrow> e = [] \<or>
     (\<exists>m sg ds. e = m # sg @ ds \<and> m \<in> {101, 69} \<and> sg \<in> {[], [43], [45]} \<and>
        ds \<noteq> [] \<and> list_all is_digit ds)"

definition json_number :: "bytes \<Rightarrow> bool" where
  "json_number v \<longleftrightarrow>
     (\<exists>sg i f e. v = sg @ i @ f @ e \<and> sg \<in> {[], [45]} \<and> json_int i \<and> json_frac f \<and> json_exp e)"

lemma json_numberI:
  "sg \<in> {[], [45]} \<Longrightarrow> json_int i \<Longrightarrow> json_frac f \<Longrightarrow> json_exp e \<Longrightarrow> json_number (sg @ i @ f @ e)"
  unfolding json_number_def by blast

lemma json_frac_Nil [simp]: "json_frac []"
  by (simp add: json_frac_def)

lemma json_exp_Nil [simp]: "json_exp []"
  by (simp add: json_exp_def)

lemma json_fracI: "ds \<noteq> [] \<Longrightarrow> list_all is_digit ds \<Longrightarrow> json_frac (46 # ds)"
  by (simp add: json_frac_def)

lemma json_int_dec_nat [simp]: "json_int (dec_nat n)"
  by (cases "n = 0") (auto simp: json_int_def dec_nat_zero dec_nat_digits is_digit_def dest: dec_nat_no_leading_zero)

lemma json_number_dec_int [json_intros]: "json_number (dec_int v)"
  using json_numberI [of "if v < 0 then [45] else []" "dec_nat (nat \<bar>v\<bar>)" "[]" "[]"]
  by (cases "v < 0") (simp_all add: dec_int_def)

section \<open>Values\<close>

definition json_ws :: "bytes \<Rightarrow> bool" where
  "json_ws w \<longleftrightarrow> list_all (\<lambda>c. c \<in> {32, 9, 10, 13}) w"

inductive json_value :: "bytes \<Rightarrow> bool" and json_member :: "bytes \<Rightarrow> bool" where
  json_null [json_intros]: "json_value (asc ''null'')"
| json_true [json_intros]: "json_value (asc ''true'')"
| json_false [json_intros]: "json_value (asc ''false'')"
| json_num [json_intros]: "json_number n \<Longrightarrow> json_value n"
| json_str [json_intros]: "json_string s \<Longrightarrow> json_value s"
| json_array [json_intros]: "(\<And>v. v \<in> set vs \<Longrightarrow> json_value v) \<Longrightarrow> json_value (91 # join 44 vs @ [93])"
| json_object [json_intros]: "(\<And>m. m \<in> set ms \<Longrightarrow> json_member m) \<Longrightarrow> json_value (123 # join 44 ms @ [125])"
| json_empty_array: "json_ws w \<Longrightarrow> json_value (91 # w @ [93])"
| json_empty_object: "json_ws w \<Longrightarrow> json_value (123 # w @ [125])"
| json_space: "json_ws w \<Longrightarrow> json_value v \<Longrightarrow> json_ws w' \<Longrightarrow> json_value (w @ v @ w')"
| json_pair: "json_ws w \<Longrightarrow> json_string k \<Longrightarrow> json_ws w' \<Longrightarrow> json_value v \<Longrightarrow> json_member (w @ k @ w' @ 58 # v)"

lemma json_ws_Nil [simp]: "json_ws []"
  by (simp add: json_ws_def)

lemma json_pairI [json_intros]: "json_string k \<Longrightarrow> json_value v \<Longrightarrow> json_member (k @ 58 # v)"
  using json_pair [of "[]" k "[]" v] by simp

text \<open>A value starts with one of the bytes RFC 8259 allows, so a text that does not is no value.\<close>

definition json_start :: "byte \<Rightarrow> bool" where
  "json_start c \<longleftrightarrow> c \<in> {32, 9, 10, 13, 34, 45, 91, 102, 110, 116, 123} \<or> is_digit c"

lemma json_number_start: "json_number n \<Longrightarrow> n \<noteq> [] \<and> json_start (hd n)"
  by (auto simp: json_number_def json_int_def json_start_def hd_append list_all_iff)

lemma json_value_start: "json_value v \<Longrightarrow> v \<noteq> [] \<and> json_start (hd v)"
  and json_member_start: "json_member m \<Longrightarrow> m \<noteq> []"
proof (induction rule: json_value_json_member.inducts)
  case (json_num n)
  then show ?case by (rule json_number_start)
next
  case (json_space w v w')
  then show ?case
    by (cases w) (auto simp: json_start_def json_ws_def)
qed (auto simp: json_start_def ascii_simps json_string_def)

lemma json_value_nonempty: "\<not> json_value []"
  using json_value_start by blast

end
