(* ===== verification/JsonWriter.thy ===== *)
theory JsonWriter
  imports Json
begin

text \<open>
  \<^verbatim>\<open>internal/jsonwriter\<close>: the \<open>Append*\<close> functions, the scalar escaper
  (\<^verbatim>\<open>escape_scalar.go\<close>) and the SWAR escaper built under the \<open>pgz_simd\<close> tag
  (\<^verbatim>\<open>escape_swar.go\<close>), whose functions carry the prefix \<open>swar_\<close> here.  Both loops keep the
  \<open>start\<close>/\<open>i\<close> cursors of the source.  Shown: each escaper appends the byte-by-byte
  reference escape, so the two builds agree on every input; the output is a JSON string
  body that reads back to the input.
\<close>

section \<open>writer.go\<close>

definition AppendNull :: "bytes \<Rightarrow> bytes" where
  "AppendNull dst = dst @ asc ''null''"

definition AppendBool :: "bytes \<Rightarrow> bool \<Rightarrow> bytes" where
  "AppendBool dst v = (if v then dst @ asc ''true'' else dst @ asc ''false'')"

text \<open>The table \<open>escapeFlag\<close>: the control bytes, the quote and the backslash.\<close>

definition escapeFlag :: "byte \<Rightarrow> bool" where
  "escapeFlag c \<longleftrightarrow> c < 0x20 \<or> c = ch CHR ''\"'' \<or> c = 92"

definition appendEscape :: "bytes \<Rightarrow> byte \<Rightarrow> bytes" where
  "appendEscape dst c =
     (if c = ch CHR ''\"'' then dst @ [92, ch CHR ''\"'']
      else if c = 92 then dst @ [92, 92]
      else if c = 10 then dst @ [92, ch CHR ''n'']
      else if c = 13 then dst @ [92, ch CHR ''r'']
      else if c = 9 then dst @ [92, ch CHR ''t'']
      else if c = 8 then dst @ [92, ch CHR ''b'']
      else if c = 12 then dst @ [92, ch CHR ''f'']
      else dst @ [92, ch CHR ''u'', ch CHR ''0'', ch CHR ''0''] @ hex_byte c)"

section \<open>escape_scalar.go\<close>

function body_loop :: "bytes \<Rightarrow> bytes \<Rightarrow> nat \<Rightarrow> nat \<Rightarrow> bytes" where
  "body_loop dst s start i =
     (if i < length s then
        (let c = s ! i in
         if \<not> escapeFlag c then body_loop dst s start (i + 1)
         else body_loop (appendEscape (if start < i then dst @ slice start i s else dst) c) s (i + 1) (i + 1))
      else if start < length s then dst @ drop start s
      else dst)"
  by pat_completeness auto
termination
  by (relation "measure (\<lambda>(dst, s, start, i). length s - i)") auto

declare body_loop.simps [simp del]

definition AppendStringBody :: "bytes \<Rightarrow> bytes \<Rightarrow> bytes" where
  "AppendStringBody dst s = body_loop dst s 0 0"

definition AppendStringBodyBytes :: "bytes \<Rightarrow> bytes \<Rightarrow> bytes" where
  "AppendStringBodyBytes dst s = body_loop dst s 0 0"

definition AppendString :: "bytes \<Rightarrow> bytes \<Rightarrow> bytes" where
  "AppendString dst s = AppendStringBody (dst @ [ch CHR ''\"'']) s @ [ch CHR ''\"'']"

definition AppendStringBytes :: "bytes \<Rightarrow> bytes \<Rightarrow> bytes" where
  "AppendStringBytes dst s = AppendStringBodyBytes (dst @ [ch CHR ''\"'']) s @ [ch CHR ''\"'']"

definition AppendKey :: "bytes \<Rightarrow> bytes \<Rightarrow> bytes" where
  "AppendKey dst k = AppendString dst k @ [ch CHR '':'']"

section \<open>escape_swar.go\<close>

definition swarOnes :: "64 word" where "swarOnes = 0x0101010101010101"
definition swarHigh :: "64 word" where "swarHigh = 0x8080808080808080"
definition swarQuote :: "64 word" where "swarQuote = 0x2222222222222222"
definition swarSlash :: "64 word" where "swarSlash = 0x5C5C5C5C5C5C5C5C"
definition swarCtrl :: "64 word" where "swarCtrl = 0x2020202020202020"

definition swarHasEscapable :: "64 word \<Rightarrow> 64 word" where
  "swarHasEscapable x =
     (let lowCtrl = (x - swarCtrl) AND NOT x AND swarHigh;
          quote = ((x XOR swarQuote) - swarOnes) AND NOT (x XOR swarQuote) AND swarHigh;
          slash = ((x XOR swarSlash) - swarOnes) AND NOT (x XOR swarSlash) AND swarHigh
      in lowCtrl OR quote OR slash)"

text \<open>\<open>binary.LittleEndian.Uint64\<close>.\<close>

fun le_get :: "bytes \<Rightarrow> int" where
  "le_get [] = 0"
| "le_get (b # bs) = uint b + 256 * le_get bs"

definition LittleEndian_Uint64 :: "bytes \<Rightarrow> 64 word" where
  "LittleEndian_Uint64 s = word_of_int (le_get (take 8 s))"

text \<open>The inner loops: skip safe eight-byte chunks, then safe bytes.\<close>

function swar_chunks :: "bytes \<Rightarrow> nat \<Rightarrow> nat" where
  "swar_chunks s i =
     (if i + 8 \<le> length s then
        (if swarHasEscapable (LittleEndian_Uint64 (drop i s)) \<noteq> 0 then i else swar_chunks s (i + 8))
      else i)"
  by pat_completeness auto
termination
  by (relation "measure (\<lambda>(s, i). length s - i)") auto

function swar_scan :: "bytes \<Rightarrow> nat \<Rightarrow> nat" where
  "swar_scan s i = (if i < length s then (if escapeFlag (s ! i) then i else swar_scan s (i + 1)) else i)"
  by pat_completeness auto
termination
  by (relation "measure (\<lambda>(s, i). length s - i)") auto

declare swar_chunks.simps [simp del] swar_scan.simps [simp del]

lemma swar_chunks_ge: "i \<le> swar_chunks s i"
  by (induction s i rule: swar_chunks.induct) (subst swar_chunks.simps, auto dest: add_leD1)

lemma swar_scan_ge: "i \<le> swar_scan s i"
  by (induction s i rule: swar_scan.induct) (subst swar_scan.simps, auto)

function swar_loop :: "bytes \<Rightarrow> bytes \<Rightarrow> nat \<Rightarrow> nat \<Rightarrow> bytes" where
  "swar_loop dst s start i =
     (if i < length s then
        (let i' = swar_scan s (swar_chunks s i);
             dst' = (if start < i' then dst @ slice start i' s else dst);
             start' = (if start < i' then i' else start) in
         if i' < length s then swar_loop (appendEscape dst' (s ! i')) s (i' + 1) (i' + 1)
         else swar_loop dst' s start' i')
      else dst)"
  by pat_completeness auto
termination
proof (relation "measure (\<lambda>(dst, s, start, i). length s - i)", goal_cases)
  case (2 dst s start i i' dst' start')
  then show ?case using swar_chunks_ge [of i s] swar_scan_ge [of "swar_chunks s i" s] by simp
next
  case (3 dst s start i i' dst' start')
  then show ?case by simp
qed simp

declare swar_loop.simps [simp del]

definition appendStringBodySWAR :: "bytes \<Rightarrow> bytes \<Rightarrow> bytes" where
  "appendStringBodySWAR dst s = swar_loop dst s 0 0"

definition swar_AppendStringBody :: "bytes \<Rightarrow> bytes \<Rightarrow> bytes" where
  "swar_AppendStringBody dst s = appendStringBodySWAR dst s"

definition swar_AppendStringBodyBytes :: "bytes \<Rightarrow> bytes \<Rightarrow> bytes" where
  "swar_AppendStringBodyBytes dst s = appendStringBodySWAR dst s"

section \<open>The reference escape\<close>

definition esc1 :: "byte \<Rightarrow> bytes" where
  "esc1 c = (if escapeFlag c then appendEscape [] c else [c])"

definition escape_ref :: "bytes \<Rightarrow> bytes" where
  "escape_ref s = concat (map esc1 s)"

lemma escape_ref_simps [simp]:
  "escape_ref [] = []"
  "escape_ref (c # s) = esc1 c @ escape_ref s"
  "escape_ref (s @ t) = escape_ref s @ escape_ref t"
  by (simp_all add: escape_ref_def)

lemma escape_ref_safe: "(\<And>c. c \<in> set s \<Longrightarrow> \<not> escapeFlag c) \<Longrightarrow> escape_ref s = s"
  by (induction s) (simp_all add: esc1_def)

lemma appendEscape_append: "appendEscape dst c = dst @ appendEscape [] c"
  by (simp add: appendEscape_def)

lemma body_loop_ref:
  "start \<le> i \<Longrightarrow> i \<le> length s \<Longrightarrow>
     body_loop dst s start i = dst @ slice start i s @ escape_ref (drop i s)"
proof (induction dst s start i rule: body_loop.induct)
  case (1 dst s start i)
  show ?case
  proof (cases "i < length s")
    case True
    then have d: "drop i s = s ! i # drop (Suc i) s" by (simp add: Cons_nth_drop_Suc)
    show ?thesis
    proof (cases "escapeFlag (s ! i)")
      case True
      with \<open>i < length s\<close> 1 d show ?thesis
        by (subst body_loop.simps)
          (simp add: Let_def esc1_def appendEscape_append [of "_ @ _"] appendEscape_append [of dst] slice_def)
    next
      case False
      with \<open>i < length s\<close> 1 d show ?thesis
        by (subst body_loop.simps) (simp add: Let_def esc1_def slice_Suc)
    qed
  next
    case False
    with 1 show ?thesis by (subst body_loop.simps) (auto simp: slice_def)
  qed
qed

lemma AppendStringBody_ref: "AppendStringBody dst s = dst @ escape_ref s"
  by (simp add: AppendStringBody_def body_loop_ref)

lemma AppendStringBodyBytes_ref: "AppendStringBodyBytes dst s = dst @ escape_ref s"
  by (simp add: AppendStringBodyBytes_def body_loop_ref)

section \<open>The SWAR predicate\<close>

fun rep :: "int \<Rightarrow> nat \<Rightarrow> int" where
  "rep n 0 = 0"
| "rep n (Suc k) = n + 256 * rep n k"

lemma rep_nonneg: "0 \<le> n \<Longrightarrow> 0 \<le> rep n k"
  by (induction k) simp_all

lemma le_get_nonneg: "0 \<le> le_get bs"
  by (induction bs) simp_all

lemma drop_bit_not_int: "drop_bit n (NOT (x :: int)) = NOT (drop_bit n x)"
  by (rule bit_eqI) (simp add: bit_simps)

lemma swar_less:
  assumes "0 < n" "n \<le> 128"
  shows "(le_get bs - rep n (length bs)) AND NOT (le_get bs) AND rep 128 (length bs) = 0 \<Longrightarrow>
    b \<in> set bs \<Longrightarrow> n \<le> uint b"
proof (induction bs)
  case (Cons c bs)
  let ?y = "le_get bs" and ?N = "rep n (length bs)" and ?H = "rep 128 (length bs)"
  let ?r = "(uint c + 256 * ?y - (n + 256 * ?N)) AND NOT (uint c + 256 * ?y) AND (128 + 256 * ?H)"
  have c: "0 \<le> uint c" "uint c < 256" using uint_lt2p [of c] by simp_all
  from Cons.prems have r: "?r = 0" by simp
  have le: "n \<le> uint c"
  proof (rule ccontr)
    assume "\<not> n \<le> uint c"
    then have "(uint c - n + 128) div 128 = 0" using assms c by (intro div_pos_pos_trivial) linarith+
    then have "((uint c - n + 128) + 128 * (2 * (?y - ?N - 1) + 1)) div 128 = 2 * (?y - ?N - 1) + 1"
      by (simp only: div_mult_self2)
    then have "(uint c + 256 * ?y - (n + 256 * ?N)) div 128 = 2 * (?y - ?N - 1) + 1"
      by (simp add: algebra_simps)
    moreover have "(uint c + 256 * ?y) div 128 = 2 * ?y"
    proof -
      have "uint c div 128 = 0" using \<open>\<not> n \<le> uint c\<close> assms c by (intro div_pos_pos_trivial) linarith+
      moreover have "(uint c + 128 * (2 * ?y)) div 128 = 2 * ?y + uint c div 128"
        by (simp only: div_mult_self2)
      ultimately show ?thesis by simp
    qed
    moreover have "(128 + 256 * ?H) div 128 = 1 + 2 * ?H" by simp
    ultimately have "bit (uint c + 256 * ?y - (n + 256 * ?N)) 7" "\<not> bit (uint c + 256 * ?y) 7"
      "bit (128 + 256 * ?H) 7"
      by (simp_all add: bit_iff_odd)
    then have "bit ?r 7" by (simp only: bit_and_iff bit_not_int_iff) simp
    with r show False by simp
  qed
  have "drop_bit 8 ?r = (?y - ?N) AND NOT ?y AND ?H"
  proof -
    have "drop_bit 8 (uint c + 256 * ?y - (n + 256 * ?N)) = ?y - ?N"
      "drop_bit 8 (uint c + 256 * ?y) = ?y" "drop_bit 8 (128 + 256 * ?H) = ?H"
      using le c assms by (simp_all add: drop_bit_eq_div)
    then show ?thesis by (simp only: drop_bit_and drop_bit_not_int)
  qed
  with r have "(?y - ?N) AND NOT ?y AND ?H = 0" by simp
  with Cons le show ?case by auto
qed simp


lemma concat8:
  assumes "0 \<le> a" "a < 256"
  shows "a + 256 * (y :: int) = concat_bit 8 a y"
  using assms by (simp add: concat_bit_eq take_bit_int_eq_self push_bit_eq_mult)

lemma le_get_xor:
  assumes "0 \<le> q" "q < 256"
  shows "le_get bs XOR rep q (length bs) = le_get (map (\<lambda>b. b XOR word_of_int q) bs)"
proof (induction bs)
  case (Cons b bs)
  let ?y = "le_get bs" and ?Q = "rep q (length bs)"
  have b: "0 \<le> uint b" "uint b < 256" using uint_lt2p [of b] by simp_all
  have u: "uint (b XOR word_of_int q) = uint b XOR q"
    using assms by (simp add: unsigned_xor_eq uint_word_of_int)
  have bx: "0 \<le> uint b XOR q" "uint b XOR q < 256"
    using uint_lt2p [of "b XOR word_of_int q"] by (simp_all add: u [symmetric])
  have "(uint b + 256 * ?y) XOR (q + 256 * ?Q) = (uint b XOR q) + 256 * (?y XOR ?Q)"
    unfolding concat8 [OF b] concat8 [OF assms] concat8 [OF bx]
    by (rule bit_eqI) (auto simp: bit_simps)
  with Cons u show ?case by simp
qed simp

lemma word_of_int_eq_0_int: "(word_of_int r :: 64 word) = 0 \<Longrightarrow> 0 \<le> r \<Longrightarrow> r < 2 ^ 64 \<Longrightarrow> r = 0"
  by (simp add: word_uint_eq_iff uint_word_of_int take_bit_int_eq_self)

lemma swar_less_word:
  assumes "0 < n" "n \<le> 128" "length bs = 8"
    and "(word_of_int (le_get bs) - word_of_int (rep n 8)) AND NOT (word_of_int (le_get bs)) AND
      (swarHigh :: 64 word) = 0"
    and "b \<in> set bs"
  shows "n \<le> uint b"
proof -
  let ?r = "(le_get bs - rep n 8) AND NOT (le_get bs) AND rep 128 8"
  have high: "swarHigh = word_of_int (rep 128 8)"
    by (simp add: swarHigh_def numeral_eq_Suc)
  have "(word_of_int ?r :: 64 word) = 0"
    using assms(4) by (simp add: high of_int_and_eq of_int_not_eq)
  moreover have "0 \<le> ?r" "?r < 2 ^ 64"
  proof -
    have h: "rep 128 8 = 0x8080808080808080" by (simp add: numeral_eq_Suc)
    show "0 \<le> ?r" by (simp add: h)
    have "?r \<le> rep 128 8" unfolding and.assoc [symmetric] by (rule AND_upper2) (simp add: h)
    then show "?r < 2 ^ 64" by (simp add: h)
  qed
  ultimately have "?r = 0" by (rule word_of_int_eq_0_int)
  with assms show ?thesis by (auto intro: swar_less [of n bs b])
qed


lemma swarHasEscapable_sound:
  assumes "length bs = 8" "swarHasEscapable (LittleEndian_Uint64 bs) = 0" "c \<in> set bs"
  shows "\<not> escapeFlag c"
proof -
  let ?x = "LittleEndian_Uint64 bs"
  have x: "?x = word_of_int (le_get bs)" using assms(1) by (simp add: LittleEndian_Uint64_def)
  have zero: "(?x - swarCtrl) AND NOT ?x AND swarHigh = 0"
    "((?x XOR swarQuote) - swarOnes) AND NOT (?x XOR swarQuote) AND swarHigh = 0"
    "((?x XOR swarSlash) - swarOnes) AND NOT (?x XOR swarSlash) AND swarHigh = 0"
    using assms(2) by (simp_all add: swarHasEscapable_def Let_def or_eq_0_iff)
  have reps: "swarCtrl = word_of_int (rep 32 8)" "swarOnes = word_of_int (rep 1 8)"
    "swarQuote = word_of_int (rep 34 8)" "swarSlash = word_of_int (rep 92 8)"
    by (simp_all add: swarCtrl_def swarOnes_def swarQuote_def swarSlash_def numeral_eq_Suc)
  have ctrl: "32 \<le> uint c"
    using zero(1) assms by (intro swar_less_word [of 32 bs c]) (simp_all add: x reps)
  have neq: "c \<noteq> word_of_int q"
    if that: "0 \<le> q" "q < 256" and
      z: "((?x XOR word_of_int (rep q 8)) - swarOnes) AND NOT (?x XOR word_of_int (rep q 8)) AND swarHigh = 0"
    for q
  proof -
    let ?m = "map (\<lambda>b. b XOR word_of_int q) bs"
    have m: "?x XOR word_of_int (rep q 8) = word_of_int (le_get ?m)"
      using le_get_xor [of q bs] that(1,2) assms(1) by (simp add: x of_int_xor_eq [symmetric])
    have "1 \<le> uint (c XOR word_of_int q)"
      using z assms(1,3) unfolding m reps(2)
      by (intro swar_less_word [of 1 ?m "c XOR word_of_int q"]) auto
    then show ?thesis by auto
  qed
  have "c \<noteq> 34" "c \<noteq> 92"
    using neq [of 34] neq [of 92] zero(2,3) by (simp_all add: reps)
  with ctrl show ?thesis by (simp add: escapeFlag_def word_less_def)
qed

section \<open>The SWAR loop is the scalar loop\<close>

lemma swar_scan_spec:
  "i \<le> length s \<Longrightarrow> swar_scan s i \<le> length s \<and>
     escape_ref (slice i (swar_scan s i) s) = slice i (swar_scan s i) s \<and>
     (swar_scan s i < length s \<longrightarrow> escapeFlag (s ! swar_scan s i))"
proof (induction s i rule: swar_scan.induct)
  case (1 s i)
  show ?case
  proof (cases "i < length s \<and> \<not> escapeFlag (s ! i)")
    case True
    have "slice i (swar_scan s (i + 1)) s = s ! i # slice (i + 1) (swar_scan s (i + 1)) s"
      using True swar_scan_ge [of "i + 1" s] slice_append [of i "i + 1" "swar_scan s (i + 1)" s] slice_Suc [of i i s]
      by simp
    with True 1 show ?thesis by (subst (1 2 3 4 5) swar_scan.simps) (simp add: esc1_def)
  next
    case False
    with 1 show ?thesis by (subst (1 2 3 4 5) swar_scan.simps) auto
  qed
qed

lemma swar_chunks_spec:
  "i \<le> length s \<Longrightarrow> swar_chunks s i \<le> length s \<and>
     escape_ref (slice i (swar_chunks s i) s) = slice i (swar_chunks s i) s"
proof (induction s i rule: swar_chunks.induct)
  case (1 s i)
  show ?case
  proof (cases "i + 8 \<le> length s \<and> swarHasEscapable (LittleEndian_Uint64 (drop i s)) = 0")
    case True
    have "LittleEndian_Uint64 (drop i s) = LittleEndian_Uint64 (slice i (i + 8) s)"
      by (simp add: LittleEndian_Uint64_def slice_def)
    then have "escape_ref (slice i (i + 8) s) = slice i (i + 8) s"
      using True by (intro escape_ref_safe swarHasEscapable_sound [of "slice i (i + 8) s"]) (auto simp: slice_def)
    moreover have "slice i (swar_chunks s (i + 8)) s = slice i (i + 8) s @ slice (i + 8) (swar_chunks s (i + 8)) s"
      using swar_chunks_ge [of "i + 8" s] by (simp add: slice_append)
    ultimately show ?thesis
      using True 1 by (subst (1 2 3) swar_chunks.simps) simp
  next
    case False
    with 1 show ?thesis by (subst (1 2 3) swar_chunks.simps) auto
  qed
qed

lemma swar_loop_ref: "i \<le> length s \<Longrightarrow> swar_loop dst s i i = dst @ escape_ref (drop i s)"
proof (induction "length s - i" arbitrary: dst i rule: less_induct)
  case less
  show ?case
  proof (cases "i < length s")
    case True
    define j where "j = swar_chunks s i"
    define k where "k = swar_scan s j"
    have j: "i \<le> j" "j \<le> length s" "escape_ref (slice i j s) = slice i j s"
      using swar_chunks_ge [of i s] swar_chunks_spec [of i s] less.prems by (simp_all add: j_def)
    have k: "j \<le> k" "k \<le> length s" "escape_ref (slice j k s) = slice j k s"
      "k < length s \<longrightarrow> escapeFlag (s ! k)"
      using swar_scan_ge [of j s] swar_scan_spec [of j s] j by (simp_all add: k_def)
    have safe: "escape_ref (slice i k s) = slice i k s"
      using j k slice_append [of i j k s] by (metis escape_ref_simps(3))
    have d: "drop i s = slice i k s @ drop k s"
      using j k slice_append [of i k "length s" s] by simp
    have dst: "(if i < k then dst @ slice i k s else dst) = dst @ slice i k s"
      using j k by (cases "i = k") auto
    have step: "swar_loop dst s i i =
        (if k < length s then swar_loop (appendEscape (dst @ slice i k s) (s ! k)) s (k + 1) (k + 1)
         else swar_loop (dst @ slice i k s) s k k)"
      using True j k dst
      by (subst swar_loop.simps) (auto simp: Let_def j_def [symmetric] k_def [symmetric])
    show ?thesis
    proof (cases "k < length s")
      case True
      then have "drop k s = s ! k # drop (Suc k) s" by (simp add: Cons_nth_drop_Suc)
      moreover have "swar_loop (appendEscape (dst @ slice i k s) (s ! k)) s (k + 1) (k + 1) =
          appendEscape (dst @ slice i k s) (s ! k) @ escape_ref (drop (k + 1) s)"
        using True j k by (intro less.hyps) auto
      moreover have "appendEscape (dst @ slice i k s) (s ! k) = dst @ slice i k s @ esc1 (s ! k)"
        using k True by (subst appendEscape_append) (simp add: esc1_def)
      ultimately show ?thesis using True by (simp add: step d safe)
    next
      case False
      moreover have "swar_loop (dst @ slice i k s) s k k = dst @ slice i k s"
        using False by (subst swar_loop.simps) simp
      ultimately show ?thesis using k(2) safe unfolding step d by simp
    qed
  next
    case False
    with less.prems show ?thesis by (subst swar_loop.simps) simp
  qed
qed

lemma appendStringBodySWAR_ref: "appendStringBodySWAR dst s = dst @ escape_ref s"
  by (simp add: appendStringBodySWAR_def swar_loop_ref)


section \<open>Escaped text reads back\<close>

lemma hex_val_hex_digit: "unat n < 16 \<Longrightarrow> hex_val (hex_digit n) = Some (uint n)"
proof -
  assume n: "unat n < 16"
  have "list_all (\<lambda>k. hex_val (asc ''0123456789abcdef'' ! k) = Some (int k)) [0..<16]" by code_simp
  with n have "hex_val (asc ''0123456789abcdef'' ! unat n) = Some (int (unat n))"
    by (auto simp: list_all_iff)
  then show ?thesis by (simp add: hex_digit_def)
qed

lemma is_hex_hex_byte: "list_all is_hex (hex_byte b)"
  using nibble_bounds [of b] by (simp add: hex_byte_def is_hex_def hex_val_hex_digit)

lemma hex_plain: "is_hex c \<Longrightarrow> plain_char c"
  by (auto simp: is_hex_def hex_val_def plain_char_def word_le_def split: if_splits)

lemma hex_byte_plain: "list_all plain_char (hex_byte b)"
  using is_hex_hex_byte [of b] by (auto simp: list_all_iff hex_plain)

lemma unescape_esc1: "unescape (esc1 c @ t) = map_option ((#) c) (unescape t)"
proof (cases "escapeFlag c")
  case False
  then have "plain_char c" by (simp add: plain_char_def escapeFlag_def not_less)
  with False show ?thesis by (simp add: esc1_def)
next
  case True
  consider "c \<in> {34, 92, 10, 13, 9, 8, 12}" | "c < 32" "c \<notin> {34, 92, 10, 13, 9, 8, 12}"
    using True by (auto simp: escapeFlag_def)
  then show ?thesis
  proof cases
    case 1
    then show ?thesis
      by (auto simp: esc1_def escapeFlag_def appendEscape_def unescape_simple simple_escape_def)
  next
    case 2
    have h: "hex_val (hex_digit (drop_bit 4 c)) = Some (uint (drop_bit 4 c))"
      "hex_val (hex_digit (c AND 15)) = Some (uint (c AND 15))"
      using nibble_bounds [of c] by (simp_all add: hex_val_hex_digit)
    have z: "hex_val 48 = Some 0" by (simp add: hex_val_def)
    have j: "uint (drop_bit 4 c) * 16 + uint (c AND 15) = uint c" by (rule nibble_join)
    have "uint c < 128" using 2(1) by (simp add: word_less_def)
    moreover have "esc1 c = 92 # 117 # 48 # 48 # hex_byte c"
      using 2 True by (simp add: esc1_def appendEscape_def)
    ultimately show ?thesis
      by (simp add: hex_byte_def unescape.simps(2) [of 92] h z j)
  qed
qed

lemma unescape_escape_ref: "unescape (escape_ref s) = Some s"
  by (induction s) (simp_all add: unescape_esc1)

lemma json_chars_escape_ref: "json_chars (escape_ref s)"
  using unescape_escape_ref by (rule unescape_json_chars)

lemma AppendString_eq: "AppendString dst s = dst @ 34 # escape_ref s @ [34]"
  by (simp add: AppendString_def AppendStringBody_ref)

lemma AppendStringBytes_eq: "AppendStringBytes dst s = dst @ 34 # escape_ref s @ [34]"
  by (simp add: AppendStringBytes_def AppendStringBodyBytes_ref)

lemma AppendKey_eq: "AppendKey dst k = dst @ 34 # escape_ref k @ [34, 58]"
  by (simp add: AppendKey_def AppendString_eq)

lemma json_string_escape_ref [json_intros]: "json_string (34 # escape_ref s @ [34])"
  by (intro json_intros json_chars_escape_ref)

lemmas writer_eqs = AppendString_eq AppendStringBytes_eq AppendKey_eq AppendNull_def AppendBool_def

section \<open>Properties\<close>

text \<open>C21. The experimental SWAR build and the default scalar build of the escaper produce the
  same bytes for every destination and every input: the eight-byte test never skips over a
  byte that needs an escape, also when its subtraction borrows across bytes.\<close>

theorem swar_escaper_equivalent:
  "swar_AppendStringBody dst s = AppendStringBody dst s \<and>
   swar_AppendStringBodyBytes dst s = AppendStringBodyBytes dst s"
  by (simp add: swar_AppendStringBody_def swar_AppendStringBodyBytes_def
      appendStringBodySWAR_ref AppendStringBody_ref AppendStringBodyBytes_ref)

text \<open>C22. \<open>AppendString\<close> extends the destination by a quoted JSON string, and unescaping that
  string gives back exactly the input bytes; \<open>AppendStringBytes\<close> does the same.\<close>

theorem AppendString_roundtrip:
  "\<exists>body. AppendString dst s = dst @ 34 # body @ [34] \<and> AppendStringBytes dst s = dst @ 34 # body @ [34] \<and>
     json_chars body \<and> unescape body = Some s"
  by (auto simp: AppendString_eq AppendStringBytes_eq json_chars_escape_ref unescape_escape_ref)

end
