(* ===== verification/Protocol.thy ===== *)
theory Protocol
  imports Prelude
begin

text \<open>
  \<^verbatim>\<open>internal/protocol\<close>: the message type bytes, authentication sub-codes and type OIDs of
  the PostgreSQL v3 protocol, and the two dispatch helpers \<open>IsRange\<close> and \<open>ArrayElem\<close>.
  The constants are abbreviations, so the message loops of the client match on the bytes
  themselves.  An OID is a Go \<open>uint32\<close>.
\<close>

section \<open>Message type bytes (messages.go)\<close>

abbreviation (input) MsgAuthentication :: byte where
  "MsgAuthentication \<equiv> ch CHR ''R''"

abbreviation (input) MsgBackendKeyData :: byte where
  "MsgBackendKeyData \<equiv> ch CHR ''K''"

abbreviation (input) MsgBindComplete :: byte where
  "MsgBindComplete \<equiv> ch CHR ''2''"

abbreviation (input) MsgCloseComplete :: byte where
  "MsgCloseComplete \<equiv> ch CHR ''3''"

abbreviation (input) MsgCommandComplete :: byte where
  "MsgCommandComplete \<equiv> ch CHR ''C''"

abbreviation (input) MsgDataRow :: byte where
  "MsgDataRow \<equiv> ch CHR ''D''"

abbreviation (input) MsgEmptyQueryResponse :: byte where
  "MsgEmptyQueryResponse \<equiv> ch CHR ''I''"

abbreviation (input) MsgErrorResponse :: byte where
  "MsgErrorResponse \<equiv> ch CHR ''E''"

abbreviation (input) MsgNoData :: byte where
  "MsgNoData \<equiv> ch CHR ''n''"

abbreviation (input) MsgNoticeResponse :: byte where
  "MsgNoticeResponse \<equiv> ch CHR ''N''"

abbreviation (input) MsgNotificationResponse :: byte where
  "MsgNotificationResponse \<equiv> ch CHR ''A''"

abbreviation (input) MsgParameterDescription :: byte where
  "MsgParameterDescription \<equiv> ch CHR ''t''"

abbreviation (input) MsgParameterStatus :: byte where
  "MsgParameterStatus \<equiv> ch CHR ''S''"

abbreviation (input) MsgParseComplete :: byte where
  "MsgParseComplete \<equiv> ch CHR ''1''"

abbreviation (input) MsgPortalSuspended :: byte where
  "MsgPortalSuspended \<equiv> ch CHR ''s''"

abbreviation (input) MsgReadyForQuery :: byte where
  "MsgReadyForQuery \<equiv> ch CHR ''Z''"

abbreviation (input) MsgRowDescription :: byte where
  "MsgRowDescription \<equiv> ch CHR ''T''"

abbreviation (input) MsgNegotiateProtocol :: byte where
  "MsgNegotiateProtocol \<equiv> ch CHR ''v''"

abbreviation (input) MsgCopyInResponse :: byte where
  "MsgCopyInResponse \<equiv> ch CHR ''G''"

abbreviation (input) MsgCopyOutResponse :: byte where
  "MsgCopyOutResponse \<equiv> ch CHR ''H''"

abbreviation (input) MsgCopyBothResponse :: byte where
  "MsgCopyBothResponse \<equiv> ch CHR ''W''"

abbreviation (input) MsgBind :: byte where
  "MsgBind \<equiv> ch CHR ''B''"

abbreviation (input) MsgClose :: byte where
  "MsgClose \<equiv> ch CHR ''C''"

abbreviation (input) MsgDescribe :: byte where
  "MsgDescribe \<equiv> ch CHR ''D''"

abbreviation (input) MsgExecute :: byte where
  "MsgExecute \<equiv> ch CHR ''E''"

abbreviation (input) MsgFlush :: byte where
  "MsgFlush \<equiv> ch CHR ''H''"

abbreviation (input) MsgParse :: byte where
  "MsgParse \<equiv> ch CHR ''P''"

abbreviation (input) MsgQuery :: byte where
  "MsgQuery \<equiv> ch CHR ''Q''"

abbreviation (input) MsgSync :: byte where
  "MsgSync \<equiv> ch CHR ''S''"

abbreviation (input) MsgTerm :: byte where
  "MsgTerm \<equiv> ch CHR ''X''"

abbreviation (input) MsgPassword :: byte where
  "MsgPassword \<equiv> ch CHR ''p''"

abbreviation (input) MsgCopyData :: byte where
  "MsgCopyData \<equiv> ch CHR ''d''"

abbreviation (input) MsgCopyDone :: byte where
  "MsgCopyDone \<equiv> ch CHR ''c''"

abbreviation (input) MsgCopyFail :: byte where
  "MsgCopyFail \<equiv> ch CHR ''f''"

abbreviation (input) AuthOK :: int where
  "AuthOK \<equiv> 0"

abbreviation (input) AuthCleartextPassword :: int where
  "AuthCleartextPassword \<equiv> 3"

abbreviation (input) AuthMD5Password :: int where
  "AuthMD5Password \<equiv> 5"

abbreviation (input) AuthSASL :: int where
  "AuthSASL \<equiv> 10"

abbreviation (input) AuthSASLContinue :: int where
  "AuthSASLContinue \<equiv> 11"

abbreviation (input) AuthSASLFinal :: int where
  "AuthSASLFinal \<equiv> 12"

abbreviation (input) ProtocolVersion3 :: int where
  "ProtocolVersion3 \<equiv> 196608"

section \<open>Type OIDs (oid.go)\<close>

type_synonym OID = "32 word"

abbreviation (input) OIDBool :: OID where
  "OIDBool \<equiv> 16"

abbreviation (input) OIDBytea :: OID where
  "OIDBytea \<equiv> 17"

abbreviation (input) OIDName :: OID where
  "OIDName \<equiv> 19"

abbreviation (input) OIDInt8 :: OID where
  "OIDInt8 \<equiv> 20"

abbreviation (input) OIDInt2 :: OID where
  "OIDInt2 \<equiv> 21"

abbreviation (input) OIDInt4 :: OID where
  "OIDInt4 \<equiv> 23"

abbreviation (input) OIDText :: OID where
  "OIDText \<equiv> 25"

abbreviation (input) OIDOID :: OID where
  "OIDOID \<equiv> 26"

abbreviation (input) OIDJSON :: OID where
  "OIDJSON \<equiv> 114"

abbreviation (input) OIDFloat4 :: OID where
  "OIDFloat4 \<equiv> 700"

abbreviation (input) OIDFloat8 :: OID where
  "OIDFloat8 \<equiv> 701"

abbreviation (input) OIDBPChar :: OID where
  "OIDBPChar \<equiv> 1042"

abbreviation (input) OIDVarchar :: OID where
  "OIDVarchar \<equiv> 1043"

abbreviation (input) OIDDate :: OID where
  "OIDDate \<equiv> 1082"

abbreviation (input) OIDTime :: OID where
  "OIDTime \<equiv> 1083"

abbreviation (input) OIDTimestamp :: OID where
  "OIDTimestamp \<equiv> 1114"

abbreviation (input) OIDTimestampTZ :: OID where
  "OIDTimestampTZ \<equiv> 1184"

abbreviation (input) OIDInterval :: OID where
  "OIDInterval \<equiv> 1186"

abbreviation (input) OIDTimeTZ :: OID where
  "OIDTimeTZ \<equiv> 1266"

abbreviation (input) OIDNumeric :: OID where
  "OIDNumeric \<equiv> 1700"

abbreviation (input) OIDUUID :: OID where
  "OIDUUID \<equiv> 2950"

abbreviation (input) OIDJSONB :: OID where
  "OIDJSONB \<equiv> 3802"

abbreviation (input) OIDBoolArray :: OID where
  "OIDBoolArray \<equiv> 1000"

abbreviation (input) OIDInt2Array :: OID where
  "OIDInt2Array \<equiv> 1005"

abbreviation (input) OIDInt4Array :: OID where
  "OIDInt4Array \<equiv> 1007"

abbreviation (input) OIDTextArray :: OID where
  "OIDTextArray \<equiv> 1009"

abbreviation (input) OIDBPCharArray :: OID where
  "OIDBPCharArray \<equiv> 1014"

abbreviation (input) OIDVarcharArray :: OID where
  "OIDVarcharArray \<equiv> 1015"

abbreviation (input) OIDInt8Array :: OID where
  "OIDInt8Array \<equiv> 1016"

abbreviation (input) OIDFloat4Array :: OID where
  "OIDFloat4Array \<equiv> 1021"

abbreviation (input) OIDFloat8Array :: OID where
  "OIDFloat8Array \<equiv> 1022"

abbreviation (input) OIDOIDArray :: OID where
  "OIDOIDArray \<equiv> 1028"

abbreviation (input) OIDByteaArray :: OID where
  "OIDByteaArray \<equiv> 1001"

abbreviation (input) OIDDateArray :: OID where
  "OIDDateArray \<equiv> 1182"

abbreviation (input) OIDTimestampArray :: OID where
  "OIDTimestampArray \<equiv> 1115"

abbreviation (input) OIDTimestampTZArray :: OID where
  "OIDTimestampTZArray \<equiv> 1185"

abbreviation (input) OIDUUIDArray :: OID where
  "OIDUUIDArray \<equiv> 2951"

abbreviation (input) OIDJSONArray :: OID where
  "OIDJSONArray \<equiv> 199"

abbreviation (input) OIDJSONBArray :: OID where
  "OIDJSONBArray \<equiv> 3807"

abbreviation (input) OIDNumericArray :: OID where
  "OIDNumericArray \<equiv> 1231"

abbreviation (input) OIDInt4Range :: OID where
  "OIDInt4Range \<equiv> 3904"

abbreviation (input) OIDNumRange :: OID where
  "OIDNumRange \<equiv> 3906"

abbreviation (input) OIDTsRange :: OID where
  "OIDTsRange \<equiv> 3908"

abbreviation (input) OIDTsTzRange :: OID where
  "OIDTsTzRange \<equiv> 3910"

abbreviation (input) OIDDateRange :: OID where
  "OIDDateRange \<equiv> 3912"

abbreviation (input) OIDInt8Range :: OID where
  "OIDInt8Range \<equiv> 3926"

definition IsRange :: "OID \<Rightarrow> bool" where
  "IsRange o1 \<longleftrightarrow> o1 \<in> {OIDInt4Range, OIDInt8Range, OIDNumRange, OIDTsRange, OIDTsTzRange, OIDDateRange}"

definition ArrayElem :: "OID \<Rightarrow> OID" where
  "ArrayElem o1 =
     (if o1 = OIDBoolArray then OIDBool
      else if o1 = OIDInt2Array then OIDInt2
      else if o1 = OIDInt4Array then OIDInt4
      else if o1 = OIDInt8Array then OIDInt8
      else if o1 = OIDFloat4Array then OIDFloat4
      else if o1 = OIDFloat8Array then OIDFloat8
      else if o1 = OIDTextArray then OIDText
      else if o1 = OIDVarcharArray then OIDVarchar
      else if o1 = OIDBPCharArray then OIDBPChar
      else if o1 = OIDUUIDArray then OIDUUID
      else if o1 = OIDJSONArray then OIDJSON
      else if o1 = OIDJSONBArray then OIDJSONB
      else if o1 = OIDTimestampArray then OIDTimestamp
      else if o1 = OIDTimestampTZArray then OIDTimestampTZ
      else if o1 = OIDDateArray then OIDDate
      else if o1 = OIDOIDArray then OIDOID
      else if o1 = OIDByteaArray then OIDBytea
      else if o1 = OIDNumericArray then OIDNumeric
      else 0)"

text \<open>
  Element types are scalars: no element OID is itself an array OID.  The binary encoder
  dispatch recurses on the element type, so this is what bounds its depth at one.
\<close>

lemma ArrayElem_ArrayElem: "ArrayElem (ArrayElem o1) = 0"
  by (simp add: ArrayElem_def)

lemma ArrayElem_not_range: "\<not> IsRange (ArrayElem o1)"
  by (simp add: ArrayElem_def IsRange_def)

end
