(* ===== verification/TextTypes.thy ===== *)
theory TextTypes
  imports JsonWriter Protocol
begin

text \<open>
  \<^verbatim>\<open>internal/types\<close>, text format: \<^verbatim>\<open>encoder.go\<close>, \<^verbatim>\<open>numeric.go\<close>, \<^verbatim>\<open>bytea.go\<close>,
  \<^verbatim>\<open>uuid.go\<close> and \<^verbatim>\<open>jsonpass.go\<close>.  An encoder maps a destination and a cell (\<open>None\<close> for SQL
  NULL) to the extended destination.  The locale \<open>json_encoder\<close> is the contract the row
  writer relies on; it is interpreted for every encoder, each with the cell texts for
  which the encoder promises a JSON value.
\<close>

type_synonym Encoder = "bytes \<Rightarrow> bytes option \<Rightarrow> bytes"

section \<open>The encoder contract\<close>

locale json_encoder =
  fixes enc :: Encoder and ok :: "bytes \<Rightarrow> bool"
  assumes appends: "enc dst raw = dst @ enc [] raw"
    and null: "enc [] None = asc ''null''"
    and nonnull: "ok r \<Longrightarrow> json_value (enc [] (Some r))"
begin

lemma null_append: "enc dst None = dst @ asc ''null''"
  by (subst appends) (simp add: null)

lemma cell: "(\<And>r. raw = Some r \<Longrightarrow> ok r) \<Longrightarrow> json_value (enc [] raw)"
  by (cases raw) (auto simp: null intro: json_intros nonnull)

lemma prefix: "\<exists>v. enc dst raw = dst @ v"
  by (subst appends) blast

lemma weaken: "(\<And>r. ok' r \<Longrightarrow> ok r) \<Longrightarrow> json_encoder enc ok'"
  by unfold_locales (auto intro: appends null nonnull)

lemma encodes:
  "ok r \<Longrightarrow> (\<exists>v. enc dst (Some r) = dst @ v \<and> json_value v) \<and> enc dst None = dst @ asc ''null''"
  using appends [of dst "Some r"] null_append nonnull by blast

end

section \<open>numeric.go\<close>

definition EncodeBool :: Encoder where
  "EncodeBool dst raw =
     (case raw of None \<Rightarrow> AppendNull dst
      | Some r \<Rightarrow> if length r = 1 \<and> r ! 0 = ch CHR ''t'' then AppendBool dst True else AppendBool dst False)"

definition validInt :: "bytes \<Rightarrow> bool" where
  "validInt b =
     (case b of [] \<Rightarrow> False
      | c # b' \<Rightarrow>
          if c = ch CHR ''-'' \<or> c = ch CHR ''+'' then b' \<noteq> [] \<and> list_all is_digit b'
          else list_all is_digit b)"

definition EncodeInt :: Encoder where
  "EncodeInt dst raw =
     (case raw of None \<Rightarrow> AppendNull dst
      | Some r \<Rightarrow> if \<not> validInt r then AppendStringBytes dst r else dst @ r)"

definition isNonFiniteFloat :: "bytes \<Rightarrow> bool" where
  "isNonFiniteFloat b =
     (if length b = 3 then b ! 0 = ch CHR ''N'' \<and> b ! 1 = ch CHR ''a'' \<and> b ! 2 = ch CHR ''N''
      else if length b = 8 then b ! 0 = ch CHR ''I'' \<or> (b ! 0 = ch CHR ''-'' \<and> b ! 1 = ch CHR ''I'')
      else if length b = 9 then b ! 0 = ch CHR ''-'' \<and> b ! 1 = ch CHR ''I''
      else False)"

text \<open>The scan of \<open>validFloat\<close>, over what is left of the input, with its two flags.\<close>

fun validFloat_loop :: "bytes \<Rightarrow> bool \<Rightarrow> bool \<Rightarrow> bool" where
  "validFloat_loop [] sawDigit sawDot = sawDigit"
| "validFloat_loop (c # b) sawDigit sawDot =
     (if is_digit c then validFloat_loop b True sawDot
      else if c = ch CHR ''.'' \<and> \<not> sawDot then validFloat_loop b sawDigit True
      else if (c = ch CHR ''e'' \<or> c = ch CHR ''E'') \<and> sawDigit \<and> b \<noteq> [] then
        (let b' = (if hd b = ch CHR ''+'' \<or> hd b = ch CHR ''-'' then tl b else b)
         in b' \<noteq> [] \<and> list_all is_digit b')
      else False)"

definition validFloat :: "bytes \<Rightarrow> bool" where
  "validFloat b =
     (case b of [] \<Rightarrow> False
      | c # b' \<Rightarrow> validFloat_loop (if c = ch CHR ''-'' \<or> c = ch CHR ''+'' then b' else b) False False)"

definition EncodeFloat :: Encoder where
  "EncodeFloat dst raw =
     (case raw of None \<Rightarrow> AppendNull dst
      | Some r \<Rightarrow> if isNonFiniteFloat r then AppendStringBytes dst r
                  else if \<not> validFloat r then AppendStringBytes dst r
                  else dst @ r)"

definition EncodeNumeric :: Encoder where
  "EncodeNumeric dst raw =
     (case raw of None \<Rightarrow> AppendNull dst
      | Some r \<Rightarrow> if length r = 3 \<and> r ! 0 = ch CHR ''N'' \<and> r ! 1 = ch CHR ''a'' \<and> r ! 2 = ch CHR ''N''
                  then AppendStringBytes dst r
                  else if \<not> validFloat r then AppendStringBytes dst r
                  else dst @ r)"

section \<open>jsonpass.go, bytea.go, uuid.go\<close>

definition EncodeJSONPassthrough :: Encoder where
  "EncodeJSONPassthrough dst raw =
     (case raw of None \<Rightarrow> AppendNull dst
      | Some r \<Rightarrow> if length r = 0 then dst @ [ch CHR ''\"'', ch CHR ''\"''] else dst @ r)"

definition EncodeBytea :: Encoder where
  "EncodeBytea dst raw =
     (case raw of None \<Rightarrow> AppendNull dst
      | Some r \<Rightarrow> if length r \<ge> 2 \<and> r ! 0 = 92 \<and> r ! 1 = ch CHR ''x''
                  then dst @ [ch CHR ''\"'', 92, 92, ch CHR ''x''] @ drop 2 r @ [ch CHR ''\"'']
                  else AppendStringBytes dst r)"

definition EncodeUUID :: Encoder where
  "EncodeUUID dst raw =
     (case raw of None \<Rightarrow> AppendNull dst
      | Some r \<Rightarrow> if length r \<noteq> 36 then AppendStringBytes dst r
                  else dst @ [ch CHR ''\"''] @ r @ [ch CHR ''\"''])"

section \<open>encoder.go\<close>

definition EncodeString :: Encoder where
  "EncodeString dst raw = (case raw of None \<Rightarrow> AppendNull dst | Some r \<Rightarrow> AppendStringBytes dst r)"

definition EncodeOpaqueBinary :: Encoder where
  "EncodeOpaqueBinary dst raw =
     (case raw of None \<Rightarrow> AppendNull dst
      | Some r \<Rightarrow> dst @ [ch CHR ''\"'', 92, 92, ch CHR ''x''] @ concat (map hex_byte r) @ [ch CHR ''\"''])"

definition EncodeQuotedASCII :: Encoder where
  "EncodeQuotedASCII dst raw =
     (case raw of None \<Rightarrow> AppendNull dst
      | Some r \<Rightarrow> if \<exists>c \<in> set r. c < 0x20 \<or> c = ch CHR ''\"'' \<or> c = 92 then AppendStringBytes dst r
                  else dst @ [ch CHR ''\"''] @ r @ [ch CHR ''\"''])"

definition Pick :: "OID \<Rightarrow> Encoder" where
  "Pick oid =
     (if oid = OIDBool then EncodeBool
      else if oid \<in> {OIDInt2, OIDInt4, OIDInt8, OIDOID} then EncodeInt
      else if oid \<in> {OIDFloat4, OIDFloat8} then EncodeFloat
      else if oid = OIDNumeric then EncodeNumeric
      else if oid \<in> {OIDJSON, OIDJSONB} then EncodeJSONPassthrough
      else if oid = OIDBytea then EncodeBytea
      else if oid = OIDUUID then EncodeUUID
      else if oid \<in> {OIDDate, OIDTime, OIDTimeTZ, OIDTimestamp, OIDTimestampTZ, OIDInterval} then EncodeQuotedASCII
      else if oid \<in> {OIDText, OIDVarchar, OIDBPChar, OIDName} then EncodeString
      else EncodeString)"

section \<open>The encoders meet the contract\<close>

lemma json_string_plain: "list_all plain_char s \<Longrightarrow> json_string (34 # s @ [34])"
  by (intro json_intros json_chars_all_plain)

lemma json_value_escaped: "json_value (34 # escape_ref s @ [34])"
  by (intro json_intros)

lemma json_value_empty_string: "json_value [34, 34]"
  using json_string_plain [of "[]"] by (auto intro: json_intros)

lemma json_value_bytea: "list_all plain_char s \<Longrightarrow> json_value (34 # 92 # 92 # 120 # s @ [34])"
proof -
  assume s: "list_all plain_char s"
  have "json_chars (92 # 92 # 120 # s)"
    using s by (simp add: json_chars.simps(2) [of 92] simple_escape_def json_chars_all_plain)
      (simp add: json_chars.simps(2) plain_char_def json_chars_all_plain)
  then have "json_string (34 # (92 # 92 # 120 # s) @ [34])" by (rule json_stringI)
  then show ?thesis by (auto intro: json_intros)
qed

lemma hex_plain_concat: "list_all plain_char (concat (map hex_byte s))"
  by (induction s) (simp_all add: hex_byte_plain)

lemmas encoder_defs = EncodeBool_def EncodeInt_def EncodeFloat_def EncodeNumeric_def EncodeJSONPassthrough_def
  EncodeBytea_def EncodeUUID_def EncodeString_def EncodeOpaqueBinary_def EncodeQuotedASCII_def

lemmas encoder_intros = json_value_escaped json_value_empty_string json_value_bytea hex_plain_concat
  json_null json_true json_false json_num

interpretation enc_bool: json_encoder EncodeBool "\<lambda>_. True"
  by unfold_locales (auto simp: EncodeBool_def writer_eqs intro: encoder_intros split: option.splits)

interpretation enc_int: json_encoder EncodeInt "\<lambda>r. validInt r \<longrightarrow> json_number r"
  by unfold_locales (auto simp: EncodeInt_def writer_eqs intro: encoder_intros split: option.splits)

interpretation enc_float: json_encoder EncodeFloat "\<lambda>r. validFloat r \<longrightarrow> json_number r"
  by unfold_locales (auto simp: EncodeFloat_def writer_eqs intro: encoder_intros split: option.splits)

interpretation enc_numeric: json_encoder EncodeNumeric "\<lambda>r. validFloat r \<longrightarrow> json_number r"
  by unfold_locales (auto simp: EncodeNumeric_def writer_eqs intro: encoder_intros split: option.splits)

interpretation enc_json: json_encoder EncodeJSONPassthrough "\<lambda>r. r = [] \<or> json_value r"
  by unfold_locales (auto simp: EncodeJSONPassthrough_def writer_eqs intro: encoder_intros split: option.splits)

interpretation enc_bytea: json_encoder EncodeBytea
  "\<lambda>r. take 2 r = [92, ch CHR ''x''] \<longrightarrow> list_all plain_char (drop 2 r)"
proof unfold_locales
  fix r :: bytes
  assume ok: "take 2 r = [92, ch CHR ''x''] \<longrightarrow> list_all plain_char (drop 2 r)"
  show "json_value (EncodeBytea [] (Some r))"
  proof (cases "length r \<ge> 2 \<and> r ! 0 = 92 \<and> r ! 1 = ch CHR ''x''")
    case True
    then have "take 2 r = [92, ch CHR ''x'']" by (cases r; cases "tl r"; auto)
    with True ok show ?thesis by (simp add: EncodeBytea_def json_value_bytea)
  next
    case False
    then have "EncodeBytea [] (Some r) = AppendStringBytes [] r" by (auto simp: EncodeBytea_def)
    then show ?thesis by (simp add: writer_eqs json_value_escaped)
  qed
qed (auto simp: EncodeBytea_def writer_eqs split: option.splits)

interpretation enc_uuid: json_encoder EncodeUUID "\<lambda>r. length r = 36 \<longrightarrow> list_all plain_char r"
  by unfold_locales
    (auto simp: EncodeUUID_def writer_eqs json_string_plain intro: encoder_intros json_str split: option.splits)

interpretation enc_string: json_encoder EncodeString "\<lambda>_. True"
  by unfold_locales (auto simp: EncodeString_def writer_eqs intro: encoder_intros split: option.splits)

interpretation enc_opaque: json_encoder EncodeOpaqueBinary "\<lambda>_. True"
  by unfold_locales (auto simp: EncodeOpaqueBinary_def writer_eqs intro: encoder_intros split: option.splits)

interpretation enc_quoted: json_encoder EncodeQuotedASCII "\<lambda>_. True"
proof unfold_locales
  fix r :: bytes
  have "list_all plain_char r" if "\<not> (\<exists>c \<in> set r. c < 0x20 \<or> c = ch CHR ''\"'' \<or> c = 92)"
    using that by (auto simp: list_all_iff plain_char_def not_less)
  then show "json_value (EncodeQuotedASCII [] (Some r))"
    by (auto simp: EncodeQuotedASCII_def writer_eqs intro: encoder_intros json_str json_string_plain)
qed (auto simp: EncodeQuotedASCII_def writer_eqs split: option.splits)

text \<open>
  What the server documents about the text form of a cell of a given type: integers in
  canonical decimal, floats and numerics as JSON numbers or one of the three special
  words, json and jsonb as JSON, bytea as \<open>\x\<close> and hex digits (or, in the legacy escape
  format, text that does not start with \<open>\x\<close>), uuid as 36 hex digits and dashes.
\<close>

definition server_text :: "OID \<Rightarrow> bytes \<Rightarrow> bool" where
  "server_text oid r \<longleftrightarrow>
     (oid \<in> {OIDInt2, OIDInt4, OIDInt8, OIDOID} \<longrightarrow> (\<exists>v. r = dec_int v)) \<and>
     (oid \<in> {OIDFloat4, OIDFloat8, OIDNumeric} \<longrightarrow>
        json_number r \<or> r \<in> {asc ''NaN'', asc ''Infinity'', asc ''-Infinity''}) \<and>
     (oid \<in> {OIDJSON, OIDJSONB} \<longrightarrow> json_value r) \<and>
     (oid = OIDBytea \<longrightarrow> take 2 r = [92, ch CHR ''x''] \<longrightarrow> list_all is_hex (drop 2 r)) \<and>
     (oid = OIDUUID \<longrightarrow> length r = 36 \<and> list_all (\<lambda>c. is_hex c \<or> c = ch CHR ''-'') r)"

lemma not_validFloat_special:
  "\<not> validFloat (asc ''NaN'')" "\<not> validFloat (asc ''Infinity'')" "\<not> validFloat (asc ''-Infinity'')"
  by (simp_all add: ascii_simps validFloat_def is_digit_def)

lemma hex_or_dash_plain: "list_all (\<lambda>c. is_hex c \<or> c = 45) r \<Longrightarrow> list_all plain_char r"
proof -
  have "is_hex c \<or> c = 45 \<Longrightarrow> plain_char c" for c
    using hex_plain [of c] by (auto simp: plain_char_def)
  then show "list_all (\<lambda>c. is_hex c \<or> c = 45) r \<Longrightarrow> list_all plain_char r"
    by (auto simp: list_all_iff)
qed

lemma server_text_float:
  assumes "server_text oid r" "oid \<in> {OIDFloat4, OIDFloat8, OIDNumeric}"
  shows "validFloat r \<longrightarrow> json_number r"
proof -
  have "json_number r \<or> r \<in> {asc ''NaN'', asc ''Infinity'', asc ''-Infinity''}"
    using assms unfolding server_text_def by blast
  then show ?thesis using not_validFloat_special by auto
qed

lemma if_json_encoder:
  "(c \<Longrightarrow> json_encoder a ok) \<Longrightarrow> (\<not> c \<Longrightarrow> json_encoder b ok) \<Longrightarrow> json_encoder (if c then a else b) ok"
  by simp

lemma Pick_json_encoder: "json_encoder (Pick oid) (server_text oid)"
  unfolding Pick_def
proof (intro if_json_encoder, goal_cases)
  case 1 show ?case by (rule enc_bool.weaken) simp
next
  case 2 then show ?case by (intro enc_int.weaken) (unfold server_text_def, blast intro: json_number_dec_int)
next
  case 3 then show ?case by (intro enc_float.weaken server_text_float) auto
next
  case 4 then show ?case by (intro enc_numeric.weaken server_text_float) auto
next
  case 5 then show ?case by (intro enc_json.weaken) (unfold server_text_def, blast)
next
  case 6 then show ?case by (intro enc_bytea.weaken) (unfold server_text_def list_all_iff, blast intro: hex_plain)
next
  case 7 then show ?case by (intro enc_uuid.weaken) (simp add: server_text_def hex_or_dash_plain)
next
  case 8 show ?case by (rule enc_quoted.weaken) simp
next
  case 9 show ?case by (rule enc_string.weaken) simp
next
  case 10 show ?case by (rule enc_string.weaken) simp
qed

text \<open>The bytes that may reach the output unescaped from a number column.\<close>

definition number_char :: "byte \<Rightarrow> bool" where
  "number_char c \<longleftrightarrow> is_digit c \<or> c \<in> {43, 45, 46, 101, 69}"

lemma number_chars:
  "is_digit c \<Longrightarrow> number_char c" "number_char 43" "number_char 45" "number_char 46" "number_char 101" "number_char 69"
  "list_all is_digit l \<Longrightarrow> list_all number_char l"
  by (simp_all add: list_all_iff number_char_def)

lemma validInt_chars: "validInt r \<Longrightarrow> list_all number_char r"
  by (auto simp: validInt_def number_char_def list_all_iff split: list.splits if_splits)

lemma validFloat_loop_chars: "validFloat_loop b d p \<Longrightarrow> list_all number_char b"
proof (induction b d p rule: validFloat_loop.induct)
  case (2 c b d p)
  consider "is_digit c" | "c = 46" "\<not> p"
    | "c = 101 \<or> c = 69" "b \<noteq> []" "list_all is_digit (if hd b = 43 \<or> hd b = 45 then tl b else b)"
    using "2.prems" by (auto simp: Let_def split: if_splits)
  then show ?case
  proof cases
    case 1
    with 2 show ?thesis by (simp add: number_char_def)
  next
    case 2
    with "2.IH"(2) "2.prems" show ?thesis by (simp add: number_char_def is_digit_def)
  next
    case 3
    then obtain h t where b: "b = h # t" by (cases b) auto
    with 3 show ?thesis
      by (cases "h = 43 \<or> h = 45") (auto simp: number_chars)
  qed
qed simp

lemma validFloat_chars: "validFloat r \<Longrightarrow> list_all number_char r"
  by (auto simp: validFloat_def dest!: validFloat_loop_chars split: list.splits if_splits)
    (auto simp: number_char_def)

section \<open>Properties\<close>

text \<open>For every type OID and every cell text of the form the server documents for that type,
  the text encoder chosen by \<open>Pick\<close> appends exactly one JSON value, and appends \<open>null\<close> for
  SQL NULL.\<close>

theorem Pick_encodes_json:
  "server_text oid r \<Longrightarrow>
     (\<exists>v. Pick oid dst (Some r) = dst @ v \<and> json_value v) \<and> Pick oid dst None = dst @ asc ''null''"
  by (rule json_encoder.encodes [OF Pick_json_encoder])

theorem Pick_encodes_json_witness:
  "(\<exists>v. Pick OIDInt4 [91] (Some (dec_int (- 42))) = [91] @ v \<and> json_value v) \<and>
     Pick OIDInt4 [91] None = [91] @ asc ''null''"
  by (rule Pick_encodes_json) (auto simp: server_text_def)

text \<open>No input, however malformed, escapes from a number column: the integer, float and numeric
  encoders append either a JSON string or text made only of digits, signs, points and
  exponent letters.\<close>

theorem number_encoders_contained:
  "enc \<in> {EncodeInt, EncodeFloat, EncodeNumeric} \<Longrightarrow>
     \<exists>v. enc dst (Some r) = dst @ v \<and> (json_string v \<or> list_all number_char v)"
  by (auto simp: encoder_defs writer_eqs intro: json_string_escape_ref
      dest: validInt_chars validFloat_chars)

theorem number_encoders_contained_witness:
  "\<exists>v. EncodeFloat [] (Some (asc ''1e5'')) = [] @ v \<and> (json_string v \<or> list_all number_char v)"
  by (rule number_encoders_contained) simp

text \<open>The integer check accepts texts that are not JSON numbers: \<open>+1\<close> passes \<open>validInt\<close> and
  is copied to the output, where it is no JSON value.  The encoder relies on the server
  never sending such a text.\<close>

theorem EncodeInt_accepts_non_json:
  "validInt (asc ''+1'') \<and> EncodeInt dst (Some (asc ''+1'')) = dst @ asc ''+1'' \<and> \<not> json_value (asc ''+1'')"
proof -
  have "\<not> json_start (hd (asc ''+1''))" by (simp add: ascii_simps json_start_def is_digit_def)
  then have "\<not> json_value (asc ''+1'')" using json_value_start by blast
  moreover have "validInt (asc ''+1'')" by (simp add: ascii_simps validInt_def is_digit_def)
  ultimately show ?thesis by (simp add: EncodeInt_def)
qed

end
