(* ===== verification/FloatFmt.thy ===== *)
theory FloatFmt
  imports Complex_Main Json
begin

text \<open>
  IEEE-754 bit patterns and \<^verbatim>\<open>strconv.AppendFloat(dst, f, 'g', -1, bitSize)\<close>, the part of the
  standard library the float encoders use.  A float is its bit pattern, an \<open>int\<close> below
  \<open>2 ^ 32\<close> or \<open>2 ^ 64\<close>.  \<open>shortest\<close> finds the shortest decimal that still rounds to the
  float (the nearest one when several have that length, ties to even), which is what
  precision \<open>-1\<close> asks for; \<open>fmtE\<close> and \<open>fmtF\<close> lay it out.  Shown: the text is a JSON number,
  and the decimal lies in the float's rounding interval, so reading it back gives the
  same float.
\<close>

section \<open>Bit patterns\<close>

record float_format =
  mantbits :: nat
  expbits :: nat
  bias :: int

definition binary32 :: float_format where
  "binary32 = \<lparr>mantbits = 23, expbits = 8, bias = 127\<rparr>"

definition binary64 :: float_format where
  "binary64 = \<lparr>mantbits = 52, expbits = 11, bias = 1023\<rparr>"

definition float_neg :: "float_format \<Rightarrow> int \<Rightarrow> bool" where
  "float_neg f b \<longleftrightarrow> odd (b div 2 ^ (mantbits f + expbits f))"

definition float_exp :: "float_format \<Rightarrow> int \<Rightarrow> int" where
  "float_exp f b = b div 2 ^ mantbits f mod 2 ^ expbits f"

definition float_frac :: "float_format \<Rightarrow> int \<Rightarrow> int" where
  "float_frac f b = b mod 2 ^ mantbits f"

definition float_is_nan :: "float_format \<Rightarrow> int \<Rightarrow> bool" where
  "float_is_nan f b \<longleftrightarrow> float_exp f b = 2 ^ expbits f - 1 \<and> float_frac f b \<noteq> 0"

definition float_is_inf :: "float_format \<Rightarrow> int \<Rightarrow> bool" where
  "float_is_inf f b \<longleftrightarrow> float_exp f b = 2 ^ expbits f - 1 \<and> float_frac f b = 0"

text \<open>
  The magnitude of a finite float is \<open>mant * 2 ^ e\<close>.  Its rounding interval, in quarter
  units \<open>2 ^ (e - 2)\<close>, reaches half way to the two neighbours; the lower neighbour of a
  power of two is nearer.
\<close>

definition float_mant :: "float_format \<Rightarrow> int \<Rightarrow> int" where
  "float_mant f b = (if float_exp f b = 0 then float_frac f b else float_frac f b + 2 ^ mantbits f)"

definition float_e :: "float_format \<Rightarrow> int \<Rightarrow> int" where
  "float_e f b = (if float_exp f b = 0 then 1 else float_exp f b) - bias f - int (mantbits f)"

definition float_lo4 :: "float_format \<Rightarrow> int \<Rightarrow> int" where
  "float_lo4 f b =
     4 * float_mant f b - (if float_mant f b = 2 ^ mantbits f \<and> 1 < float_exp f b then 1 else 2)"

definition float_hi4 :: "float_format \<Rightarrow> int \<Rightarrow> int" where
  "float_hi4 f b = 4 * float_mant f b + 2"

section \<open>Shortest decimals\<close>

text \<open>\<open>d * 10 ^ k\<close> against \<open>x * 2 ^ q\<close>, by cross-multiplication: compare \<open>d * dec_scale\<close> with \<open>x * bin_scale\<close>.\<close>

definition dec_scale :: "int \<Rightarrow> int \<Rightarrow> int" where
  "dec_scale k q = 10 ^ nat k * 2 ^ nat (- q)"

definition bin_scale :: "int \<Rightarrow> int \<Rightarrow> int" where
  "bin_scale k q = 2 ^ nat q * 10 ^ nat (- k)"

definition in_interval :: "float_format \<Rightarrow> int \<Rightarrow> int \<Rightarrow> int \<Rightarrow> bool" where
  "in_interval f b k d \<longleftrightarrow>
     (let q = float_e f b - 2; x = d * dec_scale k q; s = bin_scale k q in
      if even (float_mant f b) then float_lo4 f b * s \<le> x \<and> x \<le> float_hi4 f b * s
      else float_lo4 f b * s < x \<and> x < float_hi4 f b * s)"

definition digit_floor :: "float_format \<Rightarrow> int \<Rightarrow> int \<Rightarrow> int" where
  "digit_floor f b k =
     (let q = float_e f b - 2 in (4 * float_mant f b * bin_scale k q) div dec_scale k q)"

text \<open>Of the two neighbours at scale \<open>k\<close>, the one in the interval; the nearer one if both are, ties to even.\<close>

definition candidate :: "float_format \<Rightarrow> int \<Rightarrow> int \<Rightarrow> int option" where
  "candidate f b k =
     (let d = digit_floor f b k; q = float_e f b - 2;
          v2 = 8 * float_mant f b * bin_scale k q; mid = (2 * d + 1) * dec_scale k q in
      if in_interval f b k d \<and> in_interval f b k (d + 1)
      then Some (if v2 < mid \<or> (v2 = mid \<and> even d) then d else d + 1)
      else if in_interval f b k d then Some d
      else if in_interval f b k (d + 1) then Some (d + 1)
      else None)"

definition min_scale :: "float_format \<Rightarrow> int \<Rightarrow> int" where
  "min_scale f b = min 0 (float_e f b - 2)"

function shortest :: "float_format \<Rightarrow> int \<Rightarrow> int \<Rightarrow> int \<times> int" where
  "shortest f b k =
     (case candidate f b k of
        Some d \<Rightarrow> (d, k)
      | None \<Rightarrow> if k \<le> min_scale f b then (digit_floor f b k, k) else shortest f b (k - 1))"
  by pat_completeness auto
termination
  by (relation "measure (\<lambda>(f, b, k). nat (k - min_scale f b))") auto

declare shortest.simps [simp del]

section \<open>Layout\<close>

definition fmtE :: "bytes \<Rightarrow> int \<Rightarrow> bytes" where
  "fmtE ds dp =
     (let ex = dp - 1; a = \<bar>ex\<bar> in
      [hd ds] @ (if tl ds \<noteq> [] then ch CHR ''.'' # tl ds else []) @
      [ch CHR ''e'', if ex < 0 then ch CHR ''-'' else ch CHR ''+''] @
      (if a < 10 then [dig 0, dig a]
       else if a < 100 then [dig (a div 10), dig (a mod 10)]
       else [dig (a div 100), dig (a div 10 mod 10), dig (a mod 10)]))"

definition fmtF :: "bytes \<Rightarrow> int \<Rightarrow> bytes" where
  "fmtF ds dp =
     (if 0 < dp then take (nat dp) ds @ replicate (nat dp - length ds) (dig 0) else [dig 0]) @
     (if dp < int (length ds)
      then ch CHR ''.'' # replicate (nat (- dp)) (dig 0) @ drop (nat dp) ds
      else [])"

definition fmtG :: "bytes \<Rightarrow> int \<Rightarrow> bytes" where
  "fmtG ds dp = (if dp - 1 < - 4 \<or> 6 \<le> dp - 1 then fmtE ds dp else fmtF ds dp)"

text \<open>\<open>AppendFloat\<close> on a finite float; zero has no digits and prints as \<open>0\<close>.\<close>

definition AppendFloat :: "float_format \<Rightarrow> bytes \<Rightarrow> int \<Rightarrow> bytes" where
  "AppendFloat f dst b =
     dst @ (if float_neg f b then [ch CHR ''-''] else []) @
     (if float_mant f b = 0 then [dig 0]
      else (let (d, k) = shortest f b 309; ds = dec_nat (nat d) in fmtG ds (int (length ds) + k)))"

section \<open>The decimal lies in the rounding interval\<close>

lemma scales_pos [simp]: "0 < dec_scale k q" "0 < bin_scale k q"
  by (simp_all add: dec_scale_def bin_scale_def)

lemma mant_nonneg: "0 \<le> float_mant f b"
  by (simp add: float_mant_def float_frac_def)

text \<open>At the smallest scale the value itself is a multiple of the power of ten.\<close>

lemma exact_at_min_scale:
  "digit_floor f b (min_scale f b) * dec_scale (min_scale f b) (float_e f b - 2) =
     4 * float_mant f b * bin_scale (min_scale f b) (float_e f b - 2)"
proof -
  define q where "q = float_e f b - 2"
  have "dec_scale (min 0 q) q dvd bin_scale (min 0 q) q"
  proof (cases "0 \<le> q")
    case True
    then show ?thesis by (simp add: dec_scale_def bin_scale_def)
  next
    case False
    have "(10::int) ^ nat (- q) = 2 ^ nat (- q) * 5 ^ nat (- q)"
      by (simp flip: power_mult_distrib)
    with False show ?thesis by (simp add: dec_scale_def bin_scale_def)
  qed
  then have "dec_scale (min 0 q) q dvd 4 * float_mant f b * bin_scale (min 0 q) q" by simp
  then show ?thesis by (simp add: digit_floor_def min_scale_def q_def Let_def)
qed

lemma candidate_at_min_scale: "candidate f b (min_scale f b) \<noteq> None"
proof -
  have "in_interval f b (min_scale f b) (digit_floor f b (min_scale f b))"
    unfolding in_interval_def Let_def exact_at_min_scale
    by (auto simp: float_lo4_def float_hi4_def intro!: mult_right_mono mult_strict_right_mono)
  then show ?thesis by (simp add: candidate_def Let_def)
qed

lemma candidate_in_interval: "candidate f b k = Some d \<Longrightarrow> in_interval f b k d"
  by (auto simp: candidate_def Let_def split: if_splits)

lemma shortest_in_interval:
  "min_scale f b \<le> k0 \<Longrightarrow> shortest f b k0 = (d, k) \<Longrightarrow> in_interval f b k d"
proof (induction f b k0 rule: shortest.induct)
  case (1 f b k0)
  show ?case
  proof (cases "candidate f b k0")
    case None
    with candidate_at_min_scale [of f b] "1.prems" have "min_scale f b < k0"
      by (cases "k0 = min_scale f b") auto
    with None 1 show ?thesis by (simp add: shortest.simps [of f b k0])
  next
    case (Some a)
    with "1.prems" show ?thesis
      by (auto simp: shortest.simps [of f b k0] dest: candidate_in_interval)
  qed
qed

lemma in_interval_pos: "float_mant f b \<noteq> 0 \<Longrightarrow> in_interval f b k d \<Longrightarrow> 0 < d"
proof -
  assume m: "float_mant f b \<noteq> 0" and i: "in_interval f b k d"
  have "0 < float_lo4 f b" using m mant_nonneg [of f b] by (auto simp: float_lo4_def)
  then have "0 < float_lo4 f b * bin_scale k (float_e f b - 2)" by simp
  with i have "0 < d * dec_scale k (float_e f b - 2)"
    by (auto simp: in_interval_def Let_def split: if_splits)
  then show ?thesis using scales_pos(1) by (rule zero_less_mult_pos2)
qed

lemma min_scale_le_0: "min_scale f b \<le> 309"
  by (simp add: min_scale_def)

section \<open>The text is a JSON number\<close>

lemma digits_dig: "0 \<le> d \<Longrightarrow> d < 10 \<Longrightarrow> is_digit (dig d)"
  by (rule is_digit_dig)

lemma json_int_take:
  "json_int ds \<Longrightarrow> hd ds \<noteq> 48 \<Longrightarrow> 0 < n \<Longrightarrow> json_int (take n ds @ replicate m 48)"
  by (auto simp: json_int_def list_all_iff is_digit_def hd_append dest: in_set_takeD)

lemma json_expI:
  "m \<in> {101, 69} \<Longrightarrow> c \<in> {43, 45} \<Longrightarrow> ds \<noteq> [] \<Longrightarrow> list_all is_digit ds \<Longrightarrow> json_exp ([m, c] @ ds)"
  unfolding json_exp_def by (intro disjI2 exI [of _ m] exI [of _ "[c]"] exI [of _ ds]) auto

lemma dig_0 [simp]: "dig 0 = 48"
  by (simp add: dig_def)

lemma fmtF_json:
  assumes "json_int ds" "hd ds \<noteq> 48"
  shows "\<exists>i f. fmtF ds dp = i @ f \<and> json_int i \<and> json_frac f"
proof (intro exI conjI)
  let ?i = "if 0 < dp then take (nat dp) ds @ replicate (nat dp - length ds) (dig 0) else [dig 0]"
  let ?f = "if dp < int (length ds) then 46 # replicate (nat (- dp)) (dig 0) @ drop (nat dp) ds else []"
  show "fmtF ds dp = ?i @ ?f" by (simp add: fmtF_def)
  show "json_int ?i"
    using assms json_int_take [of ds "nat dp"] by (simp add: json_int_def [of "[48]"] is_digit_def)
  show "json_frac ?f"
    using assms by (auto simp: json_frac_def json_int_def list_all_iff is_digit_def dest: in_set_dropD)
qed

lemma fmtE_json:
  assumes "json_int ds" "\<bar>dp - 1\<bar> < 1000"
  shows "\<exists>i f e. fmtE ds dp = i @ f @ e \<and> json_int i \<and> json_frac f \<and> json_exp e"
proof (intro exI conjI)
  let ?a = "\<bar>dp - 1\<bar>"
  let ?e = "[101, if dp - 1 < 0 then 45 else 43] @
      (if ?a < 10 then [dig 0, dig ?a] else if ?a < 100 then [dig (?a div 10), dig (?a mod 10)]
       else [dig (?a div 100), dig (?a div 10 mod 10), dig (?a mod 10)])"
  show "fmtE ds dp = [hd ds] @ (if tl ds \<noteq> [] then 46 # tl ds else []) @ ?e"
    by (simp add: fmtE_def Let_def)
  show "json_int [hd ds]" "json_frac (if tl ds \<noteq> [] then 46 # tl ds else [])"
    using assms(1) by (cases ds; auto simp: json_int_def json_frac_def)+
  have "list_all is_digit (if ?a < 10 then [dig 0, dig ?a] else if ?a < 100 then [dig (?a div 10), dig (?a mod 10)]
       else [dig (?a div 100), dig (?a div 10 mod 10), dig (?a mod 10)])"
    using assms(2) by (simp add: is_digit_dig del: dig_0)
  then show "json_exp ?e"
    by (intro json_expI) simp_all
qed


text \<open>The decimal exponent stays within three digits, which is what \<open>fmtE\<close> writes at most.\<close>

lemma scale_real:
  fixes d x k q :: int
  defines "P \<equiv> (10::real) ^ nat (- k) * 2 ^ nat (- q)"
  shows "real_of_int (d * dec_scale k q) = P * (real_of_int d * 10 powi k)"
    and "real_of_int (x * bin_scale k q) = P * (real_of_int x * 2 powi q)"
    and "0 < P"
proof -
  have "(10::real) ^ nat k = 10 ^ nat (- k) * 10 powi k"
    by (cases "0 \<le> k") (simp_all add: power_int_def flip: power_mult_distrib)
  then show "real_of_int (d * dec_scale k q) = P * (real_of_int d * 10 powi k)"
    by (simp add: P_def dec_scale_def)
  have "(2::real) ^ nat q = 2 ^ nat (- q) * 2 powi q"
    by (cases "0 \<le> q") (simp_all add: power_int_def flip: power_mult_distrib)
  then show "real_of_int (x * bin_scale k q) = P * (real_of_int x * 2 powi q)"
    by (simp add: P_def bin_scale_def)
  show "0 < P" by (simp add: P_def)
qed

lemma in_interval_real:
  assumes "in_interval f b k d"
  shows "real_of_int (float_lo4 f b) * 2 powi (float_e f b - 2) \<le> real_of_int d * 10 powi k"
    and "real_of_int d * 10 powi k \<le> real_of_int (float_hi4 f b) * 2 powi (float_e f b - 2)"
proof -
  let ?q = "float_e f b - 2"
  have "float_lo4 f b * bin_scale k ?q \<le> d * dec_scale k ?q" "d * dec_scale k ?q \<le> float_hi4 f b * bin_scale k ?q"
    using assms by (auto simp: in_interval_def Let_def split: if_splits)
  then have "real_of_int (float_lo4 f b * bin_scale k ?q) \<le> real_of_int (d * dec_scale k ?q)"
    "real_of_int (d * dec_scale k ?q) \<le> real_of_int (float_hi4 f b * bin_scale k ?q)"
    by (simp_all only: of_int_le_iff)
  then show "real_of_int (float_lo4 f b) * 2 powi ?q \<le> real_of_int d * 10 powi k"
    "real_of_int d * 10 powi k \<le> real_of_int (float_hi4 f b) * 2 powi ?q"
    unfolding scale_real by (simp_all only: mult_le_cancel_left_pos [OF scale_real(3)])
qed

lemma dec_nat_bounds:
  assumes "0 < n"
  shows "10 ^ (length (dec_nat n) - 1) \<le> n" "n < 10 ^ length (dec_nat n)"
proof -
  have "10 ^ (length (nat_digits b n) - 1) \<le> n \<and> n < 10 ^ length (nat_digits b n)" if "b = 10" "0 < n" for b n :: nat
    using that
  proof (induction b n rule: nat_digits.induct)
    case (1 b n)
    show ?case
    proof (cases "n < 10")
      case True
      with 1 show ?thesis by (simp add: nat_digits.simps [of 10 n])
    next
      case False
      let ?l = "length (nat_digits 10 (n div 10))"
      have IH: "10 ^ (?l - 1) \<le> n div 10" "n div 10 < 10 ^ ?l" using 1 False by auto
      have l: "?l = Suc (?l - 1)" by (cases ?l) auto
      have "10 ^ ?l \<le> n" using IH(1) l by (metis mult.commute nat_le_iff_add power_Suc2 div_times_less_eq_dividend mult_le_mono1 order_trans)
      moreover have "n < 10 ^ Suc ?l" using IH(2) by (simp add: div_less_iff_less_mult mult.commute)
      ultimately show ?thesis using 1 False by (simp add: nat_digits.simps [of 10 n])
    qed
  qed
  with assms show "10 ^ (length (dec_nat n) - 1) \<le> n" "n < 10 ^ length (dec_nat n)"
    by (simp_all add: dec_nat_def)
qed


lemma powi_10_less: "(10::real) powi x < 10 powi y \<Longrightarrow> x < y"
  using power_int_increasing [of y x "10::real"] by (cases "x < y") auto

lemma exponent_bounds:
  assumes f: "f \<in> {binary32, binary64}" and m: "float_mant f b \<noteq> 0" and i: "in_interval f b k d"
  shows "- 400 < int (length (dec_nat (nat d))) + k - 1" "int (length (dec_nat (nat d))) + k - 1 < 400"
proof -
  let ?n = "length (dec_nat (nat d))" and ?q = "float_e f b - 2"
  have d: "0 < d" using m i by (rule in_interval_pos)
  then have d': "10 ^ (?n - 1) \<le> nat d" "nat d < 10 ^ ?n" using dec_nat_bounds [of "nat d"] by simp_all
  have dr: "real_of_int d < 10 ^ ?n" "10 ^ (?n - 1) \<le> real_of_int d"
  proof -
    have "real (nat d) < real (10 ^ ?n)" "real (10 ^ (?n - 1)) \<le> real (nat d)"
      using d' by (simp_all only: of_nat_less_iff of_nat_le_iff)
    with d show "real_of_int d < 10 ^ ?n" "10 ^ (?n - 1) \<le> real_of_int d" by simp_all
  qed
  have n: "0 < ?n" by simp
  have e: "0 \<le> float_exp f b" "float_exp f b < 2 ^ 11"
    using f pos_mod_bound [of "2 ^ 8" "b div 2 ^ 23"] pos_mod_bound [of "2 ^ 11" "b div 2 ^ 52"]
    by (auto simp: float_exp_def binary32_def binary64_def)
  have q: "- 1076 \<le> ?q" "?q \<le> 971"
    using f e pos_mod_bound [of "2 ^ 8" "b div 2 ^ 23"]
    by (auto simp: float_e_def float_exp_def binary32_def binary64_def)
  have mb: "0 < float_mant f b" "float_mant f b < 2 ^ 53"
    using f m mant_nonneg [of f b] pos_mod_bound [of "2 ^ 23" b] pos_mod_bound [of "2 ^ 52" b]
    by (auto simp: float_mant_def float_frac_def binary32_def binary64_def)
  have "2 powi (- 1076) \<le> (2::real) powi ?q" "(2::real) powi ?q \<le> 2 powi 971"
    by (intro power_int_increasing q; simp)+
  moreover have "1 \<le> real_of_int (float_lo4 f b)" "real_of_int (float_hi4 f b) \<le> 2 ^ 56"
  proof -
    have lo: "1 \<le> float_lo4 f b" using mb(1) by (simp add: float_lo4_def)
    have "4 * float_mant f b + 2 \<le> 2 ^ 56" using mb(2) by simp
    then have hi: "float_hi4 f b \<le> 2 ^ 56" by (simp only: float_hi4_def)
    show "1 \<le> real_of_int (float_lo4 f b)" using lo by simp
    show "real_of_int (float_hi4 f b) \<le> 2 ^ 56" using hi by (metis of_int_le_iff of_int_numeral of_int_power)
  qed
  ultimately have v: "2 powi (- 1076) \<le> real_of_int d * 10 powi k" "real_of_int d * 10 powi k \<le> 2 ^ 56 * 2 powi 971"
    using in_interval_real [OF i]
      mult_mono [of 1 "real_of_int (float_lo4 f b)" "2 powi (- 1076)" "2 powi ?q"]
      mult_mono [of "real_of_int (float_hi4 f b)" "2 ^ 56" "2 powi ?q" "2 powi 971"] by auto
  have "real_of_int d * 10 powi k < 10 ^ ?n * 10 powi k" using dr(1) by (simp add: mult_strict_right_mono)
  also have "\<dots> = 10 powi (int ?n + k)" by (simp add: power_int_add)
  finally have "(2::real) powi (- 1076) < 10 powi (int ?n + k)" using v(1) by simp
  moreover have "(10::real) powi (- 350) \<le> 2 powi (- 1076)" by (simp add: power_int_def field_simps)
  ultimately have "(10::real) powi (- 350) < 10 powi (int ?n + k)" by simp
  then have "- 350 < int ?n + k" by (rule powi_10_less)
  then show "- 400 < int ?n + k - 1" by simp
  have n1: "int ?n - 1 = int (?n - 1)" using n by linarith
  have "(10::real) powi (int ?n - 1 + k) = 10 powi int (?n - 1) * 10 powi k"
    unfolding n1 by (rule power_int_add) simp
  also have "\<dots> = 10 ^ (?n - 1) * 10 powi k" by (simp only: power_int_of_nat)
  also have "\<dots> \<le> real_of_int d * 10 powi k" using dr(2) by (simp add: mult_right_mono)
  also have "\<dots> \<le> 2 ^ 56 * 2 powi 971" by (rule v(2))
  also have "\<dots> < 10 powi 350" by (simp add: power_int_def)
  finally have "int ?n - 1 + k < 350" by (rule powi_10_less)
  then show "int ?n + k - 1 < 400" by simp
qed

lemma AppendFloat_json:
  assumes f: "f \<in> {binary32, binary64}"
  shows "\<exists>v. AppendFloat f dst b = dst @ v \<and> json_number v"
proof -
  define sg where "sg = (if float_neg f b then [45::byte] else [])"
  have sg: "sg \<in> {[], [45]}" by (simp add: sg_def)
  show ?thesis
  proof (cases "float_mant f b = 0")
    case True
    then have "AppendFloat f dst b = dst @ (sg @ [48] @ [] @ [])" by (simp add: AppendFloat_def sg_def)
    moreover have "json_number (sg @ [48] @ [] @ [])"
      by (rule json_numberI [OF sg]) (simp_all add: json_int_def is_digit_def)
    ultimately show ?thesis by blast
  next
    case False
    obtain d k where dk: "shortest f b 309 = (d, k)" by fastforce
    have i: "in_interval f b k d" using min_scale_le_0 dk by (rule shortest_in_interval)
    let ?ds = "dec_nat (nat d)" and ?dp = "int (length (dec_nat (nat d))) + k"
    have "0 < nat d" using in_interval_pos [OF False i] by simp
    then have ds: "json_int ?ds" "hd ?ds \<noteq> 48" by (simp_all add: dec_nat_no_leading_zero)
    have "\<bar>?dp - 1\<bar> < 1000" using exponent_bounds [OF f False i] by simp
    then obtain ip fr ex where "fmtG ?ds ?dp = ip @ fr @ ex" "json_int ip" "json_frac fr" "json_exp ex"
      using fmtE_json [OF ds(1), of ?dp] fmtF_json [OF ds, of ?dp] unfolding fmtG_def
      by (metis append_Nil2 json_exp_Nil)
    moreover have "AppendFloat f dst b = dst @ (sg @ fmtG ?ds ?dp)"
      using False dk by (simp add: AppendFloat_def sg_def Let_def)
    ultimately show ?thesis using json_numberI [OF sg] by metis
  qed
qed

end
