(* ===== verification/Calendar.thy ===== *)
theory Calendar
  imports Prelude
begin

text \<open>
  The civil-date arithmetic of src/internal/types/binary.go: \<open>splitTime\<close> decodes Unix seconds
  into year, month, day, hour, minute and second.  It is compared with the calendar itself:
  leap years, month lengths and the day count from 0001-01-01 (\<open>civil_days\<close>).  Go's \<open>/\<close>
  truncates, so signed divisions are \<open>sdiv\<close>; the \<open>uint64\<close> ones are on non-negative values,
  where \<open>div\<close> is the same.  No intermediate value leaves 64 bits for a 64-bit \<open>sec\<close>.
\<close>

section \<open>The proleptic Gregorian calendar\<close>

definition leap :: "int \<Rightarrow> bool" where
  "leap y \<longleftrightarrow> 4 dvd y \<and> (\<not> 100 dvd y \<or> 400 dvd y)"

definition month_days :: "int \<Rightarrow> int \<Rightarrow> int" where
  "month_days y m =
     (if m = 2 then (if leap y then 29 else 28) else if m \<in> {4, 6, 9, 11} then 30 else 31)"

definition days_before_year :: "int \<Rightarrow> int" where
  "days_before_year y = 365 * (y - 1) + (y - 1) div 4 - (y - 1) div 100 + (y - 1) div 400"

definition days_before_month :: "int \<Rightarrow> int \<Rightarrow> int" where
  "days_before_month y m = sum_list (map (month_days y) [1..m - 1])"

text \<open>Days since 1970-01-01.\<close>

definition civil_days :: "int \<Rightarrow> int \<Rightarrow> int \<Rightarrow> int" where
  "civil_days y m d = days_before_year y + days_before_month y m + (d - 1) - 719162"

definition valid_date :: "int \<Rightarrow> int \<Rightarrow> int \<Rightarrow> bool" where
  "valid_date y m d \<longleftrightarrow> 1 \<le> m \<and> m \<le> 12 \<and> 1 \<le> d \<and> d \<le> month_days y m"

section \<open>splitTime\<close>

record civil =
  year :: int
  month :: int
  day :: int
  hour :: int
  minute :: int
  second :: int

text \<open>Days and the second of the day, rounding towards minus infinity.\<close>

definition split_day :: "int \<Rightarrow> int \<times> int" where
  "split_day sec =
     (let days = sec sdiv 86400; rem = sec - days * 86400 in
      if rem < 0 then (days - 1, rem + 86400) else (days, rem))"

definition split_clock :: "int \<Rightarrow> int \<times> int \<times> int" where
  "split_clock rem = (let h = rem div 3600; rem = rem - h * 3600; mi = rem div 60 in (h, mi, rem - mi * 60))"

definition split_era :: "int \<Rightarrow> int \<times> int" where
  "split_era z = (let era = (if z < 0 then z - 146096 else z) sdiv 146097 in (era, z - era * 146097))"

definition year_of_era :: "int \<Rightarrow> int" where
  "year_of_era doe = (doe - doe div 1460 + doe div 36524 - doe div 146096) div 365"

definition day_of_year :: "int \<Rightarrow> int \<Rightarrow> int" where
  "day_of_year doe yoe = doe - (365 * yoe + yoe div 4 - yoe div 100)"

definition month_and_day :: "int \<Rightarrow> int \<times> int" where
  "month_and_day doy =
     (let mp = (5 * doy + 2) div 153 in
      (if mp < 10 then mp + 3 else mp - 9, doy - (153 * mp + 2) div 5 + 1))"

definition splitTime :: "int \<Rightarrow> civil" where
  "splitTime sec =
     (let (days, rem) = split_day sec;
          (h, mi, sc) = split_clock rem;
          (era, doe) = split_era (days + 719468);
          yoe = year_of_era doe;
          y = yoe + era * 400;
          (m, d) = month_and_day (day_of_year doe yoe)
      in \<lparr>year = (if m \<le> 2 then y + 1 else y), month = m, day = d, hour = h, minute = mi, second = sc\<rparr>)"

section \<open>Floor division\<close>

lemma sdiv_floor:
  assumes "0 < (n::int)" and k: "k = n - 1"
  shows "(if x < 0 then x - k else x) sdiv n = x div n"
proof (cases "x < 0")
  case True
  have "- ((n - 1 - x) div n) = x div n"
  proof -
    have "(n - 1 - x) div n = - (x div n)"
    proof (rule int_div_pos_eq [of _ _ _ "n - 1 - x mod n"])
      show "n - 1 - x = n * - (x div n) + (n - 1 - x mod n)" using mult_div_mod_eq [of n x] by linarith
      show "0 \<le> n - 1 - x mod n" using pos_mod_bound [OF assms(1), of x] by simp
      show "n - 1 - x mod n < n" using pos_mod_sign [OF assms(1), of x] by simp
    qed
    then show ?thesis by simp
  qed
  with True assms show ?thesis by (simp add: signed_divide_int_def sgn_if abs_if)
next
  case False
  with assms show ?thesis by (auto simp: signed_divide_int_def sgn_if)
qed

lemma split_day: "split_day sec = (sec div 86400, sec mod 86400)"
proof -
  define a where "a = - sec"
  have n: "sec < 0 \<Longrightarrow> sec sdiv 86400 = - (a div 86400)" "\<not> sec < 0 \<Longrightarrow> sec sdiv 86400 = sec div 86400"
    by (auto simp: signed_divide_int_def sgn_if a_def)
  have "sec div 86400 = (if a mod 86400 = 0 then - (a div 86400) else - (a div 86400) - 1)"
    using zdiv_zminus1_eq_if [of 86400 a] by (simp add: a_def)
  moreover have "sec mod 86400 = (if a mod 86400 = 0 then 0 else 86400 - a mod 86400)"
    using zmod_zminus1_eq_if [of a 86400] by (simp add: a_def)
  moreover have "a mod 86400 = a - a div 86400 * 86400" "sec mod 86400 = sec - sec div 86400 * 86400"
    by (simp_all add: minus_div_mult_eq_mod)
  moreover have "0 \<le> a mod 86400" "a mod 86400 < 86400" "0 \<le> sec mod 86400" by simp_all
  ultimately show ?thesis
    by (cases "sec < 0") (auto simp: split_day_def Let_def n a_def split: if_splits)
qed

lemma split_era: "split_era z = (z div 146097, z mod 146097)"
proof -
  have "(if z < 0 then z - 146096 else z) sdiv 146097 = z div 146097" by (rule sdiv_floor) simp_all
  then show ?thesis unfolding split_era_def Let_def by (simp only: minus_div_mult_eq_mod)
qed

section \<open>Decoding an era\<close>

text \<open>A day of a 400-year era as century, four-year cycle, year and day of the year from 1 March.\<close>

definition era_parts :: "int \<Rightarrow> int \<Rightarrow> int \<Rightarrow> int \<Rightarrow> int \<Rightarrow> bool" where
  "era_parts doe c q s u \<longleftrightarrow>
     0 \<le> c \<and> c \<le> 3 \<and> 0 \<le> q \<and> q \<le> 24 \<and> 0 \<le> s \<and> s \<le> 3 \<and> 0 \<le> u \<and> u \<le> 365 \<and>
     doe = 36524 * c + 1461 * q + 365 * s + u \<and> (u = 365 \<longrightarrow> s = 3 \<and> (q = 24 \<longrightarrow> c = 3))"

lemma era_parts_exist:
  assumes "0 \<le> doe" "doe \<le> 146096"
  shows "\<exists>c q s u. era_parts doe c q s u"
proof -
  define c where "c = min 3 (doe div 36524)"
  have c: "0 \<le> c" "c \<le> 3" "36524 * c \<le> doe" "doe \<le> 36524 * c + 36524" "c < 3 \<longrightarrow> doe < 36524 * c + 36524"
    using assms unfolding c_def by (auto simp: min_def)
  define r where "r = doe - 36524 * c"
  define q where "q = r div 1461"
  have r: "0 \<le> r" "r \<le> 36524" "c < 3 \<longrightarrow> r < 36524" using c by (auto simp: r_def)
  have q: "0 \<le> q" "q \<le> 24" "1461 * q \<le> r" "r < 1461 * q + 1461" using r unfolding q_def by auto
  define t where "t = r - 1461 * q"
  define s where "s = min 3 (t div 365)"
  have t: "0 \<le> t" "t \<le> 1460" using q by (auto simp: t_def)
  have s: "0 \<le> s" "s \<le> 3" "365 * s \<le> t" "t \<le> 365 * s + 365" "s < 3 \<longrightarrow> t < 365 * s + 365"
    using t unfolding s_def by (auto simp: min_def)
  define u where "u = t - 365 * s"
  have "era_parts doe c q s u"
    unfolding era_parts_def
  proof (intro conjI impI)
    assume u: "u = 365"
    show "s = 3" using s u by (auto simp: u_def)
    assume "q = 24"
    then show "c = 3" using u r c s by (auto simp: u_def t_def)
  qed (use c r q t s in \<open>auto simp: u_def t_def r_def\<close>)
  then show ?thesis by blast
qed

lemma era_year:
  assumes "era_parts doe c q s u"
  shows "(doe - doe div 1460 + doe div 36524 - doe div 146096) div 365 = 100 * c + 4 * q + s"
proof -
  have b: "0 \<le> c" "c \<le> 3" "0 \<le> q" "q \<le> 24" "0 \<le> s" "s \<le> 3" "0 \<le> u" "u \<le> 365" "u = 365 \<Longrightarrow> s = 3"
    "u = 365 \<Longrightarrow> q = 24 \<Longrightarrow> c = 3" "doe = 36524 * c + 1461 * q + 365 * s + u"
    using assms by (auto simp: era_parts_def)
  define w where "w = 24 * c + q + 365 * s + u"
  define \<delta> where "\<delta> = (if 1460 \<le> w then 1 else 0 :: int)"
  have w: "0 \<le> w" "w < 2 * 1460" using b by (auto simp: w_def)
  have d1: "doe div 1460 = 25 * c + q + \<delta>"
    by (rule int_div_pos_eq [of _ _ _ "w - 1460 * \<delta>"]) (use b w in \<open>auto simp: w_def \<delta>_def\<close>)
  have d2: "doe div 36524 - doe div 146096 = c"
  proof (cases "doe = 146096")
    case False
    have "1461 * q + 365 * s + u < 36524"
    proof (rule ccontr)
      assume "\<not> 1461 * q + 365 * s + u < 36524"
      then have "q = 24" "s = 3" "u = 365" using b by linarith+
      then have "c = 3" using b by blast
      then show False using False b \<open>q = 24\<close> \<open>s = 3\<close> \<open>u = 365\<close> by simp
    qed
    then have "doe div 36524 = c"
      by (intro int_div_pos_eq [of _ _ _ "1461 * q + 365 * s + u"]) (use b in auto)
    moreover have "doe div 146096 = 0" using b \<open>1461 * q + 365 * s + u < 36524\<close> by (intro div_pos_pos_trivial) auto
    ultimately show ?thesis by simp
  next
    case True
    then have "c = 3" using b by linarith
    with True show ?thesis by simp
  qed
  have e: "doe - doe div 1460 + doe div 36524 - doe div 146096 = 365 * (100 * c + 4 * q + s) + (u - \<delta>)"
    using d1 d2 b(11) by simp
  have "0 \<le> u - \<delta>"
  proof (cases "1460 \<le> w")
    case True
    then have "1 \<le> u" using b unfolding w_def by linarith
    then show ?thesis by (simp add: \<delta>_def)
  qed (use b in \<open>simp add: \<delta>_def\<close>)
  moreover have "u - \<delta> < 365"
  proof (cases "u = 365")
    case True
    then have "1460 \<le> w" using b unfolding w_def by simp
    then show ?thesis using True by (simp add: \<delta>_def)
  qed (use b in \<open>auto simp: \<delta>_def\<close>)
  ultimately show ?thesis unfolding e by (intro int_div_pos_eq [of _ _ _ "u - \<delta>"]) auto
qed

lemma era_day:
  assumes "era_parts doe c q s u"
  defines "yoe \<equiv> 100 * c + 4 * q + s"
  shows "doe - (365 * yoe + yoe div 4 - yoe div 100) = u" "0 \<le> yoe" "yoe < 400"
proof -
  have b: "0 \<le> c" "c \<le> 3" "0 \<le> q" "q \<le> 24" "0 \<le> s" "s \<le> 3" "doe = 36524 * c + 1461 * q + 365 * s + u"
    using assms by (auto simp: era_parts_def)
  have "yoe div 4 = 25 * c + q" by (rule int_div_pos_eq [of _ _ _ s]) (use b in \<open>auto simp: yoe_def\<close>)
  moreover have "yoe div 100 = c" by (rule int_div_pos_eq [of _ _ _ "4 * q + s"]) (use b in \<open>auto simp: yoe_def\<close>)
  ultimately show "doe - (365 * yoe + yoe div 4 - yoe div 100) = u" using b by (simp add: yoe_def)
  show "0 \<le> yoe" "yoe < 400" using b by (auto simp: yoe_def)
qed

section \<open>Months\<close>

lemma days_before_month_table:
  "days_before_month y 1 = 0" "days_before_month y 2 = 31"
  "3 \<le> m \<Longrightarrow> m \<le> 12 \<Longrightarrow> days_before_month y m =
     (if leap y then 60 else 59) +
     (if m = 3 then 0 else if m = 4 then 31 else if m = 5 then 61 else if m = 6 then 92 else if m = 7 then 122
      else if m = 8 then 153 else if m = 9 then 184 else if m = 10 then 214 else if m = 11 then 245 else 275)"
proof -
  show "days_before_month y 1 = 0" "days_before_month y 2 = 31"
    by (simp_all add: days_before_month_def month_days_def)
  assume "3 \<le> m" "m \<le> 12"
  then have "m = 3 \<or> m = 4 \<or> m = 5 \<or> m = 6 \<or> m = 7 \<or> m = 8 \<or> m = 9 \<or> m = 10 \<or> m = 11 \<or> m = 12" by arith
  then show "days_before_month y m =
     (if leap y then 60 else 59) +
     (if m = 3 then 0 else if m = 4 then 31 else if m = 5 then 61 else if m = 6 then 92 else if m = 7 then 122
      else if m = 8 then 153 else if m = 9 then 184 else if m = 10 then 214 else if m = 11 then 245 else 275)"
    by (elim disjE) (simp_all add: days_before_month_def month_days_def upto.simps)
qed

lemma month_and_day:
  assumes u: "0 \<le> u" "u \<le> 365" and md: "month_and_day u = (m, d)"
  shows "m \<le> 2 \<Longrightarrow> (u = 365 \<Longrightarrow> leap y) \<Longrightarrow> valid_date y m d \<and> days_before_month y m + d - 1 = u - 306"
    and "\<not> m \<le> 2 \<Longrightarrow> valid_date y m d \<and> days_before_month y m + d - 1 = u + (if leap y then 60 else 59)"
proof -
  define mp where "mp = (5 * u + 2) div 153"
  have "0 \<le> mp" "mp \<le> 11" and mp: "153 * mp \<le> 5 * u + 2" "5 * u + 2 < 153 * mp + 153"
    using u by (auto simp: mp_def)
  then have "mp \<in> set [0..11]" by simp
  then have c: "mp = 0 \<or> mp = 1 \<or> mp = 2 \<or> mp = 3 \<or> mp = 4 \<or> mp = 5 \<or> mp = 6 \<or> mp = 7 \<or> mp = 8 \<or> mp = 9 \<or> mp = 10 \<or> mp = 11"
    by (simp add: upto.simps del: set_upto)
  have m: "m = (if mp < 10 then mp + 3 else mp - 9)" "d = u - (153 * mp + 2) div 5 + 1"
    using md unfolding month_and_day_def Let_def mp_def by blast+
  show "m \<le> 2 \<Longrightarrow> (u = 365 \<Longrightarrow> leap y) \<Longrightarrow> valid_date y m d \<and> days_before_month y m + d - 1 = u - 306"
    "\<not> m \<le> 2 \<Longrightarrow> valid_date y m d \<and> days_before_month y m + d - 1 = u + (if leap y then 60 else 59)"
    unfolding m using c mp u
    by (elim disjE; simp add: valid_date_def month_days_def days_before_month_table; linarith?)+
qed

section \<open>Years\<close>

lemma div_step: "0 < n \<Longrightarrow> y div n = (y - 1) div n + (if n dvd y then 1 else (0::int))"
proof -
  assume n: "0 < n"
  show ?thesis
  proof (cases "n dvd y")
    case True
    then obtain k where "y = n * k" by (auto elim: dvdE)
    moreover have "(n * k - 1) div n = k - 1"
      by (rule int_div_pos_eq [of _ _ _ "n - 1"]) (use n in \<open>auto simp: algebra_simps\<close>)
    ultimately show ?thesis using n by simp
  next
    case False
    have "(y - 1) div n = y div n"
    proof (rule int_div_pos_eq [of _ _ _ "y mod n - 1"])
      show "y - 1 = n * (y div n) + (y mod n - 1)" using mult_div_mod_eq [of n y] by linarith
      have "y mod n \<noteq> 0" using False by (simp add: dvd_eq_mod_eq_0)
      then show "0 \<le> y mod n - 1" using pos_mod_sign [OF n, of y] by simp
      show "y mod n - 1 < n" using pos_mod_bound [OF n, of y] by simp
    qed
    with False show ?thesis by simp
  qed
qed

lemma days_before_next_year: "days_before_year (y + 1) = days_before_year y + (if leap y then 366 else 365)"
proof -
  have "400 dvd y \<Longrightarrow> 100 dvd y" "100 dvd y \<Longrightarrow> 4 dvd y" by (auto elim: dvd_trans [rotated])
  moreover note div_step [of 4 y] div_step [of 100 y] div_step [of 400 y]
  ultimately have "y div 4 - y div 100 + y div 400 =
      (y - 1) div 4 - (y - 1) div 100 + (y - 1) div 400 + (if leap y then 1 else 0)"
    unfolding leap_def
    by (cases "4 dvd y"; cases "100 dvd y"; cases "400 dvd y"; simp only: if_True if_False simp_thms; linarith?)
  then show ?thesis unfolding days_before_year_def by (cases "leap y") simp_all
qed

lemma days_before_era_year:
  assumes "0 \<le> yoe" "yoe < 400"
  shows "days_before_year (400 * era + yoe + 1) = 146097 * era + 365 * yoe + yoe div 4 - yoe div 100"
proof -
  have "(400 * era + yoe) div 4 = 100 * era + yoe div 4" using div_mult_self4 [of 4 "100 * era" yoe] by simp
  moreover have "(400 * era + yoe) div 100 = 4 * era + yoe div 100" using div_mult_self4 [of 100 "4 * era" yoe] by simp
  moreover have "(400 * era + yoe) div 400 = era" using assms by simp
  ultimately show ?thesis by (simp add: days_before_year_def)
qed

lemma era_leap:
  assumes "era_parts doe c q s u" "u = 365"
  shows "leap (400 * era + (100 * c + 4 * q + s) + 1)"
proof -
  have s: "s = 3" "q = 24 \<Longrightarrow> c = 3" "0 \<le> q" "q \<le> 24" using assms by (auto simp: era_parts_def)
  have "4 dvd (400 * era + (100 * c + 4 * q + s) + 1)" using s by presburger
  moreover have "400 dvd (400 * era + (100 * c + 4 * q + s) + 1)" if "q = 24" using s that by simp
  moreover have "\<not> 100 dvd (400 * era + (100 * c + 4 * q + s) + 1)" if "q \<noteq> 24"
  proof
    assume "100 dvd (400 * era + (100 * c + 4 * q + s) + 1)"
    moreover have "400 * era + (100 * c + 4 * q + s) + 1 = 100 * (4 * era + c) + (4 * q + 4)" using s by simp
    ultimately have "100 dvd 4 * q + 4" by (metis dvd_add_right_iff dvd_triv_left)
    then show False using s that zdvd_imp_le [of 100 "4 * q + 4"] by simp
  qed
  ultimately show ?thesis unfolding leap_def by (cases "q = 24") blast+
qed

section \<open>splitTime is the calendar\<close>

lemma splitTime_date:
  fixes sec days :: int
  defines "c \<equiv> splitTime sec"
  assumes days: "days = sec div 86400"
  shows "valid_date (year c) (month c) (day c) \<and> civil_days (year c) (month c) (day c) = days"
proof -
  define z era doe where zed: "z = days + 719468" "era = z div 146097" "doe = z mod 146097"
  have "0 \<le> doe" "doe \<le> 146096" using pos_mod_bound [of 146097 z] by (simp_all add: zed del: pos_mod_bound)
  then obtain ce q s u where p: "era_parts doe ce q s u" using era_parts_exist by blast
  define yoe where "yoe = 100 * ce + 4 * q + s"
  have ey: "year_of_era doe = yoe" using era_year [OF p] by (simp add: year_of_era_def yoe_def)
  note ed = era_day [OF p, folded yoe_def]
  have ed1: "day_of_year doe yoe = u" using ed(1) by (simp add: day_of_year_def)
  obtain m d where m: "month_and_day u = (m, d)" by fastforce
  obtain h mi sc where "split_clock (sec mod 86400) = (h, mi, sc)" by (metis prod_cases3)
  then have c: "month c = m" "day c = d" "year c = (if m \<le> 2 then 400 * era + yoe + 1 else 400 * era + yoe)"
    unfolding c_def splitTime_def Let_def split_day prod.case split_era
    by (simp_all add: days [symmetric] zed(1) [symmetric] zed(2,3) [symmetric] ey ed1 m)
  have u: "0 \<le> u" "u \<le> 365" using p by (auto simp: era_parts_def)
  note md = month_and_day [OF u m]
  note dy = days_before_era_year [OF ed(2,3), of era]
  have doe: "z = 146097 * era + (365 * yoe + yoe div 4 - yoe div 100 + u)"
    using ed(1) mult_div_mod_eq [of 146097 z] unfolding zed(2,3) by linarith
  show ?thesis
  proof (cases "m \<le> 2")
    case True
    then show ?thesis
      using md(1) [of "400 * era + yoe + 1"] era_leap [OF p, of era, folded yoe_def] dy doe zed(1)
      by (simp add: c civil_days_def)
  next
    case False
    then show ?thesis
      using md(2) [of "400 * era + yoe"] days_before_next_year [of "400 * era + yoe"] dy doe zed(1)
      by (simp add: c civil_days_def split: if_splits)
  qed
qed

lemma splitTime_clock:
  fixes sec :: int
  defines "c \<equiv> splitTime sec"
  shows "0 \<le> hour c" "hour c < 24" "0 \<le> minute c" "minute c < 60" "0 \<le> second c" "second c < 60"
    and "3600 * hour c + 60 * minute c + second c = sec mod 86400"
proof -
  define r where "r = sec mod 86400"
  have r: "0 \<le> r" "r < 86400" by (simp_all add: r_def)
  have "hour c = r div 3600" "minute c = (r - r div 3600 * 3600) div 60"
    "second c = r - r div 3600 * 3600 - (r - r div 3600 * 3600) div 60 * 60"
    unfolding c_def splitTime_def by (simp_all add: split_day r_def split_clock_def Let_def split: prod.splits)
  then show "0 \<le> hour c" "hour c < 24" "0 \<le> minute c" "minute c < 60" "0 \<le> second c" "second c < 60"
    "3600 * hour c + 60 * minute c + second c = sec mod 86400"
    unfolding r_def [symmetric] using r by linarith+
qed

section \<open>Properties\<close>

text \<open>For every number of Unix seconds, \<open>splitTime\<close> returns an existing date of the proleptic
  Gregorian calendar and a time of day in range, and they denote exactly that instant.\<close>

theorem splitTime_correct:
  "valid_date (year (splitTime sec)) (month (splitTime sec)) (day (splitTime sec)) \<and>
   0 \<le> hour (splitTime sec) \<and> hour (splitTime sec) < 24 \<and>
   0 \<le> minute (splitTime sec) \<and> minute (splitTime sec) < 60 \<and>
   0 \<le> second (splitTime sec) \<and> second (splitTime sec) < 60 \<and>
   86400 * civil_days (year (splitTime sec)) (month (splitTime sec)) (day (splitTime sec)) +
     3600 * hour (splitTime sec) + 60 * minute (splitTime sec) + second (splitTime sec) = sec"
proof (intro conjI)
  show "86400 * civil_days (year (splitTime sec)) (month (splitTime sec)) (day (splitTime sec)) +
     3600 * hour (splitTime sec) + 60 * minute (splitTime sec) + second (splitTime sec) = sec"
    using splitTime_date [OF refl, of sec] splitTime_clock(7) [of sec] mult_div_mod_eq [of 86400 sec] by linarith
qed (use splitTime_date [OF refl, of sec] splitTime_clock [of sec] in blast)+

end
