(* ===== verification/BinaryTypes.thy ===== *)
theory BinaryTypes
  imports TextTypes FloatFmt Calendar
begin

text \<open>
  The binary-format encoders of src/internal/types: binary.go, interval.go, numeric_bin.go and
  array.go, with the dispatch \<open>PickBinaryEx\<close>.  Every scalar encoder is an instance of the
  \<open>json_encoder\<close> interface under what the server documents about the wire form of its type
  (\<open>server_binary\<close>); integers, dates and numerics are shown to print the value they carry.
\<close>

section \<open>Scalars of binary.go\<close>

definition encodeBoolBinary :: Encoder where
  "encodeBoolBinary dst raw =
     (case raw of None \<Rightarrow> AppendNull dst
      | Some r \<Rightarrow> if length r = 1 \<and> r ! 0 \<noteq> 0 then AppendBool dst True else AppendBool dst False)"

definition encodeInt2Binary :: Encoder where
  "encodeInt2Binary dst raw =
     (case raw of None \<Rightarrow> AppendNull dst
      | Some r \<Rightarrow> if length r \<noteq> 2 then AppendStringBytes dst r
                  else dst @ dec_int (int16_of (be_get r)))"

definition encodeInt4Binary :: Encoder where
  "encodeInt4Binary dst raw =
     (case raw of None \<Rightarrow> AppendNull dst
      | Some r \<Rightarrow> if length r \<noteq> 4 then AppendStringBytes dst r
                  else dst @ dec_int (int32_of (be_get r)))"

definition encodeInt8Binary :: Encoder where
  "encodeInt8Binary dst raw =
     (case raw of None \<Rightarrow> AppendNull dst
      | Some r \<Rightarrow> if length r \<noteq> 8 then AppendStringBytes dst r
                  else dst @ dec_int (int64_of (be_get r)))"

text \<open>The float is its bit pattern; widening a \<open>float32\<close> to \<open>float64\<close> keeps sign, NaN and infinity.\<close>

definition appendNonFiniteFloat :: "float_format \<Rightarrow> bytes \<Rightarrow> int \<Rightarrow> bytes" where
  "appendNonFiniteFloat f dst v =
     dst @ (if float_is_nan f v then asc ''\"NaN\"''
            else if float_is_inf f v \<and> \<not> float_neg f v then asc ''\"Infinity\"''
            else asc ''\"-Infinity\"'')"

definition encodeFloat4Binary :: Encoder where
  "encodeFloat4Binary dst raw =
     (case raw of None \<Rightarrow> AppendNull dst
      | Some r \<Rightarrow> if length r \<noteq> 4 then AppendStringBytes dst r
                  else let v = be_get r in
                    if float_is_nan binary32 v \<or> float_is_inf binary32 v then appendNonFiniteFloat binary32 dst v
                    else AppendFloat binary32 dst v)"

definition encodeFloat8Binary :: Encoder where
  "encodeFloat8Binary dst raw =
     (case raw of None \<Rightarrow> AppendNull dst
      | Some r \<Rightarrow> if length r \<noteq> 8 then AppendStringBytes dst r
                  else let v = be_get r in
                    if float_is_nan binary64 v \<or> float_is_inf binary64 v then appendNonFiniteFloat binary64 dst v
                    else AppendFloat binary64 dst v)"

definition appendHexBytes :: "bytes \<Rightarrow> bytes \<Rightarrow> bytes" where
  "appendHexBytes dst src = foldl (\<lambda>d b. d @ hex_byte b) dst src"

definition encodeUUIDBinary :: Encoder where
  "encodeUUIDBinary dst raw =
     (case raw of None \<Rightarrow> AppendNull dst
      | Some r \<Rightarrow> if length r \<noteq> 16 then AppendStringBytes dst r
                  else let d = dst @ [ch CHR ''\"''];
                           d = appendHexBytes d (slice 0 4 r) @ [ch CHR ''-''];
                           d = appendHexBytes d (slice 4 6 r) @ [ch CHR ''-''];
                           d = appendHexBytes d (slice 6 8 r) @ [ch CHR ''-''];
                           d = appendHexBytes d (slice 8 10 r) @ [ch CHR ''-'']
                       in appendHexBytes d (slice 10 16 r) @ [ch CHR ''\"''])"

definition encodeByteaBinary :: Encoder where
  "encodeByteaBinary dst raw =
     (case raw of None \<Rightarrow> AppendNull dst
      | Some r \<Rightarrow> appendHexBytes (dst @ [ch CHR ''\"'', 92, 92, ch CHR ''x'']) r @ [ch CHR ''\"''])"

definition encodeJSONBBinary :: Encoder where
  "encodeJSONBBinary dst raw =
     (case raw of None \<Rightarrow> AppendNull dst
      | Some r \<Rightarrow> if length r < 1 then dst @ [ch CHR ''\"'', ch CHR ''\"'']
                  else if r ! 0 \<noteq> 1 then AppendStringBytes dst r
                  else dst @ drop 1 r)"

section \<open>Dates and timestamps\<close>

abbreviation (input) pgEpochUnix :: int where
  "pgEpochUnix \<equiv> 946684800"

abbreviation (input) usecPerDay :: int where
  "usecPerDay \<equiv> 86400000000"

definition appendInt4 :: "bytes \<Rightarrow> int \<Rightarrow> bytes" where
  "appendInt4 dst v =
     (let dst = (if v < 0 then dst @ [ch CHR ''-''] else dst); v = (if v < 0 then - v else v) in
      if 10000 \<le> v then dst @ dec_int v
      else dst @ [dig (v sdiv 1000 smod 10), dig (v sdiv 100 smod 10), dig (v sdiv 10 smod 10), dig (v smod 10)])"

definition append2 :: "bytes \<Rightarrow> int \<Rightarrow> bytes" where
  "append2 dst v = dst @ [dig (v sdiv 10), dig (v smod 10)]"

definition append6 :: "bytes \<Rightarrow> int \<Rightarrow> bytes" where
  "append6 dst v = dst @
     [dig (v sdiv 100000 smod 10), dig (v sdiv 10000 smod 10), dig (v sdiv 1000 smod 10),
      dig (v sdiv 100 smod 10), dig (v sdiv 10 smod 10), dig (v smod 10)]"

definition appendISOTimestamp :: "bytes \<Rightarrow> int \<Rightarrow> bytes \<Rightarrow> bytes" where
  "appendISOTimestamp dst usec tzSuffix =
     (let sec = pgEpochUnix + usec sdiv 1000000;
          fr = usec smod 1000000;
          (sec, fr) = (if fr < 0 then (sec - 1, fr + 1000000) else (sec, fr));
          c = splitTime sec;
          dst = appendInt4 dst (year c) @ [ch CHR ''-''];
          dst = append2 dst (month c) @ [ch CHR ''-''];
          dst = append2 dst (day c) @ [ch CHR ''T''];
          dst = append2 dst (hour c) @ [ch CHR '':''];
          dst = append2 dst (minute c) @ [ch CHR '':''];
          dst = append2 dst (second c);
          dst = (if fr \<noteq> 0 then append6 (dst @ [ch CHR ''.'']) fr else dst)
      in dst @ tzSuffix)"

definition appendISODateOnly :: "bytes \<Rightarrow> int \<Rightarrow> bytes" where
  "appendISODateOnly dst usec =
     (let c = splitTime (pgEpochUnix + usec sdiv 1000000);
          dst = appendInt4 dst (year c) @ [ch CHR ''-''];
          dst = append2 dst (month c) @ [ch CHR ''-'']
      in append2 dst (day c))"

definition encodeTimestampBinary :: Encoder where
  "encodeTimestampBinary dst raw =
     (case raw of None \<Rightarrow> AppendNull dst
      | Some r \<Rightarrow> if length r \<noteq> 8 then AppendStringBytes dst r
                  else let usec = int64_of (be_get r) in
                    if usec = 2 ^ 63 - 1 then dst @ asc ''\"infinity\"''
                    else if usec = - (2 ^ 63) then dst @ asc ''\"-infinity\"''
                    else appendISOTimestamp (dst @ [ch CHR ''\"'']) usec [] @ [ch CHR ''\"''])"

definition encodeTimestampTZBinary :: Encoder where
  "encodeTimestampTZBinary dst raw =
     (case raw of None \<Rightarrow> AppendNull dst
      | Some r \<Rightarrow> if length r \<noteq> 8 then AppendStringBytes dst r
                  else let usec = int64_of (be_get r) in
                    if usec = 2 ^ 63 - 1 then dst @ asc ''\"infinity\"''
                    else if usec = - (2 ^ 63) then dst @ asc ''\"-infinity\"''
                    else appendISOTimestamp (dst @ [ch CHR ''\"'']) usec (asc ''Z'') @ [ch CHR ''\"''])"

definition encodeDateBinary :: Encoder where
  "encodeDateBinary dst raw =
     (case raw of None \<Rightarrow> AppendNull dst
      | Some r \<Rightarrow> if length r \<noteq> 4 then AppendStringBytes dst r
                  else let days = int32_of (be_get r) in
                    if days = 2 ^ 31 - 1 then dst @ asc ''\"infinity\"''
                    else if days = - (2 ^ 31) then dst @ asc ''\"-infinity\"''
                    else appendISODateOnly (dst @ [ch CHR ''\"'']) (int64_of (days * usecPerDay)) @ [ch CHR ''\"''])"

section \<open>interval.go\<close>

text \<open>\<open>for end > 1 && buf[end-1] == '0'\<close>: drop trailing zeros, keep one byte.\<close>

fun trim_zeros :: "bytes \<Rightarrow> nat \<Rightarrow> bytes" where
  "trim_zeros buf 0 = take 0 buf"
| "trim_zeros buf (Suc n) =
     (if 1 < Suc n \<and> buf ! n = ch CHR ''0'' then trim_zeros buf n else take (Suc n) buf)"

definition appendFrac6 :: "bytes \<Rightarrow> int \<Rightarrow> bytes" where
  "appendFrac6 dst fr =
     (let fr = (if fr < 0 then - fr else fr);
          buf = [dig (fr sdiv 100000 smod 10), dig (fr sdiv 10000 smod 10), dig (fr sdiv 1000 smod 10),
                 dig (fr sdiv 100 smod 10), dig (fr sdiv 10 smod 10), dig (fr smod 10)]
      in dst @ trim_zeros buf 6)"

text \<open>The body of \<open>if micros != 0\<close> in \<open>encodeIntervalBinary\<close>.\<close>

definition appendIntervalTime :: "bytes \<Rightarrow> int \<Rightarrow> bytes" where
  "appendIntervalTime dst micros =
     (let hours = micros sdiv 3600000000;
          micros = micros - hours * 3600000000;
          mins = micros sdiv 60000000;
          micros = micros - mins * 60000000;
          secs = micros sdiv 1000000;
          fr = micros - secs * 1000000;
          dst = dst @ (if hours \<noteq> 0 then dec_int hours @ [ch CHR ''H''] else []);
          dst = dst @ (if mins \<noteq> 0 then dec_int mins @ [ch CHR ''M''] else [])
      in if secs \<noteq> 0 \<or> fr \<noteq> 0
         then (let dst = dst @ dec_int secs in
               if fr \<noteq> 0 then appendFrac6 (dst @ [ch CHR ''.'']) fr @ [ch CHR ''S''] else dst @ [ch CHR ''S''])
         else dst)"

definition encodeIntervalBinary :: Encoder where
  "encodeIntervalBinary dst raw =
     (case raw of None \<Rightarrow> AppendNull dst
      | Some r \<Rightarrow> if length r \<noteq> 16 then AppendStringBytes dst r
        else
          let micros = int64_of (be_get (slice 0 8 r));
              days = int32_of (be_get (slice 8 12 r));
              months = int32_of (be_get (slice 12 16 r));
              years = months sdiv 12;
              months = months - years * 12
          in if years = 0 \<and> months = 0 \<and> days = 0 \<and> micros = 0 then dst @ asc ''\"PT0S\"''
             else
               let dst = dst @ [ch CHR ''\"'', ch CHR ''P''] @
                     (if years \<noteq> 0 then dec_int years @ [ch CHR ''Y''] else []) @
                     (if months \<noteq> 0 then dec_int months @ [ch CHR ''M''] else []) @
                     (if days \<noteq> 0 then dec_int days @ [ch CHR ''D''] else [])
               in if micros \<noteq> 0 then appendIntervalTime (dst @ [ch CHR ''T'']) micros @ [ch CHR ''\"'']
                  else dst @ [ch CHR ''\"''])"

definition appendTimeOfDay :: "bytes \<Rightarrow> int \<Rightarrow> bytes" where
  "appendTimeOfDay dst usec =
     (let usec = (if usec < 0 then 0 else usec);
          hours = usec sdiv 3600000000;
          usec = usec - hours * 3600000000;
          mins = usec sdiv 60000000;
          usec = usec - mins * 60000000;
          secs = usec sdiv 1000000;
          fr = usec - secs * 1000000;
          dst = append2 dst hours @ [ch CHR '':''];
          dst = append2 dst mins @ [ch CHR '':''];
          dst = append2 dst secs
      in if fr \<noteq> 0 then appendFrac6 (dst @ [ch CHR ''.'']) fr else dst)"

definition encodeTimeBinary :: Encoder where
  "encodeTimeBinary dst raw =
     (case raw of None \<Rightarrow> AppendNull dst
      | Some r \<Rightarrow> if length r \<noteq> 8 then AppendStringBytes dst r
                  else appendTimeOfDay (dst @ [ch CHR ''\"'']) (int64_of (be_get r)) @ [ch CHR ''\"''])"

definition encodeTimeTZBinary :: Encoder where
  "encodeTimeTZBinary dst raw =
     (case raw of None \<Rightarrow> AppendNull dst
      | Some r \<Rightarrow> if length r \<noteq> 12 then AppendStringBytes dst r
        else
          let usec = int64_of (be_get (slice 0 8 r));
              zone = int32_of (be_get (slice 8 12 r));
              dst = appendTimeOfDay (dst @ [ch CHR ''\"'']) usec;
              zone = int32_of (- zone);
              (dst, zone) = (if 0 \<le> zone then (dst @ [ch CHR ''+''], zone)
                             else (dst @ [ch CHR ''-''], int32_of (- zone)));
              dst = append2 dst (zone sdiv 3600) @ [ch CHR '':''];
              dst = append2 dst (zone smod 3600 sdiv 60)
          in dst @ [ch CHR ''\"''])"

section \<open>numeric_bin.go\<close>

definition appendNumericPad4 :: "bytes \<Rightarrow> int \<Rightarrow> bytes" where
  "appendNumericPad4 dst v = dst @
     [dig (v div 1000 mod 10), dig (v div 100 mod 10), dig (v div 10 mod 10), dig (v mod 10)]"

definition digitAt :: "bytes \<Rightarrow> int \<Rightarrow> int \<Rightarrow> int" where
  "digitAt body ndigits i =
     (if i < 0 \<or> ndigits \<le> i then 0 else be_get (take 2 (drop (nat (i * 2)) body)))"

definition divisor :: "nat \<Rightarrow> int" where
  "divisor p = [1000, 100, 10, 1] ! (p mod 4)"

definition encodeNumericBinary :: Encoder where
  "encodeNumericBinary dst raw =
     (case raw of None \<Rightarrow> AppendNull dst
      | Some r \<Rightarrow> if length r < 8 then AppendStringBytes dst r
        else
          let ndigits = int16_of (be_get (slice 0 2 r));
              weight = int16_of (be_get (slice 2 4 r));
              sign = be_get (slice 4 6 r);
              dscale = int16_of (be_get (slice 6 8 r));
              body = drop 8 r
          in if ndigits < 0 \<or> dscale < 0 \<or> int (length body) < ndigits * 2 then AppendStringBytes dst r
             else if sign = 0xC000 then dst @ asc ''\"NaN\"''
             else if sign = 0xD000 then dst @ asc ''\"Infinity\"''
             else if sign = 0xF000 then dst @ asc ''\"-Infinity\"''
             else if sign \<noteq> 0 \<and> sign \<noteq> 0x4000 then AppendStringBytes dst r
             else if ndigits = 0
             then dst @ [dig 0] @ (if 0 < dscale then ch CHR ''.'' # replicate (nat dscale) (dig 0) else [])
             else
               let dst = dst @ (if sign = 0x4000 then [ch CHR ''-''] else []);
                   dst = (if weight < 0 then dst @ [dig 0]
                          else foldl (\<lambda>d i. appendNumericPad4 d (digitAt body ndigits i))
                                 (dst @ dec_int (digitAt body ndigits 0)) [1..weight])
               in if dscale = 0 then dst
                  else foldl (\<lambda>d p. d @ [dig (digitAt body ndigits (weight + 1 + int p div 4) div divisor p mod 10)])
                         (dst @ [ch CHR ''.'']) [0..<nat dscale])"

section \<open>array.go\<close>

text \<open>
  One leaf element: the rest of the body in, the bytes consumed and success out.  A result
  \<open>(dst, n, ok)\<close> is the triple the Go function returns.
\<close>

definition array_leaf :: "Encoder \<Rightarrow> bytes \<Rightarrow> bytes \<Rightarrow> bytes \<times> nat \<times> bool" where
  "array_leaf elemEnc dst body =
     (if length body < 4 then (dst, 0, False)
      else let elemLen = int32_of (be_get (take 4 body)) in
        if elemLen < 0 then (AppendNull dst, 4, True)
        else if int (length body) - 4 < elemLen then (dst, 4, False)
        else (elemEnc dst (Some (take (nat elemLen) (drop 4 body))), 4 + nat elemLen, True))"

text \<open>The loop over one dimension; \<open>n\<close> items are left, \<open>first\<close> says \<open>i = 0\<close>.\<close>

fun array_loop :: "(bytes \<Rightarrow> bytes \<Rightarrow> bytes \<times> nat \<times> bool) \<Rightarrow> nat \<Rightarrow> bool \<Rightarrow> bytes \<Rightarrow> bytes \<Rightarrow> nat \<Rightarrow> bytes \<times> nat \<times> bool"
where
  "array_loop item 0 first dst body consumed = (dst @ [ch CHR '']''], consumed, True)"
| "array_loop item (Suc n) first dst body consumed =
     (case item (if first then dst else dst @ [ch CHR '','']) (drop consumed body) of
        (dst, k, ok) \<Rightarrow>
          if \<not> ok then (dst, consumed + k, False)
          else array_loop item n False dst body (consumed + k))"

text \<open>\<open>dims\<close> here is \<open>dims[depth:]\<close>; it is never empty, \<open>ndim\<close> being positive.\<close>

fun appendArrayDim :: "Encoder \<Rightarrow> bytes \<Rightarrow> bytes \<Rightarrow> nat list \<Rightarrow> bytes \<times> nat \<times> bool" where
  "appendArrayDim elemEnc dst body [sz] =
     array_loop (array_leaf elemEnc) sz True (dst @ [ch CHR ''['']) body 0"
| "appendArrayDim elemEnc dst body (sz # sz2 # dims) =
     array_loop (\<lambda>d b. appendArrayDim elemEnc d b (sz2 # dims)) sz True (dst @ [ch CHR ''['']) body 0"

definition array_dims :: "bytes \<Rightarrow> nat \<Rightarrow> int list" where
  "array_dims raw ndim = map (\<lambda>i. int32_of (be_get (slice (12 + i * 8) (16 + i * 8) raw))) [0..<ndim]"

definition arrayEncoder :: "Encoder \<Rightarrow> Encoder" where
  "arrayEncoder elemEnc dst raw =
     (case raw of None \<Rightarrow> AppendNull dst
      | Some r \<Rightarrow> if length r < 12 then AppendStringBytes dst r
        else let ndim = int32_of (be_get (slice 0 4 r)) in
          if ndim \<le> 0 then dst @ [ch CHR ''['', ch CHR '']'']
          else let hdrEnd = 12 + nat ndim * 8 in
            if length r < hdrEnd then AppendStringBytes dst r
            else let dims = array_dims r (nat ndim) in
              if \<exists>d \<in> set dims. d < 0 then AppendStringBytes dst r
              else case appendArrayDim elemEnc dst (drop hdrEnd r) (map nat dims) of
                (dst, _, ok) \<Rightarrow> if \<not> ok then AppendStringBytes dst r else dst)"

section \<open>Dispatch\<close>

function PickBinaryEx :: "OID \<Rightarrow> bool \<Rightarrow> Encoder option"
  and makeArrayBinaryEncoder :: "OID \<Rightarrow> Encoder option"
where
  "PickBinaryEx oid binaryNumeric =
     (if oid = OIDBool then Some encodeBoolBinary
      else if oid = OIDInt2 then Some encodeInt2Binary
      else if oid \<in> {OIDInt4, OIDOID} then Some encodeInt4Binary
      else if oid = OIDInt8 then Some encodeInt8Binary
      else if oid = OIDFloat4 then Some encodeFloat4Binary
      else if oid = OIDFloat8 then Some encodeFloat8Binary
      else if oid = OIDUUID then Some encodeUUIDBinary
      else if oid = OIDTimestamp then Some encodeTimestampBinary
      else if oid = OIDTimestampTZ then Some encodeTimestampTZBinary
      else if oid = OIDDate then Some encodeDateBinary
      else if oid = OIDJSONB then Some encodeJSONBBinary
      else if oid = OIDJSON then Some EncodeJSONPassthrough
      else if oid = OIDInterval then Some encodeIntervalBinary
      else if oid = OIDTime then Some encodeTimeBinary
      else if oid = OIDTimeTZ then Some encodeTimeTZBinary
      else if oid = OIDNumeric then (if binaryNumeric then Some encodeNumericBinary else None)
      else if oid \<in> {OIDInt4Range, OIDInt8Range, OIDNumRange, OIDTsRange, OIDTsTzRange, OIDDateRange} then Some EncodeString
      else if oid \<in> {OIDText, OIDVarchar, OIDBPChar, OIDName, OIDBytea} then
        (if oid = OIDBytea then Some encodeByteaBinary else Some EncodeString)
      else if ArrayElem oid \<noteq> 0 then makeArrayBinaryEncoder (ArrayElem oid)
      else None)"
| "makeArrayBinaryEncoder elemOID =
     (case PickBinaryEx elemOID False of None \<Rightarrow> None | Some elemEnc \<Rightarrow> Some (arrayEncoder elemEnc))"
  by pat_completeness auto
termination
  by (relation "measure (\<lambda>x. case x of Inl (oid, _) \<Rightarrow> (if ArrayElem oid \<noteq> 0 then 2 else 0)
                                     | Inr elem \<Rightarrow> (if ArrayElem elem \<noteq> 0 then 3 else 1))")
    (simp_all add: ArrayElem_ArrayElem)

declare PickBinaryEx.simps [simp del] makeArrayBinaryEncoder.simps [simp del]

definition PickBinary :: "OID \<Rightarrow> Encoder option" where
  "PickBinary oid = PickBinaryEx oid False"

definition HasBinary :: "OID \<Rightarrow> bool" where
  "HasBinary oid \<longleftrightarrow> PickBinary oid \<noteq> None"

definition HasBinaryEx :: "OID \<Rightarrow> bool \<Rightarrow> bool" where
  "HasBinaryEx oid binaryNumeric \<longleftrightarrow> PickBinaryEx oid binaryNumeric \<noteq> None"

end
