(* ===== verification/BinaryCorrect.thy ===== *)
theory BinaryCorrect
  imports BinaryTypes
begin

text \<open>
  Correctness of the binary encoders: they meet the \<open>json_encoder\<close> contract, integers are
  printed exactly, timestamps name the instant on the wire, numerics print their decimal
  value, and arrays print as nested JSON arrays.  Also the inputs on which the code does
  something else: dates beyond the 64-bit microsecond range, negative sub-second intervals,
  and malformed arrays.
\<close>

section \<open>Plain text\<close>

lemma plain_digit: "is_digit c \<Longrightarrow> plain_char c"
  by (simp add: plain_char_def)

lemma plain_dig [simp]: "0 \<le> d \<Longrightarrow> d < 10 \<Longrightarrow> plain_char (dig d)"
  by (simp add: plain_digit is_digit_dig)

lemma plain_dec_nat [simp]: "list_all plain_char (dec_nat n)"
  using dec_nat_digits [of n] by (auto simp: list_all_iff plain_digit)

lemma plain_dec_int [simp]: "list_all plain_char (dec_int v)"
  by (simp add: dec_int_def plain_char_def)

lemma mod_10_bounds [simp]: "0 \<le> (v::int) mod 10" "(v::int) mod 10 < 10"
  by simp_all

lemma appendInt4_append: "appendInt4 dst v = dst @ appendInt4 [] v"
  by (simp add: appendInt4_def Let_def)

lemma appendInt4_plain: "list_all plain_char (appendInt4 [] v)"
  by (simp add: appendInt4_def Let_def sdiv_nonneg smod_nonneg pos_imp_zdiv_nonneg_iff plain_char_def [of 45])

lemma append2_append: "append2 dst v = dst @ append2 [] v"
  by (simp add: append2_def)

lemma append2_plain: "0 \<le> v \<Longrightarrow> v < 100 \<Longrightarrow> list_all plain_char (append2 [] v)"
  by (simp add: append2_def sdiv_nonneg smod_nonneg)

lemma append6_append: "append6 dst v = dst @ append6 [] v"
  by (simp add: append6_def)

lemma append6_plain: "0 \<le> v \<Longrightarrow> list_all plain_char (append6 [] v)"
  by (simp add: append6_def sdiv_nonneg smod_nonneg pos_imp_zdiv_nonneg_iff)

lemma trim_zeros_prefix: "n \<le> length buf \<Longrightarrow> \<exists>m. trim_zeros buf n = take m buf"
  by (induction n) auto

lemma appendFrac6_append: "appendFrac6 dst v = dst @ appendFrac6 [] v"
  by (simp add: appendFrac6_def Let_def)

lemma appendFrac6_plain: "list_all plain_char (appendFrac6 [] v)"
proof -
  define w where "w = (if v < 0 then - v else v)"
  define buf where "buf = [dig (w sdiv 100000 smod 10), dig (w sdiv 10000 smod 10), dig (w sdiv 1000 smod 10),
                 dig (w sdiv 100 smod 10), dig (w sdiv 10 smod 10), dig (w smod 10)]"
  have "0 \<le> w" by (simp add: w_def)
  then have "list_all plain_char buf"
    by (simp add: buf_def sdiv_nonneg smod_nonneg pos_imp_zdiv_nonneg_iff)
  moreover have "appendFrac6 [] v = trim_zeros buf 6" by (simp add: appendFrac6_def Let_def w_def buf_def)
  moreover have "\<exists>m. trim_zeros buf 6 = take m buf" by (rule trim_zeros_prefix) (simp add: buf_def)
  ultimately show ?thesis by (metis list_all_iff in_set_takeD)
qed

lemma appendHexBytes_eq: "appendHexBytes dst s = dst @ concat (map hex_byte s)"
  unfolding appendHexBytes_def by (induction s arbitrary: dst) simp_all

lemma plain_punctuation [simp]:
  "plain_char 43" "plain_char 45" "plain_char 46" "plain_char 58" "plain_char 68" "plain_char 72"
  "plain_char 77" "plain_char 80" "plain_char 83" "plain_char 84" "plain_char 89" "plain_char 90"
  by (simp_all add: plain_char_def)

text \<open>A quoted plain text is a JSON value.\<close>

lemma json_value_plain: "list_all plain_char s \<Longrightarrow> json_value (34 # s @ [34])"
  by (intro json_str json_string_plain)

lemma json_value_words:
  "json_value (asc ''\"NaN\"'')" "json_value (asc ''\"Infinity\"'')" "json_value (asc ''\"-Infinity\"'')"
  "json_value (asc ''\"infinity\"'')" "json_value (asc ''\"-infinity\"'')" "json_value (asc ''\"PT0S\"'')"
proof -
  have w: "list_all plain_char (asc s) \<Longrightarrow> json_value (asc (CHR ''\"'' # s @ ''\"''))" for s
    using json_value_plain [of "asc s"] by (simp add: asc_def)
  show "json_value (asc ''\"NaN\"'')" "json_value (asc ''\"Infinity\"'')" "json_value (asc ''\"-Infinity\"'')"
    "json_value (asc ''\"infinity\"'')" "json_value (asc ''\"-infinity\"'')" "json_value (asc ''\"PT0S\"'')"
    using w [of "''NaN''"] w [of "''Infinity''"] w [of "''-Infinity''"] w [of "''infinity''"] w [of "''-infinity''"]
      w [of "''PT0S''"]
    by (simp_all add: plain_char_def ascii_simps)
qed

section \<open>The scalar encoders meet the contract\<close>

lemmas bin_intros = encoder_intros json_value_plain json_value_words json_number_dec_int

interpretation bin_bool: json_encoder encodeBoolBinary "\<lambda>_. True"
  by unfold_locales (auto simp: encodeBoolBinary_def writer_eqs intro: bin_intros split: option.splits)

interpretation bin_int2: json_encoder encodeInt2Binary "\<lambda>_. True"
  by unfold_locales (auto simp: encodeInt2Binary_def writer_eqs intro: bin_intros split: option.splits)

interpretation bin_int4: json_encoder encodeInt4Binary "\<lambda>_. True"
  by unfold_locales (auto simp: encodeInt4Binary_def writer_eqs intro: bin_intros split: option.splits)

interpretation bin_int8: json_encoder encodeInt8Binary "\<lambda>_. True"
  by unfold_locales (auto simp: encodeInt8Binary_def writer_eqs intro: bin_intros split: option.splits)

interpretation bin_jsonb: json_encoder encodeJSONBBinary "\<lambda>r. r \<noteq> [] \<longrightarrow> hd r = 1 \<longrightarrow> json_value (tl r)"
proof unfold_locales
  fix r :: bytes
  assume "r \<noteq> [] \<longrightarrow> hd r = 1 \<longrightarrow> json_value (tl r)"
  then show "json_value (encodeJSONBBinary [] (Some r))"
    by (cases r) (auto simp: encodeJSONBBinary_def writer_eqs simp del: escape_ref_simps intro: bin_intros)
qed (auto simp: encodeJSONBBinary_def writer_eqs split: option.splits)

interpretation bin_bytea: json_encoder encodeByteaBinary "\<lambda>_. True"
  by unfold_locales
    (auto simp: encodeByteaBinary_def writer_eqs appendHexBytes_eq intro: bin_intros split: option.splits)

lemma AppendFloat_append: "AppendFloat f dst v = dst @ AppendFloat f [] v"
  by (simp add: AppendFloat_def)

lemma AppendFloat_value: "f \<in> {binary32, binary64} \<Longrightarrow> json_value (AppendFloat f [] v)"
  using AppendFloat_json [of f "[]" v] by (auto intro: json_intros)

lemma appendNonFiniteFloat_value: "json_value (appendNonFiniteFloat f [] v)"
  by (simp add: appendNonFiniteFloat_def json_value_words)

lemma appendNonFiniteFloat_append: "appendNonFiniteFloat f dst v = dst @ appendNonFiniteFloat f [] v"
  by (simp add: appendNonFiniteFloat_def)

interpretation bin_float4: json_encoder encodeFloat4Binary "\<lambda>_. True"
proof unfold_locales
  fix dst raw
  show "encodeFloat4Binary dst raw = dst @ encodeFloat4Binary [] raw"
    by (cases raw) (simp_all add: encodeFloat4Binary_def writer_eqs Let_def
        AppendFloat_append [of _ dst] appendNonFiniteFloat_append [of _ dst])
qed (auto simp: encodeFloat4Binary_def writer_eqs Let_def
    intro: bin_intros AppendFloat_value appendNonFiniteFloat_value)

interpretation bin_float8: json_encoder encodeFloat8Binary "\<lambda>_. True"
proof unfold_locales
  fix dst raw
  show "encodeFloat8Binary dst raw = dst @ encodeFloat8Binary [] raw"
    by (cases raw) (simp_all add: encodeFloat8Binary_def writer_eqs Let_def
        AppendFloat_append [of _ dst] appendNonFiniteFloat_append [of _ dst])
qed (auto simp: encodeFloat8Binary_def writer_eqs Let_def
    intro: bin_intros AppendFloat_value appendNonFiniteFloat_value)

interpretation bin_uuid: json_encoder encodeUUIDBinary "\<lambda>_. True"
proof unfold_locales
  fix r :: bytes
  let ?h = "\<lambda>a b. concat (map hex_byte (slice a b r))"
  define t where "t = ?h 0 4 @ 45 # ?h 4 6 @ 45 # ?h 6 8 @ 45 # ?h 8 10 @ 45 # ?h 10 16"
  have "length r = 16 \<Longrightarrow> encodeUUIDBinary [] (Some r) = 34 # t @ [34]"
    by (simp add: encodeUUIDBinary_def Let_def appendHexBytes_eq t_def)
  moreover have "list_all plain_char t" by (simp add: t_def hex_plain_concat)
  ultimately show "json_value (encodeUUIDBinary [] (Some r))"
    by (cases "length r = 16") (simp_all add: json_value_plain json_value_escaped encodeUUIDBinary_def writer_eqs)
qed (auto simp: encodeUUIDBinary_def writer_eqs Let_def appendHexBytes_eq split: option.splits)

section \<open>Timestamps and dates\<close>

text \<open>The last \<open>w\<close> decimal digits of a number, and ISO 8601 text built from them.\<close>

fun zdigits :: "nat \<Rightarrow> int \<Rightarrow> bytes" where
  "zdigits 0 v = []"
| "zdigits (Suc w) v = zdigits w (v div 10) @ [dig (v mod 10)]"

definition iso_year :: "int \<Rightarrow> bytes" where
  "iso_year y = (if y < 0 then [45] else []) @ (if \<bar>y\<bar> < 10000 then zdigits 4 \<bar>y\<bar> else dec_nat (nat \<bar>y\<bar>))"

definition iso_date :: "civil \<Rightarrow> bytes" where
  "iso_date c = iso_year (year c) @ 45 # zdigits 2 (month c) @ 45 # zdigits 2 (day c)"

definition iso_text :: "civil \<Rightarrow> int \<Rightarrow> bytes \<Rightarrow> bytes" where
  "iso_text c us tz =
     iso_date c @ 84 # zdigits 2 (hour c) @ 58 # zdigits 2 (minute c) @ 58 # zdigits 2 (second c) @
     (if us = 0 then [] else 46 # zdigits 6 us) @ tz"

text \<open>The instant a civil time denotes, in seconds since 1970-01-01 00:00:00.\<close>

definition instant :: "civil \<Rightarrow> int" where
  "instant c = 86400 * civil_days (year c) (month c) (day c) + 3600 * hour c + 60 * minute c + second c"

definition valid_civil :: "civil \<Rightarrow> bool" where
  "valid_civil c \<longleftrightarrow> valid_date (year c) (month c) (day c) \<and> 0 \<le> hour c \<and> hour c < 24 \<and>
     0 \<le> minute c \<and> minute c < 60 \<and> 0 \<le> second c \<and> second c < 60"

lemma splitTime_valid: "valid_civil (splitTime sec)"
  using splitTime_date [OF refl, of sec] splitTime_clock [of sec] by (simp add: valid_civil_def)

lemma splitTime_instant: "instant (splitTime sec) = sec"
  using splitTime_date [OF refl, of sec] splitTime_clock(7) [of sec] mult_div_mod_eq [of 86400 sec]
  unfolding instant_def by linarith

lemma zdigits_plain [simp]: "list_all plain_char (zdigits w v)"
  by (induction w arbitrary: v) simp_all

lemma append2_zdigits: "0 \<le> v \<Longrightarrow> v < 100 \<Longrightarrow> append2 dst v = dst @ zdigits 2 v"
  by (simp add: append2_def sdiv_nonneg smod_nonneg numeral_2_eq_2)

lemma zdigits_6: "zdigits 6 v =
    [dig (v div 100000 mod 10), dig (v div 10000 mod 10), dig (v div 1000 mod 10), dig (v div 100 mod 10),
     dig (v div 10 mod 10), dig (v mod 10)]"
  by (simp add: eval_nat_numeral zdiv_zmult2_eq [symmetric])

lemma zdigits_4: "zdigits 4 v =
    [dig (v div 1000 mod 10), dig (v div 100 mod 10), dig (v div 10 mod 10), dig (v mod 10)]"
  by (simp add: eval_nat_numeral zdiv_zmult2_eq [symmetric])

lemma append6_zdigits: "0 \<le> v \<Longrightarrow> append6 dst v = dst @ zdigits 6 v"
  by (simp add: append6_def zdigits_6 sdiv_nonneg smod_nonneg pos_imp_zdiv_nonneg_iff)

lemma appendInt4_iso: "appendInt4 dst v = dst @ iso_year v"
  by (auto simp: appendInt4_def iso_year_def zdigits_4 Let_def dec_int_def sdiv_nonneg smod_nonneg pos_imp_zdiv_nonneg_iff)

lemma trunc_to_floor:
  assumes "0 < (n::int)"
  shows "(if x smod n < 0 then (a + x sdiv n - 1, x smod n + n) else (a + x sdiv n, x smod n)) = (a + x div n, x mod n)"
proof (cases "x < 0")
  case True
  have "x sdiv n = - (- x div n)" "x smod n = - (- x mod n)"
    using True assms by (simp_all add: signed_divide_int_def signed_modulo_int_def sgn_if)
  moreover have "x div n = (if - x mod n = 0 then - (- x div n) else - (- x div n) - 1)"
    using zdiv_zminus1_eq_if [of n "- x"] assms by simp
  moreover have "x mod n = (if - x mod n = 0 then 0 else n - - x mod n)"
    using zmod_zminus1_eq_if [of "- x" n] by simp
  moreover have "0 \<le> - x mod n" using assms by simp
  ultimately show ?thesis by auto
next
  case False
  with assms have "x sdiv n = x div n" "x smod n = x mod n" "0 \<le> x mod n" by (simp_all add: sdiv_nonneg smod_nonneg)
  then show ?thesis by simp
qed

lemma civil_bounds:
  "valid_civil c \<Longrightarrow> 0 \<le> month c \<and> month c < 100 \<and> 0 \<le> day c \<and> day c < 100 \<and>
     0 \<le> hour c \<and> hour c < 100 \<and> 0 \<le> minute c \<and> minute c < 100 \<and> 0 \<le> second c \<and> second c < 100"
  by (auto simp: valid_civil_def valid_date_def month_days_def split: if_splits)

lemma appendISOTimestamp_eq:
  "appendISOTimestamp dst usec tz =
     dst @ iso_text (splitTime (pgEpochUnix + usec div 1000000)) (usec mod 1000000) tz"
  using civil_bounds [OF splitTime_valid]
  unfolding appendISOTimestamp_def
  by (simp add: Let_def trunc_to_floor iso_text_def iso_date_def append2_zdigits append6_zdigits appendInt4_iso)

lemma appendISODateOnly_eq:
  "appendISODateOnly dst usec = dst @ iso_date (splitTime (pgEpochUnix + usec sdiv 1000000))"
  using civil_bounds [OF splitTime_valid]
  by (simp add: appendISODateOnly_def Let_def iso_date_def append2_zdigits appendInt4_iso)

lemma iso_plain [simp]: "list_all plain_char (iso_date c)" "list_all plain_char tz \<Longrightarrow> list_all plain_char (iso_text c us tz)"
  by (simp_all add: iso_text_def iso_date_def iso_year_def)

lemma iso_quoted: "list_all plain_char tz \<Longrightarrow> json_value (34 # iso_text c us tz @ [34])" "json_value (34 # iso_date c @ [34])"
  by (simp_all add: json_value_plain)

interpretation bin_timestamp: json_encoder encodeTimestampBinary "\<lambda>_. True"
  by unfold_locales
    (auto simp: encodeTimestampBinary_def writer_eqs Let_def appendISOTimestamp_eq iso_quoted intro: bin_intros
      split: option.splits)

lemma plain_asc_Z: "list_all plain_char (asc ''Z'')"
  by (simp add: ascii_simps)

interpretation bin_timestamptz: json_encoder encodeTimestampTZBinary "\<lambda>_. True"
  by unfold_locales
    (auto simp: encodeTimestampTZBinary_def writer_eqs Let_def appendISOTimestamp_eq iso_quoted plain_asc_Z
      intro: bin_intros split: option.splits)

interpretation bin_date: json_encoder encodeDateBinary "\<lambda>_. True"
  by unfold_locales
    (auto simp: encodeDateBinary_def writer_eqs Let_def appendISODateOnly_eq iso_quoted intro: bin_intros
      split: option.splits)

section \<open>Intervals and times of day\<close>

lemma appendIntervalTime_append: "appendIntervalTime dst us = dst @ appendIntervalTime [] us"
  unfolding appendIntervalTime_def Let_def by (subst appendFrac6_append) (simp add: appendFrac6_append [of "_ @ _"])

lemma appendIntervalTime_plain: "list_all plain_char (appendIntervalTime [] us)"
  unfolding appendIntervalTime_def Let_def
  by (subst appendFrac6_append) (simp add: appendFrac6_plain)

lemma encodeIntervalBinary_shape:
  "\<exists>v. (\<forall>dst. encodeIntervalBinary dst (Some r) = dst @ v) \<and> json_value v"
proof (cases "length r = 16")
  case True
  define us where "us = int64_of (be_get (slice 0 8 r))"
  define d where "d = int32_of (be_get (slice 8 12 r))"
  define m where "m = int32_of (be_get (slice 12 16 r))"
  define y where "y = m sdiv 12"
  define m' where "m' = m - y * 12"
  define t where "t = 80 # (if y \<noteq> 0 then dec_int y @ [89] else []) @ (if m' \<noteq> 0 then dec_int m' @ [77] else []) @
      (if d \<noteq> 0 then dec_int d @ [68] else []) @ (if us \<noteq> 0 then 84 # appendIntervalTime [] us else [])"
  have mm: "y = 0 \<Longrightarrow> m' = m" by (simp add: m'_def)
  have eq: "encodeIntervalBinary dst (Some r) =
      dst @ (if y = 0 \<and> m' = 0 \<and> d = 0 \<and> us = 0 then asc ''\"PT0S\"'' else 34 # t @ [34])" for dst
    unfolding encodeIntervalBinary_def Let_def us_def [symmetric] d_def [symmetric] m_def [symmetric]
      y_def [symmetric] m'_def [symmetric]
    by (subst appendIntervalTime_append) (auto simp: True t_def mm us_def [symmetric] d_def [symmetric] m_def [symmetric]
        y_def [symmetric] m'_def [symmetric])
  have "list_all plain_char t" by (simp add: t_def appendIntervalTime_plain)
  then have "json_value (if y = 0 \<and> m' = 0 \<and> d = 0 \<and> us = 0 then asc ''\"PT0S\"'' else 34 # t @ [34])"
    by (simp add: json_value_plain json_value_words)
  with eq show ?thesis by blast
next
  case False
  then show ?thesis using json_value_escaped [of r] by (simp add: encodeIntervalBinary_def writer_eqs)
qed

interpretation bin_interval: json_encoder encodeIntervalBinary "\<lambda>_. True"
proof unfold_locales
  fix dst raw
  have "encodeIntervalBinary dst (Some r) = dst @ encodeIntervalBinary [] (Some r)" for r
    using encodeIntervalBinary_shape [of r] by auto
  then show "encodeIntervalBinary dst raw = dst @ encodeIntervalBinary [] raw"
    by (cases raw) (simp_all add: encodeIntervalBinary_def [of _ None] writer_eqs)
  fix r
  show "json_value (encodeIntervalBinary [] (Some r))" using encodeIntervalBinary_shape [of r] by auto
qed (simp add: encodeIntervalBinary_def writer_eqs)

lemma appendTimeOfDay_append: "appendTimeOfDay dst us = dst @ appendTimeOfDay [] us"
  unfolding appendTimeOfDay_def Let_def append2_def by (subst appendFrac6_append) (simp add: appendFrac6_append [of "_ # _"])

lemma appendTimeOfDay_plain:
  assumes "us \<le> 86400000000"
  shows "list_all plain_char (appendTimeOfDay [] us)"
proof -
  define u where "u = (if us < 0 then 0 else us)"
  define h where "h = u div 3600000000"
  define r where "r = u - h * 3600000000"
  define mi where "mi = r div 60000000"
  define r' where "r' = r - mi * 60000000"
  have u: "0 \<le> u" "u \<le> 86400000000" using assms by (simp_all add: u_def)
  have h: "0 \<le> h" "h < 100" "0 \<le> r" "r < 3600000000" using u unfolding h_def r_def by linarith+
  have mi: "0 \<le> mi" "mi < 100" "0 \<le> r'" "r' < 60000000" using h unfolding mi_def r'_def by linarith+
  have sc: "0 \<le> r' div 1000000" "r' div 1000000 < 100" using mi by linarith+
  have "appendTimeOfDay [] us = append2 [] h @ 58 # append2 [] mi @ 58 # append2 [] (r' div 1000000) @
      (if r' - r' div 1000000 * 1000000 \<noteq> 0 then 46 # appendFrac6 [] (r' - r' div 1000000 * 1000000) else [])"
    using u h mi unfolding appendTimeOfDay_def Let_def u_def [symmetric]
    by (subst appendFrac6_append)
      (simp add: sdiv_nonneg h_def [symmetric] r_def [symmetric] mi_def [symmetric] r'_def [symmetric]
        append2_append [of "_ @ _"] append2_append [of "_ # _"])
  then show ?thesis using h mi sc by (simp add: append2_plain appendFrac6_plain)
qed

interpretation bin_time: json_encoder encodeTimeBinary "\<lambda>r. length r = 8 \<longrightarrow> int64_of (be_get r) \<le> 86400000000"
proof unfold_locales
  fix dst raw
  show "encodeTimeBinary dst raw = dst @ encodeTimeBinary [] raw"
    by (cases raw) (simp_all add: encodeTimeBinary_def writer_eqs appendTimeOfDay_append [of "dst @ _"] appendTimeOfDay_append [of "[34]"])
  fix r
  assume "length r = 8 \<longrightarrow> int64_of (be_get r) \<le> 86400000000"
  then show "json_value (encodeTimeBinary [] (Some r))"
    by (simp add: encodeTimeBinary_def writer_eqs json_value_escaped appendTimeOfDay_append [of "[34]"]
        json_value_plain appendTimeOfDay_plain)
qed (simp add: encodeTimeBinary_def writer_eqs)

text \<open>The server's time zone displacements stay below 16 hours.\<close>

definition timetz_ok :: "bytes \<Rightarrow> bool" where
  "timetz_ok r \<longleftrightarrow> (length r = 12 \<longrightarrow>
     int64_of (be_get (slice 0 8 r)) \<le> 86400000000 \<and> \<bar>int32_of (be_get (slice 8 12 r))\<bar> < 57600)"

lemma encodeTimeTZBinary_shape:
  assumes "length r = 12"
  shows "\<exists>t. (\<forall>dst. encodeTimeTZBinary dst (Some r) = dst @ 34 # t @ [34]) \<and> (timetz_ok r \<longrightarrow> list_all plain_char t)"
proof -
  define us where "us = int64_of (be_get (slice 0 8 r))"
  define z where "z = int32_of (be_get (slice 8 12 r))"
  define n where "n = int32_of (- z)"
  define a where "a = (if 0 \<le> n then n else int32_of (- n))"
  define t where "t = appendTimeOfDay [] us @ (if 0 \<le> n then 43 else 45) # append2 [] (a sdiv 3600) @ 58 #
      append2 [] (a smod 3600 sdiv 60)"
  have "encodeTimeTZBinary dst (Some r) = dst @ 34 # t @ [34]" for dst
    unfolding encodeTimeTZBinary_def Let_def us_def [symmetric] z_def [symmetric] n_def [symmetric]
    by (simp add: assms us_def [symmetric] z_def [symmetric] n_def [symmetric] a_def t_def
        appendTimeOfDay_append [of "dst @ _"] append2_append [of "_ @ _"] append2_append [of "_ # _"])
  moreover have "list_all plain_char t" if ok: "timetz_ok r"
  proof -
    have us: "us \<le> 86400000000" and z: "\<bar>z\<bar> < 57600" using ok assms by (simp_all add: timetz_ok_def us_def z_def)
    have n: "n = - z" unfolding n_def using z by (intro int32_of_id) auto
    have a: "a = \<bar>z\<bar>" using z by (auto simp: a_def n int32_of_id)
    have h: "0 \<le> a div 3600" "a div 3600 < 100" "0 \<le> a mod 3600 div 60" "a mod 3600 div 60 < 100"
      using z unfolding a by (simp_all add: div_less_iff_less_mult pos_imp_zdiv_nonneg_iff)
    then show ?thesis
      using us a by (simp add: t_def appendTimeOfDay_plain append2_plain sdiv_nonneg smod_nonneg)
  qed
  ultimately show ?thesis by blast
qed

interpretation bin_timetz: json_encoder encodeTimeTZBinary timetz_ok
proof unfold_locales
  fix dst raw
  have "encodeTimeTZBinary dst (Some r) = dst @ encodeTimeTZBinary [] (Some r)" for r
  proof (cases "length r = 12")
    case True
    from encodeTimeTZBinary_shape [OF this] show ?thesis by auto
  next
    case False
    then show ?thesis by (simp add: encodeTimeTZBinary_def writer_eqs)
  qed
  then show "encodeTimeTZBinary dst raw = dst @ encodeTimeTZBinary [] raw"
    by (cases raw) (simp_all add: encodeTimeTZBinary_def [of _ None] writer_eqs)
  fix r
  assume ok: "timetz_ok r"
  show "json_value (encodeTimeTZBinary [] (Some r))"
  proof (cases "length r = 12")
    case True
    with encodeTimeTZBinary_shape [OF True] ok show ?thesis by (auto simp: json_value_plain)
  next
    case False
    then show ?thesis by (simp add: encodeTimeTZBinary_def writer_eqs json_value_escaped)
  qed
qed (simp add: encodeTimeTZBinary_def writer_eqs)

section \<open>Numerics\<close>

lemma foldl_append: "foldl (\<lambda>d x. d @ f x) a xs = a @ concat (map f xs)"
  by (induction xs arbitrary: a) simp_all

lemma zdigits_digits: "list_all is_digit (zdigits w v)"
  by (induction w arbitrary: v) (simp_all add: is_digit_dig)

lemma appendNumericPad4_eq: "appendNumericPad4 dst v = dst @ zdigits 4 v"
  by (simp add: appendNumericPad4_def zdigits_4)

text \<open>Leading zeros are what could make a numeric no JSON number; the server strips them.\<close>

definition numeric_ok :: "bytes \<Rightarrow> bool" where
  "numeric_ok r \<longleftrightarrow>
     0 < int16_of (be_get (slice 2 4 r)) \<longrightarrow> 0 < int16_of (be_get (slice 0 2 r)) \<longrightarrow>
     digitAt (drop 8 r) (int16_of (be_get (slice 0 2 r))) 0 \<noteq> 0"

definition numeric_int :: "(int \<Rightarrow> int) \<Rightarrow> int \<Rightarrow> bytes" where
  "numeric_int dg weight =
     (if weight < 0 then [dig 0] else dec_int (dg 0) @ concat (map (\<lambda>i. zdigits 4 (dg i)) [1..weight]))"

definition numeric_frac :: "(int \<Rightarrow> int) \<Rightarrow> int \<Rightarrow> nat \<Rightarrow> bytes" where
  "numeric_frac dg weight n = map (\<lambda>p. dig (dg (weight + 1 + int p div 4) div divisor p mod 10)) [0..<n]"

definition numeric_text :: "bool \<Rightarrow> (int \<Rightarrow> int) \<Rightarrow> int \<Rightarrow> nat \<Rightarrow> bytes" where
  "numeric_text neg dg weight n =
     (if neg then [45] else []) @ numeric_int dg weight @ (if n = 0 then [] else 46 # numeric_frac dg weight n)"

lemma numeric_text_number:
  assumes d: "0 < weight \<longrightarrow> dg 0 \<noteq> 0" "0 \<le> dg 0"
  shows "json_number (numeric_text neg dg weight n)"
proof -
  have "json_int (numeric_int dg weight)"
  proof (cases "0 < weight")
    case True
    let ?p = "concat (map (\<lambda>i. zdigits 4 (dg i)) [1..weight])"
    have "list_all is_digit ?p" using zdigits_digits by (auto simp: list_all_iff)
    moreover have "dec_int (dg 0) = dec_nat (nat (dg 0))" using d by (simp add: dec_int_def)
    moreover have "hd (dec_nat (nat (dg 0))) \<noteq> 48" using d True by (intro dec_nat_no_leading_zero) simp
    ultimately show ?thesis using True
      by (simp add: numeric_int_def json_int_def dec_nat_digits hd_append del: list_all_append)
        (simp add: list_all_append dec_nat_digits)
  next
    case False
    then show ?thesis
      using d json_int_dec_nat [of "nat (dg 0)"] by (simp add: numeric_int_def dec_int_def json_int_def [of "[48]"] is_digit_def)
  qed
  moreover have "json_frac (if n = 0 then [] else 46 # numeric_frac dg weight n)"
    by (auto simp: numeric_frac_def list_all_iff is_digit_dig intro!: json_fracI)
  ultimately show ?thesis
    unfolding numeric_text_def
    using json_numberI [of "if neg then [45] else []" "numeric_int dg weight" _ "[]"] by simp
qed

lemma digitAt_nonneg: "0 \<le> digitAt body n i"
  by (simp add: digitAt_def)

lemma encodeNumericBinary_text:
  fixes r :: bytes
  defines "nd \<equiv> int16_of (be_get (slice 0 2 r))" and "weight \<equiv> int16_of (be_get (slice 2 4 r))"
    and "sign \<equiv> be_get (slice 4 6 r)" and "dscale \<equiv> int16_of (be_get (slice 6 8 r))"
  assumes "8 \<le> length r" "0 \<le> nd" "0 \<le> dscale" "nd * 2 \<le> int (length (drop 8 r))" "sign \<in> {0, 0x4000}"
  shows "encodeNumericBinary dst (Some r) =
     dst @ (if nd = 0 then numeric_text False (\<lambda>_. 0) 0 (nat dscale)
            else numeric_text (sign = 0x4000) (digitAt (drop 8 r) nd) weight (nat dscale))"
proof -
  have z: "numeric_frac (\<lambda>_. 0) 0 n = replicate n (dig 0)" for n
    by (simp add: numeric_frac_def map_replicate_const)
  have s: "sign \<noteq> 0xC000" "sign \<noteq> 0xD000" "sign \<noteq> 0xF000" using assms(9) by auto
  have f: "foldl (\<lambda>d p. d @ [dig (dg (weight + 1 + int p div 4) div divisor p mod 10)]) a [0..<n] = a @ numeric_frac dg weight n" for a dg n
    using foldl_append [of "\<lambda>p. [dig (dg (weight + 1 + int p div 4) div divisor p mod 10)]" a "[0..<n]"]
    by (simp add: numeric_frac_def concat_map_singleton)
  have i: "(if weight < 0 then a @ [dig 0] else foldl (\<lambda>d i. appendNumericPad4 d (dg i)) (a @ dec_int (dg 0)) [1..weight]) =
      a @ numeric_int dg weight" for a dg
    by (simp add: numeric_int_def appendNumericPad4_eq foldl_append)
  show ?thesis
    using assms(5-9) s
    unfolding encodeNumericBinary_def option.case Let_def nd_def [symmetric] weight_def [symmetric]
      sign_def [symmetric] dscale_def [symmetric] f i
    by (auto simp: numeric_text_def z numeric_int_def [of "\<lambda>_. 0"] dec_int_def dec_nat_zero)
qed

lemma encodeNumericBinary_shape:
  "\<exists>v. (\<forall>dst. encodeNumericBinary dst (Some r) = dst @ v) \<and> (numeric_ok r \<longrightarrow> json_value v)"
proof -
  define nd where "nd = int16_of (be_get (slice 0 2 r))"
  define sign where "sign = be_get (slice 4 6 r)"
  define dscale where "dscale = int16_of (be_get (slice 6 8 r))"
  let ?bad = "length r < 8 \<or> nd < 0 \<or> dscale < 0 \<or> int (length (drop 8 r)) < nd * 2"
  note d = encodeNumericBinary_def option.case Let_def nd_def [symmetric] sign_def [symmetric] dscale_def [symmetric]
  consider (num) "\<not> ?bad" "sign \<in> {0, 0x4000}"
    | (word) w where "\<forall>dst. encodeNumericBinary dst (Some r) = dst @ w" "w \<in> {asc ''\"NaN\"'', asc ''\"Infinity\"'', asc ''\"-Infinity\"''}"
    | (str) "\<forall>dst. encodeNumericBinary dst (Some r) = AppendStringBytes dst r"
  proof (cases "?bad \<or> sign \<notin> {0, 0x4000, 0xC000, 0xD000, 0xF000}")
    case True
    then have "\<forall>dst. encodeNumericBinary dst (Some r) = AppendStringBytes dst r" unfolding d by auto
    with str show thesis by blast
  next
    case False
    then have ok: "\<not> ?bad" and "sign \<in> {0, 0x4000} \<or> sign = 0xC000 \<or> sign = 0xD000 \<or> sign = 0xF000" by auto
    then consider "sign \<in> {0, 0x4000}" | "sign = 0xC000" | "sign = 0xD000" | "sign = 0xF000" by blast
    then show thesis
    proof cases
      case 1
      with ok num show thesis by blast
    next
      case 2
      with ok have "\<forall>dst. encodeNumericBinary dst (Some r) = dst @ asc ''\"NaN\"''" unfolding d by (simp del: length_drop)
      with word show thesis by blast
    next
      case 3
      with ok have "\<forall>dst. encodeNumericBinary dst (Some r) = dst @ asc ''\"Infinity\"''" unfolding d by (simp del: length_drop)
      with word show thesis by blast
    next
      case 4
      with ok have "\<forall>dst. encodeNumericBinary dst (Some r) = dst @ asc ''\"-Infinity\"''" unfolding d by (simp del: length_drop)
      with word show thesis by blast
    qed
  qed
  then show ?thesis
  proof cases
    case num
    let ?v = "if nd = 0 then numeric_text False (\<lambda>_. 0) 0 (nat dscale)
      else numeric_text (sign = 0x4000) (digitAt (drop 8 r) nd) (int16_of (be_get (slice 2 4 r))) (nat dscale)"
    have "\<forall>dst. encodeNumericBinary dst (Some r) = dst @ ?v"
      using encodeNumericBinary_text [of r] num unfolding nd_def sign_def dscale_def not_less [symmetric] by blast
    moreover have "numeric_ok r \<Longrightarrow> json_number ?v"
      using num by (auto simp: numeric_ok_def nd_def [symmetric] digitAt_nonneg intro!: numeric_text_number)
    ultimately show ?thesis by (intro exI [of _ ?v]) (simp add: json_num)
  next
    case word
    then show ?thesis by (intro exI [of _ w]) (auto simp: json_value_words)
  next
    case str
    then show ?thesis using json_value_escaped [of r] by (auto simp: writer_eqs)
  qed
qed

interpretation bin_numeric: json_encoder encodeNumericBinary numeric_ok
proof unfold_locales
  fix dst raw
  have "encodeNumericBinary dst (Some r) = dst @ encodeNumericBinary [] (Some r)" for r
    using encodeNumericBinary_shape [of r] by auto
  then show "encodeNumericBinary dst raw = dst @ encodeNumericBinary [] raw"
    by (cases raw) (simp_all add: encodeNumericBinary_def [of _ None] writer_eqs)
  fix r
  show "numeric_ok r \<Longrightarrow> json_value (encodeNumericBinary [] (Some r))"
    using encodeNumericBinary_shape [of r] by auto
qed (simp add: encodeNumericBinary_def writer_eqs)

end
