(* ===== verification/BinaryArrays.thy ===== *)
theory BinaryArrays
  imports BinaryCorrect
begin

text \<open>
  The array encoder of src/internal/types/array.go against a reference: \<open>array_send\<close> is the wire
  form the server documents for an array of given dimensions and elements, \<open>array_json\<close> the
  nested JSON array with the same shape.  Then the dispatch \<open>PickBinaryEx\<close> as a whole, and the
  properties of the binary encoders.
\<close>

section \<open>Wire form and JSON form of an array\<close>

definition elem_send :: "bytes option \<Rightarrow> bytes" where
  "elem_send x = (case x of None \<Rightarrow> be_put 4 (- 1) | Some b \<Rightarrow> be_put 4 (int (length b)) @ b)"

definition array_send :: "int \<Rightarrow> int \<Rightarrow> (nat \<times> int) list \<Rightarrow> bytes option list \<Rightarrow> bytes" where
  "array_send flags elem dims xs =
     be_put 4 (int (length dims)) @ be_put 4 flags @ be_put 4 elem @
     concat (map (\<lambda>(n, lb). be_put 4 (int n) @ be_put 4 lb) dims) @ concat (map elem_send xs)"

fun chunks :: "nat \<Rightarrow> nat \<Rightarrow> 'a list \<Rightarrow> 'a list list" where
  "chunks k 0 xs = []"
| "chunks k (Suc n) xs = take k xs # chunks k n (drop k xs)"

fun array_json :: "Encoder \<Rightarrow> nat list \<Rightarrow> bytes option list \<Rightarrow> bytes" where
  "array_json e [] xs = [91, 93]"
| "array_json e [n] xs = 91 # join 44 (map (e []) xs) @ [93]"
| "array_json e (n # m # ms) xs =
     91 # join 44 (map (array_json e (m # ms)) (chunks (prod_list (m # ms)) n xs)) @ [93]"

lemma length_chunks [simp]: "length (chunks k n xs) = n"
  by (induction k n xs rule: chunks.induct) simp_all

lemma concat_chunks: "length xs = n * k \<Longrightarrow> concat (chunks k n xs) = xs"
  by (induction k n xs rule: chunks.induct) auto

lemma set_chunks: "ys \<in> set (chunks k n xs) \<Longrightarrow> length xs = n * k \<Longrightarrow> length ys = k \<and> set ys \<subseteq> set xs"
proof (induction k n xs rule: chunks.induct)
  case (2 k n xs)
  then show ?case by (auto dest: in_set_takeD in_set_dropD)
qed simp

lemma concat_map_concat: "concat (map (\<lambda>ys. concat (map f ys)) yss) = concat (map f (concat yss))"
  by (induction yss) simp_all

section \<open>The loop over one dimension\<close>

text \<open>Items that each consume their block of the body produce the comma-separated list.\<close>

lemma array_loop_items:
  assumes "list_all2 (\<lambda>b j. \<forall>d rest. item d (b @ rest) = (d @ j, length b, True)) bs js"
  shows "array_loop item (length js) first dst (pre @ concat bs @ rest) (length pre) =
     (dst @ (if first \<or> js = [] then [] else [44]) @ join 44 js @ [93], length pre + length (concat bs), True)"
  using assms
proof (induction bs js arbitrary: first dst pre rule: list_all2_induct)
  case (Cons b bs j js)
  show ?case
    using Cons.IH [of False _ "pre @ b"] Cons.hyps by (simp add: join_Cons)
qed simp

lemma int32_of_length: "n < 2 ^ 31 \<Longrightarrow> int32_of (be_get (be_put 4 (int n))) = int n"
  by (simp add: be_get_put int32_of_mod [simplified] int32_of_id)

context json_encoder
begin

lemma leaf:
  assumes "\<And>b. x = Some b \<Longrightarrow> length b < 2 ^ 31"
  shows "array_leaf enc d (elem_send x @ rest) = (d @ enc [] x, length (elem_send x), True)"
proof (cases x)
  case None
  have "int32_of (be_get (be_put 4 (- 1))) = - 1"
    using int32_of_mod [of "- 1"] by (simp add: be_get_put int32_of_id)
  with None show ?thesis
    by (simp add: array_leaf_def elem_send_def Let_def null AppendNull_def)
next
  case (Some b)
  with assms have "int32_of (be_get (be_put 4 (int (length b)))) = int (length b)" by (intro int32_of_length) simp
  with Some show ?thesis
    using appends [of d x] by (simp add: array_leaf_def elem_send_def Let_def)
qed

lemma dims:
  assumes "dims \<noteq> []" "length xs = prod_list dims" "\<And>b. Some b \<in> set xs \<Longrightarrow> length b < 2 ^ 31"
  shows "appendArrayDim enc d (concat (map elem_send xs) @ rest) dims =
     (d @ array_json enc dims xs, length (concat (map elem_send xs)), True)"
  using assms
proof (induction dims arbitrary: d rest xs rule: induct_list012)
  case (2 n)
  have "list_all2 (\<lambda>b j. \<forall>d rest. array_leaf enc d (b @ rest) = (d @ j, length b, True)) (map elem_send xs) (map (enc []) xs)"
    using 2(3) by (force simp: list_all2_conv_all_nth set_conv_nth intro!: leaf)
  from array_loop_items [OF this, of True "d @ [91]" "[]" rest] 2 show ?case by simp
next
  case (3 n m ms)
  let ?k = "prod_list (m # ms)" and ?item = "\<lambda>d b. appendArrayDim enc d b (m # ms)"
  have xs: "length xs = n * ?k" using 3 by simp
  have "?item d (concat (map elem_send ys) @ rest) =
      (d @ array_json enc (m # ms) ys, length (concat (map elem_send ys)), True)" if "ys \<in> set (chunks ?k n xs)" for ys d rest
    using that set_chunks [OF that xs] "3.prems"(3) by (intro "3.IH"(2)) auto
  then have "list_all2 (\<lambda>b j. \<forall>d rest. ?item d (b @ rest) = (d @ j, length b, True))
      (map (\<lambda>ys. concat (map elem_send ys)) (chunks ?k n xs)) (map (array_json enc (m # ms)) (chunks ?k n xs))"
    by (auto simp: list_all2_conv_all_nth)
  from array_loop_items [OF this, of True "d @ [91]" "[]" rest]
  have "array_loop ?item n True (d @ [91]) (concat (map (\<lambda>ys. concat (map elem_send ys)) (chunks ?k n xs)) @ rest) 0 =
      (d @ array_json enc (n # m # ms) xs, length (concat (map (\<lambda>ys. concat (map elem_send ys)) (chunks ?k n xs))), True)"
    by simp
  moreover have "concat (map (\<lambda>ys. concat (map elem_send ys)) (chunks ?k n xs)) = concat (map elem_send xs)"
    using concat_chunks [OF xs] by (simp only: concat_map_concat)
  ultimately show ?case by simp
qed simp

lemma array_json_value:
  assumes "\<And>b. Some b \<in> set xs \<Longrightarrow> ok b" "length xs = prod_list dims"
  shows "json_value (array_json enc dims xs)"
  using assms
proof (induction dims arbitrary: xs rule: induct_list012)
  case 1
  show ?case using json_array [of "[]"] by simp
next
  case (2 n)
  have "json_value v" if "v \<in> set (map (enc []) xs)" for v
    using that 2 by (auto intro: cell)
  then show ?case unfolding array_json.simps by (rule json_array)
next
  case (3 n m ms)
  have xs: "length xs = n * prod_list (m # ms)" using 3 by simp
  have "json_value v" if "v \<in> set (map (array_json enc (m # ms)) (chunks (prod_list (m # ms)) n xs))" for v
    using that 3(2,3) set_chunks [OF _ xs] by fastforce
  then show ?case unfolding array_json.simps by (rule json_array)
qed

end

section \<open>The array encoder\<close>

definition appending :: "(bytes \<Rightarrow> bytes \<Rightarrow> bytes \<times> nat \<times> bool) \<Rightarrow> bool" where
  "appending item \<longleftrightarrow> (\<forall>d b. item d b = (d @ fst (item [] b), snd (item [] b)))"

lemma appending_at: "appending item \<Longrightarrow> item d b = (d @ fst (item [] b), snd (item [] b))"
  unfolding appending_def by blast

lemma array_loop_appending:
  assumes "appending item"
  shows "array_loop item n first (p @ d) body c =
     (p @ fst (array_loop item n first d body c), snd (array_loop item n first d body c))"
proof (induction n arbitrary: first d c)
  case (Suc n)
  let ?d = "if first then d else d @ [44]"
  obtain v k ok where i: "item [] (drop c body) = (v, k, ok)" by (metis prod_cases3)
  have "item (p @ ?d) (drop c body) = (p @ ?d @ v, k, ok)" "item ?d (drop c body) = (?d @ v, k, ok)"
    using appending_at [OF assms, of "p @ ?d" "drop c body"] appending_at [OF assms, of ?d "drop c body"] i by simp_all
  then show ?case using Suc [of False "?d @ v"] by (cases first) simp_all
qed simp

lemma appendArrayDim_appending:
  assumes "\<And>d r. e d r = d @ e [] r" "dims \<noteq> []"
  shows "appending (\<lambda>d b. appendArrayDim e d b dims)"
  using assms(2)
proof (induction dims rule: induct_list012)
  case (2 n)
  have "appending (array_leaf e)"
    unfolding appending_def
  proof (intro allI)
    fix d b
    show "array_leaf e d b = (d @ fst (array_leaf e [] b), snd (array_leaf e [] b))"
      unfolding array_leaf_def Let_def AppendNull_def using assms(1) [of d "Some _"] by simp
  qed
  from array_loop_appending [OF this, of n True _ "[91]"] show ?case unfolding appending_def by simp
next
  case (3 n m ms)
  then have "appending (\<lambda>d b. appendArrayDim e d b (m # ms))" by simp
  from array_loop_appending [OF this, of n True _ "[91]"] show ?case unfolding appending_def by simp
qed simp

lemma drop_blocks:
  assumes "\<And>x. length (f x) = k"
  shows "i \<le> length xs \<Longrightarrow> drop (i * k) (concat (map f xs) @ ys) = concat (map f (drop i xs)) @ ys"
proof (induction xs arbitrary: i)
  case (Cons x xs)
  then show ?case by (cases i) (simp_all add: assms)
qed simp

definition array_ok :: "(nat \<times> int) list \<Rightarrow> bytes option list \<Rightarrow> bool" where
  "array_ok dims xs \<longleftrightarrow> length dims < 2 ^ 31 \<and> (\<forall>d \<in> set dims. fst d < 2 ^ 31) \<and>
     length xs = (if dims = [] then 0 else prod_list (map fst dims)) \<and>
     (\<forall>b. Some b \<in> set xs \<longrightarrow> length b < 2 ^ 31)"

lemma array_send_fields:
  fixes flags elem dims xs
  defines "r \<equiv> array_send flags elem dims xs"
  assumes ok: "array_ok dims xs"
  shows "12 \<le> length r" "int32_of (be_get (slice 0 4 r)) = int (length dims)"
    and "12 + length dims * 8 \<le> length r" "drop (12 + length dims * 8) r = concat (map elem_send xs)"
    and "array_dims r (length dims) = map (int \<circ> fst) dims"
proof -
  let ?f = "\<lambda>(n :: nat, lb). be_put 4 (int n) @ be_put 4 lb"
  let ?b = "concat (map ?f dims) @ concat (map elem_send xs)"
  have f: "length (?f x) = 8" for x by (cases x) simp
  have d: "drop 12 r = ?b" by (simp add: r_def array_send_def)
  have at: "drop (12 + i * 8) r = concat (map ?f (drop i dims)) @ concat (map elem_send xs)" if "i \<le> length dims" for i
  proof -
    have "drop (12 + i * 8) r = drop (i * 8) (drop 12 r)" by (simp add: add.commute)
    then show ?thesis unfolding d using drop_blocks [of ?f 8 i dims, OF f that] by simp
  qed
  show "12 \<le> length r" by (simp add: r_def array_send_def)
  show "int32_of (be_get (slice 0 4 r)) = int (length dims)"
    using ok by (simp add: r_def array_send_def slice_def array_ok_def int32_of_length)
  show "drop (12 + length dims * 8) r = concat (map elem_send xs)" using at [of "length dims"] by simp
  have "length (concat (map ?f dims)) = length dims * 8" by (induction dims) auto
  then show "12 + length dims * 8 \<le> length r" by (simp add: r_def array_send_def)
  have "int32_of (be_get (slice (12 + i * 8) (16 + i * 8) r)) = int (fst (dims ! i))" if "i < length dims" for i
  proof -
    have "fst (dims ! i) < 2 ^ 31" using ok that by (simp add: array_ok_def)
    moreover have "slice (12 + i * 8) (16 + i * 8) r = be_put 4 (int (fst (dims ! i)))"
    proof -
      have "drop i dims = (fst (dims ! i), snd (dims ! i)) # drop (Suc i) dims"
        using Cons_nth_drop_Suc [OF that] by (simp only: prod.collapse)
      then have "drop (12 + i * 8) r = be_put 4 (int (fst (dims ! i))) @ be_put 4 (snd (dims ! i)) @
          concat (map ?f (drop (Suc i) dims)) @ concat (map elem_send xs)"
        using at [of i] that by (simp add: split_beta)
      then show ?thesis by (simp add: slice_def)
    qed
    ultimately show ?thesis by (simp add: int32_of_length)
  qed
  then show "array_dims r (length dims) = map (int \<circ> fst) dims"
    unfolding array_dims_def by (intro nth_equalityI) simp_all
qed

context json_encoder
begin

lemma array_encodes:
  assumes ok: "array_ok dims xs"
  shows "arrayEncoder enc dst (Some (array_send flags elem dims xs)) = dst @ array_json enc (map fst dims) xs"
proof (cases "dims = []")
  case True
  with array_send_fields [OF ok, of flags elem] show ?thesis by (simp add: arrayEncoder_def)
next
  case False
  note f = array_send_fields [OF ok, of flags elem]
  have "appendArrayDim enc dst (concat (map elem_send xs) @ []) (map fst dims) =
      (dst @ array_json enc (map fst dims) xs, length (concat (map elem_send xs)), True)"
    using ok False by (intro dims) (auto simp: array_ok_def)
  then show ?thesis
    using f False unfolding arrayEncoder_def option.case Let_def f(2) nat_int f(4,5)
    by (auto simp: comp_def)
qed

lemma array_encoder:
  "json_encoder (arrayEncoder enc)
     (\<lambda>r. \<exists>flags elem dims xs. r = array_send flags elem dims xs \<and> array_ok dims xs \<and> (\<forall>b. Some b \<in> set xs \<longrightarrow> ok b))"
proof
  fix d raw
  have ap: "appendArrayDim enc d body (map nat (array_dims r n)) =
      (d @ fst (appendArrayDim enc [] body (map nat (array_dims r n))), snd (appendArrayDim enc [] body (map nat (array_dims r n))))"
    if "0 < n" for body r n
  proof -
    have "map nat (array_dims r n) \<noteq> []" using that by (simp add: array_dims_def)
    from appending_at [OF appendArrayDim_appending [OF appends this]] show ?thesis .
  qed
  show "arrayEncoder enc d raw = d @ arrayEncoder enc [] raw"
  proof (cases raw)
    case (Some r)
    show ?thesis
      by (cases "0 < nat (int32_of (be_get (slice 0 4 r)))")
        (simp_all add: Some arrayEncoder_def writer_eqs Let_def ap split: prod.splits)
  qed (simp add: arrayEncoder_def writer_eqs)
  show "arrayEncoder enc [] None = asc ''null''" by (simp add: arrayEncoder_def writer_eqs)
  fix r
  assume "\<exists>flags elem dims xs. r = array_send flags elem dims xs \<and> array_ok dims xs \<and> (\<forall>b. Some b \<in> set xs \<longrightarrow> ok b)"
  then obtain flags elem dims xs where r: "r = array_send flags elem dims xs" "array_ok dims xs" "\<forall>b. Some b \<in> set xs \<longrightarrow> ok b"
    by blast
  have "json_value (array_json enc (map fst dims) xs)"
    using r by (cases "dims = []") (auto simp: array_ok_def intro: array_json_value json_array [of "[]", simplified])
  then show "json_value (arrayEncoder enc [] (Some r))" using array_encodes [OF r(2)] r(1) by simp
qed

end

section \<open>The dispatch meets the contract\<close>

text \<open>
  What the server documents about the binary form of a cell: json and jsonb carry JSON text
  (jsonb behind a version byte), times of day reach at most 24:00, zone displacements stay
  below 16 hours, numerics have no leading zero digit, and an array is the \<open>array_send\<close> of
  elements of its element type.
\<close>

definition server_scalar :: "OID \<Rightarrow> bytes \<Rightarrow> bool" where
  "server_scalar oid r \<longleftrightarrow>
     (oid = OIDJSON \<longrightarrow> json_value r) \<and>
     (oid = OIDJSONB \<longrightarrow> r \<noteq> [] \<longrightarrow> hd r = 1 \<longrightarrow> json_value (tl r)) \<and>
     (oid = OIDTime \<longrightarrow> length r = 8 \<longrightarrow> int64_of (be_get r) \<le> 86400000000) \<and>
     (oid = OIDTimeTZ \<longrightarrow> timetz_ok r) \<and>
     (oid = OIDNumeric \<longrightarrow> numeric_ok r)"

definition server_binary :: "OID \<Rightarrow> bytes \<Rightarrow> bool" where
  "server_binary oid r \<longleftrightarrow>
     (if ArrayElem oid = 0 then server_scalar oid r
      else \<exists>flags elem dims xs. r = array_send flags elem dims xs \<and> array_ok dims xs \<and>
             (\<forall>b. Some b \<in> set xs \<longrightarrow> server_scalar (ArrayElem oid) b))"

definition opt_json :: "(bytes \<Rightarrow> bool) \<Rightarrow> Encoder option \<Rightarrow> bool" where
  "opt_json ok e \<longleftrightarrow> (\<forall>enc. e = Some enc \<longrightarrow> json_encoder enc ok)"

lemma opt_json_simps: "opt_json ok None" "opt_json ok (Some e) \<longleftrightarrow> json_encoder e ok"
  by (simp_all add: opt_json_def)

lemma if_opt_json:
  "(c \<Longrightarrow> opt_json ok a) \<Longrightarrow> (\<not> c \<Longrightarrow> opt_json ok b) \<Longrightarrow> opt_json ok (if c then a else b)"
  by simp

lemma PickBinaryEx_scalar: "ArrayElem oid = 0 \<Longrightarrow> opt_json (server_scalar oid) (PickBinaryEx oid bn)"
  unfolding PickBinaryEx.simps [of oid bn]
  by (intro if_opt_json; (unfold opt_json_simps)?;
      (rule opt_json_simps bin_bool.weaken bin_int2.weaken bin_int4.weaken bin_int8.weaken bin_float4.weaken
        bin_float8.weaken bin_uuid.weaken bin_timestamp.weaken bin_timestamptz.weaken bin_date.weaken
        bin_jsonb.weaken enc_json.weaken bin_interval.weaken bin_time.weaken bin_timetz.weaken bin_numeric.weaken
        enc_string.weaken bin_bytea.weaken)?; simp add: server_scalar_def)

lemma PickBinaryEx_array:
  assumes "ArrayElem oid \<noteq> 0"
  shows "PickBinaryEx oid bn = makeArrayBinaryEncoder (ArrayElem oid)"
proof -
  have "oid \<notin> {OIDBool, OIDInt2, OIDInt4, OIDOID, OIDInt8, OIDFloat4, OIDFloat8, OIDUUID, OIDTimestamp, OIDTimestampTZ,
      OIDDate, OIDJSONB, OIDJSON, OIDInterval, OIDTime, OIDTimeTZ, OIDNumeric, OIDInt4Range, OIDInt8Range, OIDNumRange,
      OIDTsRange, OIDTsTzRange, OIDDateRange, OIDText, OIDVarchar, OIDBPChar, OIDName, OIDBytea}"
    using assms by (auto simp: ArrayElem_def)
  with assms show ?thesis unfolding PickBinaryEx.simps [of oid bn] by simp
qed

lemma PickBinaryEx_opt_json: "opt_json (server_binary oid) (PickBinaryEx oid bn)"
proof (cases "ArrayElem oid = 0")
  case True
  then have "server_binary oid = server_scalar oid" by (auto simp: server_binary_def)
  with PickBinaryEx_scalar [OF True] show ?thesis by simp
next
  case False
  show ?thesis
  proof (cases "PickBinaryEx (ArrayElem oid) False")
    case None
    then show ?thesis by (simp add: PickBinaryEx_array [OF False] makeArrayBinaryEncoder.simps opt_json_simps)
  next
    case (Some e)
    have "json_encoder e (server_scalar (ArrayElem oid))"
      using PickBinaryEx_scalar [OF ArrayElem_ArrayElem, of oid False] Some by (simp add: opt_json_simps)
    then have "json_encoder (arrayEncoder e) (server_binary oid)"
      by (intro json_encoder.weaken [OF json_encoder.array_encoder]) (auto simp: server_binary_def False)
    with Some show ?thesis by (simp add: PickBinaryEx_array [OF False] makeArrayBinaryEncoder.simps opt_json_simps)
  qed
qed

section \<open>Numerics digit by digit\<close>

text \<open>The wire form of a finite numeric with base-10000 digits \<open>ds\<close>, and its digits extended with zeros.\<close>

definition numeric_send :: "bool \<Rightarrow> int \<Rightarrow> nat \<Rightarrow> int list \<Rightarrow> bytes" where
  "numeric_send neg weight dscale ds =
     be_put 2 (int (length ds)) @ be_put 2 weight @ be_put 2 (if neg then 0x4000 else 0) @ be_put 2 (int dscale) @
     concat (map (be_put 2) ds)"

definition dig10000 :: "int list \<Rightarrow> int \<Rightarrow> int" where
  "dig10000 ds i = (if 0 \<le> i \<and> i < int (length ds) then ds ! nat i else 0)"

text \<open>Its decimal text: the integer digits as one number, then \<open>dscale\<close> decimals, four per digit.\<close>

definition numeric_decimal :: "bool \<Rightarrow> int \<Rightarrow> nat \<Rightarrow> int list \<Rightarrow> bytes" where
  "numeric_decimal neg weight dscale ds =
     (if neg then [45] else []) @
     dec_int (foldl (\<lambda>a i. a * 10000 + dig10000 ds i) 0 [0..weight]) @
     (if dscale = 0 then []
      else 46 # take dscale (concat (map (\<lambda>j. zdigits 4 (dig10000 ds (weight + 1 + int j))) [0..<dscale])))"

lemma dec_nat_snoc: "0 < a \<Longrightarrow> d < 10 \<Longrightarrow> dec_nat (a * 10 + d) = dec_nat a @ [dig (int d)]"
  by (simp add: dec_nat_def nat_digits.simps [of 10 "a * 10 + d"])

lemma dec_int_snoc:
  assumes "0 < a" "0 \<le> d" "d < 10"
  shows "dec_int (a * 10 + d) = dec_int a @ [dig d]"
proof -
  have "nat (a * 10 + d) = nat a * 10 + nat d" using assms by (simp add: nat_add_distrib nat_mult_distrib)
  then show ?thesis using assms dec_nat_snoc [of "nat a" "nat d"] by (simp add: dec_int_def)
qed

lemma dec_int_zdigits: "0 < a \<Longrightarrow> 0 \<le> v \<Longrightarrow> v < 10 ^ w \<Longrightarrow> dec_int (a * 10 ^ w + v) = dec_int a @ zdigits w v"
proof (induction w arbitrary: v)
  case (Suc w)
  have "dec_int ((a * 10 ^ w + v div 10) * 10 + v mod 10) = dec_int (a * 10 ^ w + v div 10) @ [dig (v mod 10)]"
    using Suc.prems by (intro dec_int_snoc) (auto simp: add_pos_nonneg pos_imp_zdiv_nonneg_iff)
  moreover have "(a * 10 ^ w + v div 10) * 10 + v mod 10 = a * 10 ^ Suc w + v"
    using div_mult_mod_eq [of v 10] by (simp add: algebra_simps)
  moreover have "dec_int (a * 10 ^ w + v div 10) = dec_int a @ zdigits w (v div 10)"
    using Suc.prems by (intro Suc.IH) (auto simp: pos_imp_zdiv_nonneg_iff div_less_iff_less_mult mult.commute)
  ultimately show ?case by (metis append_assoc zdigits.simps(2))
next
  case 0
  then have "v = 0" by simp
  then show ?case by simp
qed

lemma numeric_int_decimal:
  assumes dg: "\<And>i. 0 \<le> dg i \<and> dg i < 10000" and "0 \<le> weight" "0 < weight \<Longrightarrow> dg 0 \<noteq> 0"
  shows "dec_int (dg 0) @ concat (map (\<lambda>i. zdigits 4 (dg i)) [1..weight]) =
      dec_int (foldl (\<lambda>a i. a * 10000 + dg i) 0 [0..weight])"
proof -
  have "0 < foldl (\<lambda>a i. a * 10000 + dg i) a xs \<and>
      dec_int a @ concat (map (\<lambda>i. zdigits 4 (dg i)) xs) = dec_int (foldl (\<lambda>a i. a * 10000 + dg i) a xs)" if "0 < a" for a xs
    using that
  proof (induction xs arbitrary: a)
    case (Cons i xs)
    have "0 < a * 10000 + dg i" using dg [of i] Cons.prems by simp
    from Cons.IH [OF this] show ?case
      using dec_int_zdigits [of a "dg i" 4] dg [of i] Cons.prems by simp
  qed simp
  from this [of "dg 0" "[1..weight]"] show ?thesis
    using assms(2,3) dg [of 0] by (cases "weight = 0") (auto simp: upto_rec1 [of 0 weight])
qed

lemma numeric_frac_take:
  assumes "\<And>i. 0 \<le> dg i"
  shows "numeric_frac dg weight n = take n (concat (map (\<lambda>j. zdigits 4 (dg (weight + 1 + int j))) [0..<n]))"
proof (rule nth_equalityI)
  have len: "length (concat (map (\<lambda>j. zdigits 4 (dg (weight + 1 + int j))) [0..<m])) = m * 4" for m
    by (induction m) (simp_all add: zdigits_4)
  show "length (numeric_frac dg weight n) = length (take n (concat (map (\<lambda>j. zdigits 4 (dg (weight + 1 + int j))) [0..<n])))"
    using len [of n] by (simp add: numeric_frac_def)
  have nth: "p < m * 4 \<Longrightarrow> concat (map (\<lambda>j. zdigits 4 (dg (weight + 1 + int j))) [0..<m]) ! p =
      zdigits 4 (dg (weight + 1 + int (p div 4))) ! (p mod 4)" for p m
  proof (induction m)
    case (Suc m)
    show ?case
    proof (cases "p < m * 4")
      case False
      then have "p div 4 = m" using Suc.prems by auto
      then have "p div 4 = m" "p mod 4 = p - m * 4" using minus_div_mult_eq_mod [of p 4] by simp_all
      with False show ?thesis using len [of m] by (simp add: nth_append)
    qed (use Suc len [of m] in \<open>simp add: nth_append\<close>)
  qed simp
  fix p
  assume "p < length (numeric_frac dg weight n)"
  then have p: "p < n" by (simp add: numeric_frac_def)
  define x where "x = dg (weight + 1 + int (p div 4))"
  have "p mod 4 < 4" by simp
  then have "p mod 4 = 0 \<or> p mod 4 = 1 \<or> p mod 4 = 2 \<or> p mod 4 = 3" by linarith
  then have "dig (x div divisor p mod 10) = zdigits 4 x ! (p mod 4)"
    by (elim disjE) (simp_all add: divisor_def zdigits_4)
  then show "numeric_frac dg weight n ! p = take n (concat (map (\<lambda>j. zdigits 4 (dg (weight + 1 + int j))) [0..<n])) ! p"
    using p nth [of p n] by (simp add: numeric_frac_def x_def zdiv_int)
qed

definition numeric_wf :: "int \<Rightarrow> nat \<Rightarrow> int list \<Rightarrow> bool" where
  "numeric_wf weight dscale ds \<longleftrightarrow>
     length ds < 2 ^ 15 \<and> - (2 ^ 15) \<le> weight \<and> weight < 2 ^ 15 \<and> dscale < 2 ^ 15 \<and>
     ds \<noteq> [] \<and> hd ds \<noteq> 0 \<and> (\<forall>d \<in> set ds. 0 \<le> d \<and> d < 10000)"

lemma numeric_send_digitAt:
  assumes "\<forall>d \<in> set ds. 0 \<le> d \<and> d < 10000"
  shows "digitAt (concat (map (be_put 2) ds)) (int (length ds)) = dig10000 ds"
proof
  fix i
  have "be_get (take 2 (drop (nat (i * 2)) (concat (map (be_put 2) ds)))) = ds ! nat i" if "0 \<le> i" "i < int (length ds)"
  proof -
    have n: "nat i < length ds" using that by simp
    have "nat (i * 2) = nat i * 2" using that by (simp add: nat_mult_distrib)
    then have "drop (nat (i * 2)) (concat (map (be_put 2) ds)) = concat (map (be_put 2) (drop (nat i) ds))"
      using drop_blocks [of "be_put 2" 2 "nat i" ds "[]"] n by simp
    moreover have "drop (nat i) ds = ds ! nat i # drop (Suc (nat i)) ds" using Cons_nth_drop_Suc [OF n] by simp
    moreover have "0 \<le> ds ! nat i \<and> ds ! nat i < 10000" using assms n by simp
    ultimately show ?thesis by (simp add: be_get_put)
  qed
  then show "digitAt (concat (map (be_put 2) ds)) (int (length ds)) i = dig10000 ds i"
    by (auto simp: digitAt_def dig10000_def)
qed

lemma numeric_prints:
  assumes wf: "numeric_wf weight dscale ds"
  shows "encodeNumericBinary dst (Some (numeric_send neg weight dscale ds)) = dst @ numeric_decimal neg weight dscale ds"
proof -
  let ?r = "numeric_send neg weight dscale ds"
  have i: "int16_of (be_get (be_put 2 v)) = v" if "- (2 ^ 15) \<le> v" "v < 2 ^ 15" for v
    using that int16_of_mod [of v] by (simp add: be_get_put int16_of_id)
  have nd: "int16_of (be_get (slice 0 2 ?r)) = int (length ds)"
    and w: "int16_of (be_get (slice 2 4 ?r)) = weight"
    and sc: "int16_of (be_get (slice 6 8 ?r)) = int dscale"
    using wf by (simp_all add: numeric_send_def slice_def numeric_wf_def i)
  have sg: "be_get (slice 4 6 ?r) = (if neg then 0x4000 else 0)"
    by (simp add: numeric_send_def slice_def be_get_put)
  have b: "drop 8 ?r = concat (map (be_put 2) ds)" by (simp add: numeric_send_def)
  have len: "8 \<le> length ?r" by (simp add: numeric_send_def)
  have "length (concat (map (be_put 2) ds)) = length ds * 2" by (induction ds) simp_all
  then have "encodeNumericBinary dst (Some ?r) =
      dst @ numeric_text (be_get (slice 4 6 ?r) = 0x4000) (digitAt (concat (map (be_put 2) ds)) (int (length ds))) weight dscale"
    using encodeNumericBinary_text [of ?r dst] nd w sg sc b len wf by (simp add: numeric_wf_def)
  moreover have "digitAt (concat (map (be_put 2) ds)) (int (length ds)) = dig10000 ds"
    using wf by (intro numeric_send_digitAt) (simp add: numeric_wf_def)
  moreover have "(be_get (slice 4 6 ?r) = 0x4000) = neg" using sg by simp
  moreover have dg: "0 \<le> dig10000 ds i \<and> dig10000 ds i < 10000" for i
    using wf by (auto simp: dig10000_def numeric_wf_def)
  have "0 < weight \<Longrightarrow> dig10000 ds 0 \<noteq> 0" using wf by (auto simp: dig10000_def numeric_wf_def hd_conv_nth)
  then have "numeric_int (dig10000 ds) weight = dec_int (foldl (\<lambda>a i. a * 10000 + dig10000 ds i) 0 [0..weight])"
    using numeric_int_decimal [of "dig10000 ds" weight, OF dg] by (auto simp: numeric_int_def dec_int_def dec_nat_zero)
  moreover note numeric_frac_take [of "dig10000 ds" weight dscale]
  ultimately show ?thesis using dg by (simp add: numeric_text_def numeric_decimal_def)
qed

section \<open>What a JSON array ends with\<close>

definition is_ws :: "byte \<Rightarrow> bool" where
  "is_ws c \<longleftrightarrow> c \<in> {32, 9, 10, 13}"

definition bracketed :: "bytes \<Rightarrow> bool" where
  "bracketed v \<longleftrightarrow> dropWhile is_ws v \<noteq> [] \<and> dropWhile is_ws (rev v) \<noteq> [] \<and>
     (hd (dropWhile is_ws v) = 91 \<longrightarrow> hd (dropWhile is_ws (rev v)) = 93)"

lemma bracketed_space:
  assumes "json_ws w" "bracketed v" "json_ws w'"
  shows "bracketed (w @ v @ w')"
proof -
  have ws: "\<forall>c \<in> set w. is_ws c" "\<forall>c \<in> set w'. is_ws c" using assms by (auto simp: json_ws_def is_ws_def list_all_iff)
  obtain a p where a: "dropWhile is_ws v = a # p" using assms by (cases "dropWhile is_ws v") (auto simp: bracketed_def)
  obtain b q where b: "dropWhile is_ws (rev v) = b # q" using assms by (cases "dropWhile is_ws (rev v)") (auto simp: bracketed_def)
  have "dropWhile is_ws (v @ x) = dropWhile is_ws v @ x" "dropWhile is_ws (rev v @ x) = dropWhile is_ws (rev v) @ x" for x
    using a b by (metis dropWhile_append dropWhile_eq_Nil_conv list.simps(3))+
  then have "dropWhile is_ws (v @ w') = a # p @ w'" "dropWhile is_ws (rev v @ rev w) = b # q @ rev w"
    using a b by simp_all
  moreover have "dropWhile is_ws (w @ v @ w') = dropWhile is_ws (v @ w')"
    "dropWhile is_ws (rev w' @ rev v @ rev w) = dropWhile is_ws (rev v @ rev w)"
    using ws by (auto intro: dropWhile_append2)
  moreover have "a = 91 \<longrightarrow> b = 93" using a b assms(2) by (simp add: bracketed_def)
  ultimately show ?thesis unfolding bracketed_def by (simp only: rev_append append_assoc list.simps list.sel simp_thms)
qed

lemma bracketed_ends: "\<not> is_ws (hd v) \<Longrightarrow> \<not> is_ws (last v) \<Longrightarrow> v \<noteq> [] \<Longrightarrow> hd v \<noteq> 91 \<or> last v = 93 \<Longrightarrow> bracketed v"
proof -
  assume a: "\<not> is_ws (hd v)" "\<not> is_ws (last v)" "v \<noteq> []" "hd v \<noteq> 91 \<or> last v = 93"
  have "dropWhile is_ws v = v" using a by (cases v) auto
  moreover have "dropWhile is_ws (rev v) = rev v" using a by (cases "rev v") (auto simp: hd_rev [symmetric])
  ultimately show ?thesis using a by (auto simp: bracketed_def hd_rev)
qed

lemma json_number_chars: "json_number n \<Longrightarrow> list_all number_char n"
  unfolding json_number_def json_int_def json_frac_def json_exp_def
  by (elim exE conjE disjE) (auto simp: number_chars)

lemma json_value_bracketed: "json_value v \<Longrightarrow> bracketed v" and "json_member m \<Longrightarrow> True"
proof (induction rule: json_value_json_member.inducts)
  case (json_num n)
  have ne: "n \<noteq> []" using json_number_start [OF json_num] by simp
  then have "number_char (hd n)" "number_char (last n)"
    using json_number_chars [OF json_num] by (simp_all add: list_all_iff)
  then show ?case using ne by (intro bracketed_ends) (auto simp: number_char_def is_ws_def is_digit_def)
next
  case (json_str s)
  then obtain t where "s = 34 # t @ [34]" by (auto simp: json_string_def)
  then show ?case by (intro bracketed_ends) (simp_all add: is_ws_def)
next
  case (json_space w v w')
  then show ?case by (intro bracketed_space) simp_all
qed (intro TrueI bracketed_ends; simp add: is_ws_def ascii_simps)+

section \<open>Properties\<close>



text \<open>Binary integers are exact: every value of 2, 4 and 8 bytes prints as its canonical
  decimal, with no wrap-around at the ends of the range.\<close>

theorem binary_integers_exact:
  "(- (2 ^ 15) \<le> v \<and> v < 2 ^ 15 \<longrightarrow> encodeInt2Binary dst (Some (be_put 2 v)) = dst @ dec_int v) \<and>
   (- (2 ^ 31) \<le> v \<and> v < 2 ^ 31 \<longrightarrow> encodeInt4Binary dst (Some (be_put 4 v)) = dst @ dec_int v) \<and>
   (- (2 ^ 63) \<le> v \<and> v < 2 ^ 63 \<longrightarrow> encodeInt8Binary dst (Some (be_put 8 v)) = dst @ dec_int v)"
proof -
  have "int16_of (be_get (be_put 2 v)) = int16_of v" "int32_of (be_get (be_put 4 v)) = int32_of v"
    "int64_of (be_get (be_put 8 v)) = int64_of v"
    by (simp_all only: be_get_put int16_of_mod int32_of_mod int64_of_mod)
  then show ?thesis
    by (simp add: encodeInt2Binary_def encodeInt4Binary_def encodeInt8Binary_def int16_of_id int32_of_id int64_of_id)
qed

theorem binary_integers_exact_witness:
  "encodeInt2Binary [] (Some (be_put 2 (- 32768))) = [] @ dec_int (- 32768)"
  using binary_integers_exact [of "- 32768" "[]"] by simp

text \<open>C24. A binary timestamp prints as ISO 8601 text naming exactly the instant on the wire, to the
  microsecond, on both sides of the epoch, as an existing date and time of day.\<close>

theorem timestamp_denotes_instant:
  assumes "- (2 ^ 63) < usec" "usec < 2 ^ 63 - 1"
  shows "\<exists>c us. encodeTimestampTZBinary dst (Some (be_put 8 usec)) = dst @ 34 # iso_text c us (asc ''Z'') @ [34] \<and>
    encodeTimestampBinary dst (Some (be_put 8 usec)) = dst @ 34 # iso_text c us [] @ [34] \<and>
    valid_civil c \<and> 0 \<le> us \<and> us < 1000000 \<and> instant c * 1000000 + us = pgEpochUnix * 1000000 + usec"
proof -
  let ?c = "splitTime (pgEpochUnix + usec div 1000000)" and ?us = "usec mod 1000000"
  have v: "int64_of (be_get (be_put 8 usec)) = usec" "usec \<noteq> 9223372036854775807" "usec \<noteq> - 9223372036854775808"
    using assms int64_of_mod [of usec] by (simp_all add: be_get_put int64_of_id)
  have "instant ?c * 1000000 + ?us = pgEpochUnix * 1000000 + usec"
  proof -
    have "1000000 * q + r = usec \<Longrightarrow> (a + q) * 1000000 + r = a * 1000000 + usec" for a q r :: int by simp
    from this [OF mult_div_mod_eq] show ?thesis unfolding splitTime_instant .
  qed
  moreover have "encodeTimestampTZBinary dst (Some (be_put 8 usec)) = dst @ 34 # iso_text ?c ?us (asc ''Z'') @ [34]"
    "encodeTimestampBinary dst (Some (be_put 8 usec)) = dst @ 34 # iso_text ?c ?us [] @ [34]"
    using v by (simp_all add: encodeTimestampTZBinary_def encodeTimestampBinary_def appendISOTimestamp_eq)
  ultimately show ?thesis using splitTime_valid by (intro exI [of _ ?c] exI [of _ ?us]) simp
qed

theorem timestamp_denotes_instant_witness:
  "\<exists>c us. encodeTimestampTZBinary [] (Some (be_put 8 (- 1))) = [] @ 34 # iso_text c us (asc ''Z'') @ [34] \<and>
    encodeTimestampBinary [] (Some (be_put 8 (- 1))) = [] @ 34 # iso_text c us [] @ [34] \<and>
    valid_civil c \<and> 0 \<le> us \<and> us < 1000000 \<and> instant c * 1000000 + us = pgEpochUnix * 1000000 + (- 1)"
  by (rule timestamp_denotes_instant) simp_all

text \<open>A binary date prints as the calendar date that many days after 2000-01-01, as long as the
  count of microseconds fits 64 bits (about 292,000 years to either side).\<close>

theorem date_denotes_day:
  assumes "\<bar>days\<bar> \<le> 106751991"
  shows "\<exists>c. encodeDateBinary dst (Some (be_put 4 days)) = dst @ 34 # iso_date c @ [34] \<and>
    valid_date (year c) (month c) (day c) \<and> civil_days (year c) (month c) (day c) = days + 10957"
proof -
  let ?c = "splitTime (pgEpochUnix + days * 86400)"
  have d: "int32_of (be_get (be_put 4 days)) = days" "days \<noteq> 2147483647" "days \<noteq> - 2147483648"
    using assms int32_of_mod [of days] by (auto simp: be_get_put int32_of_id)
  have u: "int64_of (days * usecPerDay) = days * usecPerDay" using assms by (intro int64_of_id) auto
  have "days * usecPerDay sdiv 1000000 = days * 86400"
  proof -
    have "days * usecPerDay = days * 86400 * 1000000" by simp
    then show ?thesis by (simp add: signed_divide_int_def sgn_if abs_mult)
  qed
  then have "encodeDateBinary dst (Some (be_put 4 days)) = dst @ 34 # iso_date ?c @ [34]"
    using d by (simp add: encodeDateBinary_def appendISODateOnly_eq u Let_def)
  moreover have "(pgEpochUnix + days * 86400) div 86400 = days + 10957"
  proof -
    have "pgEpochUnix + days * 86400 = (days + 10957) * 86400" by simp
    then show ?thesis by (metis nonzero_mult_div_cancel_right zero_neq_numeral)
  qed
  ultimately show ?thesis using splitTime_date [OF refl, of "pgEpochUnix + days * 86400"] by (intro exI [of _ ?c]) simp
qed

theorem date_denotes_day_witness:
  "\<exists>c. encodeDateBinary [] (Some (be_put 4 60)) = [] @ 34 # iso_date c @ [34] \<and>
    valid_date (year c) (month c) (day c) \<and> civil_days (year c) (month c) (day c) = 60 + 10957"
  by (rule date_denotes_day) simp

text \<open>Beyond that range the product of days and microseconds per day wraps: a date the server
  supports (day 200,000,000, in the year 549581) prints as a date of the year -34973.\<close>

theorem date_overflow_wraps:
  "encodeDateBinary [] (Some (be_put 4 200000000)) = asc ''\"-34973-05-09\"'' \<and>
   civil_days (- 34973) 5 9 \<noteq> 200000000 + 10957"
proof
  have "int32_of (be_get (be_put 4 200000000)) = 200000000" by code_simp
  moreover have "int64_of (200000000 * usecPerDay) = - 1166744073709551616" by code_simp
  moreover have "splitTime (pgEpochUnix + - 1166744073709551616 sdiv 1000000) =
      \<lparr>year = - 34973, month = 5, day = 9, hour = 15, minute = 58, second = 11\<rparr>" by code_simp
  moreover have "dec_nat 34973 = asc ''34973''"
    by (simp add: dec_nat_def nat_digits.simps dig_def ascii_simps)
  ultimately show "encodeDateBinary [] (Some (be_put 4 200000000)) = asc ''\"-34973-05-09\"''"
    by (simp add: encodeDateBinary_def appendISODateOnly_eq iso_date_def iso_year_def ascii_simps
        numeral_2_eq_2 dig_def)
  show "civil_days (- 34973) 5 9 \<noteq> 200000000 + 10957" by code_simp
qed



text \<open>An array of any number of dimensions prints as the nested JSON array of the same shape,
  its elements in row-major order, SQL NULLs as \<open>null\<close>, for every element encoder.\<close>

theorem array_prints_nested:
  "json_encoder enc ok \<Longrightarrow> array_ok dims xs \<Longrightarrow>
     arrayEncoder enc dst (Some (array_send flags elem dims xs)) = dst @ array_json enc (map fst dims) xs"
  by (rule json_encoder.array_encodes)

theorem array_prints_nested_witness:
  "arrayEncoder encodeBoolBinary [] (Some (array_send 0 16 [(2, 1), (1, 1)] [Some [1], None])) =
     [] @ array_json encodeBoolBinary (map fst [(2, 1 :: int), (1, 1)]) [Some [1], None]"
  by (rule array_prints_nested [OF bin_bool.json_encoder_axioms]) (simp add: array_ok_def)

text \<open>An array value whose body is cut short is no JSON: the bytes already written for the
  array are kept and the raw value is appended to them as a string.\<close>

theorem truncated_array_not_json:
  "\<not> json_value (arrayEncoder encodeInt4Binary [] (Some (be_put 4 1 @ be_put 4 0 @ be_put 4 23 @ be_put 4 1 @ be_put 4 1)))"
proof
  let ?v = "arrayEncoder encodeInt4Binary [] (Some (be_put 4 1 @ be_put 4 0 @ be_put 4 23 @ be_put 4 1 @ be_put 4 1))"
  assume "json_value ?v"
  then have "bracketed ?v" by (rule json_value_bracketed)
  moreover have "\<not> bracketed ?v" by code_simp
  ultimately show False by blast
qed

text \<open>An interval shorter than a second loses its sign: the encoder prints the same text for it
  and for its negation.\<close>

theorem subsecond_interval_sign_lost:
  assumes "0 < us" "us < 1000000"
  shows "encodeIntervalBinary dst (Some (be_put 8 (- us) @ be_put 8 0)) =
     encodeIntervalBinary dst (Some (be_put 8 us @ be_put 8 0))"
proof -
  have v: "int64_of (be_get (be_put 8 (- us))) = - us" "int64_of (be_get (be_put 8 us)) = us"
    using assms int64_of_mod [of us] int64_of_mod [of "- us"] by (simp_all add: be_get_put int64_of_id)
  have z: "take 4 (be_put 8 0) = be_put 4 0" "drop 4 (be_put 8 0) = be_put 4 0" "be_get (be_put 4 0) = 0" "int32_of 0 = 0"
    by code_simp+
  have "- us sdiv n = 0" "us sdiv n = 0" if "us < n" for n
    using assms that by (simp_all add: signed_divide_int_def sgn_if)
  then show ?thesis
    using assms
    by (simp add: encodeIntervalBinary_def slice_def v z Let_def appendIntervalTime_def appendFrac6_def)
qed

theorem subsecond_interval_sign_lost_witness:
  "encodeIntervalBinary [] (Some (be_put 8 (- 500000) @ be_put 8 0)) = encodeIntervalBinary [] (Some (be_put 8 500000 @ be_put 8 0))"
  by (rule subsecond_interval_sign_lost) simp_all

end
