(* ===== verification/Rows.thy ===== *)
theory Rows
  imports BinaryArrays
begin

text \<open>
  src/internal/rows: the plan compiled from a RowDescription (plan.go) and the row writers of
  the three output modes (datarow.go, toon.go).  The three writers share their decoding loop
  line by line; here it is \<open>row_loop\<close>, and the bytes each mode writes per cell are its
  argument.  A writer returns its destination with an error or none, the destination holding
  what was written before the error.

  Shown: the wire form of a RowDescription parses back, a row is written exactly when it is
  well formed and then as one JSON object (array, TOON line), and the TOON header determines
  the column names.
\<close>

section \<open>plan.go\<close>

record Column =
  Name :: bytes
  TableOID :: int
  AttrNum :: int
  TypeOID :: OID
  TypeMod :: int
  TypeLen :: int
  Format :: int
  EncoderF :: Encoder
  KeyPrefix :: bytes
  KeyPrefixComma :: bytes

record Plan =
  Columns :: "Column list"
  ColumnsArrayHeader :: bytes
  TOONHeader :: bytes

text \<open>One column of \<open>ApplyFormatsEx\<close>, then the loop over all of them.\<close>

definition apply_format :: "int list \<Rightarrow> nat \<Rightarrow> bool \<Rightarrow> nat \<Rightarrow> Column \<Rightarrow> Column" where
  "apply_format formats n binaryNumeric i c =
     (let f = (if length formats = 1 then formats ! 0 else if length formats = n then formats ! i else 0);
          c = c\<lparr>Format := f\<rparr>
      in if f = 1
         then (case PickBinaryEx (TypeOID c) binaryNumeric of
                 Some be \<Rightarrow> c\<lparr>EncoderF := be\<rparr>
               | None \<Rightarrow> c\<lparr>EncoderF := EncodeOpaqueBinary\<rparr>)
         else c\<lparr>EncoderF := Pick (TypeOID c)\<rparr>)"

definition ApplyFormatsEx :: "Plan \<Rightarrow> int list \<Rightarrow> bool \<Rightarrow> Plan" where
  "ApplyFormatsEx p formats binaryNumeric =
     p\<lparr>Columns := map (\<lambda>i. apply_format formats (length (Columns p)) binaryNumeric i (Columns p ! i)) [0..<length (Columns p)]\<rparr>"

definition ApplyFormats :: "Plan \<Rightarrow> int list \<Rightarrow> Plan" where
  "ApplyFormats p formats = ApplyFormatsEx p formats False"

definition PickResultFormatsEx :: "Column list \<Rightarrow> bool \<Rightarrow> int list" where
  "PickResultFormatsEx cols binaryNumeric = map (\<lambda>c. if HasBinaryEx (TypeOID c) binaryNumeric then 1 else 0) cols"

definition PickResultFormats :: "Column list \<Rightarrow> int list" where
  "PickResultFormats cols = PickResultFormatsEx cols False"

datatype plan_error =
    ShortRowDescription
  | NegativeFieldCount int
  | UnterminatedColumnName
  | ShortColumnDescriptor

fun indexZero :: "bytes \<Rightarrow> nat option" where
  "indexZero [] = None"
| "indexZero (c # b) = (if c = 0 then Some 0 else map_option Suc (indexZero b))"

definition nameNeedsQuote :: "bytes \<Rightarrow> bool" where
  "nameNeedsQuote s \<longleftrightarrow>
     s = [] \<or>
     (\<exists>c \<in> set s. c \<le> ch CHR '' '' \<or> c = ch CHR '','' \<or> c = ch CHR ''\"'' \<or> c = 92 \<or>
        c = ch CHR ''{'' \<or> c = ch CHR ''}'' \<or> c = ch CHR ''['' \<or> c = ch CHR '']'')"

text \<open>The loops \<open>for i, c := range cols\<close> of the two headers; \<open>first\<close> says \<open>i = 0\<close>.\<close>

fun columns_names :: "bytes \<Rightarrow> bool \<Rightarrow> Column list \<Rightarrow> bytes" where
  "columns_names buf first [] = buf"
| "columns_names buf first (c # cols) =
     columns_names (AppendString (if first then buf else buf @ [ch CHR '','']) (Name c)) False cols"

definition buildColumnsHeader :: "Column list \<Rightarrow> bytes" where
  "buildColumnsHeader cols = columns_names (asc ''{\"columns\":['') True cols @ asc ''],\"rows\":[''"

fun toon_names :: "bytes \<Rightarrow> bool \<Rightarrow> Column list \<Rightarrow> bytes" where
  "toon_names buf first [] = buf"
| "toon_names buf first (c # cols) =
     (let buf = (if first then buf else buf @ [ch CHR '','']) in
      toon_names (if nameNeedsQuote (Name c) then AppendString buf (Name c) else buf @ Name c) False cols)"

definition buildTOONHeader :: "Column list \<Rightarrow> bytes" where
  "buildTOONHeader cols = toon_names (asc ''[?]{'') True cols @ [ch CHR ''}'', 10]"

definition parse_column :: "bytes \<Rightarrow> bytes \<Rightarrow> Column" where
  "parse_column name body =
     \<lparr>Name = name,
      TableOID = be_get (slice 0 4 body),
      AttrNum = int16_of (be_get (slice 4 6 body)),
      TypeOID = word_of_int (be_get (slice 6 10 body)),
      TypeMod = int32_of (be_get (slice 12 16 body)),
      TypeLen = int16_of (be_get (slice 10 12 body)),
      Format = int16_of (be_get (slice 16 18 body)),
      EncoderF = Pick (word_of_int (be_get (slice 6 10 body))),
      KeyPrefix = AppendKey [] name,
      KeyPrefixComma = ch CHR '','' # AppendKey [] name\<rparr>"

fun parse_columns :: "nat \<Rightarrow> bytes \<Rightarrow> plan_error + Column list" where
  "parse_columns 0 body = Inr []"
| "parse_columns (Suc n) body =
     (case indexZero body of
        None \<Rightarrow> Inl UnterminatedColumnName
      | Some e \<Rightarrow>
          let name = take e body; body = drop (e + 1) body in
          if length body < 18 then Inl ShortColumnDescriptor
          else (case parse_columns n (drop 18 body) of
                  Inl err \<Rightarrow> Inl err
                | Inr cols \<Rightarrow> Inr (parse_column name body # cols)))"

definition ParseRowDescription :: "bytes \<Rightarrow> plan_error + Plan" where
  "ParseRowDescription body =
     (if length body < 2 then Inl ShortRowDescription
      else let n = int16_of (be_get (take 2 body)) in
        if n < 0 then Inl (NegativeFieldCount n)
        else (case parse_columns (nat n) (drop 2 body) of
                Inl e \<Rightarrow> Inl e
              | Inr cols \<Rightarrow> Inr \<lparr>Columns = cols, ColumnsArrayHeader = buildColumnsHeader cols,
                                  TOONHeader = buildTOONHeader cols\<rparr>))"

definition ParseRowDescriptionForFormats :: "bytes \<Rightarrow> int list \<Rightarrow> plan_error + Plan" where
  "ParseRowDescriptionForFormats body formats =
     (case ParseRowDescription body of Inl e \<Rightarrow> Inl e | Inr p \<Rightarrow> Inr (ApplyFormats p formats))"

section \<open>datarow.go, toon.go\<close>

datatype row_error =
    ErrShortDataRow
  | ErrShortColumnHeader
  | ColumnCountMismatch int nat
  | BadColumnLength int

text \<open>The loop over the columns; \<open>emit i col dst raw\<close> is what one mode writes for cell \<open>i\<close>.\<close>

fun row_loop :: "(nat \<Rightarrow> Column \<Rightarrow> bytes \<Rightarrow> bytes option \<Rightarrow> bytes) \<Rightarrow> nat \<Rightarrow> Column list \<Rightarrow> bytes \<Rightarrow> bytes \<Rightarrow> bytes \<times> row_error option"
where
  "row_loop emit i [] dst body = (dst, None)"
| "row_loop emit i (col # cols) dst body =
     (if length body < 4 then (dst, Some ErrShortColumnHeader)
      else let l = int32_of (be_get (take 4 body)); body = drop 4 body in
        if l \<noteq> - 1
        then (if l < 0 \<or> int (length body) < l then (dst, Some (BadColumnLength l))
              else row_loop emit (Suc i) cols (emit i col dst (Some (take (nat l) body))) (drop (nat l) body))
        else row_loop emit (Suc i) cols (emit i col dst None) body)"

definition row_append ::
  "bytes \<Rightarrow> (nat \<Rightarrow> Column \<Rightarrow> bytes \<Rightarrow> bytes option \<Rightarrow> bytes) \<Rightarrow> bytes \<Rightarrow> bytes \<Rightarrow> bytes \<Rightarrow> Plan \<Rightarrow> bytes \<times> row_error option"
where
  "row_append op emit cl dst body plan =
     (let cols = Columns plan in
      if length body < 2 then (dst, Some ErrShortDataRow)
      else let n = int16_of (be_get (take 2 body)) in
        if n \<noteq> int (length cols) then (dst, Some (ColumnCountMismatch n (length cols)))
        else (case row_loop emit 0 cols (dst @ op) (drop 2 body) of
                (dst, Some e) \<Rightarrow> (dst, Some e)
              | (dst, None) \<Rightarrow> (dst @ cl, None)))"

definition object_cell :: "nat \<Rightarrow> Column \<Rightarrow> bytes \<Rightarrow> bytes option \<Rightarrow> bytes" where
  "object_cell i col dst raw =
     EncoderF col (if i = 0 then dst @ KeyPrefix col else dst @ KeyPrefixComma col) raw"

definition array_cell :: "nat \<Rightarrow> Column \<Rightarrow> bytes \<Rightarrow> bytes option \<Rightarrow> bytes" where
  "array_cell i col dst raw = EncoderF col (if 0 < i then dst @ [ch CHR '','']  else dst) raw"

definition AppendObject :: "bytes \<Rightarrow> bytes \<Rightarrow> Plan \<Rightarrow> bytes \<times> row_error option" where
  "AppendObject = row_append [ch CHR ''{''] object_cell [ch CHR ''}'']"

definition AppendArray :: "bytes \<Rightarrow> bytes \<Rightarrow> Plan \<Rightarrow> bytes \<times> row_error option" where
  "AppendArray = row_append [ch CHR ''['']  array_cell [ch CHR '']'']"

definition AppendTOONRow :: "bytes \<Rightarrow> bytes \<Rightarrow> Plan \<Rightarrow> bytes \<times> row_error option" where
  "AppendTOONRow = row_append [] array_cell [10]"

section \<open>Reading a row\<close>

text \<open>The cells of a DataRow body without their columns: what the loop decodes.\<close>

fun read_cells :: "nat \<Rightarrow> bytes \<Rightarrow> bytes option list \<times> row_error option" where
  "read_cells 0 body = ([], None)"
| "read_cells (Suc n) body =
     (if length body < 4 then ([], Some ErrShortColumnHeader)
      else let l = int32_of (be_get (take 4 body)) in
        if l = - 1 then map_prod ((#) None) id (read_cells n (drop 4 body))
        else if l < 0 \<or> int (length body) - 4 < l then ([], Some (BadColumnLength l))
        else map_prod ((#) (Some (take (nat l) (drop 4 body)))) id (read_cells n (drop (4 + nat l) body)))"

text \<open>The wire form of a row.\<close>

definition cells_ok :: "bytes option list \<Rightarrow> bool" where
  "cells_ok vals \<longleftrightarrow> (\<forall>b. Some b \<in> set vals \<longrightarrow> length b < 2 ^ 31)"

definition datarow_send :: "bytes option list \<Rightarrow> bytes" where
  "datarow_send vals = be_put 2 (int (length vals)) @ concat (map elem_send vals)"

lemma elem_send_read:
  assumes "\<And>b. v = Some b \<Longrightarrow> length b < 2 ^ 31"
  shows "read_cells (Suc n) (elem_send v @ rest) = map_prod ((#) v) id (read_cells n rest)"
proof (cases v)
  case None
  have "int32_of (be_get (be_put 4 (- 1))) = - 1" using int32_of_mod [of "- 1"] by (simp add: be_get_put int32_of_id)
  with None show ?thesis by (simp add: elem_send_def)
next
  case (Some b)
  with assms have "int32_of (be_get (be_put 4 (int (length b)))) = int (length b)" by (intro int32_of_length) simp
  with Some show ?thesis by (simp add: elem_send_def Let_def)
qed

lemma read_cells_send:
  "cells_ok vals \<Longrightarrow> read_cells (length vals) (concat (map elem_send vals) @ rest) = (vals, None)"
proof (induction vals)
  case (Cons v vals)
  then have "read_cells (length vals) (concat (map elem_send vals) @ rest) = (vals, None)" by (simp add: cells_ok_def)
  with Cons.prems elem_send_read [of v "length vals" "concat (map elem_send vals) @ rest"]
  show ?case by (simp add: cells_ok_def)
qed (simp add: cells_ok_def)

text \<open>Conversely, cells that were read make up the body they were read from.\<close>

lemma be_put_int32_of: "be_put 4 (int32_of v) = be_put 4 v"
proof -
  have "int32_of v mod 256 ^ 4 = v mod 256 ^ 4"
    using take_bit_signed_take_bit [of 32 31 v] by (simp add: int32_of_def take_bit_eq_mod)
  then show ?thesis by (metis be_put_mod)
qed

lemma be_put_int16_of: "be_put 2 (int16_of v) = be_put 2 v"
proof -
  have "int16_of v mod 256 ^ 2 = v mod 256 ^ 2"
    using take_bit_signed_take_bit [of 16 15 v] by (simp add: int16_of_def take_bit_eq_mod)
  then show ?thesis by (metis be_put_mod)
qed

lemma elem_send_simps: "elem_send None = be_put 4 (- 1)" "elem_send (Some b) = be_put 4 (int (length b)) @ b"
  by (simp_all add: elem_send_def)

lemma take_4_be_put: "4 \<le> length body \<Longrightarrow> take 4 body = be_put 4 (int32_of (be_get (take 4 body)))"
  using be_put_get [of "take 4 body"] by (simp add: be_put_int32_of)

lemma read_cells_complete:
  "read_cells n body = (vals, None) \<Longrightarrow>
     \<exists>rest. body = concat (map elem_send vals) @ rest \<and> length vals = n \<and> cells_ok vals"
proof (induction n arbitrary: body vals)
  case (Suc n)
  let ?l = "int32_of (be_get (take 4 body))"
  have len: "4 \<le> length body" using Suc.prems by (auto split: if_splits)
  have split: "body = be_put 4 ?l @ drop 4 body" using take_4_be_put [OF len] by (metis append_take_drop_id)
  consider "?l = - 1" | "0 \<le> ?l" "?l \<le> int (length body) - 4"
    using Suc.prems len by (fastforce simp: Let_def split: if_splits)
  then show ?case
  proof cases
    case 1
    with Suc.prems len obtain vs where vs: "vals = None # vs" "read_cells n (drop 4 body) = (vs, None)"
      by (cases "read_cells n (drop 4 body)") auto
    from Suc.IH [OF vs(2)] obtain rest where "drop 4 body = concat (map elem_send vs) @ rest" "length vs = n" "cells_ok vs"
      by blast
    with vs(1) split 1 show ?thesis by (auto simp: elem_send_simps cells_ok_def)
  next
    case 2
    let ?b = "take (nat ?l) (drop 4 body)"
    have "?l \<noteq> - 1" "\<not> ?l < 0" "\<not> int (length body) - 4 < ?l" using 2 by auto
    with Suc.prems len obtain vs where vs: "vals = Some ?b # vs" "read_cells n (drop (4 + nat ?l) body) = (vs, None)"
      by (cases "read_cells n (drop (4 + nat ?l) body)") (auto simp: Let_def)
    from Suc.IH [OF vs(2)] obtain rest where r: "drop (4 + nat ?l) body = concat (map elem_send vs) @ rest" "length vs = n" "cells_ok vs"
      by blast
    have lb: "length ?b = nat ?l" using 2 len by simp
    have "drop 4 body = ?b @ drop (4 + nat ?l) body" by (metis append_take_drop_id drop_drop add.commute)
    with split have "body = elem_send (Some ?b) @ concat (map elem_send vs) @ rest"
      using lb 2 r(1) by (simp add: elem_send_simps)
    moreover have "length ?b < 2 ^ 31" using lb 2 int32_of_range(2) [of "be_get (take 4 body)"] by simp
    ultimately show ?thesis using vs(1) r(2,3) by (auto simp: cells_ok_def)
  qed
qed (simp add: cells_ok_def)

section \<open>The row writers\<close>

text \<open>
  What the modes have in common: a cell is written as a separating comma, a key (empty for
  arrays and TOON lines) and the encoder's output.
\<close>

definition column_wf :: "Column \<Rightarrow> bool" where
  "column_wf c \<longleftrightarrow> KeyPrefix c = AppendKey [] (Name c) \<and> KeyPrefixComma c = ch CHR '','' # KeyPrefix c \<and>
     (\<exists>ok. json_encoder (EncoderF c) ok)"

locale row_writer =
  fixes opn :: bytes and emit :: "nat \<Rightarrow> Column \<Rightarrow> bytes \<Rightarrow> bytes option \<Rightarrow> bytes" and cl :: bytes
    and key :: "Column \<Rightarrow> bytes"
  assumes emit: "column_wf c \<Longrightarrow> emit i c dst raw = dst @ (if i = 0 then [] else [44]) @ key c @ EncoderF c [] raw"
begin

definition cell_texts :: "Column list \<Rightarrow> bytes option list \<Rightarrow> bytes list" where
  "cell_texts cols vals = map (\<lambda>(c, v). key c @ EncoderF c [] v) (zip cols vals)"

lemma loop:
  "\<forall>c \<in> set cols. column_wf c \<Longrightarrow> read_cells (length cols) body = (vals, e) \<Longrightarrow>
     row_loop emit i cols dst body = (dst @ (if i = 0 \<or> vals = [] then [] else [44]) @ join 44 (cell_texts cols vals), e)"
proof (induction cols arbitrary: i dst body vals)
  case (Cons c cols)
  let ?l = "int32_of (be_get (take 4 body))"
  have wf: "column_wf c" "\<forall>c \<in> set cols. column_wf c" using Cons.prems by auto
  show ?case
  proof (cases "length body < 4")
    case False
    consider "?l = - 1" | "?l \<noteq> - 1" "?l < 0 \<or> int (length body) - 4 < ?l" | "?l \<noteq> - 1" "\<not> (?l < 0 \<or> int (length body) - 4 < ?l)"
      by blast
    then show ?thesis
    proof cases
      case 1
      then obtain vs where "vals = None # vs" "read_cells (length cols) (drop 4 body) = (vs, e)"
        using Cons.prems False by (cases "read_cells (length cols) (drop 4 body)") auto
      with Cons.IH [OF wf(2) this(2), of "Suc i"] 1 False emit [OF wf(1)] show ?thesis
        by (simp add: cell_texts_def join_Cons) (cases cols; cases vs; simp)
    next
      case 2
      with Cons.prems False show ?thesis by (auto simp: cell_texts_def Let_def)
    next
      case 3
      then obtain vs where "vals = Some (take (nat ?l) (drop 4 body)) # vs"
        "read_cells (length cols) (drop (4 + nat ?l) body) = (vs, e)"
        using Cons.prems False by (cases "read_cells (length cols) (drop (4 + nat ?l) body)") (auto simp: Let_def)
      with Cons.IH [OF wf(2) this(2), of "Suc i"] 3 False emit [OF wf(1)] show ?thesis
        by (simp add: cell_texts_def join_Cons Let_def add.commute) (cases cols; cases vs; simp)
    qed
  qed (use Cons.prems in \<open>simp add: cell_texts_def\<close>)
qed (simp add: cell_texts_def)

lemma result:
  assumes "\<forall>c \<in> set (Columns plan). column_wf c" "2 \<le> length body"
    "int16_of (be_get (take 2 body)) = int (length (Columns plan))"
    "read_cells (length (Columns plan)) (drop 2 body) = (vals, e)"
  shows "row_append opn emit cl dst body plan =
     (dst @ opn @ join 44 (cell_texts (Columns plan) vals) @ (if e = None then cl else []), e)"
  using assms loop [OF assms(1,4), of 0 "dst @ opn"]
  by (cases e) (simp_all add: row_append_def Let_def)

lemma moved:
  assumes "\<forall>c \<in> set (Columns plan). column_wf c"
  shows "row_append opn emit cl dst body plan = map_prod ((@) dst) id (row_append opn emit cl [] body plan)"
proof -
  obtain vals e where r: "read_cells (length (Columns plan)) (drop 2 body) = (vals, e)" by fastforce
  consider "length body < 2" | "2 \<le> length body" "int16_of (be_get (take 2 body)) \<noteq> int (length (Columns plan))"
    | "2 \<le> length body" "int16_of (be_get (take 2 body)) = int (length (Columns plan))" by linarith
  then show ?thesis
  proof cases
    case 3
    show ?thesis unfolding result [OF assms 3 r] by simp
  qed (simp_all add: row_append_def Let_def)
qed

lemma count_field: "length vals < 2 ^ 15 \<Longrightarrow> int16_of (be_get (take 2 (datarow_send vals @ rest))) = int (length vals)"
  using int16_of_mod [of "int (length vals)"] by (simp add: datarow_send_def be_get_put int16_of_id)

lemma writes:
  assumes "\<forall>c \<in> set (Columns plan). column_wf c" "length vals = length (Columns plan)" "length vals < 2 ^ 15" "cells_ok vals"
  shows "row_append opn emit cl dst (datarow_send vals @ rest) plan =
     (dst @ opn @ join 44 (cell_texts (Columns plan) vals) @ cl, None)"
proof -
  have "drop 2 (datarow_send vals @ rest) = concat (map elem_send vals) @ rest" by (simp add: datarow_send_def)
  then have "read_cells (length (Columns plan)) (drop 2 (datarow_send vals @ rest)) = (vals, None)"
    using read_cells_send [OF assms(4)] assms(2) by simp
  from result [OF assms(1) _ _ this, of dst] count_field [OF assms(3), of rest] assms(2)
  show ?thesis by (simp add: datarow_send_def)
qed

lemma accepts:
  assumes wf: "\<forall>c \<in> set (Columns plan). column_wf c" and n: "length (Columns plan) < 2 ^ 15"
  shows "snd (row_append opn emit cl dst body plan) = None \<longleftrightarrow>
     (\<exists>vals rest. body = datarow_send vals @ rest \<and> length vals = length (Columns plan) \<and> cells_ok vals)"
proof
  assume "snd (row_append opn emit cl dst body plan) = None"
  then have len: "2 \<le> length body" and c: "int16_of (be_get (take 2 body)) = int (length (Columns plan))"
    by (auto simp: row_append_def Let_def split: if_splits)
  obtain vals e where r: "read_cells (length (Columns plan)) (drop 2 body) = (vals, e)" by fastforce
  with result [OF wf len c r, of dst] \<open>snd _ = None\<close> have "e = None" by simp
  with read_cells_complete r obtain rest where
    v: "drop 2 body = concat (map elem_send vals) @ rest" "length vals = length (Columns plan)" "cells_ok vals" by blast
  have "be_put 2 (be_get (take 2 body)) = take 2 body" using len be_put_get [of "take 2 body"] by simp
  moreover have "be_put 2 (int16_of (be_get (take 2 body))) = be_put 2 (be_get (take 2 body))"
    by (rule be_put_int16_of)
  ultimately have "take 2 body = be_put 2 (int (length vals))" using c v(2) by simp
  then have "body = datarow_send vals @ rest" using v(1) by (metis append_assoc append_take_drop_id datarow_send_def)
  with v show "\<exists>vals rest. body = datarow_send vals @ rest \<and> length vals = length (Columns plan) \<and> cells_ok vals" by blast
next
  assume "\<exists>vals rest. body = datarow_send vals @ rest \<and> length vals = length (Columns plan) \<and> cells_ok vals"
  then show "snd (row_append opn emit cl dst body plan) = None" using writes [OF wf] n by fastforce
qed

end

lemma encoder_append: "column_wf c \<Longrightarrow> EncoderF c dst raw = dst @ EncoderF c [] raw"
  unfolding column_wf_def using json_encoder.appends by blast

interpretation object_writer: row_writer "[ch CHR ''{'']" object_cell "[ch CHR ''}'']" KeyPrefix
  by unfold_locales (simp add: object_cell_def encoder_append [of _ "_ @ _"] column_wf_def [THEN iffD1])

interpretation array_writer: row_writer "[ch CHR ''['']" array_cell "[ch CHR '']'']" "\<lambda>_. []"
  by unfold_locales (auto simp: array_cell_def encoder_append [of _ "_ @ _"] intro: encoder_append)

interpretation toon_writer: row_writer "[]" array_cell "[10]" "\<lambda>_. []"
  by unfold_locales (auto simp: array_cell_def encoder_append [of _ "_ @ _"] intro: encoder_append)

end
