(* ===== verification/RowsCorrect.thy ===== *)
theory RowsCorrect
  imports Rows
begin

text \<open>
  Properties of src/internal/rows: the plan of a RowDescription, rows end to end from wire to
  JSON, and the headers of the columnar and TOON modes.
\<close>

section \<open>The plan of a RowDescription\<close>

text \<open>A field on the wire: name, table OID, attribute number, type OID, type length, type modifier, format.\<close>

type_synonym field = "bytes \<times> int \<times> int \<times> OID \<times> int \<times> int \<times> int"

fun field_send :: "field \<Rightarrow> bytes" where
  "field_send (nm, tbl, att, oid, len, md, fmt) =
     nm @ [0] @ be_put 4 tbl @ be_put 2 att @ be_put 4 (uint oid) @ be_put 2 len @ be_put 4 md @ be_put 2 fmt"

fun field_column :: "field \<Rightarrow> Column" where
  "field_column (nm, tbl, att, oid, len, md, fmt) =
     \<lparr>Name = nm, TableOID = tbl, AttrNum = att, TypeOID = oid, TypeMod = md, TypeLen = len, Format = fmt,
      EncoderF = Pick oid, KeyPrefix = AppendKey [] nm, KeyPrefixComma = ch CHR '','' # AppendKey [] nm\<rparr>"

definition s16 :: "int \<Rightarrow> bool" where "s16 v \<longleftrightarrow> - (2 ^ 15) \<le> v \<and> v < 2 ^ 15"
definition s32 :: "int \<Rightarrow> bool" where "s32 v \<longleftrightarrow> - (2 ^ 31) \<le> v \<and> v < 2 ^ 31"

fun field_ok :: "field \<Rightarrow> bool" where
  "field_ok (nm, tbl, att, oid, len, md, fmt) \<longleftrightarrow>
     0 \<notin> set nm \<and> 0 \<le> tbl \<and> tbl < 2 ^ 32 \<and> s16 att \<and> s16 len \<and> s32 md \<and> s16 fmt"

lemma indexZero_append: "0 \<notin> set nm \<Longrightarrow> indexZero (nm @ 0 # rest) = Some (length nm)"
  by (induction nm) auto

lemma int16_field: "s16 v \<Longrightarrow> int16_of (be_get (be_put 2 v)) = v"
  using int16_of_mod [of v] by (simp add: s16_def be_get_put int16_of_id)

lemma int32_field: "s32 v \<Longrightarrow> int32_of (be_get (be_put 4 v)) = v"
  using int32_of_mod [of v] by (simp add: s32_def be_get_put int32_of_id)

lemma uint32_field: "0 \<le> v \<Longrightarrow> v < 2 ^ 32 \<Longrightarrow> be_get (be_put 4 v) = v"
  by (simp add: be_get_put)

lemma oid_field: "word_of_int (be_get (be_put 4 (uint oid))) = (oid :: OID)"
  using uint_lt2p [of oid] by (simp add: uint32_field)

lemma parse_column_field:
  assumes "field_ok (nm, tbl, att, oid, len, md, fmt)"
  shows "parse_column nm (drop (length nm + 1) (field_send (nm, tbl, att, oid, len, md, fmt) @ rest)) =
     field_column (nm, tbl, att, oid, len, md, fmt)"
  using assms by (simp add: parse_column_def slice_def int16_field int32_field uint32_field oid_field)

lemma parse_columns_send:
  "list_all field_ok fs \<Longrightarrow> parse_columns (length fs) (concat (map field_send fs) @ rest) = Inr (map field_column fs)"
proof (induction fs)
  case (Cons f fs)
  obtain nm tbl att oid len md fmt where f: "f = (nm, tbl, att, oid, len, md, fmt)" by (metis prod_cases7)
  define b where "b = concat (map field_send (f # fs)) @ rest"
  define b' where "b' = drop (length nm + 1) b"
  have ok: "field_ok (nm, tbl, att, oid, len, md, fmt)" using Cons.prems f by simp
  then have "indexZero b = Some (length nm)" by (simp add: f b_def indexZero_append)
  moreover have "drop 18 b' = concat (map field_send fs) @ rest" by (simp add: f b_def b'_def)
  moreover have "18 \<le> length b'" by (simp add: f b_def b'_def)
  moreover have "parse_column nm b' = field_column f"
    using parse_column_field [OF ok, of "concat (map field_send fs) @ rest"] by (simp add: f b_def b'_def)
  moreover have "take (length nm) b = nm" by (simp add: f b_def)
  ultimately have "parse_columns (Suc (length fs)) b = Inr (field_column f # map field_column fs)"
    using Cons unfolding parse_columns.simps(2) by (simp add: Let_def b'_def [symmetric, simplified])
  then show ?case by (simp add: b_def)
qed simp

lemma ParseRowDescription_send:
  assumes "list_all field_ok fs" "length fs < 2 ^ 15"
  shows "ParseRowDescription (be_put 2 (int (length fs)) @ concat (map field_send fs)) =
     Inr \<lparr>Columns = map field_column fs, ColumnsArrayHeader = buildColumnsHeader (map field_column fs),
          TOONHeader = buildTOONHeader (map field_column fs)\<rparr>"
proof -
  have "int16_of (be_get (be_put 2 (int (length fs)))) = int (length fs)"
    using assms(2) by (intro int16_field) (simp add: s16_def)
  then show ?thesis using parse_columns_send [OF assms(1), of "[]"] by (simp add: ParseRowDescription_def)
qed

section \<open>Columns meet the contract\<close>

text \<open>What the server sends in a cell of a column, by the format the column was bound with.\<close>

definition column_cell :: "bool \<Rightarrow> Column \<Rightarrow> bytes \<Rightarrow> bool" where
  "column_cell bn c r \<longleftrightarrow>
     (if Format c = 1 then HasBinaryEx (TypeOID c) bn \<longrightarrow> server_binary (TypeOID c) r
      else server_text (TypeOID c) r)"

lemma parse_columns_wf:
  "parse_columns n body = Inr cols \<Longrightarrow>
     length cols = n \<and> (\<forall>c \<in> set cols. column_wf c \<and> json_encoder (EncoderF c) (server_text (TypeOID c)))"
proof (induction n arbitrary: body cols)
  case (Suc n)
  have "column_wf (parse_column nm b) \<and> json_encoder (EncoderF (parse_column nm b)) (server_text (TypeOID (parse_column nm b)))" for nm b
    using Pick_json_encoder by (auto simp: parse_column_def column_wf_def)
  with Suc show ?case by (auto simp: Let_def split: option.splits if_splits sum.splits)
qed simp

lemma ParseRowDescription_wf:
  "ParseRowDescription body = Inr p \<Longrightarrow> length (Columns p) < 2 ^ 15 \<and> (\<forall>c \<in> set (Columns p). column_wf c)"
  using int16_of_range(2) [of "be_get (take 2 body)"]
  by (auto simp: ParseRowDescription_def Let_def split: if_splits sum.splits dest!: parse_columns_wf)

lemma apply_format_ok:
  "column_wf c \<Longrightarrow> column_wf (apply_format fs n bn i c) \<and>
     json_encoder (EncoderF (apply_format fs n bn i c)) (column_cell bn (apply_format fs n bn i c))"
proof -
  assume wf: "column_wf c"
  let ?c = "apply_format fs n bn i c"
  have enc: "json_encoder (EncoderF ?c) (column_cell bn ?c)"
    using PickBinaryEx_opt_json [of "TypeOID c" bn]
    by (auto simp: apply_format_def Let_def column_cell_def HasBinaryEx_def opt_json_def
        intro!: json_encoder.weaken [OF Pick_json_encoder] enc_opaque.weaken
        split: option.splits if_splits intro: json_encoder.weaken)
  moreover have "Name ?c = Name c" "KeyPrefix ?c = KeyPrefix c" "KeyPrefixComma ?c = KeyPrefixComma c"
    by (simp_all add: apply_format_def Let_def split: option.splits)
  ultimately show ?thesis using wf by (auto simp: column_wf_def)
qed

lemma ApplyFormatsEx_ok:
  assumes "\<forall>c \<in> set (Columns p). column_wf c"
  shows "\<forall>c \<in> set (Columns (ApplyFormatsEx p fs bn)). column_wf c \<and> json_encoder (EncoderF c) (column_cell bn c)"
  using assms apply_format_ok by (auto simp: ApplyFormatsEx_def)

section \<open>A row as JSON\<close>

lemma object_member:
  assumes "column_wf c" "json_encoder (EncoderF c) ok" "\<And>r. v = Some r \<Longrightarrow> ok r"
  shows "json_member (KeyPrefix c @ EncoderF c [] v)"
proof -
  have "json_value (EncoderF c [] v)" using json_encoder.cell [OF assms(2)] assms(3) by blast
  then have "json_member ((34 # escape_ref (Name c) @ [34]) @ 58 # EncoderF c [] v)"
    by (intro json_pairI json_string_escape_ref)
  then show ?thesis using assms(1) by (simp add: column_wf_def AppendKey_eq)
qed

lemma rows_json:
  assumes "\<forall>c \<in> set (Columns p). column_wf c \<and> json_encoder (EncoderF c) (ok c)"
    and "length vals = length (Columns p)" "length vals < 2 ^ 15" "cells_ok vals"
    and "list_all2 (\<lambda>c v. \<forall>r. v = Some r \<longrightarrow> ok c r) (Columns p) vals"
  shows "\<exists>v. AppendObject dst (datarow_send vals @ rest) p = (dst @ v, None) \<and> json_value v"
    and "\<exists>v. AppendArray dst (datarow_send vals @ rest) p = (dst @ v, None) \<and> json_value v"
proof -
  have wf: "\<forall>c \<in> set (Columns p). column_wf c" using assms(1) by blast
  have cell: "json_encoder (EncoderF c) (ok c) \<and> column_wf c \<and> (\<forall>r. v = Some r \<longrightarrow> ok c r)"
    if "(c, v) \<in> set (zip (Columns p) vals)" for c v
    using that assms(1,5) by (auto simp: list_all2_iff dest: set_zip_leftD)
  have "json_value (123 # join 44 (object_writer.cell_texts (Columns p) vals) @ [125])"
    by (rule json_object) (auto simp: object_writer.cell_texts_def dest!: cell intro!: object_member)
  then show "\<exists>v. AppendObject dst (datarow_send vals @ rest) p = (dst @ v, None) \<and> json_value v"
    using object_writer.writes [OF wf assms(2-4), of dst rest] by (simp add: AppendObject_def)
  have "json_value (91 # join 44 (array_writer.cell_texts (Columns p) vals) @ [93])"
    by (rule json_array) (auto simp: array_writer.cell_texts_def dest!: cell intro!: json_encoder.cell)
  then show "\<exists>v. AppendArray dst (datarow_send vals @ rest) p = (dst @ v, None) \<and> json_value v"
    using array_writer.writes [OF wf assms(2-4), of dst rest] by (simp add: AppendArray_def)
qed

section \<open>Headers\<close>

lemma columns_names_eq:
  "columns_names buf first cols =
     buf @ (if first \<or> cols = [] then [] else [44]) @ join 44 (map (\<lambda>c. 34 # escape_ref (Name c) @ [34]) cols)"
  by (induction buf first cols rule: columns_names.induct) (auto simp: AppendString_eq join_Cons)

lemma columns_doc:
  assumes "\<And>r. r \<in> set rs \<Longrightarrow> json_value r"
  shows "json_value (buildColumnsHeader cols @ join 44 rs @ asc '']}'')"
proof -
  let ?cols = "91 # join 44 (map (\<lambda>c. 34 # escape_ref (Name c) @ [34]) cols) @ [93]"
  let ?rows = "91 # join 44 rs @ [93]"
  have key: "json_string (asc ''\"columns\"'')" "json_string (asc ''\"rows\"'')"
    using json_string_plain [of "asc ''columns''"] json_string_plain [of "asc ''rows''"]
    by (simp_all add: ascii_simps plain_char_def)
  have "json_member (asc ''\"columns\"'' @ 58 # ?cols)"
    by (intro json_pairI key json_array) (auto intro: json_value_escaped)
  moreover have "json_member (asc ''\"rows\"'' @ 58 # ?rows)"
    by (intro json_pairI key json_array assms)
  ultimately have "json_value (123 # join 44 [asc ''\"columns\"'' @ 58 # ?cols, asc ''\"rows\"'' @ 58 # ?rows] @ [125])"
    by (intro json_object) auto
  then show ?thesis by (simp add: buildColumnsHeader_def columns_names_eq ascii_simps)
qed

text \<open>The text of one TOON name, and how a reader finds its end.\<close>

definition toon_name :: "bytes \<Rightarrow> bytes" where
  "toon_name s = (if nameNeedsQuote s then 34 # escape_ref s @ [34] else s)"

lemma toon_names_eq:
  "toon_names buf first cols = buf @ (if first \<or> cols = [] then [] else [44]) @ join 44 (map (\<lambda>c. toon_name (Name c)) cols)"
  by (induction buf first cols rule: toon_names.induct) (auto simp: AppendString_eq join_Cons toon_name_def Let_def)

text \<open>An escape is self-delimiting: its first two bytes tell its length.\<close>

definition esc_len :: "bytes \<Rightarrow> nat" where
  "esc_len s = (if s ! 0 \<noteq> 92 then 1 else if s ! 1 = 117 then 6 else 2)"

lemma esc1_len: "length (esc1 c) = esc_len (esc1 c @ u)" "esc1 c \<noteq> []" "hd (esc1 c) \<noteq> 34"
  by (auto simp: esc1_def appendEscape_def esc_len_def escapeFlag_def)

lemma esc1_prefix: "esc1 c @ u = esc1 d @ v \<Longrightarrow> c = d \<and> u = v"
proof -
  assume e: "esc1 c @ u = esc1 d @ v"
  then have "length (esc1 c) = length (esc1 d)" using esc1_len(1) by metis
  with e have "esc1 c = esc1 d" "u = v" by auto
  moreover have "unescape (esc1 x @ []) = Some [x]" for x by (simp only: unescape_esc1) simp
  ultimately show ?thesis by (metis list.inject option.inject)
qed

lemma escape_ref_prefix: "escape_ref s @ 34 # u = escape_ref t @ 34 # v \<Longrightarrow> s = t \<and> u = v"
proof (induction s arbitrary: t)
  case Nil
  then show ?case using esc1_len(2,3) by (cases t) (auto simp: hd_append neq_Nil_conv, metis append_Cons list.sel(1))
next
  case (Cons c s)
  show ?case
  proof (cases t)
    case Nil
    with Cons.prems esc1_len(2,3) [of c] show ?thesis by (cases "esc1 c") auto
  next
    case (Cons d t')
    with Cons.prems esc1_prefix [of c "escape_ref s @ 34 # u" d "escape_ref t' @ 34 # v"] Cons.IH [of t'] show ?thesis
      by auto
  qed
qed

definition name_end :: "byte \<Rightarrow> bool" where
  "name_end c \<longleftrightarrow> c = 44 \<or> c = 125"

lemma toon_name_prefix:
  assumes "toon_name s @ x # u = toon_name t @ y # v" "name_end x" "name_end y"
  shows "s = t \<and> x # u = y # v"
proof -
  have bare: "takeWhile (\<lambda>c. \<not> name_end c) (s @ x # u) = s \<and> hd (s @ x # u) \<noteq> 34" if "\<not> nameNeedsQuote s" "name_end x" for s x u
  proof -
    have "\<forall>c \<in> set s. \<not> name_end c" "s \<noteq> []" "34 \<notin> set s" using that(1) by (auto simp: nameNeedsQuote_def name_end_def)
    then show ?thesis using that(2) by (auto simp: takeWhile_append2 hd_append dest: hd_in_set)
  qed
  consider "nameNeedsQuote s" "nameNeedsQuote t" | "nameNeedsQuote s" "\<not> nameNeedsQuote t"
    | "\<not> nameNeedsQuote s" "nameNeedsQuote t" | "\<not> nameNeedsQuote s" "\<not> nameNeedsQuote t" by blast
  then show ?thesis
  proof cases
    case 1
    with assms(1) show ?thesis by (auto simp: toon_name_def dest: escape_ref_prefix)
  next
    case 2
    with assms(1) have "hd (t @ y # v) = 34" by (simp add: toon_name_def) (metis list.sel(1))
    with bare [OF 2(2) assms(3)] show ?thesis by blast
  next
    case 3
    with assms(1) have "hd (s @ x # u) = 34" by (simp add: toon_name_def)
    with bare [OF 3(1) assms(2)] show ?thesis by blast
  next
    case 4
    with assms(1) have "s @ x # u = t @ y # v" by (simp add: toon_name_def)
    with bare [OF 4(1) assms(2), of u] bare [OF 4(2) assms(3), of v] show ?thesis by simp
  qed
qed

lemma toon_names_inject:
  "join 44 (map toon_name xs) @ 125 # u = join 44 (map toon_name ys) @ 125 # v \<Longrightarrow> xs = ys"
proof (induction xs arbitrary: ys)
  case Nil
  show ?case
  proof (cases ys)
    case (Cons t ys')
    have "toon_name t \<noteq> [] \<and> hd (toon_name t) \<noteq> 125" by (auto simp: toon_name_def nameNeedsQuote_def dest: hd_in_set)
    with Nil Cons show ?thesis by (cases "toon_name t") (auto simp: join_Cons)
  qed simp
next
  case (Cons s xs)
  show ?case
  proof (cases ys)
    case Nil
    have "toon_name s \<noteq> [] \<and> hd (toon_name s) \<noteq> 125" by (auto simp: toon_name_def nameNeedsQuote_def dest: hd_in_set)
    with Cons.prems Nil show ?thesis by (cases "toon_name s") (auto simp: join_Cons)
  next
    case (Cons t ys')
    define tl1 where "tl1 = (if xs = [] then 125 # u else 44 # join 44 (map toon_name xs) @ 125 # u)"
    define tl2 where "tl2 = (if ys' = [] then 125 # v else 44 # join 44 (map toon_name ys') @ 125 # v)"
    have "toon_name s @ tl1 = toon_name t @ tl2"
      using Cons.prems Cons by (auto simp: join_Cons tl1_def tl2_def split: if_splits)
    moreover have "\<exists>x p. tl1 = x # p \<and> name_end x" "\<exists>y q. tl2 = y # q \<and> name_end y"
      by (auto simp: tl1_def tl2_def name_end_def)
    then obtain x p y q where "tl1 = x # p" "name_end x" "tl2 = y # q" "name_end y" by blast
    ultimately have "s = t" "tl1 = tl2" using toon_name_prefix [of s x p t y q] by auto
    moreover have "xs = ys'"
      using \<open>tl1 = tl2\<close> Cons.IH [of ys'] by (auto simp: tl1_def tl2_def split: if_splits)
    ultimately show ?thesis using Cons by simp
  qed
qed

section \<open>Properties\<close>



text \<open>C23. The row writers accept exactly the bodies that carry, for every column of the plan, a
  NULL or a complete cell (bytes after the last cell are ignored); everything else is an error,
  whatever the encoders are.\<close>

theorem row_accepted_iff:
  assumes "ParseRowDescription desc = Inr p0" "p = ApplyFormatsEx p0 formats bn"
  shows "(snd (AppendObject dst body p) = None \<longleftrightarrow>
      (\<exists>vals rest. body = datarow_send vals @ rest \<and> length vals = length (Columns p) \<and> cells_ok vals)) \<and>
    snd (AppendArray dst body p) = snd (AppendObject dst body p) \<and>
    snd (AppendTOONRow dst body p) = snd (AppendObject dst body p)"
proof -
  have wf: "\<forall>c \<in> set (Columns p). column_wf c" "length (Columns p) < 2 ^ 15"
    using ApplyFormatsEx_ok ParseRowDescription_wf [OF assms(1)] by (auto simp: assms(2) ApplyFormatsEx_def)
  obtain vals e where r: "read_cells (length (Columns p)) (drop 2 body) = (vals, e)" by fastforce
  have "snd (row_append op em cl dst body p) =
      (if length body < 2 then Some ErrShortDataRow
       else if int16_of (be_get (take 2 body)) \<noteq> int (length (Columns p))
       then Some (ColumnCountMismatch (int16_of (be_get (take 2 body))) (length (Columns p))) else e)"
    if "row_writer em k" for op em cl k
    using row_writer.result [OF that wf(1) _ _ r, of op cl dst] by (auto simp: row_append_def Let_def)
  then show ?thesis
    using object_writer.accepts [OF wf, of dst body] object_writer.row_writer_axioms array_writer.row_writer_axioms
    unfolding AppendObject_def AppendArray_def AppendTOONRow_def by metis
qed

theorem row_accepted_iff_witness:
  defines "p0 \<equiv> \<lparr>Columns = [], ColumnsArrayHeader = buildColumnsHeader [], TOONHeader = buildTOONHeader []\<rparr>"
  shows "(snd (AppendObject [] [0, 0] (ApplyFormatsEx p0 [] False)) = None \<longleftrightarrow>
      (\<exists>vals rest. [0, 0] = datarow_send vals @ rest \<and> length vals = length (Columns (ApplyFormatsEx p0 [] False)) \<and> cells_ok vals)) \<and>
    snd (AppendArray [] [0, 0] (ApplyFormatsEx p0 [] False)) = snd (AppendObject [] [0, 0] (ApplyFormatsEx p0 [] False)) \<and>
    snd (AppendTOONRow [] [0, 0] (ApplyFormatsEx p0 [] False)) = snd (AppendObject [] [0, 0] (ApplyFormatsEx p0 [] False))"
  by (rule row_accepted_iff [of "[0, 0]" p0]) (simp_all add: ParseRowDescription_def p0_def int16_of_id)

text \<open>A RowDescription parses back: for every list of fields the server can describe, the plan
  has exactly one column per field with its name, OIDs, modifier, length and format, and the text
  encoder and key of that column.\<close>

theorem ParseRowDescription_roundtrip:
  assumes "list_all field_ok fs" "length fs < 2 ^ 15"
  shows "ParseRowDescription (be_put 2 (int (length fs)) @ concat (map field_send fs)) =
     Inr \<lparr>Columns = map field_column fs, ColumnsArrayHeader = buildColumnsHeader (map field_column fs),
          TOONHeader = buildTOONHeader (map field_column fs)\<rparr>"
  using assms by (rule ParseRowDescription_send)

theorem ParseRowDescription_roundtrip_witness:
  "let fs = [(asc ''id'', 16384, 1, OIDInt8, 8, - 1, 0) :: field] in
     ParseRowDescription (be_put 2 (int (length fs)) @ concat (map field_send fs)) =
     Inr \<lparr>Columns = map field_column fs, ColumnsArrayHeader = buildColumnsHeader (map field_column fs),
          TOONHeader = buildTOONHeader (map field_column fs)\<rparr>"
  unfolding Let_def by (rule ParseRowDescription_roundtrip) (simp_all add: s16_def s32_def ascii_simps)

text \<open>The TOON header is unambiguous: two column lists with the same header have the same
  names, whatever commas, braces, quotes or control characters the names contain.\<close>

theorem toon_header_unambiguous:
  "buildTOONHeader cols = buildTOONHeader cols' \<Longrightarrow> map Name cols = map Name cols'"
  using toon_names_inject [of "map Name cols" "[10]" "map Name cols'" "[10]"]
  by (simp add: buildTOONHeader_def toon_names_eq comp_def)

theorem toon_header_unambiguous_witness:
  "map Name [field_column (asc ''a,b'', 0, 0, OIDInt4, 4, - 1, 0)] = map Name [field_column (asc ''a,b'', 0, 0, OIDInt8, 8, - 1, 1)]"
  by (rule toon_header_unambiguous) (simp add: buildTOONHeader_def Let_def)

end
