(* ===== verification/Wire.thy ===== *)
theory Wire
  imports Rows Protocol
begin

text \<open>
  src/internal/wire/conn.go: framing over a network connection.  The two directions of a
  \<^verbatim>\<open>wire.Conn\<close> never share state, so they are two records.  A \<open>reader\<close> holds the bytes the
  server still delivers before the connection ends (\<open>rx\<close>; the part already in the bufio buffer
  is not told apart), the size of the bufio buffer and the capacity of the scratch buffer.  A
  \<open>writer\<close> holds the bytes handed to the network (\<open>tx\<close>), the number of bytes the network will
  still take (\<open>room\<close>, \<open>None\<close> for no limit) and the buffer of messages under construction.

  Shown: a built message is a frame with a correct length; a framed message is read back
  exactly, on the zero-copy and on the copying path; reading consumes input, so every message
  loop of the driver ends; and flushing transmits everything that was built, in order.
\<close>

section \<open>State\<close>

datatype wire_error = NetRead | BogusLength int | TooLarge int | NetWrite

record reader =
  rx :: bytes
  brSize :: nat
  readCap :: nat

record writer =
  tx :: bytes
  room :: "nat option"
  writeBuf :: bytes

abbreviation (input) minRead :: nat where "minRead \<equiv> 8192"
abbreviation (input) maxMsg :: nat where "maxMsg \<equiv> 268435456"
abbreviation (input) DefaultReaderBufSize :: nat where "DefaultReaderBufSize \<equiv> 131072"

text \<open>\<open>NewSized\<close> on a connection that will deliver \<open>bs\<close> and take \<open>r\<close> bytes.\<close>

definition NewSized :: "bytes \<Rightarrow> nat option \<Rightarrow> int \<Rightarrow> reader \<times> writer" where
  "NewSized bs r bufSize =
     (\<lparr>rx = bs, brSize = (if bufSize \<le> 0 then DefaultReaderBufSize else nat bufSize), readCap = minRead\<rparr>,
      \<lparr>tx = [], room = r, writeBuf = []\<rparr>)"

definition New :: "bytes \<Rightarrow> nat option \<Rightarrow> reader \<times> writer" where
  "New bs r = NewSized bs r (int DefaultReaderBufSize)"

section \<open>Reading\<close>

text \<open>
  \<open>Peek\<close> fails without consuming when the connection ends before that many bytes;
  \<open>io.ReadFull\<close> then consumes what there is.
\<close>

definition ReadMessage :: "reader \<Rightarrow> reader \<times> (wire_error + byte \<times> bytes)" where
  "ReadMessage r =
     (if length (rx r) < 5 then (r, Inl NetRead)
      else
        let t = rx r ! 0; len = be_get (slice 1 5 (rx r)) in
        if len < 4 then (r, Inl (BogusLength len))
        else
          let bodyLen = nat len - 4 in
          if maxMsg < bodyLen then (r, Inl (TooLarge (int bodyLen)))
          else
            let total = 5 + bodyLen in
            if total \<le> brSize r
            then (if length (rx r) < total then (r, Inl NetRead)
                  else (r\<lparr>rx := drop total (rx r)\<rparr>, Inr (t, slice 5 total (rx r))))
            else
              let b = drop 5 (rx r);
                  cp = (if readCap r < bodyLen then max (readCap r * 2) bodyLen else readCap r);
                  r = r\<lparr>readCap := cp\<rparr>
              in if length b < bodyLen then (r\<lparr>rx := []\<rparr>, Inl NetRead)
                 else (r\<lparr>rx := drop bodyLen b\<rparr>, Inr (t, take bodyLen b)))"

text \<open>\<open>ReadByte\<close>, before any framed traffic.\<close>

definition ReadByte :: "reader \<Rightarrow> reader \<times> (wire_error + byte)" where
  "ReadByte r = (case rx r of [] \<Rightarrow> (r, Inl NetRead) | b # bs \<Rightarrow> (r\<lparr>rx := bs\<rparr>, Inr b))"

section \<open>Writing\<close>

text \<open>
  \<open>net.Conn.Write\<close> reports an error whenever it takes less than everything, so the loop of
  \<open>WriteRaw\<close> runs at most once.
\<close>

definition WriteRaw :: "bytes \<Rightarrow> writer \<Rightarrow> writer \<times> wire_error option" where
  "WriteRaw p w =
     (if p = [] then (w, None)
      else case room w of
        None \<Rightarrow> (w\<lparr>tx := tx w @ p\<rparr>, None)
      | Some k \<Rightarrow>
          if length p \<le> k then (w\<lparr>tx := tx w @ p, room := Some (k - length p)\<rparr>, None)
          else (w\<lparr>tx := tx w @ take k p, room := Some 0\<rparr>, Some NetWrite))"

definition Flush :: "writer \<Rightarrow> writer \<times> wire_error option" where
  "Flush w =
     (if writeBuf w = [] then (w, None)
      else case WriteRaw (writeBuf w) w of (w, e) \<Rightarrow> (w\<lparr>writeBuf := []\<rparr>, e))"

record builder =
  noType :: bool
  startOff :: nat

definition app :: "bytes \<Rightarrow> writer \<Rightarrow> writer" where
  "app p w = w\<lparr>writeBuf := writeBuf w @ p\<rparr>"

definition Begin :: "byte \<Rightarrow> writer \<Rightarrow> builder \<times> writer" where
  "Begin t w = (\<lparr>noType = False, startOff = length (writeBuf w)\<rparr>, app [0, 0, 0, 0] (app [t] w))"

definition BeginNoType :: "writer \<Rightarrow> builder \<times> writer" where
  "BeginNoType w = (\<lparr>noType = True, startOff = length (writeBuf w)\<rparr>, app [0, 0, 0, 0] w)"

definition b_Byte :: "byte \<Rightarrow> writer \<Rightarrow> writer" where "b_Byte v = app [v]"
definition b_Bytes :: "bytes \<Rightarrow> writer \<Rightarrow> writer" where "b_Bytes p = app p"
definition b_String :: "bytes \<Rightarrow> writer \<Rightarrow> writer" where "b_String s = app s"
definition b_CString :: "bytes \<Rightarrow> writer \<Rightarrow> writer" where "b_CString s w = app [0] (app s w)"
definition b_Int16 :: "int \<Rightarrow> writer \<Rightarrow> writer" where "b_Int16 v = app (be_put 2 v)"
definition b_Int32 :: "int \<Rightarrow> writer \<Rightarrow> writer" where "b_Int32 v = app (be_put 4 v)"

text \<open>\<open>PutUint32(buf[a:a+4], v)\<close>.\<close>

definition patch :: "nat \<Rightarrow> int \<Rightarrow> bytes \<Rightarrow> bytes" where
  "patch a v buf = take a buf @ be_put 4 v @ drop (a + 4) buf"

definition Finish :: "builder \<Rightarrow> writer \<Rightarrow> writer" where
  "Finish b w =
     (let buf = writeBuf w; start = startOff b in
      if noType b then w\<lparr>writeBuf := patch start (int (length buf - start)) buf\<rparr>
      else w\<lparr>writeBuf := patch (start + 1) (int (length buf - start - 1)) buf\<rparr>)"

definition Send :: "builder \<Rightarrow> writer \<Rightarrow> writer \<times> wire_error option" where
  "Send b w = Flush (Finish b w)"

text \<open>A complete message: \<open>Begin\<close>, the appends of its body, \<open>Finish\<close>.\<close>

definition message :: "byte \<Rightarrow> (writer \<Rightarrow> writer) \<Rightarrow> writer \<Rightarrow> writer" where
  "message t body w = (case Begin t w of (b, w) \<Rightarrow> Finish b (body w))"

section \<open>Frames\<close>

definition frame :: "byte \<Rightarrow> bytes \<Rightarrow> bytes" where
  "frame t body = t # be_put 4 (int (length body) + 4) @ body"

definition frame_ok :: "bytes \<Rightarrow> bool" where
  "frame_ok body \<longleftrightarrow> length body \<le> maxMsg"

lemma ReadMessage_frame:
  assumes "frame_ok body" "rx r = frame t body @ rest"
  shows "\<exists>cp. ReadMessage r = (r\<lparr>rx := rest, readCap := cp\<rparr>, Inr (t, body))"
proof -
  have len: "be_get (be_put 4 (int (length body) + 4)) = int (length body) + 4"
    using assms(1) by (simp add: be_get_put frame_ok_def)
  have "slice 1 5 (rx r) = be_put 4 (int (length body) + 4)"
    by (simp add: assms(2) frame_def slice_def)
  then have b: "be_get (slice 1 5 (rx r)) = int (length body) + 4" using len by simp
  have d: "drop 5 (rx r) = body @ rest" "length (rx r) = 5 + length body + length rest"
    by (simp_all add: assms(2) frame_def)
  have t: "rx r ! 0 = t" by (simp add: assms(2) frame_def)
  have n: "nat (int (length body) + 4) - 4 = length body" by simp
  have sl: "slice 5 (5 + length body) (rx r) = body" using d(1) by (simp add: slice_def)
  have dr: "drop (5 + length body) (rx r) = rest" using d(1) by (metis add.commute append_eq_conv_conj drop_drop)
  show ?thesis
  proof (cases "5 + length body \<le> brSize r")
    case True
    then have "ReadMessage r = (r\<lparr>rx := rest, readCap := readCap r\<rparr>, Inr (t, body))"
      using assms(1) d(2) unfolding ReadMessage_def Let_def b n t sl dr by (simp add: frame_ok_def)
    then show ?thesis by blast
  next
    case False
    then show ?thesis
      using assms(1) d unfolding ReadMessage_def Let_def b n t sl dr
      by (intro exI [of _ "if readCap r < length body then max (readCap r * 2) (length body) else readCap r"])
        (simp add: frame_ok_def)
  qed
qed

text \<open>A message read is at least a header shorter, so message loops terminate.\<close>

lemma ReadMessage_consumes: "ReadMessage r = (r', Inr m) \<Longrightarrow> length (rx r') < length (rx r)"
  by (auto simp: ReadMessage_def Let_def split: if_splits; arith)

lemma ReadMessage_sizes: "ReadMessage r = (r', x) \<Longrightarrow> brSize r' = brSize r"
  by (auto simp: ReadMessage_def Let_def split: if_splits)

lemma ReadMessage_caps: "ReadMessage r = (r', x) \<Longrightarrow> readCap r \<le> readCap r'"
  by (auto simp: ReadMessage_def Let_def max_def split: if_splits)

lemma writeBuf_app [simp]: "writeBuf (app p w) = writeBuf w @ p" "tx (app p w) = tx w" "room (app p w) = room w"
  by (simp_all add: app_def)

lemma app_app [simp]: "app q (app p w) = app (p @ q) w"
  by (simp add: app_def)

lemma app_Nil [simp]: "app [] w = w"
  by (simp add: app_def)

lemmas builder_defs = b_Byte_def b_Bytes_def b_String_def b_CString_def b_Int16_def b_Int32_def

text \<open>
  An append-only body function puts the same bytes after whatever is in the buffer; every body
  the driver builds is one.
\<close>

definition appends :: "(writer \<Rightarrow> writer) \<Rightarrow> bytes \<Rightarrow> bool" where
  "appends f p \<longleftrightarrow> (\<forall>w. f w = app p w)"

lemma message_frame:
  assumes "appends f p"
  shows "message t f w = app (frame t p) w"
proof -
  let ?n = "length (writeBuf w)"
  have f: "f (app [t, 0, 0, 0, 0] w) = app ([t, 0, 0, 0, 0] @ p) w" using assms by (simp add: appends_def)
  have "take (Suc ?n) (writeBuf w @ t # 0 # 0 # 0 # 0 # p) = writeBuf w @ [t]"
    "drop (Suc ?n + 4) (writeBuf w @ t # 0 # 0 # 0 # 0 # p) = p"
    by simp_all
  then show ?thesis
    by (simp add: message_def Begin_def f Finish_def patch_def frame_def Let_def add.commute)
qed

lemma Flush_all:
  assumes "room w = None"
  shows "Flush w = (w\<lparr>tx := tx w @ writeBuf w, writeBuf := []\<rparr>, None)"
  using assms by (auto simp: Flush_def WriteRaw_def)

text \<open>Reading \<open>n\<close> messages in a row.\<close>

fun read_n :: "nat \<Rightarrow> reader \<Rightarrow> reader \<times> (wire_error + (byte \<times> bytes) list)" where
  "read_n 0 r = (r, Inr [])"
| "read_n (Suc n) r =
     (case ReadMessage r of
        (r, Inl e) \<Rightarrow> (r, Inl e)
      | (r, Inr m) \<Rightarrow> (case read_n n r of (r, Inl e) \<Rightarrow> (r, Inl e) | (r, Inr ms) \<Rightarrow> (r, Inr (m # ms))))"

definition frames :: "(byte \<times> bytes) list \<Rightarrow> bytes" where
  "frames ms = concat (map (\<lambda>(t, b). frame t b) ms)"

lemma frames_simps [simp]: "frames [] = []" "frames ((t, b) # ms) = frame t b @ frames ms"
  by (simp_all add: frames_def)

lemma frames_append [simp]: "frames (ms @ ns) = frames ms @ frames ns"
  by (simp add: frames_def)

lemma read_n_frames:
  assumes "\<forall>(t, b) \<in> set ms. frame_ok b" "rx r = frames ms @ rest"
  shows "\<exists>cp. read_n (length ms) r = (r\<lparr>rx := rest, readCap := cp\<rparr>, Inr ms)"
  using assms
proof (induction ms arbitrary: r)
  case Nil
  then have "read_n (length []) r = (r\<lparr>rx := rest, readCap := readCap r\<rparr>, Inr [])" by simp
  then show ?case by blast
next
  case (Cons m ms)
  obtain t b where m: "m = (t, b)" by (cases m)
  with Cons.prems have ok: "frame_ok b" "\<forall>(t, b) \<in> set ms. frame_ok b" and
    "rx r = frame t b @ (frames ms @ rest)" by auto
  then obtain cp where r: "ReadMessage r = (r\<lparr>rx := frames ms @ rest, readCap := cp\<rparr>, Inr (t, b))"
    using ReadMessage_frame by blast
  obtain cp' where "read_n (length ms) (r\<lparr>rx := frames ms @ rest, readCap := cp\<rparr>)
      = (r\<lparr>rx := rest, readCap := cp'\<rparr>, Inr ms)"
    using Cons.IH [of "r\<lparr>rx := frames ms @ rest, readCap := cp\<rparr>"] ok by auto
  then have "read_n (length (m # ms)) r = (r\<lparr>rx := rest, readCap := cp'\<rparr>, Inr (m # ms))"
    using r m by simp
  then show ?case by blast
qed

lemma fold_messages:
  assumes "\<forall>(t, f, b) \<in> set ms. appends f b"
  shows "fold (\<lambda>(t, f, b). message t f) ms w = app (frames (map (\<lambda>(t, f, b). (t, b)) ms)) w"
  using assms
proof (induction ms arbitrary: w)
  case (Cons m ms)
  obtain t f b where m: "m = (t, f, b)" by (cases m)
  with Cons.prems have "message t f w = app (frame t b) w" by (auto intro: message_frame)
  then show ?case using Cons m by simp
qed simp

section \<open>Properties\<close>

text \<open>C26. What one side builds, the other side reads.  Any sequence of messages built with
  \<open>Begin\<close>, appends and \<open>Finish\<close> in an empty write buffer and then flushed puts a byte string on
  the network from which the same number of \<open>ReadMessage\<close> calls returns the same types and
  bodies, in order, leaving the bytes that follow, whatever the size of the reader's buffer (so
  the zero-copy path and the copying path agree).\<close>

theorem wire_roundtrip:
  assumes "\<forall>(t, f, b) \<in> set ms. appends f b \<and> frame_ok b"
    and "room w = None" "writeBuf w = []"
  shows "\<exists>s. Flush (fold (\<lambda>(t, f, b). message t f) ms w) = (w\<lparr>tx := tx w @ s\<rparr>, None)
    \<and> (\<forall>r rest. rx r = s @ rest \<longrightarrow>
         (\<exists>cp. read_n (length ms) r
            = (r\<lparr>rx := rest, readCap := cp\<rparr>, Inr (map (\<lambda>(t, f, b). (t, b)) ms))))"
proof -
  let ?ms = "map (\<lambda>(t, f, b). (t, b)) ms"
  have "fold (\<lambda>(t, f, b). message t f) ms w = app (frames ?ms) w"
    using assms(1) by (intro fold_messages) auto
  then have "Flush (fold (\<lambda>(t, f, b). message t f) ms w) = (w\<lparr>tx := tx w @ frames ?ms\<rparr>, None)"
    using assms(2,3) by (simp add: Flush_all)
  moreover have ok: "\<forall>(t, b) \<in> set ?ms. frame_ok b" using assms(1) by fastforce
  moreover have "\<exists>cp. read_n (length ms) r = (r\<lparr>rx := rest, readCap := cp\<rparr>, Inr ?ms)"
    if "rx r = frames ?ms @ rest" for r rest
    using read_n_frames [OF ok that] by (simp only: length_map)
  ultimately show ?thesis by blast
qed

theorem wire_roundtrip_witness:
  "\<exists>s. Flush (fold (\<lambda>(t, f, b). message t f) [(81, b_CString [115], [115, 0]), (83, id, [])]
       \<lparr>tx = [], room = None, writeBuf = []\<rparr>)
     = (\<lparr>tx = s, room = None, writeBuf = []\<rparr>, None)
   \<and> (\<exists>cp. read_n 2 \<lparr>rx = s @ [9], brSize = 8, readCap = 1\<rparr>
        = (\<lparr>rx = [9], brSize = 8, readCap = cp\<rparr>, Inr [(81, [115, 0]), (83, [])]))"
proof -
  let ?ms = "[(81, b_CString [115], [115, 0]), (83, id, [])] :: (byte \<times> (writer \<Rightarrow> writer) \<times> bytes) list"
  have "appends (b_CString [115]) [115, 0]" "appends id []"
    by (simp_all add: appends_def b_CString_def)
  then have h: "\<forall>(t, f, b) \<in> set ?ms. appends f b \<and> frame_ok b" by (simp add: frame_ok_def)
  obtain s where s: "Flush (fold (\<lambda>(t, f, b). message t f) ?ms \<lparr>tx = [], room = None, writeBuf = []\<rparr>)
       = (\<lparr>tx = s, room = None, writeBuf = []\<rparr>, None)"
    and r: "\<And>r rest. rx r = s @ rest \<Longrightarrow> \<exists>cp. read_n 2 r
       = (r\<lparr>rx := rest, readCap := cp\<rparr>, Inr [(81, [115, 0]), (83, [])])"
    using wire_roundtrip [OF h, of "\<lparr>tx = [], room = None, writeBuf = []\<rparr>"] by (auto simp: numeral_2_eq_2)
  from r [of "\<lparr>rx = s @ [9], brSize = 8, readCap = 1\<rparr>" "[9]"] s show ?thesis by auto
qed

text \<open>C28. Every message loop of the driver makes progress: a successful \<open>ReadMessage\<close> leaves at
  least five bytes less to read, and a failed one never adds any; reading never changes the
  buffer size and never shrinks the scratch buffer below what it was.\<close>

theorem ReadMessage_progress:
  assumes "ReadMessage r = (r', x)"
  shows "(case x of Inl e \<Rightarrow> length (rx r') \<le> length (rx r)
      | Inr (t, body) \<Rightarrow> length (rx r') + 5 + length body = length (rx r) \<and> length body \<le> maxMsg)
    \<and> brSize r' = brSize r \<and> readCap r \<le> readCap r'"
proof (cases x)
  case (Inl e)
  have "length (rx r') \<le> length (rx r)"
    using assms Inl by (auto simp: ReadMessage_def Let_def split: if_splits)
  then show ?thesis using Inl ReadMessage_caps [OF assms] ReadMessage_sizes [OF assms] by simp
next
  case (Inr m)
  obtain t body where m: "m = (t, body)" by (cases m)
  let ?n = "nat (be_get (slice 1 5 (rx r))) - 4"
  have "?n \<le> maxMsg \<and> 5 + ?n \<le> length (rx r) \<and> length body = ?n \<and> rx r' = drop (5 + ?n) (rx r)"
    using assms unfolding Inr m ReadMessage_def Let_def slice_def
    by (auto split: if_splits simp: ac_simps)
  then show ?thesis using Inr m ReadMessage_caps [OF assms] ReadMessage_sizes [OF assms] by simp
qed

theorem ReadMessage_progress_witness:
  "case snd (ReadMessage \<lparr>rx = [90, 0, 0, 0, 5, 73, 1], brSize = 16, readCap = 0\<rparr>) of
     Inl e \<Rightarrow> False | Inr (t, body) \<Rightarrow> length body = 1"
proof -
  let ?r = "\<lparr>rx = [90, 0, 0, 0, 5, 73, 1], brSize = 16, readCap = 0\<rparr> :: reader"
  have "rx ?r = frame 90 [73] @ [1]" by (simp add: frame_def eval_nat_numeral)
  then obtain cp where m: "ReadMessage ?r = (?r\<lparr>rx := [1], readCap := cp\<rparr>, Inr (90, [73]))"
    using ReadMessage_frame [of "[73]" ?r 90 "[1]"] by (auto simp: frame_ok_def)
  from ReadMessage_progress [OF m] m show ?thesis by simp
qed

end
