(* ===== verification/PgErr.thy ===== *)
theory PgErr
  imports Wire
begin

text \<open>
  src/internal/pgerr/pgerr.go: the structured form of ErrorResponse and NoticeResponse.
  \<open>Parse\<close> is total; on a body as the protocol documents it, it returns exactly the fields sent.
\<close>

record pg_error =
  Severity :: bytes
  Code :: bytes
  Message :: bytes
  Detail :: bytes
  Hint :: bytes
  Where :: bytes
  Fields :: "byte \<rightharpoonup> bytes"

definition no_error :: pg_error where
  "no_error = \<lparr>Severity = [], Code = [], Message = [], Detail = [], Hint = [], Where = [], Fields = Map.empty\<rparr>"

text \<open>One turn of the loop of \<open>Parse\<close>: store the field under its code, and in its own slot.\<close>

definition set_field :: "byte \<Rightarrow> bytes \<Rightarrow> pg_error \<Rightarrow> pg_error" where
  "set_field code val e0 =
     (let e = e0\<lparr>Fields := (Fields e0)(code \<mapsto> val)\<rparr> in
      if code = ch CHR ''S'' then e\<lparr>Severity := val\<rparr>
      else if code = ch CHR ''C'' then e\<lparr>Code := val\<rparr>
      else if code = ch CHR ''M'' then e\<lparr>Message := val\<rparr>
      else if code = ch CHR ''D'' then e\<lparr>Detail := val\<rparr>
      else if code = ch CHR ''H'' then e\<lparr>Hint := val\<rparr>
      else if code = ch CHR ''W'' then e\<lparr>Where := val\<rparr>
      else e)"

function parse_fields :: "bytes \<Rightarrow> pg_error \<Rightarrow> pg_error" where
  "parse_fields body e =
     (case body of [] \<Rightarrow> e
      | code # body \<Rightarrow>
          if code = 0 then e
          else (case indexZero body of
                  None \<Rightarrow> e
                | Some i \<Rightarrow> parse_fields (drop (i + 1) body) (set_field code (take i body) e)))"
  by pat_completeness auto
termination
  by (relation "measure (\<lambda>(body, e). length body)") auto

declare parse_fields.simps [simp del]

definition Parse :: "bytes \<Rightarrow> pg_error" where
  "Parse body = parse_fields body no_error"

definition SQLState :: "pg_error \<Rightarrow> bytes" where
  "SQLState e = Code e"

definition SQLStateClass :: "pg_error \<Rightarrow> bytes" where
  "SQLStateClass e = (if length (Code e) < 2 then [] else take 2 (Code e))"

definition IsUniqueViolation :: "pg_error \<Rightarrow> bool" where
  "IsUniqueViolation e \<longleftrightarrow> Code e = asc ''23505''"

definition IsForeignKeyViolation :: "pg_error \<Rightarrow> bool" where
  "IsForeignKeyViolation e \<longleftrightarrow> Code e = asc ''23503''"

definition IsCheckViolation :: "pg_error \<Rightarrow> bool" where
  "IsCheckViolation e \<longleftrightarrow> Code e = asc ''23514''"

definition IsNotNullViolation :: "pg_error \<Rightarrow> bool" where
  "IsNotNullViolation e \<longleftrightarrow> Code e = asc ''23502''"

definition IsExclusionViolation :: "pg_error \<Rightarrow> bool" where
  "IsExclusionViolation e \<longleftrightarrow> Code e = asc ''23P01''"

definition IsIntegrityViolation :: "pg_error \<Rightarrow> bool" where
  "IsIntegrityViolation e \<longleftrightarrow> SQLStateClass e = asc ''23''"

definition IsSerializationFailure :: "pg_error \<Rightarrow> bool" where
  "IsSerializationFailure e \<longleftrightarrow> Code e = asc ''40001''"

definition IsDeadlock :: "pg_error \<Rightarrow> bool" where
  "IsDeadlock e \<longleftrightarrow> Code e = asc ''40P01''"

definition IsQueryCanceled :: "pg_error \<Rightarrow> bool" where
  "IsQueryCanceled e \<longleftrightarrow> Code e = asc ''57014''"

definition IsAdminShutdown :: "pg_error \<Rightarrow> bool" where
  "IsAdminShutdown e \<longleftrightarrow> Code e = asc ''57P01''"

definition IsInvalidSQLStatementName :: "pg_error \<Rightarrow> bool" where
  "IsInvalidSQLStatementName e \<longleftrightarrow> Code e = asc ''26000''"

section \<open>Round trip\<close>

text \<open>The body the server sends for a list of fields, and the same list stored field by field.\<close>

definition error_send :: "(byte \<times> bytes) list \<Rightarrow> bytes" where
  "error_send fs = concat (map (\<lambda>(c, v). c # v @ [0]) fs) @ [0]"

definition fields_ok :: "(byte \<times> bytes) list \<Rightarrow> bool" where
  "fields_ok fs \<longleftrightarrow> (\<forall>(c, v) \<in> set fs. c \<noteq> 0 \<and> 0 \<notin> set v)"

lemma indexZero_cstring: "0 \<notin> set v \<Longrightarrow> indexZero (v @ 0 # rest) = Some (length v)"
  by (induction v) auto

lemma parse_fields_send:
  "fields_ok fs \<Longrightarrow> parse_fields (error_send fs) e = fold (\<lambda>(c, v). set_field c v) fs e"
proof (induction fs arbitrary: e)
  case Nil
  then show ?case by (simp add: error_send_def parse_fields.simps)
next
  case (Cons f fs)
  obtain c v where f: "f = (c, v)" by fastforce
  have ok: "c \<noteq> 0" "0 \<notin> set v" "fields_ok fs" using Cons.prems by (auto simp: f fields_ok_def)
  have "error_send (f # fs) = c # v @ 0 # error_send fs" by (simp add: error_send_def f)
  then have "parse_fields (error_send (f # fs)) e = parse_fields (error_send fs) (set_field c v e)"
    using ok by (simp add: parse_fields.simps [of "c # v @ 0 # error_send fs"] indexZero_cstring)
  then show ?case using Cons.IH [OF ok(3)] by (simp add: f)
qed

lemma Fields_fold: "Fields (fold (\<lambda>(c, v). set_field c v) fs e) = Fields e ++ map_of (rev fs)"
proof (induction fs arbitrary: e)
  case (Cons f fs)
  obtain c v where f: "f = (c, v)" by fastforce
  have "Fields (set_field c v e) = (Fields e)(c \<mapsto> v)" by (simp add: set_field_def Let_def)
  then show ?case using Cons by (simp add: f map_add_def fun_eq_iff split: option.splits)
qed simp

text \<open>The named slots follow the field map.\<close>

definition slots_agree :: "pg_error \<Rightarrow> bool" where
  "slots_agree e \<longleftrightarrow>
     (\<forall>(c, v) \<in> {(ch CHR ''S'', Severity e), (ch CHR ''C'', Code e), (ch CHR ''M'', Message e),
                (ch CHR ''D'', Detail e), (ch CHR ''H'', Hint e), (ch CHR ''W'', Where e)}.
        v = (case Fields e c of None \<Rightarrow> [] | Some v \<Rightarrow> v))"

lemma slots_agree_set_field: "slots_agree e \<Longrightarrow> slots_agree (set_field c v e)"
  by (simp add: slots_agree_def set_field_def Let_def)

lemma slots_agree_fold: "slots_agree e \<Longrightarrow> slots_agree (fold (\<lambda>(c, v). set_field c v) fs e)"
  by (induction fs arbitrary: e) (auto simp: slots_agree_set_field)

lemma Parse_slots: "slots_agree (Parse body)"
proof -
  have "slots_agree e \<Longrightarrow> slots_agree (parse_fields body e)" for e
  proof (induction body e rule: parse_fields.induct)
    case (1 body e)
    show ?case
      using 1 slots_agree_set_field by (subst parse_fields.simps) (auto split: list.splits option.splits)
  qed
  moreover have "slots_agree no_error" by (simp add: slots_agree_def no_error_def)
  ultimately show ?thesis by (simp add: Parse_def)
qed

section \<open>Properties\<close>

text \<open>Parsing an ErrorResponse returns exactly the fields the server sent (a repeated field
  keeps its last value), and the SQLSTATE, message and the other named slots agree with them, for
  every body whatsoever.\<close>

theorem Parse_roundtrip:
  "slots_agree (Parse body) \<and> (fields_ok fs \<longrightarrow> Fields (Parse (error_send fs)) = map_of (rev fs))"
  using Parse_slots [of body] parse_fields_send [of fs no_error] Fields_fold [of fs no_error]
  by (simp add: Parse_def no_error_def)

theorem Parse_roundtrip_witness:
  "Fields (Parse (error_send [(67, asc ''26000''), (77, asc ''gone'')])) = map_of (rev [(67, asc ''26000''), (77, asc ''gone'')])"
  using Parse_roundtrip [of "[]" "[(67, asc ''26000''), (77, asc ''gone'')]"]
  by (simp add: fields_ok_def ascii_simps)

end
