(* ===== verification/Output.thy ===== *)
theory Output
  imports Prelude
begin

text \<open>
  src/pgz/stream.go and src/internal/bufferpool/pool.go: the two output paths behind the
  interface \<^verbatim>\<open>outWriter\<close>.  The interface is the locale \<open>out_writer\<close>; its central notion is the
  whole output of a query so far, what went downstream followed by what is buffered.
  Capacities of slices are not modelled: \<open>GrowForRow\<close> only copies the buffer.

  The \<^verbatim>\<open>io.Writer\<close> under a \<open>flushingWriter\<close> is a \<open>sink\<close>: the bytes it got, and how many more
  calls of \<^verbatim>\<open>Write\<close> succeed (\<open>None\<close>: all).  Whether the flush interval has passed when the code
  asks the clock is read from a list of answers.
\<close>

section \<open>bufferpool/pool.go\<close>

record buf_pool =
  live :: int
  maxLive :: int
  idle :: nat

definition SetMaxLive :: "int \<Rightarrow> buf_pool \<Rightarrow> buf_pool" where
  "SetMaxLive n p = p\<lparr>maxLive := n\<rparr>"

definition Live :: "buf_pool \<Rightarrow> int" where
  "Live p = (if live p < 0 then 0 else live p)"

text \<open>\<open>sync.Pool\<close> hands out an idle buffer or makes one; past the cap it is not asked.\<close>

definition Get :: "buf_pool \<Rightarrow> buf_pool" where
  "Get p =
     (let m = maxLive p in
      if 0 < m \<and> m \<le> live p then p
      else let p = (if 0 < m then p\<lparr>live := live p + 1\<rparr> else p) in p\<lparr>idle := idle p - 1\<rparr>)"

definition Put :: "nat \<Rightarrow> buf_pool \<Rightarrow> buf_pool" where
  "Put cp p =
     (let p' = (if 0 < maxLive p then p\<lparr>live := live p - 1\<rparr> else p) in
      if 1048576 < cp then p' else p'\<lparr>idle := idle p' + 1\<rparr>)"

section \<open>The writers of stream.go\<close>

datatype out_error = DownstreamError

record bufWriter =
  bw_p :: bytes
  bw_rowsHint :: int
  bw_grew :: bool

record sink =
  got :: bytes
  accepts :: "nat option"

record flushingWriter =
  fw_w :: sink
  threshold :: int
  interval :: bool
  elapsed :: "bool list"
  fw_buf :: bytes
  src :: bool
  committed :: bool
  written :: nat
  fw_rowsHint :: int
  fw_grew :: bool

definition sink_write :: "bytes \<Rightarrow> sink \<Rightarrow> sink \<times> out_error option" where
  "sink_write p s =
     (case accepts s of
        None \<Rightarrow> (s\<lparr>got := got s @ p\<rparr>, None)
      | Some 0 \<Rightarrow> (s, Some DownstreamError)
      | Some (Suc n) \<Rightarrow> (s\<lparr>got := got s @ p, accepts := Some n\<rparr>, None))"

definition releaseBuf :: "flushingWriter \<Rightarrow> flushingWriter" where
  "releaseBuf f = f\<lparr>src := False\<rparr>"

definition fw_Flush :: "flushingWriter \<Rightarrow> flushingWriter \<times> out_error option" where
  "fw_Flush f =
     (if 0 < length (fw_buf f)
      then (case sink_write (fw_buf f) (fw_w f) of
              (s, Some e) \<Rightarrow> (releaseBuf (f\<lparr>fw_w := s\<rparr>), Some e)
            | (s, None) \<Rightarrow>
                (f\<lparr>fw_w := s, committed := True, written := written f + length (fw_buf f), fw_buf := []\<rparr>, None))
      else (f, None))"

definition fw_MaybeFlush :: "flushingWriter \<Rightarrow> flushingWriter \<times> out_error option" where
  "fw_MaybeFlush f =
     (if threshold f \<le> int (length (fw_buf f)) then fw_Flush f
      else if interval f \<and> 0 < length (fw_buf f)
      then (let now = (elapsed f \<noteq> [] \<and> hd (elapsed f)); f = f\<lparr>elapsed := tl (elapsed f)\<rparr> in
            if now then fw_Flush f else (f, None))
      else (f, None))"

definition bw_GrowForRow :: "int \<Rightarrow> bufWriter \<Rightarrow> bufWriter" where
  "bw_GrowForRow rowBytes b =
     (if bw_grew b \<or> bw_rowsHint b \<le> 0 \<or> rowBytes \<le> 0 then b else b\<lparr>bw_grew := True\<rparr>)"

definition fw_GrowForRow :: "int \<Rightarrow> flushingWriter \<Rightarrow> flushingWriter" where
  "fw_GrowForRow rowBytes f =
     (if fw_grew f \<or> fw_rowsHint f \<le> 0 \<or> rowBytes \<le> 0 then f else f\<lparr>fw_grew := True\<rparr>)"

text \<open>The interface value: one of the two implementations.\<close>

datatype outWriter = BufW bufWriter | FlushW flushingWriter

fun Buf :: "outWriter \<Rightarrow> bytes" where
  "Buf (BufW b) = bw_p b"
| "Buf (FlushW f) = fw_buf f"

fun SetBuf :: "bytes \<Rightarrow> outWriter \<Rightarrow> outWriter" where
  "SetBuf p (BufW b) = BufW (b\<lparr>bw_p := p\<rparr>)"
| "SetBuf p (FlushW f) = FlushW (f\<lparr>fw_buf := p\<rparr>)"

fun Write :: "bytes \<Rightarrow> outWriter \<Rightarrow> outWriter \<times> out_error option" where
  "Write p (BufW b) = (BufW (b\<lparr>bw_p := bw_p b @ p\<rparr>), None)"
| "Write p (FlushW f) = (FlushW (f\<lparr>fw_buf := fw_buf f @ p\<rparr>), None)"

fun WriteByte :: "byte \<Rightarrow> outWriter \<Rightarrow> outWriter \<times> out_error option" where
  "WriteByte c (BufW b) = (BufW (b\<lparr>bw_p := bw_p b @ [c]\<rparr>), None)"
| "WriteByte c (FlushW f) = (FlushW (f\<lparr>fw_buf := fw_buf f @ [c]\<rparr>), None)"

fun MaybeFlush :: "outWriter \<Rightarrow> outWriter \<times> out_error option" where
  "MaybeFlush (BufW b) = (BufW b, None)"
| "MaybeFlush (FlushW f) = map_prod FlushW id (fw_MaybeFlush f)"

fun FlushOut :: "outWriter \<Rightarrow> outWriter \<times> out_error option" where
  "FlushOut (BufW b) = (BufW b, None)"
| "FlushOut (FlushW f) = map_prod FlushW id (fw_Flush f)"

fun Committed :: "outWriter \<Rightarrow> bool" where
  "Committed (BufW b) = False"
| "Committed (FlushW f) = committed f"

fun Reset :: "outWriter \<Rightarrow> outWriter" where
  "Reset (BufW b) = BufW (b\<lparr>bw_p := []\<rparr>)"
| "Reset (FlushW f) = (if committed f then FlushW f else FlushW (f\<lparr>fw_buf := []\<rparr>))"

fun BytesOut :: "outWriter \<Rightarrow> nat" where
  "BytesOut (BufW b) = length (bw_p b)"
| "BytesOut (FlushW f) = written f + length (fw_buf f)"

fun GrowForRow :: "int \<Rightarrow> outWriter \<Rightarrow> outWriter" where
  "GrowForRow n (BufW b) = BufW (bw_GrowForRow n b)"
| "GrowForRow n (FlushW f) = FlushW (fw_GrowForRow n f)"

section \<open>The contract of the interface\<close>

text \<open>
  \<open>sent\<close> is what has reached the consumer and cannot be taken back.  Every operation keeps
  \<open>sent @ buf\<close> or extends it at the end, and only \<open>reset\<close> shortens it, to \<open>sent\<close>.
\<close>

locale out_writer =
  fixes inv :: "'w \<Rightarrow> bool" and sent :: "'w \<Rightarrow> bytes" and buf :: "'w \<Rightarrow> bytes"
    and setbuf :: "bytes \<Rightarrow> 'w \<Rightarrow> 'w"
    and writ :: "bytes \<Rightarrow> 'w \<Rightarrow> 'w \<times> out_error option"
    and maybe :: "'w \<Rightarrow> 'w \<times> out_error option" and flush :: "'w \<Rightarrow> 'w \<times> out_error option"
    and comm :: "'w \<Rightarrow> bool" and reset :: "'w \<Rightarrow> 'w" and bytes_out :: "'w \<Rightarrow> nat"
    and grow :: "int \<Rightarrow> 'w \<Rightarrow> 'w"
  assumes setbuf: "inv w \<Longrightarrow> inv (setbuf p w) \<and> sent (setbuf p w) = sent w \<and> buf (setbuf p w) = p"
    and writ: "inv w \<Longrightarrow> writ p w = (setbuf (buf w @ p) w, None)"
    and maybe: "inv w \<Longrightarrow> maybe w = (w', e) \<Longrightarrow> inv w' \<and> sent w' @ buf w' = sent w @ buf w"
    and flush: "inv w \<Longrightarrow> flush w = (w', e) \<Longrightarrow> inv w' \<and> sent w' @ buf w' = sent w @ buf w"
    and comm: "inv w \<Longrightarrow> comm w \<longleftrightarrow> sent w \<noteq> []"
    and reset: "inv w \<Longrightarrow> \<not> comm w \<Longrightarrow> inv (reset w) \<and> sent (reset w) = [] \<and> buf (reset w) = []"
    and bytes_out: "inv w \<Longrightarrow> bytes_out w = length (sent w @ buf w)"
    and grow: "inv w \<Longrightarrow> inv (grow n w) \<and> sent (grow n w) = sent w \<and> buf (grow n w) = buf w"
begin

definition total :: "'w \<Rightarrow> bytes" where
  "total w = sent w @ buf w"

lemma total_writ: "inv w \<Longrightarrow> inv (fst (writ p w)) \<and> total (fst (writ p w)) = total w @ p \<and> snd (writ p w) = None"
  using setbuf [of w "buf w @ p"] by (simp add: writ total_def)

lemma total_append: "inv w \<Longrightarrow> inv (setbuf (buf w @ p) w) \<and> total (setbuf (buf w @ p) w) = total w @ p"
  using setbuf [of w "buf w @ p"] by (simp add: total_def)

lemma total_grow: "inv w \<Longrightarrow> inv (grow n w) \<and> total (grow n w) = total w"
  using grow [of w n] by (simp add: total_def)

lemma total_maybe: "inv w \<Longrightarrow> maybe w = (w', e) \<Longrightarrow> inv w' \<and> total w' = total w"
  using maybe by (simp add: total_def)

lemma total_flush: "inv w \<Longrightarrow> flush w = (w', e) \<Longrightarrow> inv w' \<and> total w' = total w"
  using flush by (simp add: total_def)

lemma total_reset: "inv w \<Longrightarrow> \<not> comm w \<Longrightarrow> inv (reset w) \<and> total (reset w) = []"
  using reset by (simp add: total_def)

lemma bytes_out_total: "inv w \<Longrightarrow> bytes_out w = length (total w)"
  using bytes_out by (simp add: total_def)

end

text \<open>The state a \<open>flushingWriter\<close> keeps about its sink.\<close>

definition fw_inv :: "flushingWriter \<Rightarrow> bool" where
  "fw_inv f \<longleftrightarrow> (committed f \<longleftrightarrow> got (fw_w f) \<noteq> []) \<and> written f = length (got (fw_w f))"

lemma fw_Flush_laws:
  assumes "fw_inv f" "fw_Flush f = (f', e)"
  shows "fw_inv f'" "got (fw_w f') @ fw_buf f' = got (fw_w f) @ fw_buf f"
    "e = None \<Longrightarrow> fw_buf f' = []"
  using assms
  by (auto simp: fw_Flush_def fw_inv_def sink_write_def releaseBuf_def split: if_splits option.splits nat.splits)

lemma fw_MaybeFlush_laws:
  assumes "fw_inv f" "fw_MaybeFlush f = (f', e)"
  shows "fw_inv f'" "got (fw_w f') @ fw_buf f' = got (fw_w f) @ fw_buf f"
proof -
  have i: "fw_inv (f\<lparr>elapsed := x\<rparr>)" for x using assms(1) by (simp add: fw_inv_def)
  show "fw_inv f'" "got (fw_w f') @ fw_buf f' = got (fw_w f) @ fw_buf f"
    using assms(2) fw_Flush_laws [OF assms(1)] fw_Flush_laws [OF i] assms(1) i
    by (auto simp: fw_MaybeFlush_def Let_def split: if_splits)
qed

interpretation bw: out_writer "\<lambda>_. True" "\<lambda>_. []" bw_p "\<lambda>p b. b\<lparr>bw_p := p\<rparr>" "\<lambda>p b. (b\<lparr>bw_p := bw_p b @ p\<rparr>, None)"
  "\<lambda>b. (b, None)" "\<lambda>b. (b, None)" "\<lambda>_. False" "\<lambda>b. b\<lparr>bw_p := []\<rparr>" "\<lambda>b. length (bw_p b)" bw_GrowForRow
  by unfold_locales (auto simp: bw_GrowForRow_def)

interpretation fw: out_writer fw_inv "\<lambda>f. got (fw_w f)" fw_buf "\<lambda>p f. f\<lparr>fw_buf := p\<rparr>" "\<lambda>p f. (f\<lparr>fw_buf := fw_buf f @ p\<rparr>, None)"
  fw_MaybeFlush fw_Flush committed "\<lambda>f. if committed f then f else f\<lparr>fw_buf := []\<rparr>"
  "\<lambda>f. written f + length (fw_buf f)" fw_GrowForRow
proof unfold_locales
  fix w w' e
  show "fw_inv w \<Longrightarrow> fw_MaybeFlush w = (w', e) \<Longrightarrow> fw_inv w' \<and> got (fw_w w') @ fw_buf w' = got (fw_w w) @ fw_buf w"
    using fw_MaybeFlush_laws by blast
  show "fw_inv w \<Longrightarrow> fw_Flush w = (w', e) \<Longrightarrow> fw_inv w' \<and> got (fw_w w') @ fw_buf w' = got (fw_w w) @ fw_buf w"
    using fw_Flush_laws by blast
qed (simp_all add: fw_inv_def fw_GrowForRow_def)

fun out_inv :: "outWriter \<Rightarrow> bool" where
  "out_inv (BufW b) = True"
| "out_inv (FlushW f) = fw_inv f"

fun out_sent :: "outWriter \<Rightarrow> bytes" where
  "out_sent (BufW b) = []"
| "out_sent (FlushW f) = got (fw_w f)"

interpretation ow: out_writer out_inv out_sent Buf SetBuf Write MaybeFlush FlushOut Committed Reset BytesOut GrowForRow
proof unfold_locales
  fix w p w' e n
  show "out_inv w \<Longrightarrow> out_inv (SetBuf p w) \<and> out_sent (SetBuf p w) = out_sent w \<and> Buf (SetBuf p w) = p"
    using fw.setbuf by (cases w) auto
  show "out_inv w \<Longrightarrow> Write p w = (SetBuf (Buf w @ p) w, None)" by (cases w) auto
  show "out_inv w \<Longrightarrow> MaybeFlush w = (w', e) \<Longrightarrow> out_inv w' \<and> out_sent w' @ Buf w' = out_sent w @ Buf w"
    by (cases w; cases "fw_MaybeFlush (case w of FlushW f \<Rightarrow> f)") (auto dest: fw_MaybeFlush_laws)
  show "out_inv w \<Longrightarrow> FlushOut w = (w', e) \<Longrightarrow> out_inv w' \<and> out_sent w' @ Buf w' = out_sent w @ Buf w"
    by (cases w; cases "fw_Flush (case w of FlushW f \<Rightarrow> f)") (auto dest: fw_Flush_laws)
  show "out_inv w \<Longrightarrow> Committed w \<longleftrightarrow> out_sent w \<noteq> []" using fw.comm by (cases w) auto
  show "out_inv w \<Longrightarrow> \<not> Committed w \<Longrightarrow> out_inv (Reset w) \<and> out_sent (Reset w) = [] \<and> Buf (Reset w) = []"
    using fw.reset by (cases w) auto
  show "out_inv w \<Longrightarrow> BytesOut w = length (out_sent w @ Buf w)" using fw.bytes_out by (cases w) auto
  show "out_inv w \<Longrightarrow> out_inv (GrowForRow n w) \<and> out_sent (GrowForRow n w) = out_sent w \<and> Buf (GrowForRow n w) = Buf w"
    using bw.grow fw.grow by (cases w) auto
qed

lemma WriteByte_Write: "WriteByte c w = Write [c] w"
  by (cases w) simp_all

section \<open>Properties\<close>

text \<open>The count of live buffers drifts: every buffer taken past the cap is never counted but is
  counted down when it comes back, so a burst of such pairs lowers the count by one each, for
  good.  After a burst the cap no longer holds back \<open>sync.Pool\<close> until as many more buffers are
  out.\<close>

theorem live_count_drifts:
  assumes "0 < maxLive p" "maxLive p \<le> live p" "cp \<le> 1048576"
  shows "Get p = p \<and> live (((\<lambda>p. Put cp p) ^^ n) ((Get ^^ n) p)) = live p - int n"
proof -
  have "Get p = p" using assms by (simp add: Get_def)
  then have "(Get ^^ n) p = p" by (induction n) simp_all
  moreover have "maxLive (((\<lambda>p. Put cp p) ^^ n) p) = maxLive p \<and> live (((\<lambda>p. Put cp p) ^^ n) p) = live p - int n"
    using assms by (induction n) (simp_all add: Put_def Let_def)
  ultimately show ?thesis using \<open>Get p = p\<close> by simp
qed

theorem live_count_drifts_witness:
  "Get \<lparr>live = 2, maxLive = 2, idle = 0\<rparr> = \<lparr>live = 2, maxLive = 2, idle = 0\<rparr> \<and>
     live (((\<lambda>p. Put 32768 p) ^^ 5) ((Get ^^ 5) \<lparr>live = 2, maxLive = 2, idle = 0\<rparr>)) = live \<lparr>live = 2, maxLive = 2, idle = 0\<rparr> - int 5"
  by (rule live_count_drifts) simp_all

end
