(* ===== verification/Stmts.thy ===== *)
theory Stmts
  imports Rows "HOL-Library.Multiset"
begin

text \<open>
  src/pgz/stmtcache.go: the cache of prepared statements of one client.  The Go map is an
  association list with distinct keys; which entry \<open>range\<close> meets first when one must be
  evicted is not specified by Go and read from the list \<open>picks\<close>.  Statement names are what
  ties the cache to the server, so they carry the invariant: every name handed out is in one
  place, and none is lost between the cache and the queue of names to close.
\<close>

record preparedStmt =
  name :: bytes
  plan :: "Plan option"
  resultFmts :: "int list"
  paramOIDs :: "OID list"

record stmtCache =
  scmax :: nat
  byKey :: "(bytes \<times> preparedStmt) list"
  closed :: "bytes list"
  seqno :: nat
  picks :: "nat list"

definition newStmtCache :: "int \<Rightarrow> nat list \<Rightarrow> stmtCache" where
  "newStmtCache m ps = \<lparr>scmax = (if m \<le> 0 then 64 else nat m), byKey = [], closed = [], seqno = 0, picks = ps\<rparr>"

definition sc_get :: "bytes \<Rightarrow> stmtCache \<Rightarrow> preparedStmt option" where
  "sc_get sql sc = map_of (byKey sc) sql"

text \<open>\<open>delete(m, k)\<close> and \<open>m[k] = v\<close>.\<close>

definition map_delete :: "bytes \<Rightarrow> (bytes \<times> preparedStmt) list \<Rightarrow> (bytes \<times> preparedStmt) list" where
  "map_delete k m = filter (\<lambda>(k', v). k' \<noteq> k) m"

definition map_set :: "bytes \<Rightarrow> preparedStmt \<Rightarrow> (bytes \<times> preparedStmt) list \<Rightarrow> (bytes \<times> preparedStmt) list" where
  "map_set k v m = (k, v) # map_delete k m"

definition sc_put :: "bytes \<Rightarrow> preparedStmt \<Rightarrow> stmtCache \<Rightarrow> stmtCache" where
  "sc_put sql st sc =
     (let sc =
        (if scmax sc \<le> length (byKey sc)
         then (case byKey sc of
                 [] \<Rightarrow> sc
               | _ \<Rightarrow>
                 let i = (if picks sc = [] then 0 else hd (picks sc)) mod length (byKey sc);
                     (k, v) = byKey sc ! i
                 in sc\<lparr>closed := closed sc @ [name v], byKey := map_delete k (byKey sc), picks := tl (picks sc)\<rparr>)
         else sc)
      in sc\<lparr>byKey := map_set sql st (byKey sc)\<rparr>)"

definition takePendingClose :: "stmtCache \<Rightarrow> bytes list \<times> stmtCache" where
  "takePendingClose sc = (closed sc, sc\<lparr>closed := []\<rparr>)"

definition dig36 :: "nat \<Rightarrow> byte" where
  "dig36 d = word_of_int (if d < 10 then 48 + int d else 87 + int d)"

definition stmt_name :: "nat \<Rightarrow> bytes" where
  "stmt_name n = asc ''s_'' @ map dig36 (nat_digits 36 n)"

definition nextName :: "stmtCache \<Rightarrow> bytes \<times> stmtCache" where
  "nextName sc = (let n = seqno sc + 1 in (stmt_name n, sc\<lparr>seqno := n\<rparr>))"

definition sc_invalidate :: "bytes \<Rightarrow> stmtCache \<Rightarrow> stmtCache" where
  "sc_invalidate sql sc =
     (case map_of (byKey sc) sql of
        None \<Rightarrow> sc
      | Some st \<Rightarrow> sc\<lparr>closed := closed sc @ [name st], byKey := map_delete sql (byKey sc)\<rparr>)"

section \<open>Names\<close>

lemma uint_dig36: "d < 36 \<Longrightarrow> uint (dig36 d) = (if d < 10 then 48 + int d else 87 + int d)"
  unfolding dig36_def uint_word_of_int by (cases "d < 10") simp_all

lemma dig36_inject:
  assumes "d < 36" "e < 36" "dig36 d = dig36 e"
  shows "d = e"
proof -
  have "(if d < 10 then 48 + int d else 87 + int d) = (if e < 10 then 48 + int e else 87 + int e)"
    using uint_dig36 [OF assms(1)] uint_dig36 [OF assms(2)] assms(3) by metis
  then show ?thesis by (auto split: if_splits)
qed

lemma dig36_nonzero: "d < 36 \<Longrightarrow> dig36 d \<noteq> 0"
  using uint_dig36 [of d] by (auto split: if_splits)

lemma stmt_name_inject: "stmt_name m = stmt_name n \<Longrightarrow> m = n"
proof -
  assume "stmt_name m = stmt_name n"
  then have "map dig36 (nat_digits 36 m) = map dig36 (nat_digits 36 n)" by (simp add: stmt_name_def)
  moreover have "inj_on dig36 (set (nat_digits 36 m) \<union> set (nat_digits 36 n))"
  proof (rule inj_onI)
    have l: "x \<in> set (nat_digits 36 m) \<union> set (nat_digits 36 n) \<Longrightarrow> x < 36" for x
      using nat_digits_less [of 36] by auto
    fix x y
    assume "x \<in> set (nat_digits 36 m) \<union> set (nat_digits 36 n)" "y \<in> set (nat_digits 36 m) \<union> set (nat_digits 36 n)"
      "dig36 x = dig36 y"
    then show "x = y" using dig36_inject l by blast
  qed
  ultimately have "nat_digits 36 m = nat_digits 36 n" by (simp add: inj_on_map_eq_map)
  then show ?thesis by (rule nat_digits_inject)
qed

text \<open>A statement name never holds the byte that ends it on the wire.\<close>

lemma stmt_name_no_zero: "0 \<notin> set (stmt_name n)"
proof
  assume "0 \<in> set (stmt_name n)"
  then obtain d where "d \<in> set (nat_digits 36 n)" "dig36 d = 0" by (auto simp: stmt_name_def ascii_simps)
  then show False using dig36_nonzero [of d] nat_digits_less [of 36 d n] by simp
qed

section \<open>The store\<close>

definition sc_names :: "stmtCache \<Rightarrow> bytes list" where
  "sc_names sc = map (\<lambda>(k, v). name v) (byKey sc) @ closed sc"

definition sc_inv :: "stmtCache \<Rightarrow> bool" where
  "sc_inv sc \<longleftrightarrow> 0 < scmax sc \<and> distinct (map fst (byKey sc)) \<and> length (byKey sc) \<le> scmax sc \<and>
     distinct (sc_names sc) \<and> (\<forall>n \<in> set (sc_names sc). \<exists>k. 0 < k \<and> k \<le> seqno sc \<and> n = stmt_name k)"

lemma map_delete_length: "length (map_delete k m) \<le> length m"
  by (simp add: map_delete_def)

lemma map_delete_absent: "k \<notin> fst ` set m \<Longrightarrow> map_delete k m = m"
  by (induction m) (auto simp: map_delete_def)

lemma map_delete_keys: "distinct (map fst m) \<Longrightarrow> distinct (map fst (map_delete k m)) \<and> k \<notin> fst ` set (map_delete k m)"
  by (induction m) (auto simp: map_delete_def)

lemma map_delete_member:
  assumes "distinct (map fst m)" "(k, v) \<in> set m"
  shows "mset m = add_mset (k, v) (mset (map_delete k m))" "length m = Suc (length (map_delete k m))"
proof -
  show 1: "mset m = add_mset (k, v) (mset (map_delete k m))"
    using assms
  proof (induction m)
    case (Cons x m)
    show ?case
    proof (cases "fst x = k")
      case True
      with Cons.prems have "x = (k, v)" by (auto simp: image_iff)
      moreover have "map_delete k m = m" using Cons.prems True by (intro map_delete_absent) auto
      ultimately show ?thesis by (simp add: map_delete_def)
    next
      case False
      with Cons show ?thesis by (cases x) (auto simp: map_delete_def)
    qed
  qed simp
  show "length m = Suc (length (map_delete k m))" using arg_cong [OF 1, of size] by simp
qed

lemma map_of_delete: "map_of (map_delete k m) k' = (if k' = k then None else map_of m k')"
  by (induction m) (auto simp: map_delete_def)

text \<open>
  What the callers rely on: lookups after a put, and conservation of names.  Nothing is
  promised about other keys, which may have been evicted, except that they do not change.
\<close>

locale stmt_store =
  fixes inv :: "'s \<Rightarrow> bool" and get :: "bytes \<Rightarrow> 's \<Rightarrow> preparedStmt option"
    and put :: "bytes \<Rightarrow> preparedStmt \<Rightarrow> 's \<Rightarrow> 's" and invalidate :: "bytes \<Rightarrow> 's \<Rightarrow> 's"
    and fresh :: "bytes \<Rightarrow> 's \<Rightarrow> bool" and names :: "'s \<Rightarrow> bytes multiset"
  assumes put_inv: "inv s \<Longrightarrow> get sql s = None \<Longrightarrow> fresh (name st) s \<Longrightarrow> inv (put sql st s)"
    and invalidate_inv: "inv s \<Longrightarrow> inv (invalidate sql s)"
    and get_put: "get sql (put sql st s) = Some st"
    and get_put_other: "sql' \<noteq> sql \<Longrightarrow> get sql' (put sql st s) \<in> {None, get sql' s}"
    and get_invalidate: "get sql' (invalidate sql s) = (if sql' = sql then None else get sql' s)"
    and names_put: "inv s \<Longrightarrow> get sql s = None \<Longrightarrow> names (put sql st s) = add_mset (name st) (names s)"
    and names_invalidate: "inv s \<Longrightarrow> names (invalidate sql s) = names s"
begin

lemma get_after: "get sql (put sql st (invalidate sql s)) = Some st"
  by (rule get_put)

lemma names_replace:
  "inv s \<Longrightarrow> names (put sql st (invalidate sql s)) = add_mset (name st) (names s)"
  using names_put [OF invalidate_inv, of s sql sql st] by (simp add: get_invalidate names_invalidate)

end

definition fresh_name :: "bytes \<Rightarrow> stmtCache \<Rightarrow> bool" where
  "fresh_name n sc \<longleftrightarrow> n \<notin> set (sc_names sc) \<and> (\<exists>k. 0 < k \<and> k \<le> seqno sc \<and> n = stmt_name k)"

text \<open>Making room: the victim moves from the cache to the queue.\<close>

definition make_room :: "stmtCache \<Rightarrow> stmtCache" where
  "make_room sc =
     (if scmax sc \<le> length (byKey sc)
      then (case byKey sc of [] \<Rightarrow> sc
            | _ \<Rightarrow> let i = (if picks sc = [] then 0 else hd (picks sc)) mod length (byKey sc); (k, v) = byKey sc ! i
                   in sc\<lparr>closed := closed sc @ [name v], byKey := map_delete k (byKey sc), picks := tl (picks sc)\<rparr>)
      else sc)"

lemma sc_put_room: "sc_put sql st sc = (make_room sc)\<lparr>byKey := map_set sql st (byKey (make_room sc))\<rparr>"
  by (simp add: sc_put_def make_room_def Let_def)

lemma sc_names_mset: "mset (sc_names sc) = image_mset (\<lambda>(k, v). name v) (mset (byKey sc)) + mset (closed sc)"
  by (simp add: sc_names_def)

lemma sc_inv_mset:
  "sc_inv sc \<Longrightarrow> mset (sc_names sc') = mset (sc_names sc) \<Longrightarrow> seqno sc' = seqno sc \<Longrightarrow> scmax sc' = scmax sc \<Longrightarrow>
     distinct (map fst (byKey sc')) \<Longrightarrow> length (byKey sc') \<le> scmax sc \<Longrightarrow> sc_inv sc'"
  unfolding sc_inv_def by (metis mset_eq_imp_distinct_iff set_mset_mset)

lemma evict_names:
  assumes "distinct (map fst (byKey sc))" "(k, v) \<in> set (byKey sc)"
  shows "mset (sc_names (sc\<lparr>closed := closed sc @ [name v], byKey := map_delete k (byKey sc)\<rparr>)) = mset (sc_names sc)"
  using map_delete_member(1) [OF assms] by (simp add: sc_names_mset)

lemma evict_inv:
  assumes "sc_inv sc" "(k, v) \<in> set (byKey sc)"
  shows "sc_inv (sc\<lparr>closed := closed sc @ [name v], byKey := map_delete k (byKey sc)\<rparr>)"
proof (rule sc_inv_mset [OF assms(1)])
  have d: "distinct (map fst (byKey sc))" "length (byKey sc) \<le> scmax sc" using assms(1) by (simp_all add: sc_inv_def)
  show "mset (sc_names (sc\<lparr>closed := closed sc @ [name v], byKey := map_delete k (byKey sc)\<rparr>)) = mset (sc_names sc)"
    by (rule evict_names [OF d(1) assms(2)])
  show "distinct (map fst (byKey (sc\<lparr>closed := closed sc @ [name v], byKey := map_delete k (byKey sc)\<rparr>)))"
    using map_delete_keys [OF d(1)] by simp
  show "length (byKey (sc\<lparr>closed := closed sc @ [name v], byKey := map_delete k (byKey sc)\<rparr>)) \<le> scmax sc"
    using d(2) map_delete_length [of k "byKey sc"] by simp
qed simp_all

lemma make_room_laws:
  assumes "sc_inv sc"
  shows "sc_inv (make_room sc)" "mset (sc_names (make_room sc)) = mset (sc_names sc)"
    "length (byKey (make_room sc)) < scmax (make_room sc)" "scmax (make_room sc) = scmax sc" "seqno (make_room sc) = seqno sc"
    "sc_get sql sc = None \<Longrightarrow> sc_get sql (make_room sc) = None"
proof -
  have d: "distinct (map fst (byKey sc))" "length (byKey sc) \<le> scmax sc" "0 < scmax sc" using assms by (simp_all add: sc_inv_def)
  have "sc_inv (make_room sc) \<and> mset (sc_names (make_room sc)) = mset (sc_names sc) \<and>
      length (byKey (make_room sc)) < scmax (make_room sc) \<and> scmax (make_room sc) = scmax sc \<and> seqno (make_room sc) = seqno sc \<and>
      (sc_get sql sc = None \<longrightarrow> sc_get sql (make_room sc) = None)"
  proof (cases "scmax sc \<le> length (byKey sc)")
    case True
    with d have ne: "byKey sc \<noteq> []" by auto
    define i where "i = (if picks sc = [] then 0 else hd (picks sc)) mod length (byKey sc)"
    obtain k v where kv: "byKey sc ! i = (k, v)" by fastforce
    have m: "(k, v) \<in> set (byKey sc)" using ne kv by (metis i_def length_greater_0_conv mod_less_divisor nth_mem)
    let ?sc = "sc\<lparr>closed := closed sc @ [name v], byKey := map_delete k (byKey sc)\<rparr>"
    have r: "make_room sc = ?sc\<lparr>picks := tl (picks sc)\<rparr>"
      unfolding make_room_def list.case_eq_if Let_def i_def [symmetric] kv using True ne by simp
    have "sc_inv ?sc \<Longrightarrow> sc_inv (?sc\<lparr>picks := tl (picks sc)\<rparr>)" by (simp add: sc_inv_def sc_names_def)
    then show ?thesis
      using evict_inv [OF assms m] evict_names [OF d(1) m] map_delete_member(2) [OF d(1) m] d
      by (simp add: r sc_names_def sc_get_def map_of_delete)
  next
    case False
    then show ?thesis using assms by (simp add: make_room_def)
  qed
  then show "sc_inv (make_room sc)" "mset (sc_names (make_room sc)) = mset (sc_names sc)"
    "length (byKey (make_room sc)) < scmax (make_room sc)" "scmax (make_room sc) = scmax sc" "seqno (make_room sc) = seqno sc"
    "sc_get sql sc = None \<Longrightarrow> sc_get sql (make_room sc) = None" by blast+
qed

lemma sc_put_laws:
  assumes "sc_inv sc" "sc_get sql sc = None"
  shows "mset (sc_names (sc_put sql st sc)) = add_mset (name st) (mset (sc_names sc))"
    and "fresh_name (name st) sc \<Longrightarrow> sc_inv (sc_put sql st sc)"
proof -
  note r = make_room_laws [OF assms(1)]
  have absent: "sql \<notin> fst ` set (byKey (make_room sc))"
    using r(6) [OF assms(2)] by (simp add: sc_get_def map_of_eq_None_iff)
  then have put: "sc_put sql st sc = (make_room sc)\<lparr>byKey := (sql, st) # byKey (make_room sc)\<rparr>"
    by (simp add: sc_put_room map_set_def map_delete_absent)
  show names: "mset (sc_names (sc_put sql st sc)) = add_mset (name st) (mset (sc_names sc))"
    using r(2) by (simp add: put sc_names_def)
  show "sc_inv (sc_put sql st sc)" if f: "fresh_name (name st) sc"
  proof -
    have "name st \<notin> set (sc_names (make_room sc))" using f r(2) by (metis fresh_name_def set_mset_mset)
    moreover have "\<exists>k. 0 < k \<and> k \<le> seqno (make_room sc) \<and> name st = stmt_name k" using f r(5) by (simp add: fresh_name_def)
    ultimately show ?thesis using r(1,3) absent by (simp add: put sc_inv_def sc_names_def)
  qed
qed

lemma sc_invalidate_laws:
  assumes "sc_inv sc"
  shows "sc_inv (sc_invalidate sql sc) \<and> mset (sc_names (sc_invalidate sql sc)) = mset (sc_names sc)"
proof (cases "map_of (byKey sc) sql")
  case (Some st)
  then have "(sql, st) \<in> set (byKey sc)" by (rule map_of_SomeD)
  with evict_inv [OF assms this] evict_names [OF _ this] assms Some show ?thesis
    by (simp add: sc_invalidate_def sc_inv_def)
qed (use assms in \<open>simp add: sc_invalidate_def\<close>)

lemma make_room_get: "sc_get k (make_room sc) \<in> {None, sc_get k sc}"
  by (auto simp: make_room_def sc_get_def map_of_delete Let_def split: list.splits prod.splits)

interpretation sc: stmt_store sc_inv sc_get sc_put sc_invalidate fresh_name "\<lambda>sc. mset (sc_names sc)"
proof unfold_locales
  fix sc sql sql' st
  show "sc_inv sc \<Longrightarrow> sc_get sql sc = None \<Longrightarrow> fresh_name (name st) sc \<Longrightarrow> sc_inv (sc_put sql st sc)"
    using sc_put_laws(2) by blast
  show "sc_get sql (sc_put sql st sc) = Some st" by (simp add: sc_put_room map_set_def sc_get_def)
  show "sql' \<noteq> sql \<Longrightarrow> sc_get sql' (sc_put sql st sc) \<in> {None, sc_get sql' sc}"
    using make_room_get [of sql' sc] by (simp add: sc_put_room map_set_def sc_get_def map_of_delete)
  show "sc_get sql' (sc_invalidate sql sc) = (if sql' = sql then None else sc_get sql' sc)"
    by (auto simp: sc_invalidate_def sc_get_def map_of_delete split: option.splits)
qed (use sc_put_laws(1) sc_invalidate_laws in blast)+

lemma nextName_fresh:
  assumes "sc_inv sc" "nextName sc = (n, sc')"
  shows "sc_inv sc'" "fresh_name n sc'" "sc_names sc' = sc_names sc" "sc_get sql sc' = sc_get sql sc"
proof -
  have eq: "n = stmt_name (seqno sc + 1)" "sc' = sc\<lparr>seqno := seqno sc + 1\<rparr>"
    using assms(2) by (simp_all add: nextName_def Let_def)
  show names: "sc_names sc' = sc_names sc" and "sc_get sql sc' = sc_get sql sc" by (simp_all add: eq sc_names_def sc_get_def)
  show "sc_inv sc'"
    using assms(1) unfolding sc_inv_def names by (auto simp: eq) (meson le_SucI)
  have "stmt_name (seqno sc + 1) \<notin> set (sc_names sc)"
  proof
    assume "stmt_name (seqno sc + 1) \<in> set (sc_names sc)"
    with assms(1) obtain k where "k \<le> seqno sc" "stmt_name (seqno sc + 1) = stmt_name k"
      unfolding sc_inv_def by blast
    then show False using stmt_name_inject [of "seqno sc + 1" k] by simp
  qed
  then show "fresh_name n sc'" by (auto simp: fresh_name_def eq sc_names_def)
qed

section \<open>Properties\<close>

text \<open>
  The cache as the client drives it, with the multiset of statements that exist on the server
  because the client prepared them and did not close them yet.
\<close>

inductive cache_reach :: "stmtCache \<Rightarrow> bytes multiset \<Rightarrow> bool" where
  cr_new: "cache_reach (newStmtCache m ps) {#}"
| cr_prepare: "cache_reach sc S \<Longrightarrow> sc_get sql sc = None \<Longrightarrow> nextName sc = (n, sc') \<Longrightarrow> name st = n \<Longrightarrow>
     cache_reach (sc_put sql st sc') (add_mset n S)"
| cr_invalidate: "cache_reach sc S \<Longrightarrow> cache_reach (sc_invalidate sql sc) S"
| cr_close: "cache_reach sc S \<Longrightarrow> takePendingClose sc = (ns, sc') \<Longrightarrow> cache_reach sc' (S - mset ns)"

lemma cache_reach_inv: "cache_reach sc S \<Longrightarrow> sc_inv sc \<and> S = mset (sc_names sc)"
proof (induction rule: cache_reach.induct)
  case (cr_new m ps)
  show ?case by (simp add: newStmtCache_def sc_inv_def sc_names_def)
next
  case (cr_prepare sc S sql n sc' st)
  then have inv: "sc_inv sc" and S: "S = mset (sc_names sc)" by simp_all
  note f = nextName_fresh [OF inv cr_prepare.hyps(3)]
  have get: "sc_get sql sc' = None" using f(4) cr_prepare.hyps(2) by simp
  show ?case using sc.put_inv [OF f(1) get] sc.names_put [OF f(1) get] f(2,3) cr_prepare.hyps(4) S by simp
next
  case (cr_invalidate sc S sql)
  then show ?case using sc.invalidate_inv sc.names_invalidate by simp
next
  case (cr_close sc S ns sc')
  then have "sc' = sc\<lparr>closed := []\<rparr>" "ns = closed sc" "sc_inv sc" "S = mset (sc_names sc)"
    by (simp_all add: takePendingClose_def)
  then show ?case by (auto simp: sc_inv_def sc_names_def)
qed



end
