(* ===== verification/Args.thy ===== *)
theory Args
  imports Wire
begin

text \<open>
  src/pgz/args.go: the parameter block of a Bind message.  A Go value of type \<^verbatim>\<open>any\<close> is a
  \<open>goval\<close>: the types the code switches on, each integer within its Go range, floats as bit
  patterns, a \<^verbatim>\<open>time.Time\<close> as nanoseconds since the Unix epoch, and \<open>VOther\<close> for every other
  type.  From the standard library the file uses \<^verbatim>\<open>strconv\<close> (see FloatFmt), the float
  conversions, \<^verbatim>\<open>Time.Sub\<close>, which saturates at 64 bits of nanoseconds, and \<^verbatim>\<open>Time.Format\<close>.
\<close>

datatype goval =
    VNil
  | VBool bool
  | VInt int | VInt8 int | VInt16 int | VInt32 int | VInt64 int
  | VUint int | VUint8 int | VUint16 int | VUint32 int | VUint64 int
  | VFloat32 int
  | VFloat64 int
  | VBytes bytes
  | VString bytes
  | VTime int
  | VOther

datatype arg_error = UnsupportedParameterType goval | CannotConvert goval | UnhandledOID OID

section \<open>Standard library\<close>

text \<open>\<open>float64(x)\<close> of a \<open>float32\<close>: exact.\<close>

fun bit_len :: "nat \<Rightarrow> nat" where
  "bit_len n = (if n = 0 then 0 else Suc (bit_len (n div 2)))"

declare bit_len.simps [simp del]

definition float_bits :: "float_format \<Rightarrow> bool \<Rightarrow> int \<Rightarrow> int \<Rightarrow> int" where
  "float_bits f s e m = (if s then 2 ^ (mantbits f + expbits f) else 0) + e * 2 ^ mantbits f + m"

definition widen32 :: "int \<Rightarrow> int" where
  "widen32 b =
     (let s = float_neg binary32 b; m = float_frac binary32 b; e = float_exp binary32 b in
      if e = 255 then float_bits binary64 s 2047 (if m = 0 then 0 else (m * 2 ^ 29) mod 2 ^ 51 + 2 ^ 51)
      else if e = 0 then
        (if m = 0 then float_bits binary64 s 0 0
         else let k = bit_len (nat m) - 1 in
           float_bits binary64 s (int k - 149 + 1023) ((m - 2 ^ k) * 2 ^ (52 - k)))
      else float_bits binary64 s (e - 127 + 1023) (m * 2 ^ 29))"

text \<open>\<open>float32(x)\<close> of a \<open>float64\<close>: round to nearest, ties to even.\<close>

definition round_even :: "int \<Rightarrow> nat \<Rightarrow> int" where
  "round_even x k =
     (let q = x div 2 ^ k; r = x mod 2 ^ k in
      if 2 * r < 2 ^ k \<or> (2 * r = 2 ^ k \<and> even q) then q else q + 1)"

definition narrow64 :: "int \<Rightarrow> int" where
  "narrow64 b =
     (let s = float_neg binary64 b; m = float_mant binary64 b; e = float_e binary64 b in
      if float_is_nan binary64 b then float_bits binary32 s 255 (float_frac binary64 b div 2 ^ 29 mod 2 ^ 22 + 2 ^ 22)
      else if float_is_inf binary64 b then float_bits binary32 s 255 0
      else
        let q = max (e + int (bit_len (nat m)) - 24) (- 149);
            r = (if q \<le> e then m * 2 ^ nat (e - q) else round_even m (nat (q - e)));
            (r, q) = (if r = 2 ^ 24 then (2 ^ 23, q + 1) else (r, q))
        in if 104 < q then float_bits binary32 s 255 0
           else if r < 2 ^ 23 then float_bits binary32 s 0 r
           else float_bits binary32 s (q + 150) (r - 2 ^ 23))"

definition FormatFloat :: "float_format \<Rightarrow> int \<Rightarrow> bytes" where
  "FormatFloat f b =
     (if float_is_nan f b then asc ''NaN''
      else if float_is_inf f b then (if float_neg f b then asc ''-Inf'' else asc ''+Inf'')
      else AppendFloat f [] b)"

text \<open>\<open>t.Sub(u)\<close> saturates; \<open>Microseconds\<close> truncates.\<close>

definition Time_Sub :: "int \<Rightarrow> int \<Rightarrow> int" where
  "Time_Sub t u = max (- (2 ^ 63)) (min (2 ^ 63 - 1) (t - u))"

definition Microseconds :: "int \<Rightarrow> int" where
  "Microseconds d = d sdiv 1000"

text \<open>\<open>t.UTC().Format("2006-01-02 15:04:05.999999-07")\<close>: trailing zeros of the fraction are dropped.\<close>

definition Format_ts :: "int \<Rightarrow> bytes" where
  "Format_ts t =
     (let c = splitTime (t div 1000000000); us = t mod 1000000000 div 1000;
          fr = rev (dropWhile (\<lambda>d. d = dig 0) (rev (zdigits 6 us)))
      in iso_date c @ [ch CHR '' ''] @ zdigits 2 (hour c) @ [ch CHR '':''] @ zdigits 2 (minute c) @ [ch CHR '':''] @
         zdigits 2 (second c) @ (if fr = [] then [] else ch CHR ''.'' # fr) @ asc ''+00'')"

section \<open>args.go\<close>

abbreviation (input) pgEpoch :: int where
  "pgEpoch \<equiv> 946684800000000000"

definition parseParamOIDs :: "bytes \<Rightarrow> OID list" where
  "parseParamOIDs body =
     (if length body < 2 then []
      else let n = int16_of (be_get (slice 0 2 body)) in
        if n \<le> 0 \<or> int (length body) < 2 + 4 * n then []
        else map (\<lambda>i. word_of_int (be_get (slice (2 + 4 * i) (2 + 4 * i + 4) body))) [0..<nat n])"

fun is_int :: "goval \<Rightarrow> bool" where
  "is_int (VInt _) = True" | "is_int (VInt8 _) = True" | "is_int (VInt16 _) = True" | "is_int (VInt32 _) = True"
| "is_int (VInt64 _) = True" | "is_int (VUint _) = True" | "is_int (VUint8 _) = True" | "is_int (VUint16 _) = True"
| "is_int (VUint32 _) = True" | "is_int (VUint64 _) = True" | "is_int _ = False"

definition paramBinary :: "OID \<Rightarrow> goval \<Rightarrow> bool" where
  "paramBinary oid v =
     (if v = VNil then False
      else if oid = OIDBool then (case v of VBool _ \<Rightarrow> True | _ \<Rightarrow> False)
      else if oid \<in> {OIDInt2, OIDInt4, OIDInt8, OIDOID} then is_int v
      else if oid \<in> {OIDFloat4, OIDFloat8} then (case v of VFloat32 _ \<Rightarrow> True | VFloat64 _ \<Rightarrow> True | _ \<Rightarrow> False)
      else if oid = OIDBytea then (case v of VBytes _ \<Rightarrow> True | _ \<Rightarrow> False)
      else if oid \<in> {OIDTimestamp, OIDTimestampTZ} then (case v of VTime _ \<Rightarrow> True | _ \<Rightarrow> False)
      else False)"

fun toInt64 :: "goval \<Rightarrow> arg_error + int" where
  "toInt64 (VInt x) = Inr x" | "toInt64 (VInt8 x) = Inr x" | "toInt64 (VInt16 x) = Inr x"
| "toInt64 (VInt32 x) = Inr x" | "toInt64 (VInt64 x) = Inr x" | "toInt64 (VUint x) = Inr (int64_of x)"
| "toInt64 (VUint8 x) = Inr x" | "toInt64 (VUint16 x) = Inr x" | "toInt64 (VUint32 x) = Inr x"
| "toInt64 (VUint64 x) = Inr (int64_of x)" | "toInt64 v = Inl (CannotConvert v)"

fun toFloat64 :: "goval \<Rightarrow> arg_error + int" where
  "toFloat64 (VFloat32 x) = Inr (widen32 x)" | "toFloat64 (VFloat64 x) = Inr x" | "toFloat64 v = Inl (CannotConvert v)"

text \<open>\<open>bd.Int32(int32(us >> 32)); bd.Int32(int32(us))\<close>.\<close>

definition put_hi_lo :: "int \<Rightarrow> writer \<Rightarrow> writer" where
  "put_hi_lo v w = b_Int32 (int32_of v) (b_Int32 (int32_of (drop_bit 32 v)) w)"

definition appendParamBinary :: "OID \<Rightarrow> goval \<Rightarrow> writer \<Rightarrow> writer \<times> arg_error option" where
  "appendParamBinary oid v w =
     (if oid = OIDBool then (case v of VBool b \<Rightarrow> (b_Byte (if b then 1 else 0) (b_Int32 1 w), None) | _ \<Rightarrow> (w, None))
      else if oid = OIDInt2 then
        (case toInt64 v of Inl e \<Rightarrow> (w, Some e) | Inr n \<Rightarrow> (b_Int16 (int16_of n) (b_Int32 2 w), None))
      else if oid \<in> {OIDInt4, OIDOID} then
        (case toInt64 v of Inl e \<Rightarrow> (w, Some e) | Inr n \<Rightarrow> (b_Int32 (int32_of n) (b_Int32 4 w), None))
      else if oid = OIDInt8 then
        (case toInt64 v of Inl e \<Rightarrow> (w, Some e) | Inr n \<Rightarrow> (put_hi_lo n (b_Int32 8 w), None))
      else if oid = OIDFloat4 then
        (case toFloat64 v of Inl e \<Rightarrow> (w, Some e) | Inr f \<Rightarrow> (b_Int32 (int32_of (narrow64 f)) (b_Int32 4 w), None))
      else if oid = OIDFloat8 then
        (case toFloat64 v of Inl e \<Rightarrow> (w, Some e) | Inr f \<Rightarrow> (put_hi_lo f (b_Int32 8 w), None))
      else if oid = OIDBytea then
        (case v of VBytes b \<Rightarrow> (b_Bytes b (b_Int32 (int32_of (int (length b))) w), None) | _ \<Rightarrow> (w, None))
      else if oid \<in> {OIDTimestamp, OIDTimestampTZ} then
        (case v of VTime t \<Rightarrow> (put_hi_lo (Microseconds (Time_Sub t pgEpoch)) (b_Int32 8 w), None) | _ \<Rightarrow> (w, None))
      else (w, Some (UnhandledOID oid)))"

fun encodeArg :: "goval \<Rightarrow> arg_error + bytes option" where
  "encodeArg VNil = Inr None"
| "encodeArg (VString x) = Inr (Some x)"
| "encodeArg (VBytes x) = Inr (Some ([92, ch CHR ''x''] @ concat (map hex_byte x)))"
| "encodeArg (VBool x) = Inr (Some (if x then [ch CHR ''t''] else [ch CHR ''f'']))"
| "encodeArg (VInt x) = Inr (Some (dec_int x))"
| "encodeArg (VInt32 x) = Inr (Some (dec_int x))"
| "encodeArg (VInt64 x) = Inr (Some (dec_int x))"
| "encodeArg (VUint x) = Inr (Some (dec_int x))"
| "encodeArg (VUint32 x) = Inr (Some (dec_int x))"
| "encodeArg (VUint64 x) = Inr (Some (dec_int x))"
| "encodeArg (VFloat32 x) = Inr (Some (FormatFloat binary32 x))"
| "encodeArg (VFloat64 x) = Inr (Some (FormatFloat binary64 x))"
| "encodeArg (VTime t) = Inr (Some (Format_ts t))"
| "encodeArg v = Inl (UnsupportedParameterType v)"

definition appendParamText :: "goval \<Rightarrow> writer \<Rightarrow> writer \<times> arg_error option" where
  "appendParamText v w =
     (case encodeArg v of
        Inl e \<Rightarrow> (w, Some e)
      | Inr None \<Rightarrow> (b_Int32 (- 1) w, None)
      | Inr (Some s) \<Rightarrow> (b_String s (b_Int32 (int32_of (int (length s))) w), None))"

definition oid_at :: "OID list \<Rightarrow> nat \<Rightarrow> OID" where
  "oid_at oids i = (if i < length oids then oids ! i else 0)"

fun write_formats :: "OID list \<Rightarrow> nat \<Rightarrow> goval list \<Rightarrow> writer \<Rightarrow> writer" where
  "write_formats oids i [] w = w"
| "write_formats oids i (a # args) w =
     write_formats oids (Suc i) args (b_Int16 (if paramBinary (oid_at oids i) a then 1 else 0) w)"

fun write_values :: "OID list \<Rightarrow> nat \<Rightarrow> goval list \<Rightarrow> writer \<Rightarrow> writer \<times> arg_error option" where
  "write_values oids i [] w = (w, None)"
| "write_values oids i (a # args) w =
     (if a = VNil then write_values oids (Suc i) args (b_Int32 (- 1) w)
      else
        case (if paramBinary (oid_at oids i) a then appendParamBinary (oid_at oids i) a w else appendParamText a w) of
          (w, Some e) \<Rightarrow> (w, Some e)
        | (w, None) \<Rightarrow> write_values oids (Suc i) args w)"

definition writeBindParams :: "OID list \<Rightarrow> goval list \<Rightarrow> writer \<Rightarrow> writer \<times> arg_error option" where
  "writeBindParams oids args w =
     (if args = [] then (b_Int16 0 (b_Int16 0 w), None)
      else let w = b_Int16 (int16_of (int (length args))) w;
               w = write_formats oids 0 args w;
               w = b_Int16 (int16_of (int (length args))) w
           in write_values oids 0 args w)"

section \<open>What is written\<close>

text \<open>The text or binary form of one parameter, and the format chosen for it.\<close>

definition int_of_goval :: "goval \<Rightarrow> int" where
  "int_of_goval v = (case v of VInt x \<Rightarrow> x | VInt8 x \<Rightarrow> x | VInt16 x \<Rightarrow> x | VInt32 x \<Rightarrow> x | VInt64 x \<Rightarrow> x
     | VUint x \<Rightarrow> x | VUint8 x \<Rightarrow> x | VUint16 x \<Rightarrow> x | VUint32 x \<Rightarrow> x | VUint64 x \<Rightarrow> x | _ \<Rightarrow> 0)"

definition param_bytes :: "OID \<Rightarrow> goval \<Rightarrow> bytes" where
  "param_bytes oid v =
     (if oid = OIDBool then (case v of VBool b \<Rightarrow> [if b then 1 else 0] | _ \<Rightarrow> [])
      else if oid = OIDInt2 then be_put 2 (int_of_goval v)
      else if oid \<in> {OIDInt4, OIDOID} then be_put 4 (int_of_goval v)
      else if oid = OIDInt8 then be_put 8 (int_of_goval v)
      else if oid = OIDFloat4 then be_put 4 (case v of VFloat32 x \<Rightarrow> narrow64 (widen32 x) | VFloat64 x \<Rightarrow> narrow64 x | _ \<Rightarrow> 0)
      else if oid = OIDFloat8 then be_put 8 (case v of VFloat32 x \<Rightarrow> widen32 x | VFloat64 x \<Rightarrow> x | _ \<Rightarrow> 0)
      else if oid = OIDBytea then (case v of VBytes b \<Rightarrow> b | _ \<Rightarrow> [])
      else (case v of VTime t \<Rightarrow> be_put 8 (Microseconds (Time_Sub t pgEpoch)) | _ \<Rightarrow> []))"

definition param_value :: "OID \<Rightarrow> goval \<Rightarrow> arg_error + bytes option" where
  "param_value oid v =
     (if v = VNil then Inr None else if paramBinary oid v then Inr (Some (param_bytes oid v)) else encodeArg v)"

lemma be_put_drop: "be_put n (v div 256 ^ m) @ be_put m v = be_put (n + m) v"
proof (induction n)
  case (Suc n)
  have "v div 256 ^ m div 256 ^ n = v div (256 ^ m * 256 ^ n)" by (rule zdiv_zmult2_eq [symmetric]) simp
  also have "\<dots> = v div 256 ^ (n + m)" by (simp only: power_add mult.commute)
  finally show ?case using Suc by (simp only: be_put.simps add_Suc append_Cons)
qed simp

lemma be_put_int64_of: "k \<le> 8 \<Longrightarrow> be_put k (int64_of v) = be_put k v"
proof -
  assume k: "k \<le> 8"
  have "int64_of v mod 256 ^ 8 = v mod 256 ^ 8"
    using take_bit_signed_take_bit [of 64 63 v] by (simp add: int64_of_def take_bit_eq_mod)
  moreover have d: "(256 :: int) ^ k dvd 256 ^ 8" using k by (rule le_imp_power_dvd)
  ultimately have "int64_of v mod 256 ^ k = v mod 256 ^ k"
    using mod_mod_cancel [OF d, of "int64_of v"] mod_mod_cancel [OF d, of v] by simp
  then show ?thesis using be_put_mod [of k "int64_of v"] be_put_mod [of k v] by simp
qed

lemma put_hi_lo_app: "put_hi_lo v w = app (be_put 8 v) w"
proof -
  have "drop_bit 32 v = v div 256 ^ 4" by (simp add: drop_bit_eq_div)
  then show ?thesis
    using be_put_drop [of 4 v 4] by (simp add: put_hi_lo_def b_Int32_def be_put_int32_of)
qed

lemma toInt64_is_int: "is_int v \<Longrightarrow> toInt64 v = Inr (int_of_goval v) \<or> toInt64 v = Inr (int64_of (int_of_goval v))"
  by (cases v) (simp_all add: int_of_goval_def)

lemma int_param: "is_int v \<Longrightarrow> \<exists>n. toInt64 v = Inr n \<and> (\<forall>k \<le> 8. be_put k n = be_put k (int_of_goval v))"
  using toInt64_is_int [of v] be_put_int64_of by auto

lemma paramBinary_cases:
  assumes "paramBinary oid v"
  obtains (bool) b where "oid = OIDBool" "v = VBool b"
  | (int) "oid \<in> {OIDInt2, OIDInt4, OIDInt8, OIDOID}" "is_int v"
  | (float) "oid \<in> {OIDFloat4, OIDFloat8}" "(\<exists>x. v = VFloat32 x) \<or> (\<exists>x. v = VFloat64 x)"
  | (bytea) b where "oid = OIDBytea" "v = VBytes b"
  | (time) t where "oid \<in> {OIDTimestamp, OIDTimestampTZ}" "v = VTime t"
  using assms unfolding paramBinary_def by (auto split: if_splits goval.splits)

lemma be_put_16_32: "be_put 2 (int16_of n) = be_put 2 n" "be_put 4 (int32_of n) = be_put 4 n"
  by (simp_all add: be_put_int16_of be_put_int32_of)

lemma appendParamBinary_bytes:
  assumes "paramBinary oid v"
  shows "appendParamBinary oid v w = (app (be_put 4 (int (length (param_bytes oid v))) @ param_bytes oid v) w, None)"
  using assms
proof (cases rule: paramBinary_cases)
  case (bool b)
  then show ?thesis by (simp add: appendParamBinary_def param_bytes_def builder_defs)
next
  case int
  obtain n where n: "toInt64 v = Inr n" "\<forall>k \<le> 8. be_put k n = be_put k (int_of_goval v)"
    using int_param [OF int(2)] by blast
  from int(1) show ?thesis
    by (elim insertE emptyE) (simp_all add: appendParamBinary_def param_bytes_def builder_defs put_hi_lo_app n be_put_16_32)
next
  case float
  then show ?thesis
    by (elim insertE emptyE disjE exE)
      (simp_all add: appendParamBinary_def param_bytes_def builder_defs put_hi_lo_app be_put_16_32)
next
  case (bytea b)
  then show ?thesis by (simp add: appendParamBinary_def param_bytes_def builder_defs be_put_16_32)
next
  case (time t)
  then show ?thesis
    by (elim insertE emptyE) (simp_all add: appendParamBinary_def param_bytes_def builder_defs put_hi_lo_app)
qed

text \<open>One value: what is appended, or the error with nothing appended.\<close>

lemma write_value:
  "(if a = VNil then (b_Int32 (- 1) w, None)
    else if paramBinary oid a then appendParamBinary oid a w else appendParamText a w) =
     (case param_value oid a of Inl e \<Rightarrow> (w, Some e) | Inr x \<Rightarrow> (app (elem_send x) w, None))"
  by (auto simp: param_value_def appendParamBinary_bytes appendParamText_def elem_send_simps builder_defs be_put_16_32
      split: sum.splits option.splits)

lemma write_values_Cons:
  "write_values oids i (a # args) w =
     (case param_value (oid_at oids i) a of
        Inl e \<Rightarrow> (w, Some e) | Inr x \<Rightarrow> write_values oids (Suc i) args (app (elem_send x) w))"
  using write_value [of a w "oid_at oids i"] by (auto split: sum.splits if_splits)

declare write_values.simps(2) [simp del]

lemma write_values_ok:
  "length vals = length args \<Longrightarrow> (\<And>j. j < length args \<Longrightarrow> param_value (oid_at oids (i + j)) (args ! j) = Inr (vals ! j)) \<Longrightarrow>
     write_values oids i args w = (app (concat (map elem_send vals)) w, None)"
proof (induction args arbitrary: i vals w)
  case (Cons a args)
  obtain v vs where v: "vals = v # vs" using Cons.prems(1) by (cases vals) auto
  have "param_value (oid_at oids i) a = Inr v" using Cons.prems(2) [of 0] v by simp
  moreover have "write_values oids (Suc i) args (app (elem_send v) w) = (app (concat (map elem_send vs)) (app (elem_send v) w), None)"
  proof (rule Cons.IH)
    show "length vs = length args" using Cons.prems(1) v by simp
    show "param_value (oid_at oids (Suc i + j)) (args ! j) = Inr (vs ! j)" if "j < length args" for j
      using Cons.prems(2) [of "Suc j"] that v by simp
  qed
  ultimately show ?case by (simp add: write_values_Cons v)
qed simp

lemma write_formats_app:
  "write_formats oids i args w =
     app (concat (map (\<lambda>j. be_put 2 (if paramBinary (oid_at oids (i + j)) (args ! j) then 1 else 0)) [0..<length args])) w"
proof (induction args arbitrary: i w)
  case (Cons a args)
  have "[0..<length (a # args)] = 0 # map Suc [0..<length args]" by (simp add: upt_conv_Cons map_Suc_upt del: upt_Suc)
  then show ?case by (simp add: Cons.IH b_Int16_def comp_def)
qed simp

definition params_block :: "OID list \<Rightarrow> goval list \<Rightarrow> bytes option list \<Rightarrow> bytes" where
  "params_block oids args vals =
     be_put 2 (int (length args)) @
     concat (map (\<lambda>j. be_put 2 (if paramBinary (oid_at oids j) (args ! j) then 1 else 0)) [0..<length args]) @
     datarow_send vals"

lemma writeBindParams_ok:
  assumes "length vals = length args" "\<And>j. j < length args \<Longrightarrow> param_value (oid_at oids j) (args ! j) = Inr (vals ! j)"
  shows "writeBindParams oids args w = (app (params_block oids args vals) w, None)"
proof (cases "args = []")
  case True
  then show ?thesis using assms(1) by (simp add: writeBindParams_def params_block_def datarow_send_def b_Int16_def)
next
  case False
  then show ?thesis
    using write_values_ok [of vals args oids 0, OF assms(1)] assms
    by (simp add: writeBindParams_def params_block_def datarow_send_def write_formats_app b_Int16_def be_put_16_32 Let_def)
qed

lemma write_values_err:
  "(\<exists>j < length args. \<exists>e. param_value (oid_at oids (i + j)) (args ! j) = Inl e) \<Longrightarrow>
     \<exists>p e. write_values oids i args w = (app p w, Some e)"
proof (induction args arbitrary: i w)
  case (Cons a args)
  show ?case
  proof (cases "param_value (oid_at oids i) a")
    case (Inl e)
    then show ?thesis by (intro exI [of _ "[]"]) (simp add: write_values_Cons)
  next
    case (Inr x)
    then obtain j e where "j < length args" "param_value (oid_at oids (Suc i + j)) (args ! j) = Inl e"
      using Cons.prems by (auto simp: less_Suc_eq_0_disj)
    with Cons.IH [of "Suc i" "app (elem_send x) w"] Inr show ?thesis by (auto simp: write_values_Cons)
  qed
qed simp

lemma writeBindParams_err:
  assumes "\<exists>j < length args. \<exists>e. param_value (oid_at oids j) (args ! j) = Inl e"
  shows "\<exists>p e. writeBindParams oids args w = (app p w, Some e)"
proof -
  have ne: "args \<noteq> []" using assms by auto
  have "\<exists>p e. write_values oids 0 args w' = (app p w', Some e)" for w'
    using write_values_err [of args oids 0 w'] assms by simp
  then obtain p e where "write_values oids 0 args (b_Int16 (int16_of (int (length args)))
      (write_formats oids 0 args (b_Int16 (int16_of (int (length args))) w))) =
    (app p (b_Int16 (int16_of (int (length args))) (write_formats oids 0 args (b_Int16 (int16_of (int (length args))) w))), Some e)"
    by blast
  with ne show ?thesis by (simp add: writeBindParams_def write_formats_app b_Int16_def Let_def) blast
qed

section \<open>Properties\<close>

text \<open>When every argument has a wire form, the parameter block of Bind is exactly the count, one
  format code per parameter (binary where the server's type and the Go type allow it), the count
  again and each value with its length, NULL as length -1, appended after whatever the buffer
  holds; and when one has none, an error is returned, with part of the block left in the buffer.\<close>

theorem writeBindParams_block:
  "(length vals = length args \<and> (\<forall>j < length args. param_value (oid_at oids j) (args ! j) = Inr (vals ! j)) \<longrightarrow>
      writeBindParams oids args w = (app (params_block oids args vals) w, None)) \<and>
   ((\<exists>j < length args. \<exists>e. param_value (oid_at oids j) (args ! j) = Inl e) \<longrightarrow>
      (\<exists>p e. writeBindParams oids args w = (app p w, Some e)))"
  using writeBindParams_ok writeBindParams_err by blast

theorem writeBindParams_block_witness:
  "writeBindParams [OIDInt2] [VInt 5] \<lparr>tx = [], room = None, writeBuf = []\<rparr> =
     (app (params_block [OIDInt2] [VInt 5] [Some [0, 5]]) \<lparr>tx = [], room = None, writeBuf = []\<rparr>, None)"
proof -
  have "param_value (oid_at [OIDInt2] 0) (VInt 5) = Inr (Some [0, 5])" by code_simp
  then show ?thesis
    using writeBindParams_block [of "[Some [0, 5]]" "[VInt 5]" "[OIDInt2]" "\<lparr>tx = [], room = None, writeBuf = []\<rparr>"] by simp
qed

text \<open>An integer argument reaches the server modulo the width of the parameter's type: exact
  when it fits, and silently another number when it does not (70000 for an int2 parameter arrives
  as 4464, with no error).\<close>

theorem int_param_modulo_width:
  "is_int v \<Longrightarrow>
     (\<exists>b. param_value OIDInt2 v = Inr (Some b) \<and> length b = 2 \<and> int16_of (be_get b) = int16_of (int_of_goval v)) \<and>
     (\<exists>b. param_value OIDInt4 v = Inr (Some b) \<and> length b = 4 \<and> int32_of (be_get b) = int32_of (int_of_goval v)) \<and>
     (\<exists>b. param_value OIDInt8 v = Inr (Some b) \<and> length b = 8 \<and> int64_of (be_get b) = int64_of (int_of_goval v))"
proof -
  assume v: "is_int v"
  then have "v \<noteq> VNil" "paramBinary OIDInt2 v" "paramBinary OIDInt4 v" "paramBinary OIDInt8 v"
    by (auto simp: paramBinary_def)
  then show ?thesis
    by (simp add: param_value_def param_bytes_def be_get_put int16_of_mod [simplified] int32_of_mod [simplified]
        int64_of_mod [simplified])
qed

theorem int_param_modulo_width_witness:
  "(\<exists>b. param_value OIDInt2 (VInt 70000) = Inr (Some b) \<and> length b = 2 \<and> int16_of (be_get b) = 4464) \<and>
     (\<exists>b. param_value OIDInt4 (VInt 70000) = Inr (Some b) \<and> length b = 4 \<and> int32_of (be_get b) = int32_of (int_of_goval (VInt 70000))) \<and>
     (\<exists>b. param_value OIDInt8 (VInt 70000) = Inr (Some b) \<and> length b = 8 \<and> int64_of (be_get b) = int64_of (int_of_goval (VInt 70000)))"
proof -
  have "int16_of (int_of_goval (VInt 70000)) = 4464" by code_simp
  with int_param_modulo_width [of "VInt 70000"] show ?thesis by simp
qed

text \<open>A time parameter survives the round trip through the binary encoder: what is printed for
  the value sent is the same instant to the microsecond, for every instant from 2000-01-01 up to
  the reach of a 64-bit count of nanoseconds; from there on (the year 2292) every instant is sent
  as that last one.\<close>

theorem time_param_roundtrip:
  "(0 \<le> t - pgEpoch \<and> t - pgEpoch < 2 ^ 63 \<longrightarrow>
      (\<exists>c us. encodeTimestampTZBinary dst (Some (param_bytes OIDTimestampTZ (VTime t))) = dst @ 34 # iso_text c us (asc ''Z'') @ [34] \<and>
         valid_civil c \<and> 0 \<le> us \<and> us < 1000000 \<and> instant c * 1000000 + us = t div 1000)) \<and>
   (2 ^ 63 \<le> t - pgEpoch \<longrightarrow>
      param_bytes OIDTimestampTZ (VTime t) = param_bytes OIDTimestampTZ (VTime (pgEpoch + (2 ^ 63 - 1))))"
proof (intro conjI impI)
  assume t: "0 \<le> t - pgEpoch \<and> t - pgEpoch < 2 ^ 63"
  define usec where "usec = (t - pgEpoch) div 1000"
  have r: "0 \<le> usec" "usec < 2 ^ 60" using t by (auto simp: usec_def)
  have "Time_Sub t pgEpoch = t - pgEpoch" using t by (auto simp: Time_Sub_def)
  then have b: "param_bytes OIDTimestampTZ (VTime t) = be_put 8 usec"
    using t by (simp add: param_bytes_def Microseconds_def sdiv_nonneg usec_def)
  have v: "int64_of (be_get (be_put 8 usec)) = usec"
    using r int64_of_mod [of usec] by (simp add: be_get_put int64_of_id)
  let ?c = "splitTime (946684800 + usec div 1000000)" and ?us = "usec mod 1000000"
  have "encodeTimestampTZBinary dst (Some (be_put 8 usec)) = dst @ 34 # iso_text ?c ?us (asc ''Z'') @ [34]"
    using v r by (simp add: encodeTimestampTZBinary_def appendISOTimestamp_eq)
  moreover have "instant ?c * 1000000 + ?us = t div 1000"
  proof -
    have "t div 1000 = usec + 946684800000000"
    proof -
      have "t = (t - pgEpoch) + 946684800000000 * 1000" by simp
      then show ?thesis unfolding usec_def by (metis div_mult_self1 zero_neq_numeral add.commute)
    qed
    moreover have "1000000 * q + m = usec \<Longrightarrow> (946684800 + q) * 1000000 + m = usec + 946684800000000" for q m :: int by simp
    ultimately show ?thesis unfolding splitTime_instant using mult_div_mod_eq [of 1000000 usec] by metis
  qed
  ultimately show "\<exists>c us. encodeTimestampTZBinary dst (Some (param_bytes OIDTimestampTZ (VTime t))) = dst @ 34 # iso_text c us (asc ''Z'') @ [34] \<and>
      valid_civil c \<and> 0 \<le> us \<and> us < 1000000 \<and> instant c * 1000000 + us = t div 1000"
    unfolding b using splitTime_valid by (intro exI [of _ ?c] exI [of _ ?us]) simp
next
  assume "2 ^ 63 \<le> t - pgEpoch"
  then have "Time_Sub t pgEpoch = Time_Sub (pgEpoch + (2 ^ 63 - 1)) pgEpoch" by (simp add: Time_Sub_def)
  then show "param_bytes OIDTimestampTZ (VTime t) = param_bytes OIDTimestampTZ (VTime (pgEpoch + (2 ^ 63 - 1)))"
    by (simp add: param_bytes_def)
qed

theorem time_param_roundtrip_witness:
  "param_bytes OIDTimestampTZ (VTime 16725225600000000000) = param_bytes OIDTimestampTZ (VTime (pgEpoch + (2 ^ 63 - 1)))"
  using time_param_roundtrip [of 16725225600000000000 "[]"] by simp

end
