(* ===== verification/Config.thy ===== *)
theory Config
  imports Protocol
begin

text \<open>
  src/pgz/config.go: the connection configuration, its defaults, the TLS settings derived from
  it and whom they trust, and \<open>ParseDSN\<close> from the parsed URL on.  Durations are nanoseconds.  A Go map is the list
  of its entries in the order \<open>range\<close> meets them.  A \<^verbatim>\<open>*tls.Config\<close> is the three fields the
  code reads or sets.  \<^verbatim>\<open>url.Parse\<close> and the accessors of \<^verbatim>\<open>url.URL\<close> are the record \<open>dsn_url\<close>.
\<close>

datatype SSLMode = SSLDisable | SSLPrefer | SSLRequire | SSLVerifyCA | SSLVerifyFull

record tls_config =
  ServerName :: bytes
  InsecureSkipVerify :: bool
  VerifyChainNoHost :: bool

record config =
  cHost :: bytes
  cPort :: int
  cDatabase :: bytes
  cUser :: bytes
  cPassword :: bytes
  cApplicationName :: bytes
  DialTimeout :: int
  FlushBytes :: int
  RuntimeParams :: "(bytes \<times> bytes) list"
  cSSLMode :: SSLMode
  StmtCacheSize :: int
  TLSConfig :: "tls_config option"
  MaxResponseBytes :: int
  MaxResponseRows :: int
  SlowQueryThreshold :: int
  FlushInterval :: int
  Keepalive :: int
  RetryOnSerialization :: bool
  DefaultQueryTimeout :: int
  WireReadBufferSize :: int
  TCPRecvBuffer :: int
  TCPSendBuffer :: int
  BinaryOIDs :: "OID list"
  RowsHint :: int
  BinaryNumeric :: bool

text \<open>The zero value \<open>Config{}\<close>.\<close>

definition zeroConfig :: config where
  "zeroConfig =
     \<lparr>cHost = [], cPort = 0, cDatabase = [], cUser = [], cPassword = [], cApplicationName = [], DialTimeout = 0,
      FlushBytes = 0, RuntimeParams = [], cSSLMode = SSLDisable, StmtCacheSize = 0, TLSConfig = None,
      MaxResponseBytes = 0, MaxResponseRows = 0, SlowQueryThreshold = 0, FlushInterval = 0, Keepalive = 0,
      RetryOnSerialization = False, DefaultQueryTimeout = 0, WireReadBufferSize = 0, TCPRecvBuffer = 0,
      TCPSendBuffer = 0, BinaryOIDs = [], RowsHint = 0, BinaryNumeric = False\<rparr>"

abbreviation (input) Second :: int where "Second \<equiv> 1000000000"

text \<open>
  Each assignment of \<open>applyDefaults\<close> touches one field and reads that field alone, except that
  the database defaults to the user, itself defaulted before.
\<close>

definition or_default :: "bytes \<Rightarrow> bytes \<Rightarrow> bytes" where
  "or_default s d = (if s = [] then d else s)"

definition applyDefaults :: "config \<Rightarrow> config" where
  "applyDefaults c =
     c\<lparr>cHost := or_default (cHost c) (asc ''127.0.0.1''),
       cPort := (if cPort c = 0 then 5432 else cPort c),
       cUser := or_default (cUser c) (asc ''postgres''),
       cDatabase := or_default (cDatabase c) (or_default (cUser c) (asc ''postgres'')),
       DialTimeout := (if DialTimeout c = 0 then 10 * Second else DialTimeout c),
       FlushBytes := (if FlushBytes c \<le> 0 then 32 * 1024 else FlushBytes c),
       cApplicationName := or_default (cApplicationName c) (asc ''pgz''),
       Keepalive := (if Keepalive c = 0 then 30 * Second else Keepalive c),
       WireReadBufferSize := (if WireReadBufferSize c \<le> 0 then 128 * 1024
                              else if WireReadBufferSize c < 4 * 1024 then 4 * 1024
                              else WireReadBufferSize c)\<rparr>"

definition buildTLS :: "config \<Rightarrow> tls_config option" where
  "buildTLS c =
     (if cSSLMode c = SSLDisable then None
      else case TLSConfig c of
        Some out \<Rightarrow> Some (if ServerName out = [] then out\<lparr>ServerName := cHost c\<rparr> else out)
      | None \<Rightarrow>
          let out = \<lparr>ServerName = cHost c, InsecureSkipVerify = False, VerifyChainNoHost = False\<rparr> in
          Some (case cSSLMode c of
                  SSLVerifyCA \<Rightarrow> out\<lparr>InsecureSkipVerify := True, VerifyChainNoHost := True\<rparr>
                | SSLVerifyFull \<Rightarrow> out
                | _ \<Rightarrow> out\<lparr>InsecureSkipVerify := True\<rparr>))"

section \<open>Whom the handshake trusts\<close>

text \<open>
  src/pgz/tls_helpers.go.  A chain is the list of certificates the server shows; \<open>verify\<close> is
  \<^verbatim>\<open>x509.Certificate.Verify\<close> with the given intermediates and the roots of the system, \<open>verify_host\<close> the
  standard check of crypto/tls, host name included.
\<close>

datatype 'e chain_error = errNoTLSChain | VerifyError 'e

definition tlsVerifyOptionsNoHost :: "'cert list \<Rightarrow> 'cert list" where
  "tlsVerifyOptionsNoHost certs = tl certs"

definition verifyChainNoHost :: "('cert \<Rightarrow> 'cert list \<Rightarrow> 'e option) \<Rightarrow> 'cert list \<Rightarrow> 'e chain_error option" where
  "verifyChainNoHost verify certs =
     (case certs of
        [] \<Rightarrow> Some errNoTLSChain
      | leaf # _ \<Rightarrow> map_option VerifyError (verify leaf (tlsVerifyOptionsNoHost certs)))"

definition trusts ::
  "(bytes \<Rightarrow> 'cert list \<Rightarrow> bool) \<Rightarrow> ('cert \<Rightarrow> 'cert list \<Rightarrow> 'e option) \<Rightarrow> tls_config \<Rightarrow> 'cert list \<Rightarrow> bool"
where
  "trusts verify_host verify t certs \<longleftrightarrow>
     (InsecureSkipVerify t \<or> verify_host (ServerName t) certs) \<and> (VerifyChainNoHost t \<longrightarrow> verifyChainNoHost verify certs = None)"

text \<open>Without a configuration of the user's, the mode decides; with one, the mode decides nothing here.\<close>

lemma trusted_by_mode:
  assumes "TLSConfig c = None" "buildTLS c = Some t"
  shows "trusts verify_host verify t certs \<longleftrightarrow>
    (case cSSLMode c of
       SSLVerifyFull \<Rightarrow> verify_host (cHost c) certs
     | SSLVerifyCA \<Rightarrow> certs \<noteq> [] \<and> verify (hd certs) (tl certs) = None
     | _ \<Rightarrow> True)"
  using assms
  by (auto simp: buildTLS_def trusts_def verifyChainNoHost_def tlsVerifyOptionsNoHost_def split: if_splits SSLMode.splits list.splits)

lemma trusted_by_user_config:
  "TLSConfig c = Some t \<Longrightarrow> cSSLMode c \<noteq> SSLDisable \<Longrightarrow>
   buildTLS c = Some (if ServerName t = [] then t\<lparr>ServerName := cHost c\<rparr> else t)"
  by (simp add: buildTLS_def)

section \<open>ParseDSN\<close>

text \<open>What \<^verbatim>\<open>url.Parse\<close> delivers: the decoded parts, and the query parameters in order.\<close>

record dsn_url =
  u_hostname :: bytes
  u_port :: bytes
  u_user :: "bytes option"
  u_password :: "bytes option"
  u_path :: bytes
  u_query :: "(bytes \<times> bytes) list"

definition u_get :: "dsn_url \<Rightarrow> string \<Rightarrow> bytes" where
  "u_get u k = (case map_of (u_query u) (asc k) of None \<Rightarrow> [] | Some v \<Rightarrow> v)"

text \<open>
  \<open>strconv.Atoi(s)\<close> and \<open>strconv.ParseInt(s, 10, 64)\<close>: an optional sign and digits.  \<open>parse_decimal\<close>
  is the syntax; \<open>Atoi_opt\<close> fails on a syntax or range error; \<open>n, _ = Atoi(s)\<close>, which drops the
  error, is 0 on a syntax error and the nearest bound on overflow.
\<close>

definition dec_value :: "bytes \<Rightarrow> int" where
  "dec_value s = foldl (\<lambda>n c. n * 10 + (uint c - 48)) 0 s"

definition parse_decimal :: "bytes \<Rightarrow> int option" where
  "parse_decimal s =
     (let neg = (s \<noteq> [] \<and> hd s = 45); ds = (if s \<noteq> [] \<and> (hd s = 45 \<or> hd s = 43) then tl s else s)
      in if ds \<noteq> [] \<and> list_all is_digit ds then Some (if neg then - dec_value ds else dec_value ds) else None)"

definition Atoi_opt :: "bytes \<Rightarrow> int option" where
  "Atoi_opt s =
     (case parse_decimal s of
        None \<Rightarrow> None
      | Some v \<Rightarrow> if - (2 ^ 63) \<le> v \<and> v < 2 ^ 63 then Some v else None)"

definition Atoi :: "bytes \<Rightarrow> int" where
  "Atoi s = (case parse_decimal s of None \<Rightarrow> 0 | Some v \<Rightarrow> max (- (2 ^ 63)) (min (2 ^ 63 - 1) v))"

lemma dec_value_snoc: "dec_value (s @ [c]) = dec_value s * 10 + (uint c - 48)"
  by (simp add: dec_value_def)

lemma dec_value_digits: "(\<And>d. d \<in> set ds \<Longrightarrow> d < 10) \<Longrightarrow> dec_value (map (\<lambda>d. dig (int d)) ds) = int (digits_value 10 ds)"
proof (induction ds rule: rev_induct)
  case (snoc d ds)
  have "dec_value (map (\<lambda>d. dig (int d)) ds @ [dig (int d)]) = int (digits_value 10 ds) * 10 + int d"
    using snoc by (simp only: dec_value_snoc) (simp add: uint_dig)
  then show ?case by (simp add: digits_value_def)
qed (simp add: dec_value_def digits_value_def)

lemma parse_decimal_dec_int: "parse_decimal (dec_int v) = Some v"
proof -
  let ?d = "dec_nat (nat \<bar>v\<bar>)"
  have val: "dec_value ?d = \<bar>v\<bar>"
    unfolding dec_nat_def using nat_digits_less [of 10]
    by (subst dec_value_digits) (auto simp: digits_value_nat_digits)
  have hd: "hd ?d \<noteq> 45" "hd ?d \<noteq> 43"
    using dec_nat_digits [of "nat \<bar>v\<bar>"] by (cases ?d; auto)+
  then show ?thesis
    using val dec_nat_digits [of "nat \<bar>v\<bar>"] by (auto simp: parse_decimal_def dec_int_def)
qed

lemma Atoi_opt_dec_int: "- (2 ^ 63) \<le> v \<Longrightarrow> v < 2 ^ 63 \<Longrightarrow> Atoi_opt (dec_int v) = Some v"
  by (simp add: Atoi_opt_def parse_decimal_dec_int)

definition trimSlash :: "bytes \<Rightarrow> bytes" where
  "trimSlash p = (case p of [] \<Rightarrow> [] | c # cs \<Rightarrow> if c = ch CHR ''/'' then cs else p)"

definition dsn_sslmode :: "bytes \<Rightarrow> SSLMode \<Rightarrow> SSLMode" where
  "dsn_sslmode v old =
     (if v = asc ''disable'' then SSLDisable
      else if v = [] \<or> v = asc ''prefer'' then SSLPrefer
      else if v = asc ''require'' then SSLRequire
      else if v = asc ''verify-ca'' then SSLVerifyCA
      else if v = asc ''verify-full'' then SSLVerifyFull
      else old)"

definition set_if :: "bytes \<Rightarrow> (bytes \<Rightarrow> config \<Rightarrow> config) \<Rightarrow> config \<Rightarrow> config" where
  "set_if v f cfg = (if v \<noteq> [] then f v cfg else cfg)"

definition ParseDSN :: "dsn_url \<Rightarrow> config" where
  "ParseDSN u =
     (let cfg = zeroConfig\<lparr>cHost := u_hostname u\<rparr>;
          cfg = set_if (u_port u) (\<lambda>p. cPort_update (\<lambda>_. Atoi p)) cfg;
          cfg = (case u_user u of
                   None \<Rightarrow> cfg
                 | Some name \<Rightarrow>
                     let cfg = cfg\<lparr>cUser := name\<rparr> in
                     (case u_password u of None \<Rightarrow> cfg | Some pw \<Rightarrow> cfg\<lparr>cPassword := pw\<rparr>));
          cfg = set_if (trimSlash (u_path u)) (\<lambda>path. cDatabase_update (\<lambda>_. path)) cfg;
          cfg = set_if (u_get u ''application_name'') (\<lambda>app. cApplicationName_update (\<lambda>_. app)) cfg;
          cfg = set_if (u_get u ''tcp_recv_buffer'') (\<lambda>v. TCPRecvBuffer_update (\<lambda>_. Atoi v)) cfg;
          cfg = set_if (u_get u ''tcp_send_buffer'') (\<lambda>v. TCPSendBuffer_update (\<lambda>_. Atoi v)) cfg;
          cfg = set_if (u_get u ''wire_read_buffer'') (\<lambda>v. WireReadBufferSize_update (\<lambda>_. Atoi v)) cfg;
          cfg = cfg\<lparr>cSSLMode := dsn_sslmode (u_get u ''sslmode'') (cSSLMode cfg)\<rparr>
      in applyDefaults cfg)"

text \<open>
  TLS is off unless it is asked for by name: in a configuration that does not set the mode, and
  behind a DSN whose \<open>sslmode\<close> is misspelled.
\<close>

lemma TLS_off_by_default: "buildTLS (applyDefaults zeroConfig) = None"
  by (simp add: buildTLS_def applyDefaults_def zeroConfig_def)

lemma misspelled_sslmode_disables_TLS:
  assumes "u_get u ''sslmode'' \<notin> {[], asc ''disable'', asc ''prefer'', asc ''require'', asc ''verify-ca'', asc ''verify-full''}"
  shows "buildTLS (ParseDSN u) = None"
proof -
  have mode: "cSSLMode (set_if v f cf) = cSSLMode cf" if "\<And>v cf. cSSLMode (f v cf) = cSSLMode cf" for v f cf
    using that by (simp add: set_if_def)
  have "dsn_sslmode (u_get u ''sslmode'') old = old" for old
    using assms by (simp add: dsn_sslmode_def del: asc_Cons asc_Nil)
  then have "cSSLMode (ParseDSN u) = SSLDisable"
    by (simp add: ParseDSN_def Let_def applyDefaults_def zeroConfig_def mode split: option.split)
  then show ?thesis by (simp add: buildTLS_def)
qed

section \<open>A usable configuration\<close>

definition config_ok :: "config \<Rightarrow> bool" where
  "config_ok c \<longleftrightarrow> cHost c \<noteq> [] \<and> cPort c \<noteq> 0 \<and> cUser c \<noteq> [] \<and> cDatabase c \<noteq> [] \<and> cApplicationName c \<noteq> [] \<and>
     DialTimeout c \<noteq> 0 \<and> 0 < FlushBytes c \<and> Keepalive c \<noteq> 0 \<and> 4096 \<le> WireReadBufferSize c"

lemma applyDefaults_ok: "config_ok (applyDefaults c)"
  by (simp add: applyDefaults_def config_ok_def or_default_def ascii_simps)

lemma applyDefaults_id: "config_ok c \<Longrightarrow> applyDefaults c = c"
  by (simp add: applyDefaults_def config_ok_def or_default_def)

lemma applyDefaults_keeps:
  "cPassword (applyDefaults c) = cPassword c" "RuntimeParams (applyDefaults c) = RuntimeParams c"
  "cSSLMode (applyDefaults c) = cSSLMode c" "StmtCacheSize (applyDefaults c) = StmtCacheSize c"
  "MaxResponseRows (applyDefaults c) = MaxResponseRows c" "MaxResponseBytes (applyDefaults c) = MaxResponseBytes c"
  "TLSConfig (applyDefaults c) = TLSConfig c"
  by (simp_all add: applyDefaults_def)

end
