(* ===== verification/Auth.thy ===== *)
theory Auth
  imports Config
begin

text \<open>
  src/internal/auth: MD5 password responses (md5.go) and the client side of SCRAM-SHA-256
  (scram.go, RFC 5802 and 7677).  The two hash functions are arguments (\<open>md5\<close>, \<open>H\<close>): nothing
  here depends on what they compute, only on the length of a SHA-256 digest, which the theorems
  name as a hypothesis.  HMAC (RFC 2104 over a hash with 64 byte blocks) and base64 are written
  out.  The random nonce is an argument.
\<close>

section \<open>Base64 and hexadecimal\<close>

definition b64char :: "int \<Rightarrow> byte" where
  "b64char v = word_of_int (if v < 26 then 65 + v else if v < 52 then 71 + v else if v < 62 then v - 4
     else if v = 62 then 43 else 47)"

definition b64val :: "byte \<Rightarrow> int option" where
  "b64val c =
     (let u = uint c in
      if 65 \<le> u \<and> u \<le> 90 then Some (u - 65)
      else if 97 \<le> u \<and> u \<le> 122 then Some (u - 71)
      else if 48 \<le> u \<and> u \<le> 57 then Some (u + 4)
      else if u = 43 then Some 62 else if u = 47 then Some 63 else None)"

text \<open>\<open>base64.StdEncoding\<close>; the decoder skips line breaks, wants full padding and accepts nothing after it.\<close>

fun b64enc :: "bytes \<Rightarrow> bytes" where
  "b64enc [] = []"
| "b64enc [a] = [b64char (uint a div 4), b64char (uint a mod 4 * 16), 61, 61]"
| "b64enc [a, b] =
     [b64char (uint a div 4), b64char (uint a mod 4 * 16 + uint b div 16), b64char (uint b mod 16 * 4), 61]"
| "b64enc (a # b # c # s) =
     b64char (uint a div 4) # b64char (uint a mod 4 * 16 + uint b div 16) #
     b64char (uint b mod 16 * 4 + uint c div 64) # b64char (uint c mod 64) # b64enc s"

definition oct0 :: "int \<Rightarrow> int \<Rightarrow> byte" where "oct0 x y = word_of_int (x * 4 + y div 16)"
definition oct1 :: "int \<Rightarrow> int \<Rightarrow> byte" where "oct1 y z = word_of_int (y mod 16 * 16 + z div 4)"
definition oct2 :: "int \<Rightarrow> int \<Rightarrow> byte" where "oct2 z w = word_of_int (z mod 4 * 64 + w)"

fun b64dec :: "bytes \<Rightarrow> bytes option" where
  "b64dec [] = Some []"
| "b64dec (a # b # c # d # s) =
     (case (b64val a, b64val b) of
        (Some x, Some y) \<Rightarrow>
          if c = 61 then (if d = 61 \<and> s = [] then Some [oct0 x y] else None)
          else (case b64val c of
                  None \<Rightarrow> None
                | Some z \<Rightarrow>
                    if d = 61 then (if s = [] then Some [oct0 x y, oct1 y z] else None)
                    else (case b64val d of
                            None \<Rightarrow> None
                          | Some w \<Rightarrow> map_option (\<lambda>r. oct0 x y # oct1 y z # oct2 z w # r) (b64dec s)))
      | _ \<Rightarrow> None)"
| "b64dec s = None"

definition b64DecodeString :: "bytes \<Rightarrow> bytes option" where
  "b64DecodeString s = b64dec (filter (\<lambda>c. c \<noteq> 10 \<and> c \<noteq> 13) s)"

definition hexEncode :: "bytes \<Rightarrow> bytes" where
  "hexEncode s = concat (map hex_byte s)"

section \<open>md5.go\<close>

definition MD5Password :: "(bytes \<Rightarrow> bytes) \<Rightarrow> bytes \<Rightarrow> bytes \<Rightarrow> bytes \<Rightarrow> bytes" where
  "MD5Password md5 user password salt =
     (let innerHex = hexEncode (md5 (password @ user)); outerHex = hexEncode (md5 (innerHex @ salt))
      in asc ''md5'' @ outerHex)"

section \<open>scram.go\<close>

datatype auth_error =
    RandFailed
  | NoMechanism "bytes list"
  | BadIterationCount
  | MalformedServerFirst
  | NonceMismatch
  | BadSalt
  | BadServerSignatureEncoding
  | SignatureMismatch
  | ScramServerError bytes
  | MissingServerSignature

record SCRAM =
  s_password :: bytes
  clientNon :: bytes
  clientFirstBare :: bytes
  serverFirst :: bytes
  serverSig :: bytes

text \<open>\<open>rand.Read\<close> delivers 18 bytes or fails.\<close>

definition NewSCRAM :: "bytes option \<Rightarrow> bytes \<Rightarrow> auth_error + SCRAM" where
  "NewSCRAM nonce password =
     (case nonce of
        None \<Rightarrow> Inl RandFailed
      | Some n \<Rightarrow> Inr \<lparr>s_password = password, clientNon = b64enc n, clientFirstBare = [], serverFirst = [], serverSig = []\<rparr>)"

fun splitNul_loop :: "bytes \<Rightarrow> bytes \<Rightarrow> bytes list" where
  "splitNul_loop cur [] = []"
| "splitNul_loop cur (c # b) =
     (if c = 0 then (if cur \<noteq> [] then cur # splitNul_loop [] b else splitNul_loop [] b)
      else splitNul_loop (cur @ [c]) b)"

definition splitNulList :: "bytes \<Rightarrow> bytes list" where
  "splitNulList b = splitNul_loop [] b"

definition MechSCRAMSHA256 :: bytes where
  "MechSCRAMSHA256 = asc ''SCRAM-SHA-256''"

definition PickMechanism :: "bytes \<Rightarrow> auth_error + bytes" where
  "PickMechanism body =
     (let parts = splitNulList body in
      if MechSCRAMSHA256 \<in> set parts then Inr MechSCRAMSHA256 else Inl (NoMechanism parts))"

definition ClientFirst :: "SCRAM \<Rightarrow> SCRAM \<times> bytes" where
  "ClientFirst s =
     (let s = s\<lparr>clientFirstBare := asc ''n=,r='' @ clientNon s\<rparr> in (s, asc ''n,,'' @ clientFirstBare s))"

text \<open>\<open>strings.Split\<close> at a byte: never empty.\<close>

fun split_at :: "byte \<Rightarrow> bytes \<Rightarrow> bytes list" where
  "split_at d [] = [[]]"
| "split_at d (c # s) =
     (if c = d then [] # split_at d s
      else (case split_at d s of [] \<Rightarrow> [[c]] | p # ps \<Rightarrow> (c # p) # ps))"

text \<open>The loop of \<open>parseServerFirst\<close> over the attributes.\<close>

fun server_attrs :: "bytes list \<Rightarrow> bytes \<times> bytes \<times> int \<Rightarrow> auth_error + bytes \<times> bytes \<times> int" where
  "server_attrs [] st = Inr st"
| "server_attrs (kv # kvs) (r, salt, iter) =
     (if length kv < 2 \<or> kv ! 1 \<noteq> 61 then server_attrs kvs (r, salt, iter)
      else if kv ! 0 = ch CHR ''r'' then server_attrs kvs (drop 2 kv, salt, iter)
      else if kv ! 0 = ch CHR ''s'' then server_attrs kvs (r, drop 2 kv, iter)
      else if kv ! 0 = ch CHR ''i'' then
        (case Atoi_opt (drop 2 kv) of
           None \<Rightarrow> Inl BadIterationCount
         | Some n \<Rightarrow> server_attrs kvs (r, salt, n))
      else server_attrs kvs (r, salt, iter))"

definition parseServerFirst :: "bytes \<Rightarrow> auth_error + bytes \<times> bytes \<times> int" where
  "parseServerFirst s =
     (case server_attrs (split_at 44 s) ([], [], 0) of
        Inl e \<Rightarrow> Inl e
      | Inr (r, salt, iter) \<Rightarrow>
          if r = [] \<or> salt = [] \<or> iter \<le> 0 then Inl MalformedServerFirst else Inr (r, salt, iter))"

definition xorBytes :: "bytes \<Rightarrow> bytes \<Rightarrow> bytes" where
  "xorBytes a b = map (\<lambda>i. a ! i XOR b ! i) [0..<length a]"

text \<open>RFC 2104 over a hash with 64 byte blocks.\<close>

definition hmacSHA256 :: "(bytes \<Rightarrow> bytes) \<Rightarrow> bytes \<Rightarrow> bytes \<Rightarrow> bytes" where
  "hmacSHA256 H key msg =
     (let k = (if 64 < length key then H key else key); k = k @ replicate (64 - length k) 0
      in H (map (\<lambda>b. b XOR 0x5c) k @ H (map (\<lambda>b. b XOR 0x36) k @ msg)))"

text \<open>The loop over \<open>i\<close> of one block: \<open>n\<close> more rounds.\<close>

fun pbkdf2_rounds :: "(bytes \<Rightarrow> bytes) \<Rightarrow> nat \<Rightarrow> bytes \<Rightarrow> bytes \<Rightarrow> bytes" where
  "pbkdf2_rounds prf 0 U T = T"
| "pbkdf2_rounds prf (Suc n) U T = pbkdf2_rounds prf n (prf U) (xorBytes T (prf U))"

definition pbkdf2HMACSHA256 :: "(bytes \<Rightarrow> bytes) \<Rightarrow> bytes \<Rightarrow> bytes \<Rightarrow> int \<Rightarrow> nat \<Rightarrow> bytes" where
  "pbkdf2HMACSHA256 H password salt iter keyLen =
     (let prf = hmacSHA256 H password; hashLen = 32; numBlocks = (keyLen + hashLen - 1) div hashLen;
          block = (\<lambda>i. let U = prf (salt @ be_put 4 (int i)) in pbkdf2_rounds prf (nat (iter - 1)) U U)
      in take keyLen (concat (map block [1..<numBlocks + 1])))"

definition ClientFinal :: "(bytes \<Rightarrow> bytes) \<Rightarrow> bytes \<Rightarrow> SCRAM \<Rightarrow> SCRAM \<times> (auth_error + bytes)" where
  "ClientFinal H server_first s =
     (let s = s\<lparr>serverFirst := server_first\<rparr> in
      case parseServerFirst (serverFirst s) of
        Inl e \<Rightarrow> (s, Inl e)
      | Inr (r, salt, iter) \<Rightarrow>
          if take (length (clientNon s)) r \<noteq> clientNon s then (s, Inl NonceMismatch)
          else (case b64DecodeString salt of
                  None \<Rightarrow> (s, Inl BadSalt)
                | Some saltBytes \<Rightarrow>
                    let salted = pbkdf2HMACSHA256 H (s_password s) saltBytes iter 32;
                        clientKey = hmacSHA256 H salted (asc ''Client Key'');
                        storedKey = H clientKey;
                        clientFinalNoProof = asc ''c=biws,r='' @ r;
                        authMsg = clientFirstBare s @ [44] @ serverFirst s @ [44] @ clientFinalNoProof;
                        clientSig = hmacSHA256 H storedKey authMsg;
                        clientProof = xorBytes clientKey clientSig;
                        serverKey = hmacSHA256 H salted (asc ''Server Key'');
                        final = clientFinalNoProof @ asc '',p='' @ b64enc clientProof
                    in (s\<lparr>serverSig := hmacSHA256 H serverKey authMsg\<rparr>, Inr final)))"

fun verify_attrs :: "bytes list \<Rightarrow> SCRAM \<Rightarrow> auth_error option" where
  "verify_attrs [] s = Some MissingServerSignature"
| "verify_attrs (kv # kvs) s =
     (if take 2 kv = asc ''v='' then
        (case b64DecodeString (drop 2 kv) of
           None \<Rightarrow> Some BadServerSignatureEncoding
         | Some got \<Rightarrow> if got = serverSig s then None else Some SignatureMismatch)
      else if take 2 kv = asc ''e='' then Some (ScramServerError (drop 2 kv))
      else verify_attrs kvs s)"

definition Verify :: "bytes \<Rightarrow> SCRAM \<Rightarrow> auth_error option" where
  "Verify serverFinal s = verify_attrs (split_at 44 serverFinal) s"

section \<open>Base64 round trip\<close>

lemma b64char_laws:
  assumes "0 \<le> v" "v < 64"
  shows "b64val (b64char v) = Some v \<and> b64char v \<noteq> 61 \<and> b64char v \<noteq> 44 \<and> b64char v \<noteq> 10 \<and> b64char v \<noteq> 13"
proof -
  have "list_all (\<lambda>v. b64val (b64char (int v)) = Some (int v) \<and> b64char (int v) \<notin> {61, 44, 10, 13}) [0..<64]"
    by code_simp
  then have "\<forall>n < 64. b64val (b64char (int n)) = Some (int n) \<and> b64char (int n) \<notin> {61, 44, 10, 13}"
    by (simp add: list_all_iff)
  then show ?thesis using assms by (auto dest!: spec [of _ "nat v"])
qed

lemma uint_byte: "uint (a :: byte) < 256"
  using uint_bounded [of a] by simp

lemma sextets:
  fixes a b c :: byte
  shows "0 \<le> uint a div 4" "uint a div 4 < 64"
    "0 \<le> uint a mod 4 * 16 + uint b div 16" "uint a mod 4 * 16 + uint b div 16 < 64"
    "0 \<le> uint a mod 4 * 16" "uint a mod 4 * 16 < 64"
    "0 \<le> uint b mod 16 * 4 + uint c div 64" "uint b mod 16 * 4 + uint c div 64 < 64"
    "0 \<le> uint b mod 16 * 4" "uint b mod 16 * 4 < 64"
    "0 \<le> uint c mod 64" "uint c mod 64 < 64"
  using uint_byte [of a] uint_byte [of b] uint_byte [of c] by (auto simp: pos_imp_zdiv_nonneg_iff)

lemma div_mod_pack:
  fixes r k m :: int
  assumes "0 \<le> k" "k < m"
  shows "(r * m + k) div m = r" "(r * m + k) mod m = k"
  using assms by simp_all

lemma octets:
  fixes a b c :: byte
  shows "oct0 (uint a div 4) (uint a mod 4 * 16 + uint b div 16) = a"
    "oct0 (uint a div 4) (uint a mod 4 * 16) = a"
    "oct1 (uint a mod 4 * 16 + uint b div 16) (uint b mod 16 * 4 + uint c div 64) = b"
    "oct1 (uint a mod 4 * 16 + uint b div 16) (uint b mod 16 * 4) = b"
    "oct2 (uint b mod 16 * 4 + uint c div 64) (uint c mod 64) = c"
proof -
  have b: "0 \<le> uint b div 16" "uint b div 16 < 16" using uint_byte [of b] by (simp_all add: pos_imp_zdiv_nonneg_iff)
  have c: "0 \<le> uint c div 64" "uint c div 64 < 4" using uint_byte [of c] by (simp_all add: pos_imp_zdiv_nonneg_iff)
  have e: "uint x div n * n + uint x mod n = uint x" for x :: byte and n by simp
  note pack = div_mod_pack [OF b] div_mod_pack [OF c]
  have z: "uint a mod 4 * 16 div 16 = uint a mod 4" "uint b mod 16 * 4 div 4 = uint b mod 16" by simp_all
  show "oct0 (uint a div 4) (uint a mod 4 * 16 + uint b div 16) = a" unfolding oct0_def pack e by (rule word_of_int_uint)
  show "oct0 (uint a div 4) (uint a mod 4 * 16) = a" unfolding oct0_def z e by (rule word_of_int_uint)
  show "oct1 (uint a mod 4 * 16 + uint b div 16) (uint b mod 16 * 4 + uint c div 64) = b"
    unfolding oct1_def pack e by (rule word_of_int_uint)
  show "oct1 (uint a mod 4 * 16 + uint b div 16) (uint b mod 16 * 4) = b"
    unfolding oct1_def pack z e by (rule word_of_int_uint)
  show "oct2 (uint b mod 16 * 4 + uint c div 64) (uint c mod 64) = c"
    unfolding oct2_def pack e by (rule word_of_int_uint)
qed

lemma b64dec_enc: "b64dec (b64enc s) = Some s"
  by (induction s rule: b64enc.induct) (simp_all add: b64char_laws sextets octets)

lemma b64enc_chars: "c \<in> set (b64enc s) \<Longrightarrow> c \<noteq> 44 \<and> c \<noteq> 10 \<and> c \<noteq> 13"
  by (induction s rule: b64enc.induct) (auto simp: b64char_laws sextets)

lemma b64DecodeString_enc: "b64DecodeString (b64enc s) = Some s"
proof -
  have "filter (\<lambda>c. c \<noteq> 10 \<and> c \<noteq> 13) (b64enc s) = b64enc s"
    using b64enc_chars by (auto intro!: filter_True)
  then show ?thesis by (simp add: b64DecodeString_def b64dec_enc)
qed

lemma b64enc_nonempty [simp]: "b64enc s = [] \<longleftrightarrow> s = []"
  by (cases s rule: b64enc.cases) auto

lemma split_at_simps:
  "d \<notin> set a \<Longrightarrow> split_at d a = [a]" "d \<notin> set a \<Longrightarrow> split_at d (a @ d # b) = a # split_at d b"
  by (induction a) auto

section \<open>The exchange against a server of RFC 5802\<close>

text \<open>
  The server's side, from the RFC: \<open>Hi(str, salt, i)\<close> is \<open>U1 XOR ... XOR Ui\<close>; the server keeps
  \<open>StoredKey\<close> and \<open>ServerKey\<close>, accepts a proof that XORed with its client signature hashes to
  \<open>StoredKey\<close>, and answers with its own signature.
\<close>

fun rfc_U :: "(bytes \<Rightarrow> bytes) \<Rightarrow> bytes \<Rightarrow> bytes \<Rightarrow> nat \<Rightarrow> bytes" where
  "rfc_U H str salt 0 = hmacSHA256 H str (salt @ [0, 0, 0, 1])"
| "rfc_U H str salt (Suc n) = hmacSHA256 H str (rfc_U H str salt n)"

fun rfc_Hi :: "(bytes \<Rightarrow> bytes) \<Rightarrow> bytes \<Rightarrow> bytes \<Rightarrow> nat \<Rightarrow> bytes" where
  "rfc_Hi H str salt 0 = rfc_U H str salt 0"
| "rfc_Hi H str salt (Suc n) = xorBytes (rfc_Hi H str salt n) (rfc_U H str salt (Suc n))"

definition StoredKey :: "(bytes \<Rightarrow> bytes) \<Rightarrow> bytes \<Rightarrow> bytes" where
  "StoredKey H salted = H (hmacSHA256 H salted (asc ''Client Key''))"

definition ServerSignature :: "(bytes \<Rightarrow> bytes) \<Rightarrow> bytes \<Rightarrow> bytes \<Rightarrow> bytes" where
  "ServerSignature H salted authMsg = hmacSHA256 H (hmacSHA256 H salted (asc ''Server Key'')) authMsg"

definition server_accepts :: "(bytes \<Rightarrow> bytes) \<Rightarrow> bytes \<Rightarrow> bytes \<Rightarrow> bytes \<Rightarrow> bool" where
  "server_accepts H salted authMsg proof \<longleftrightarrow>
     H (xorBytes proof (hmacSHA256 H (StoredKey H salted) authMsg)) = StoredKey H salted"

lemma length_xorBytes [simp]: "length (xorBytes a b) = length a"
  by (simp add: xorBytes_def)

lemma xorBytes_twice: "length b = length a \<Longrightarrow> xorBytes (xorBytes a b) b = a"
  by (rule nth_equalityI) (simp_all add: xorBytes_def xor.assoc)

lemma pbkdf2_rounds_Hi:
  "pbkdf2_rounds (hmacSHA256 H p) n (rfc_U H p s k) (rfc_Hi H p s k) = rfc_Hi H p s (k + n)"
proof (induction n arbitrary: k)
  case (Suc n)
  have "pbkdf2_rounds (hmacSHA256 H p) (Suc n) (rfc_U H p s k) (rfc_Hi H p s k)
      = pbkdf2_rounds (hmacSHA256 H p) n (rfc_U H p s (Suc k)) (rfc_Hi H p s (Suc k))" by simp
  then show ?case using Suc.IH [of "Suc k"] by simp
qed simp

lemma length_hmac: "(\<And>x. length (H x) = 32) \<Longrightarrow> length (hmacSHA256 H k m) = 32"
  by (simp add: hmacSHA256_def Let_def)

lemma length_Hi: "(\<And>x. length (H x) = 32) \<Longrightarrow> length (rfc_Hi H p s n) = 32"
  by (induction n) (simp_all add: length_hmac)

lemma pbkdf2_Hi:
  assumes "\<And>x. length (H x) = 32"
  shows "pbkdf2HMACSHA256 H p s i 32 = rfc_Hi H p s (nat (i - 1))"
proof -
  have one: "be_put 4 (int 1) = [0, 0, 0, 1]" by (simp add: eval_nat_numeral)
  have "[1..<(32 + 32 - 1) div 32 + 1] = [1::nat]" by (simp add: upt_rec)
  then have "pbkdf2HMACSHA256 H p s i 32
      = take 32 (pbkdf2_rounds (hmacSHA256 H p) (nat (i - 1)) (rfc_U H p s 0) (rfc_Hi H p s 0))"
    unfolding pbkdf2HMACSHA256_def Let_def using one by simp
  then show ?thesis using pbkdf2_rounds_Hi [of H p "nat (i - 1)" s 0] length_Hi [OF assms] by simp
qed

lemma parseServerFirst_form:
  assumes "44 \<notin> set r" "r \<noteq> []" "salt \<noteq> []" "0 < iter" "iter < 2 ^ 63"
  shows "parseServerFirst (asc ''r='' @ r @ asc '',s='' @ b64enc salt @ asc '',i='' @ dec_int iter)
    = Inr (r, b64enc salt, iter)"
proof -
  have no: "44 \<notin> set (asc ''r='' @ r)" "44 \<notin> set (asc ''s='' @ b64enc salt)" "44 \<notin> set (asc ''i='' @ dec_int iter)"
    using assms(1,4) b64enc_chars [of 44 salt] dec_nat_digits [of "nat \<bar>iter\<bar>"]
    by (auto simp: ascii_simps dec_int_def list_all_iff is_digit_def)
  have "asc ''r='' @ r @ asc '',s='' @ b64enc salt @ asc '',i='' @ dec_int iter
      = (asc ''r='' @ r) @ 44 # (asc ''s='' @ b64enc salt) @ 44 # (asc ''i='' @ dec_int iter)"
    by (simp add: ascii_simps)
  then have "split_at 44 (asc ''r='' @ r @ asc '',s='' @ b64enc salt @ asc '',i='' @ dec_int iter)
      = [asc ''r='' @ r, asc ''s='' @ b64enc salt, asc ''i='' @ dec_int iter]"
    using no by (simp only: split_at_simps not_False_eq_True)
  then show ?thesis
    using assms Atoi_opt_dec_int [of iter]
    by (simp add: parseServerFirst_def) (simp add: ascii_simps)
qed

definition ClientProof :: "(bytes \<Rightarrow> bytes) \<Rightarrow> bytes \<Rightarrow> bytes \<Rightarrow> bytes" where
  "ClientProof H salted authMsg =
     xorBytes (hmacSHA256 H salted (asc ''Client Key'')) (hmacSHA256 H (StoredKey H salted) authMsg)"

lemma server_accepts_ClientProof: "(\<And>x. length (H x) = 32) \<Longrightarrow> server_accepts H salted authMsg (ClientProof H salted authMsg)"
  by (simp add: server_accepts_def ClientProof_def xorBytes_twice length_hmac StoredKey_def)

text \<open>The client's state after its first message, and the answer of a server of the RFC.\<close>

definition scram_started :: "bytes \<Rightarrow> bytes \<Rightarrow> SCRAM" where
  "scram_started pw n =
     \<lparr>s_password = pw, clientNon = b64enc n, clientFirstBare = asc ''n=,r='' @ b64enc n, serverFirst = [], serverSig = []\<rparr>"

definition server_first :: "bytes \<Rightarrow> bytes \<Rightarrow> bytes \<Rightarrow> int \<Rightarrow> bytes" where
  "server_first n sn salt iter = asc ''r='' @ b64enc n @ sn @ asc '',s='' @ b64enc salt @ asc '',i='' @ dec_int iter"

definition auth_message :: "bytes \<Rightarrow> bytes \<Rightarrow> bytes \<Rightarrow> bytes" where
  "auth_message n sn sf = asc ''n=,r='' @ b64enc n @ [44] @ sf @ asc '',c=biws,r='' @ b64enc n @ sn"

lemma ClientFirst_started:
  "NewSCRAM (Some n) pw = Inr s0 \<Longrightarrow> ClientFirst s0 = (scram_started pw n, asc ''n,,n=,r='' @ b64enc n)"
  by (auto simp: NewSCRAM_def ClientFirst_def Let_def asc_def scram_started_def)

lemma ClientFinal_rfc:
  assumes H: "\<And>x. length (H x) = 32" and server: "44 \<notin> set sn" "n \<noteq> []" "salt \<noteq> []" "0 < iter" "iter < 2 ^ 63"
    and sf: "sf = server_first n sn salt iter" and salted: "salted = rfc_Hi H pw salt (nat (iter - 1))"
  shows "ClientFinal H sf (scram_started pw n) =
    ((scram_started pw n)\<lparr>serverFirst := sf, serverSig := ServerSignature H salted (auth_message n sn sf)\<rparr>,
     Inr (asc ''c=biws,r='' @ b64enc n @ sn @ asc '',p='' @ b64enc (ClientProof H salted (auth_message n sn sf))))"
proof -
  let ?r = "b64enc n @ sn"
  have "?r \<noteq> []" using server(2) by simp
  moreover have "44 \<notin> set ?r" using server(1) b64enc_chars [of 44 n] by auto
  ultimately have ps: "parseServerFirst sf = Inr (?r, b64enc salt, iter)"
    using parseServerFirst_form [of ?r salt iter] server sf by (simp add: server_first_def)
  have am: "auth_message n sn sf = (asc ''n=,r='' @ b64enc n) @ [44] @ sf @ [44] @ (asc ''c=biws,r='' @ ?r)"
    by (simp add: auth_message_def ascii_simps)
  show ?thesis
    unfolding ClientFinal_def Let_def am ServerSignature_def StoredKey_def ClientProof_def scram_started_def
    by (simp add: ps b64DecodeString_enc pbkdf2_Hi [OF H] salted)
qed

lemma Verify_signature: "Verify (asc ''v='' @ b64enc sig) s = None \<longleftrightarrow> sig = serverSig s"
proof -
  have "44 \<notin> set (asc ''v='' @ b64enc sig)" using b64enc_chars [of 44 sig] by (auto simp: ascii_simps)
  then have "split_at 44 (asc ''v='' @ b64enc sig) = [asc ''v='' @ b64enc sig]" by (rule split_at_simps)
  then show ?thesis by (simp add: Verify_def b64DecodeString_enc ascii_simps)
qed

section \<open>Properties\<close>

text \<open>C16. SCRAM works against a server that follows RFC 5802, for any hash with 32 byte digests.  From
  the nonce and the password the client's two messages are the RFC's; the proof it sends is
  accepted by a server that knows only \<open>StoredKey\<close>; and the server's final message is accepted
  exactly when its signature is the one computed from \<open>ServerKey\<close>, so a server that does not know
  the key is told apart.\<close>

theorem scram_exchange:
  assumes H: "\<And>x. length (H x) = 32"
    and new: "NewSCRAM (Some n) pw = Inr s0" "length n = 18" and first: "ClientFirst s0 = (s1, cf)"
    and server: "44 \<notin> set sn" "salt \<noteq> []" "0 < iter" "iter < 2 ^ 63"
      "sf = asc ''r='' @ b64enc n @ sn @ asc '',s='' @ b64enc salt @ asc '',i='' @ dec_int iter"
    and msg: "authMsg = asc ''n=,r='' @ b64enc n @ [44] @ sf @ asc '',c=biws,r='' @ b64enc n @ sn"
      "salted = rfc_Hi H pw salt (nat (iter - 1))"
  shows "cf = asc ''n,,n=,r='' @ b64enc n \<and>
    (\<exists>s2 proof. ClientFinal H sf s1 = (s2, Inr (asc ''c=biws,r='' @ b64enc n @ sn @ asc '',p='' @ b64enc proof)) \<and>
      server_accepts H salted authMsg proof \<and>
      (\<forall>sig. Verify (asc ''v='' @ b64enc sig) s2 = None \<longleftrightarrow> sig = ServerSignature H salted authMsg))"
proof -
  have s1: "s1 = scram_started pw n" and cf: "cf = asc ''n,,n=,r='' @ b64enc n"
    using ClientFirst_started [OF new(1)] first by simp_all
  have sf: "sf = server_first n sn salt iter" and am: "authMsg = auth_message n sn sf"
    using server(5) msg(1) by (simp_all add: server_first_def auth_message_def)
  have "n \<noteq> []" using new(2) by auto
  from ClientFinal_rfc [OF H server(1) this server(2-4) sf msg(2)]
  show ?thesis using server_accepts_ClientProof [OF H] by (auto simp: s1 cf am Verify_signature)
qed

theorem scram_exchange_witness:
  "\<exists>s2 proof. ClientFinal (\<lambda>x. replicate 32 (of_nat (length x)))
       (asc ''r='' @ b64enc (replicate 18 7) @ [65] @ asc '',s='' @ b64enc [1, 2] @ asc '',i='' @ dec_int 2)
       \<lparr>s_password = [112], clientNon = b64enc (replicate 18 7), clientFirstBare = asc ''n=,r='' @ b64enc (replicate 18 7),
        serverFirst = [], serverSig = []\<rparr>
     = (s2, Inr (asc ''c=biws,r='' @ b64enc (replicate 18 7) @ [65] @ asc '',p='' @ b64enc proof))"
  using scram_exchange [of "\<lambda>x. replicate 32 (of_nat (length x))" "replicate 18 7" "[112]"
      "\<lparr>s_password = [112], clientNon = b64enc (replicate 18 7), clientFirstBare = [], serverFirst = [], serverSig = []\<rparr>"
      _ _ "[65]" "[1, 2]" 2]
  by (force simp: NewSCRAM_def ClientFirst_def Let_def)

text \<open>A signature check that can be skipped: before any server-first message has been seen the
  expected signature is the empty string, and an empty signature is accepted.  A server that
  answers the client's first message with \<open>v=\<close> at once is taken for verified.\<close>

theorem empty_signature_accepted:
  assumes "NewSCRAM n pw = Inr s0"
  shows "Verify (asc ''v='') (fst (ClientFirst s0)) = None"
  using assms
  by (auto simp: NewSCRAM_def ClientFirst_def Let_def Verify_def ascii_simps b64DecodeString_def split: option.splits)

theorem empty_signature_accepted_witness:
  "Verify (asc ''v='') (fst (ClientFirst \<lparr>s_password = [112], clientNon = b64enc [7], clientFirstBare = [],
     serverFirst = [], serverSig = []\<rparr>)) = None"
  by (rule empty_signature_accepted [of "Some [7]" "[112]"]) (simp add: NewSCRAM_def)

end
