(* ===== verification/Client.thy ===== *)
theory Client
  imports Auth Args PgErr Stmts Output
begin

text \<open>
  src/pgz/conn.go, observer.go, errors.go and ctx.go: the client, its telemetry, the startup
  exchange with authentication, \<open>Ping\<close> and cancel requests (the SELECT guard of conn.go is in Query).

  \<open>Client\<close> has the fields of the Go struct (the plan cache and its mutex are never used and left
  out) and the reader and writer of its connection.  What the environment decides is read from
  lists of answers: the durations a clock difference gives, and whether a cancel connection can
  be dialed.  A context is the list of its answers to "done by now?", in the order the code asks;
  its watcher (theory Ctx) only sends a cancel request and makes a read fail, and a read may fail anywhere
  here since the bytes the server delivers are arbitrary.  An observer is the list of the events
  it was given; \<open>None\<close> is the no-op observer.

  Every loop of the driver that reads messages is an instance of \<open>msg_loop\<close>: it ends because a
  message that was read is gone.
\<close>

section \<open>Errors\<close>

datatype cap = CapRows | CapBytes

datatype err =
    EWire wire_error
  | EPg pg_error
  | EPlan plan_error
  | ERow row_error
  | EArg arg_error
  | EDown out_error
  | EAuth auth_error
  | ResponseTooLargeError cap int int bool
  | EUnexpected byte
  | EMsg string
  | ECtx
  | EEOF
  | EPanic

section \<open>State\<close>

record QueryEvent =
  evSQL :: bytes
  evRows :: int
  evBytes :: int
  evDuration :: int
  evErr :: "err option"
  evSQLState :: bytes
  evRetries :: int

datatype obs_event = OnQueryStart bytes | OnQueryEnd QueryEvent | OnNotice pg_error | OnQuerySlow QueryEvent

record counters =
  cQueries :: int
  cErrors :: int
  cRows :: int
  cBytes :: int

record Client =
  cfg :: config
  rd :: reader
  wr :: writer
  params :: "bytes \<rightharpoonup> bytes"
  pid :: int
  skey :: int
  stmts :: stmtCache
  scram :: "SCRAM option"
  observer :: "obs_event list option"
  cnt :: counters
  lastRows :: int
  lastRetries :: int
  durations :: "int list"
  dials :: "bool list"
  cancels :: "bytes list"

definition ask :: "'a \<Rightarrow> 'a list \<Rightarrow> 'a" where
  "ask d xs = (case xs of [] \<Rightarrow> d | x # _ \<Rightarrow> x)"

section \<open>observer.go\<close>

definition SetObserver :: "obs_event list option \<Rightarrow> Client \<Rightarrow> Client" where
  "SetObserver ob c = c\<lparr>observer := ob\<rparr>"

definition observe :: "obs_event \<Rightarrow> Client \<Rightarrow> Client" where
  "observe ev c = c\<lparr>observer := map_option (\<lambda>l. l @ [ev]) (observer c)\<rparr>"

definition Stats :: "Client \<Rightarrow> counters" where
  "Stats c = cnt c"

definition u64_add :: "int \<Rightarrow> int \<Rightarrow> int" where
  "u64_add a b = (a + b) mod 2 ^ 64"

definition count_query :: "int \<Rightarrow> int \<Rightarrow> bool \<Rightarrow> counters \<Rightarrow> counters" where
  "count_query rows bytes failed k =
     k\<lparr>cQueries := u64_add (cQueries k) 1, cRows := u64_add (cRows k) rows, cBytes := u64_add (cBytes k) bytes,
       cErrors := (if failed then u64_add (cErrors k) 1 else cErrors k)\<rparr>"

definition recordEnd :: "bytes \<Rightarrow> int \<Rightarrow> int \<Rightarrow> int \<Rightarrow> err option \<Rightarrow> Client \<Rightarrow> Client" where
  "recordEnd sql rows bytes dur e c =
     (let c = c\<lparr>cnt := count_query rows bytes (e \<noteq> None) (cnt c)\<rparr>;
          state = (case e of Some (EPg pe) \<Rightarrow> Code pe | _ \<Rightarrow> []);
          ev = \<lparr>evSQL = sql, evRows = rows, evBytes = bytes, evDuration = dur, evErr = e, evSQLState = state,
                evRetries = lastRetries c\<rparr>;
          c = observe (OnQueryEnd ev) c;
          thr = SlowQueryThreshold (cfg c);
          c = (if 0 < thr \<and> thr \<le> dur then observe (OnQuerySlow ev) c else c)
      in c\<lparr>lastRetries := 0\<rparr>)"

text \<open>\<open>time.Since(start)\<close>.\<close>

definition since :: "Client \<Rightarrow> int \<times> Client" where
  "since c = (ask 0 (durations c), c\<lparr>durations := tl (durations c)\<rparr>)"

section \<open>Reading messages\<close>

text \<open>
  \<open>for \{ t, body, err := c.conn.ReadMessage(); ... \}\<close> with local variables \<open>l\<close>: \<open>h\<close> is one turn
  of the body, which goes on with new locals or returns; \<open>f\<close> is what it does on a read error.
  A turn that goes on has not read anything itself.
\<close>

function msg_loop ::
  "(byte \<Rightarrow> bytes \<Rightarrow> 'l \<Rightarrow> Client \<Rightarrow> Client \<times> ('l + 'r)) \<Rightarrow> (wire_error \<Rightarrow> 'l \<Rightarrow> Client \<Rightarrow> Client \<times> 'r) \<Rightarrow> 'l \<Rightarrow>
   Client \<Rightarrow> Client \<times> 'r"
where
  "msg_loop h f l c =
     (case ReadMessage (rd c) of
        (r, Inl e) \<Rightarrow> f e l (c\<lparr>rd := r\<rparr>)
      | (r, Inr (t, body)) \<Rightarrow>
          (case h t body l (c\<lparr>rd := r\<rparr>) of
             (c, Inr x) \<Rightarrow> (c, x)
           | (c, Inl l) \<Rightarrow> msg_loop h f l (c\<lparr>rd := r\<rparr>)))"
  by pat_completeness auto
termination
proof (relation "measure (\<lambda>(h, f, l, c). length (rx (rd c)))", goal_cases)
  case (2 h f l c a b y t body z c' l')
  then show ?case using ReadMessage_consumes [of "rd c" a "(t, body)"] by simp
qed simp

declare msg_loop.simps [simp del]

text \<open>
  Partial correctness of a loop: an invariant \<open>Q\<close> of the locals and the client that every turn
  and the read-error handler take to the result relation \<open>R\<close>.
\<close>

lemma msg_loop_rule:
  assumes "Q l c"
    and turn: "\<And>t body l c r. Q l c \<Longrightarrow> ReadMessage (rd c) = (r, Inr (t, body)) \<Longrightarrow>
      (case h t body l (c\<lparr>rd := r\<rparr>) of (c', Inl l') \<Rightarrow> Q l' (c'\<lparr>rd := r\<rparr>) | (c', Inr x) \<Rightarrow> R c' x)"
    and fail: "\<And>e l c r. Q l c \<Longrightarrow> ReadMessage (rd c) = (r, Inl e) \<Longrightarrow>
      (case f e l (c\<lparr>rd := r\<rparr>) of (c', x) \<Rightarrow> R c' x)"
  shows "case msg_loop h f l c of (c', x) \<Rightarrow> R c' x"
  using assms(1)
proof (induction "length (rx (rd c))" arbitrary: l c rule: less_induct)
  case less
  obtain r x where rm: "ReadMessage (rd c) = (r, x)" by (cases "ReadMessage (rd c)")
  show ?case
  proof (cases x)
    case (Inl e)
    then show ?thesis using fail [OF less.prems] rm by (simp add: msg_loop.simps [of h f l c])
  next
    case (Inr m)
    obtain t body where m: "m = (t, body)" by (cases m)
    have rm: "ReadMessage (rd c) = (r, Inr (t, body))" using rm Inr m by simp
    obtain c' y where h: "h t body l (c\<lparr>rd := r\<rparr>) = (c', y)" by (cases "h t body l (c\<lparr>rd := r\<rparr>)")
    note t = turn [OF less.prems rm]
    have eq: "msg_loop h f l c = (case y of Inr x \<Rightarrow> (c', x) | Inl l' \<Rightarrow> msg_loop h f l' (c'\<lparr>rd := r\<rparr>))"
      using rm h by (simp add: msg_loop.simps [of h f l c])
    show ?thesis
    proof (cases y)
      case (Inl l')
      have "length (rx (rd (c'\<lparr>rd := r\<rparr>))) < length (rx (rd c))" using ReadMessage_consumes [OF rm] by simp
      from less.hyps [OF this, of l'] show ?thesis using t h Inl eq by simp
    next
      case (Inr x)
      then show ?thesis using t h eq by simp
    qed
  qed
qed

text \<open>One turn on a message the server has sent.\<close>

lemma msg_loop_frame:
  assumes "rx (rd c) = frame t body @ rest" "frame_ok body"
  obtains cp where "msg_loop h f l c =
      (case h t body l (c\<lparr>rd := (rd c)\<lparr>rx := rest, readCap := cp\<rparr>\<rparr>) of
         (c', Inr x) \<Rightarrow> (c', x)
       | (c', Inl l') \<Rightarrow> msg_loop h f l' (c'\<lparr>rd := (rd c)\<lparr>rx := rest, readCap := cp\<rparr>\<rparr>))"
proof -
  obtain cp where "ReadMessage (rd c) = ((rd c)\<lparr>rx := rest, readCap := cp\<rparr>, Inr (t, body))"
    using ReadMessage_frame [OF assms(2,1)] by blast
  then have "msg_loop h f l c =
      (case h t body l (c\<lparr>rd := (rd c)\<lparr>rx := rest, readCap := cp\<rparr>\<rparr>) of
         (c', Inr x) \<Rightarrow> (c', x)
       | (c', Inl l') \<Rightarrow> msg_loop h f l' (c'\<lparr>rd := (rd c)\<lparr>rx := rest, readCap := cp\<rparr>\<rparr>))"
    by (subst msg_loop.simps) simp
  then show ?thesis by (rule that)
qed

text \<open>A turn on a message that leaves the client alone, and a turn that returns.\<close>

lemma loop_turn:
  assumes "rx (rd c) = frame t body @ rest" "frame_ok body"
  shows "\<exists>r. rx r = rest \<and> msg_loop h f l c =
      (case h t body l (c\<lparr>rd := r\<rparr>) of (c', Inr x) \<Rightarrow> (c', x) | (c', Inl l') \<Rightarrow> msg_loop h f l' (c'\<lparr>rd := r\<rparr>))"
proof -
  obtain cp where "msg_loop h f l c =
      (case h t body l (c\<lparr>rd := (rd c)\<lparr>rx := rest, readCap := cp\<rparr>\<rparr>) of
         (c', Inr x) \<Rightarrow> (c', x)
       | (c', Inl l') \<Rightarrow> msg_loop h f l' (c'\<lparr>rd := (rd c)\<lparr>rx := rest, readCap := cp\<rparr>\<rparr>))"
    by (rule msg_loop_frame [OF assms])
  then show ?thesis by (intro exI [of _ "(rd c)\<lparr>rx := rest, readCap := cp\<rparr>"]) simp
qed

lemma loop_step:
  assumes "rx (rd c) = frame t body @ rest" "frame_ok body"
    and "\<And>r. h t body l (c\<lparr>rd := r\<rparr>) = (c\<lparr>rd := r\<rparr>, Inl l')"
  shows "\<exists>r. rx r = rest \<and> msg_loop h f l c = msg_loop h f l' (c\<lparr>rd := r\<rparr>)"
proof -
  obtain cp where eq: "msg_loop h f l c =
      (case h t body l (c\<lparr>rd := (rd c)\<lparr>rx := rest, readCap := cp\<rparr>\<rparr>) of
         (c', Inr x) \<Rightarrow> (c', x)
       | (c', Inl l') \<Rightarrow> msg_loop h f l' (c'\<lparr>rd := (rd c)\<lparr>rx := rest, readCap := cp\<rparr>\<rparr>))"
    by (rule msg_loop_frame [OF assms(1,2)])
  show ?thesis
    using eq unfolding assms(3) by (intro exI [of _ "(rd c)\<lparr>rx := rest, readCap := cp\<rparr>"]) simp
qed

lemma loop_stop:
  assumes "rx (rd c) = frame t body @ rest" "frame_ok body"
    and "\<And>r. h t body l (c\<lparr>rd := r\<rparr>) = ((g c)\<lparr>rd := r\<rparr>, Inr x)"
  shows "\<exists>r. rx r = rest \<and> msg_loop h f l c = ((g c)\<lparr>rd := r\<rparr>, x)"
proof -
  obtain cp where eq: "msg_loop h f l c =
      (case h t body l (c\<lparr>rd := (rd c)\<lparr>rx := rest, readCap := cp\<rparr>\<rparr>) of
         (c', Inr x) \<Rightarrow> (c', x)
       | (c', Inl l') \<Rightarrow> msg_loop h f l' (c'\<lparr>rd := (rd c)\<lparr>rx := rest, readCap := cp\<rparr>\<rparr>))"
    by (rule msg_loop_frame [OF assms(1,2)])
  show ?thesis
    using eq unfolding assms(3) by (intro exI [of _ "(rd c)\<lparr>rx := rest, readCap := cp\<rparr>"]) simp
qed

lemma no_messages: "rx (rd c) = [] \<Longrightarrow> msg_loop h f l c = f NetRead l (c\<lparr>rd := rd c\<rparr>)"
  by (subst msg_loop.simps) (simp add: ReadMessage_def)

text \<open>\<open>splitParameter\<close>: cstring name, cstring value; an unterminated value is dropped.\<close>

definition splitParameter :: "bytes \<Rightarrow> bytes \<times> bytes" where
  "splitParameter b =
     (case indexZero b of
        None \<Rightarrow> ([], [])
      | Some i \<Rightarrow>
          let name = take i b; rest = drop (i + 1) b in
          (case indexZero rest of None \<Rightarrow> (name, []) | Some j \<Rightarrow> (name, take j rest)))"

text \<open>The two asynchronous messages every loop handles the same way.\<close>

definition on_parameter :: "bytes \<Rightarrow> Client \<Rightarrow> Client" where
  "on_parameter body c = (case splitParameter body of (k, v) \<Rightarrow> c\<lparr>params := (params c)(k \<mapsto> v)\<rparr>)"

definition on_notice :: "bytes \<Rightarrow> Client \<Rightarrow> Client" where
  "on_notice body c = observe (OnNotice (Parse body)) c"

definition ParameterStatus :: "bytes \<Rightarrow> Client \<Rightarrow> bytes" where
  "ParameterStatus nm c = (case params c nm of None \<Rightarrow> [] | Some v \<Rightarrow> v)"

text \<open>Sending: \<open>b.Send()\<close> and \<open>c.conn.Flush()\<close>.\<close>

definition flush_wire :: "Client \<Rightarrow> Client \<times> err option" where
  "flush_wire c = (case Flush (wr c) of (w, e) \<Rightarrow> (c\<lparr>wr := w\<rparr>, map_option EWire e))"

lemma flush_wire_all: "room (wr c) = None \<Longrightarrow> flush_wire c = (c\<lparr>wr := (wr c)\<lparr>tx := tx (wr c) @ writeBuf (wr c), writeBuf := []\<rparr>\<rparr>, None)"
  by (simp add: flush_wire_def Flush_all)

definition put_message :: "byte \<Rightarrow> (writer \<Rightarrow> writer) \<Rightarrow> Client \<Rightarrow> Client" where
  "put_message t body c = c\<lparr>wr := message t body (wr c)\<rparr>"

definition send_message :: "byte \<Rightarrow> (writer \<Rightarrow> writer) \<Rightarrow> Client \<Rightarrow> Client \<times> err option" where
  "send_message t body c = flush_wire (put_message t body c)"

section \<open>ctx.go\<close>

type_synonym ctx = "bool list"

definition ctx_done :: "ctx \<Rightarrow> bool" where
  "ctx_done = ask False"

definition attachContext :: "ctx \<Rightarrow> ctx \<times> err option" where
  "attachContext x = (tl x, if ctx_done x then Some ECtx else None)"

section \<open>Cancel requests\<close>

definition sslRequestCode :: int where "sslRequestCode = 80877103"
definition cancelRequestCode :: int where "cancelRequestCode = 80877102"

definition cancel_request :: "int \<Rightarrow> int \<Rightarrow> bytes" where
  "cancel_request p k = be_put 4 16 @ be_put 4 cancelRequestCode @ be_put 4 p @ be_put 4 k"

definition SendCancel :: "Client \<Rightarrow> Client \<times> err option" where
  "SendCancel c =
     (if pid c = 0 then (c, Some (EMsg ''pgz: no backend key data; cannot cancel''))
      else let ok = ask True (dials c); c = c\<lparr>dials := tl (dials c)\<rparr> in
        if ok then (c\<lparr>cancels := cancels c @ [cancel_request (pid c) (skey c)]\<rparr>, None)
        else (c, Some (EMsg ''dial'')))"

section \<open>Ping\<close>

definition ping_turn :: "byte \<Rightarrow> bytes \<Rightarrow> unit \<Rightarrow> Client \<Rightarrow> Client \<times> (unit + err option)" where
  "ping_turn t body l c =
     (if t = MsgEmptyQueryResponse \<or> t = MsgCommandComplete then (c, Inl ())
      else if t = MsgNoticeResponse then (on_notice body c, Inl ())
      else if t = MsgParameterStatus then (on_parameter body c, Inl ())
      else if t = MsgErrorResponse then (c, Inr (Some (EPg (Parse body))))
      else if t = MsgReadyForQuery then (c, Inr None)
      else (c, Inr (Some (EUnexpected t))))"

definition Ping :: "ctx \<Rightarrow> Client \<Rightarrow> Client \<times> err option" where
  "Ping x c =
     (case attachContext x of
        (_, Some e) \<Rightarrow> (c, Some e)
      | (_, None) \<Rightarrow>
          (case send_message MsgQuery (b_CString []) c of
             (c, Some e) \<Rightarrow> (c, Some e)
           | (c, None) \<Rightarrow> msg_loop ping_turn (\<lambda>e l c. (c, Some (EWire e))) () c))"


section \<open>Startup\<close>

text \<open>
  \<open>readErrorBody\<close> reads from the raw connection with \<^verbatim>\<open>net.Conn.Read\<close>, which may deliver less than
  it is asked for; \<open>got1\<close> and \<open>got2\<close> say how much each of the two calls delivers.  What was not delivered
  stays zero.
\<close>

definition raw_read :: "nat \<Rightarrow> nat \<Rightarrow> reader \<Rightarrow> reader \<times> bytes option" where
  "raw_read n gk r =
     (if 0 < n \<and> rx r = [] then (r, None)
      else let k = min (min n gk) (length (rx r)) in
        (r\<lparr>rx := drop k (rx r)\<rparr>, Some (take k (rx r) @ replicate (n - k) 0)))"

definition readErrorBody :: "nat \<Rightarrow> nat \<Rightarrow> reader \<Rightarrow> reader \<times> (err + bytes)" where
  "readErrorBody got1 got2 r =
     (case raw_read 4 got1 r of
        (r, None) \<Rightarrow> (r, Inl (EWire NetRead))
      | (r, Some hdr) \<Rightarrow>
          let len = be_get hdr in
          if len < 4 then (r, Inl (EMsg ''pgz: bogus error length''))
          else (case raw_read (nat len - 4) got2 r of
                  (r, None) \<Rightarrow> (r, Inl (EWire NetRead))
                | (r, Some body) \<Rightarrow> (r, Inr body)))"

text \<open>
  \<open>tls\<close> is the outcome of the TLS handshake: the bytes the encrypted connection will deliver, or
  \<open>None\<close> when it fails.  \<open>got1\<close>, \<open>got2\<close> as above.
\<close>

definition maybeNegotiateTLS :: "bytes option \<Rightarrow> nat \<Rightarrow> nat \<Rightarrow> Client \<Rightarrow> Client \<times> err option" where
  "maybeNegotiateTLS tls got1 got2 c =
     (case buildTLS (cfg c) of
        None \<Rightarrow> (c, None)
      | Some _ \<Rightarrow>
          (case BeginNoType (wr c) of (b, w) \<Rightarrow>
            let c = c\<lparr>wr := Finish b (b_Int32 sslRequestCode w)\<rparr> in
            (case flush_wire c of
               (c, Some e) \<Rightarrow> (c, Some e)
             | (c, None) \<Rightarrow>
                 (case ReadByte (rd c) of
                    (r, Inl e) \<Rightarrow> (c\<lparr>rd := r\<rparr>, Some (EWire e))
                  | (r, Inr resp) \<Rightarrow>
                      let c = c\<lparr>rd := r\<rparr> in
                      if resp = ch CHR ''S'' then
                        (case tls of
                           None \<Rightarrow> (c, Some (EMsg ''pgz: TLS handshake''))
                         | Some bs \<Rightarrow> (c\<lparr>rd := (rd c)\<lparr>rx := bs\<rparr>\<rparr>, None))
                      else if resp = ch CHR ''N'' then
                        (if cSSLMode (cfg c) \<in> {SSLRequire, SSLVerifyCA, SSLVerifyFull}
                         then (c, Some (EMsg ''pgz: server refused TLS but ssl mode is require/verify-*''))
                         else (c, None))
                      else if resp = ch CHR ''E'' then
                        (case readErrorBody got1 got2 (rd c) of
                           (r, Inl e) \<Rightarrow> (c\<lparr>rd := r\<rparr>, Some e)
                         | (r, Inr body) \<Rightarrow> (c\<lparr>rd := r\<rparr>, Some (EPg (Parse body))))
                      else (c, Some (EMsg ''pgz: unexpected SSLRequest reply byte''))))))"

text \<open>\<open>handleAuth\<close>; \<open>nonces\<close> is what the random source will deliver.\<close>

definition handleAuth ::
  "(bytes \<Rightarrow> bytes) \<Rightarrow> (bytes \<Rightarrow> bytes) \<Rightarrow> bytes \<Rightarrow> bytes option list \<Rightarrow> Client \<Rightarrow> Client \<times> bytes option list \<times> err option"
where
  "handleAuth md5 H body nonces c =
     (if length body < 4 then (c, nonces, Some (EMsg ''pgz: short Authentication msg''))
      else let code = int32_of (be_get (take 4 body)) in
        if code = AuthOK then (c, nonces, None)
        else if code = AuthCleartextPassword then
          (case send_message MsgPassword (b_CString (cPassword (cfg c))) c of (c, e) \<Rightarrow> (c, nonces, e))
        else if code = AuthMD5Password then
          (if length body < 8 then (c, nonces, Some (EMsg ''pgz: short MD5 salt''))
           else let hashed = MD5Password md5 (cUser (cfg c)) (cPassword (cfg c)) (slice 4 8 body) in
             (case send_message MsgPassword (b_CString hashed) c of (c, e) \<Rightarrow> (c, nonces, e)))
        else if code = AuthSASL then
          (case PickMechanism (drop 4 body) of
             Inl e \<Rightarrow> (c, nonces, Some (EAuth e))
           | Inr mech \<Rightarrow>
               (case NewSCRAM (ask None nonces) (cPassword (cfg c)) of
                  Inl e \<Rightarrow> (c, tl nonces, Some (EAuth e))
                | Inr s \<Rightarrow>
                    (case ClientFirst s of (s, first) \<Rightarrow>
                      (case send_message MsgPassword
                              (\<lambda>w. b_Bytes first (b_Int32 (int32_of (int (length first))) (b_CString mech w)))
                              (c\<lparr>scram := Some s\<rparr>) of
                         (c, e) \<Rightarrow> (c, tl nonces, e)))))
        else if code = AuthSASLContinue then
          (case scram c of
             None \<Rightarrow> (c, nonces, Some (EMsg ''pgz: SASLContinue without SASL init''))
           | Some s \<Rightarrow>
               (case ClientFinal H (drop 4 body) s of
                  (s, Inl e) \<Rightarrow> (c\<lparr>scram := Some s\<rparr>, nonces, Some (EAuth e))
                | (s, Inr final) \<Rightarrow>
                    (case send_message MsgPassword (b_Bytes final) (c\<lparr>scram := Some s\<rparr>) of
                       (c, e) \<Rightarrow> (c, nonces, e))))
        else if code = AuthSASLFinal then
          (case scram c of
             None \<Rightarrow> (c, nonces, Some (EMsg ''pgz: SASLFinal without SASL init''))
           | Some s \<Rightarrow> (c, nonces, map_option EAuth (Verify (drop 4 body) s)))
        else (c, nonces, Some (EMsg ''pgz: unsupported auth code'')))"

definition startup_turn ::
  "(bytes \<Rightarrow> bytes) \<Rightarrow> (bytes \<Rightarrow> bytes) \<Rightarrow> byte \<Rightarrow> bytes \<Rightarrow> bytes option list \<Rightarrow> Client \<Rightarrow>
   Client \<times> (bytes option list + err option)"
where
  "startup_turn md5 H t body nonces c =
     (if t = MsgAuthentication then
        (case handleAuth md5 H body nonces c of
           (c, _, Some e) \<Rightarrow> (c, Inr (Some e))
         | (c, nonces, None) \<Rightarrow> (c, Inl nonces))
      else if t = MsgParameterStatus then (on_parameter body c, Inl nonces)
      else if t = MsgBackendKeyData then
        (if 8 \<le> length body
         then (c\<lparr>pid := int32_of (be_get (slice 0 4 body)), skey := int32_of (be_get (slice 4 8 body))\<rparr>, Inl nonces)
         else (c, Inl nonces))
      else if t = MsgReadyForQuery then (c, Inr None)
      else if t = MsgErrorResponse then (c, Inr (Some (EPg (Parse body))))
      else if t = MsgNoticeResponse then (on_notice body c, Inl nonces)
      else if t = MsgNegotiateProtocol then (c, Inl nonces)
      else (c, Inr (Some (EUnexpected t))))"

definition kv_CString :: "bytes \<Rightarrow> bytes \<Rightarrow> writer \<Rightarrow> writer" where
  "kv_CString k v w = b_CString v (b_CString k w)"

definition startup_params :: "config \<Rightarrow> writer \<Rightarrow> writer" where
  "startup_params cf w =
     (let w = b_Int32 ProtocolVersion3 w;
          w = kv_CString (asc ''user'') (cUser cf) w;
          w = (if cDatabase cf \<noteq> [] then kv_CString (asc ''database'') (cDatabase cf) w else w);
          w = kv_CString (asc ''application_name'') (cApplicationName cf) w;
          w = kv_CString (asc ''client_encoding'') (asc ''UTF8'') w;
          w = fold (\<lambda>(k, v). kv_CString k v) (RuntimeParams cf) w
      in b_Byte 0 w)"

definition startup ::
  "(bytes \<Rightarrow> bytes) \<Rightarrow> (bytes \<Rightarrow> bytes) \<Rightarrow> bytes option list \<Rightarrow> Client \<Rightarrow> Client \<times> err option"
where
  "startup md5 H nonces c =
     (case BeginNoType (wr c) of (b, w) \<Rightarrow>
       (case flush_wire (c\<lparr>wr := Finish b (startup_params (cfg c) w)\<rparr>) of
          (c, Some e) \<Rightarrow> (c, Some e)
        | (c, None) \<Rightarrow> msg_loop (startup_turn md5 H) (\<lambda>e l c. (c, Some (EWire e))) nonces c))"

text \<open>
  \<open>Open\<close> on a connection that was dialed, delivers \<open>bs\<close> and takes \<open>r\<close> bytes; the first three lists
  are the oracles of the new client.
\<close>

definition Open ::
  "int list \<Rightarrow> bool list \<Rightarrow> nat list \<Rightarrow> (bytes \<Rightarrow> bytes) \<Rightarrow> (bytes \<Rightarrow> bytes) \<Rightarrow> bytes option list \<Rightarrow> bytes option \<Rightarrow> nat \<Rightarrow> nat \<Rightarrow>
   bytes \<Rightarrow> nat option \<Rightarrow> config \<Rightarrow> err + Client"
where
  "Open durs dls pks md5 H nonces tls got1 got2 bs r cf =
     (let cf = applyDefaults cf;
          c = (case NewSized bs r (WireReadBufferSize cf) of (reader, writer) \<Rightarrow>
                \<lparr>cfg = cf, rd = reader, wr = writer, params = Map.empty, pid = 0, skey = 0,
                 stmts = newStmtCache (StmtCacheSize cf) pks, scram = None, observer = None,
                 cnt = \<lparr>cQueries = 0, cErrors = 0, cRows = 0, cBytes = 0\<rparr>, lastRows = 0, lastRetries = 0,
                 durations = durs, dials = dls, cancels = []\<rparr>)
      in case maybeNegotiateTLS tls got1 got2 c of
           (c, Some e) \<Rightarrow> Inl e
         | (c, None) \<Rightarrow>
             (case startup md5 H nonces c of (c, Some e) \<Rightarrow> Inl e | (c, None) \<Rightarrow> Inr c))"

end
