(* ===== verification/Query.thy ===== *)
theory Query
  imports Client
begin

text \<open>
  src/pgz/query.go: running a SELECT and streaming its rows, and the guard \<open>rejectNonSelect\<close> of
  conn.go.  The four modes share one engine: \<open>prepareAndDescribe\<close>, \<open>bindExecute\<close> (extended
  protocol) or \<open>runSimple\<close>, \<open>runCached\<close> with its single retry of a statement the server forgot,
  and \<open>runQueryInner\<close> with its retries of serialization failures.

  The two row loops of the source, in \<open>bindExecute\<close> and \<open>consumeText\<close>, handle a DataRow and the
  final ReadyForQuery with the same lines; these are \<open>data_row\<close> and \<open>finish_rows\<close>.  A prepared
  statement is a pointer shared with the cache in Go, so a plan replaced during execution is
  written back (\<open>sc_update\<close>).  A nil plan that the code would dereference is \<open>EPanic\<close>.
\<close>

section \<open>rejectNonSelect\<close>

definition is_blank :: "byte \<Rightarrow> bool" where
  "is_blank c \<longleftrightarrow> c = 32 \<or> c = 9 \<or> c = 10 \<or> c = 13"

definition trimBlank :: "bytes \<Rightarrow> bytes" where
  "trimBlank s = dropWhile is_blank s"

definition HasPrefix :: "bytes \<Rightarrow> bytes \<Rightarrow> bool" where
  "HasPrefix s p \<longleftrightarrow> take (length p) s = p"

fun IndexByte :: "byte \<Rightarrow> bytes \<Rightarrow> nat option" where
  "IndexByte d [] = None"
| "IndexByte d (c # s) = (if c = d then Some 0 else map_option Suc (IndexByte d s))"

text \<open>\<open>strings.Index(s, "*/")\<close>.\<close>

fun IndexClose :: "bytes \<Rightarrow> nat option" where
  "IndexClose (c # d # s) = (if c = 42 \<and> d = 47 then Some 0 else map_option Suc (IndexClose (d # s)))"
| "IndexClose s = None"

lemma trimBlank_length: "length (trimBlank s) \<le> length s"
  by (simp add: trimBlank_def length_dropWhile_le)

function strip_line_comments :: "bytes \<Rightarrow> bytes" where
  "strip_line_comments s =
     (if HasPrefix s (asc ''--'')
      then (case IndexByte 10 s of
              Some idx \<Rightarrow> strip_line_comments (trimBlank (drop (idx + 1) s))
            | None \<Rightarrow> [])
      else s)"
  by pat_completeness auto
termination
proof (relation "measure length", goal_cases)
  case (2 s i)
  then have "s \<noteq> []" by auto
  then have "length (drop (i + 1) s) < length s" by (cases s) auto
  then show ?case using trimBlank_length [of "drop (i + 1) s"] by simp
qed simp

function strip_block_comments :: "bytes \<Rightarrow> bytes" where
  "strip_block_comments s =
     (if HasPrefix s (asc ''/*'')
      then (case IndexClose s of
              Some e \<Rightarrow> strip_block_comments (trimBlank (drop (e + 2) s))
            | None \<Rightarrow> [])
      else s)"
  by pat_completeness auto
termination
proof (relation "measure length", goal_cases)
  case (2 s i)
  then have "s \<noteq> []" by auto
  then have "length (drop (i + 2) s) < length s" by (cases s) auto
  then show ?case using trimBlank_length [of "drop (i + 2) s"] by simp
qed simp

declare strip_line_comments.simps [simp del] strip_block_comments.simps [simp del]

text \<open>
  \<open>strings.ToUpper\<close>, as far as a comparison with an ASCII prefix can see it: two characters
  outside ASCII have an ASCII upper case, U+017F and U+0131.
\<close>

fun ToUpper :: "bytes \<Rightarrow> bytes" where
  "ToUpper (c # d # s) =
     (if c = 0xC5 \<and> d = 0xBF then 83 # ToUpper s
      else if c = 0xC4 \<and> d = 0xB1 then 73 # ToUpper s
      else (if 97 \<le> c \<and> c \<le> 122 then c - 32 else c) # ToUpper (d # s))"
| "ToUpper [c] = [if 97 \<le> c \<and> c \<le> 122 then c - 32 else c]"
| "ToUpper [] = []"

definition select_keywords :: "bytes list" where
  "select_keywords = [asc ''SELECT'', asc ''WITH'', asc ''VALUES'', asc ''TABLE'', asc ''SHOW'']"

definition rejectNonSelect :: "bytes \<Rightarrow> err option" where
  "rejectNonSelect sql =
     (let upper = ToUpper (strip_block_comments (strip_line_comments (trimBlank sql))) in
      if list_ex (HasPrefix upper) select_keywords then None
      else Some (EMsg ''pgz: only SELECT-shaped queries are accepted''))"

section \<open>Caps\<close>

definition checkCaps :: "outWriter \<Rightarrow> nat \<Rightarrow> Client \<Rightarrow> err option" where
  "checkCaps out rowCount c =
     (let mr = MaxResponseRows (cfg c); mb = MaxResponseBytes (cfg c) in
      if 0 < mr \<and> mr \<le> int rowCount then Some (ResponseTooLargeError CapRows mr (int rowCount) (Committed out))
      else if 0 < mb \<and> mb \<le> int (BytesOut out)
      then Some (ResponseTooLargeError CapBytes mb (int (BytesOut out)) (Committed out))
      else None)"

definition abort_turn :: "err \<Rightarrow> byte \<Rightarrow> bytes \<Rightarrow> unit \<Rightarrow> Client \<Rightarrow> Client \<times> (unit + err)" where
  "abort_turn capErr t body l c =
     (if t = MsgReadyForQuery then (c, Inr capErr)
      else if t = MsgParameterStatus then (on_parameter body c, Inl ())
      else if t = MsgNoticeResponse then (on_notice body c, Inl ())
      else (c, Inl ()))"

definition abortOversize :: "err \<Rightarrow> Client \<Rightarrow> Client \<times> err" where
  "abortOversize capErr c = msg_loop (abort_turn capErr) (\<lambda>e l c. (c, capErr)) () (fst (SendCancel c))"

section \<open>Writing a result\<close>

datatype Mode = ModeArray | ModeNDJSON | ModeColumnar | ModeTOON

definition down :: "outWriter \<times> out_error option \<Rightarrow> outWriter \<times> err option" where
  "down = map_prod id (map_option EDown)"

definition writeHeader :: "outWriter \<Rightarrow> Mode \<Rightarrow> Plan option \<Rightarrow> outWriter \<times> err option" where
  "writeHeader out mode p =
     (case mode of
        ModeArray \<Rightarrow> down (WriteByte (ch CHR ''['') out)
      | ModeNDJSON \<Rightarrow> (out, None)
      | ModeColumnar \<Rightarrow> (case p of None \<Rightarrow> (out, Some EPanic) | Some p \<Rightarrow> down (Write (ColumnsArrayHeader p) out))
      | ModeTOON \<Rightarrow> (case p of None \<Rightarrow> (out, Some EPanic) | Some p \<Rightarrow> down (Write (TOONHeader p) out)))"

text \<open>The bytes \<open>writeRow\<close> appends to its scratch buffer, with the error of the row writer.\<close>

definition append_row :: "Mode \<Rightarrow> nat \<Rightarrow> bytes \<Rightarrow> bytes \<Rightarrow> Plan \<Rightarrow> bytes \<times> row_error option" where
  "append_row mode idx scratch body p =
     (case mode of
        ModeArray \<Rightarrow> AppendObject (if 0 < idx then scratch @ [ch CHR '','']  else scratch) body p
      | ModeNDJSON \<Rightarrow> (case AppendObject scratch body p of (s, None) \<Rightarrow> (s @ [10], None) | (s, Some e) \<Rightarrow> (s, Some e))
      | ModeColumnar \<Rightarrow> AppendArray (if 0 < idx then scratch @ [ch CHR '',''] else scratch) body p
      | ModeTOON \<Rightarrow> AppendTOONRow scratch body p)"

definition writeRow :: "outWriter \<Rightarrow> Mode \<Rightarrow> Plan option \<Rightarrow> bytes \<Rightarrow> nat \<Rightarrow> outWriter \<times> err option" where
  "writeRow out mode p body idx =
     (case p of
        None \<Rightarrow> (out, Some EPanic)
      | Some p \<Rightarrow>
          (case append_row mode idx (Buf out) body p of
             (scratch, Some e) \<Rightarrow> (out, Some (ERow e))
           | (scratch, None) \<Rightarrow>
               let startLen = length (Buf out);
                   out = SetBuf scratch out;
                   out = (if idx = 0 then GrowForRow (int (length scratch) - int startLen) out else out)
               in down (MaybeFlush out)))"

definition writeFooter :: "outWriter \<Rightarrow> Mode \<Rightarrow> outWriter \<times> err option" where
  "writeFooter out mode =
     (case mode of
        ModeArray \<Rightarrow> down (WriteByte (ch CHR '']'') out)
      | ModeColumnar \<Rightarrow> down (Write (asc '']}'') out)
      | _ \<Rightarrow> (out, None))"

section \<open>The row loops\<close>

record qlocals =
  q_out :: outWriter
  q_plan :: "Plan option"
  q_rows :: nat
  q_hdr :: bool
  q_bound :: bool
  q_err :: "pg_error option"

type_synonym qresult = "outWriter \<times> Plan option \<times> err option"

definition stop :: "outWriter \<Rightarrow> qlocals \<Rightarrow> err option \<Rightarrow> Client \<Rightarrow> Client \<times> (qlocals + qresult)" where
  "stop out l e c = (c, Inr (out, q_plan l, e))"

text \<open>\<open>case MsgDataRow\<close>, and the header that is written before the first row.\<close>

definition data_row :: "Mode \<Rightarrow> bytes \<Rightarrow> qlocals \<Rightarrow> Client \<Rightarrow> Client \<times> (qlocals + qresult)" where
  "data_row mode body l c =
     (case (if q_hdr l then (q_out l, None) else writeHeader (q_out l) mode (q_plan l)) of
        (out, Some e) \<Rightarrow> stop out l (Some e) c
      | (out, None) \<Rightarrow>
          (case writeRow out mode (q_plan l) body (q_rows l) of
             (out, Some e) \<Rightarrow> stop out l (Some e) c
           | (out, None) \<Rightarrow>
               let n = q_rows l + 1 in
               (case checkCaps out n c of
                  Some capErr \<Rightarrow> (case abortOversize capErr (c\<lparr>lastRows := int n\<rparr>) of (c, e) \<Rightarrow> stop out l (Some e) c)
                | None \<Rightarrow> (c, Inl (l\<lparr>q_out := out, q_hdr := True, q_rows := n\<rparr>)))))"

text \<open>\<open>case MsgReadyForQuery\<close>; \<open>p\<close> is the plan for the header of an empty result.\<close>

definition finish_rows :: "Mode \<Rightarrow> Plan option \<Rightarrow> qlocals \<Rightarrow> Client \<Rightarrow> Client \<times> (qlocals + qresult)" where
  "finish_rows mode p l c0 =
     (let c = c0\<lparr>lastRows := int (q_rows l)\<rparr> in
      case q_err l of
        Some pe \<Rightarrow> stop (q_out l) l (Some (EPg pe)) c
      | None \<Rightarrow>
          (case (if q_hdr l then (q_out l, None) else writeHeader (q_out l) mode p) of
             (out, Some e) \<Rightarrow> stop out l (Some e) c
           | (out, None) \<Rightarrow>
               (case writeFooter out mode of
                  (out, Some e) \<Rightarrow> stop out l (Some e) c
                | (out, None) \<Rightarrow> (case down (FlushOut out) of (out, e) \<Rightarrow> stop out l e c))))"

section \<open>Sending\<close>

text \<open>
  \<open>Begin(MsgBind)\<close>, the portal, the statement and the parameters; on an error the message stays
  half built in the write buffer, as in the code.
\<close>

definition begin_bind :: "preparedStmt \<Rightarrow> goval list \<Rightarrow> Client \<Rightarrow> Client \<times> builder \<times> err option" where
  "begin_bind st vals c =
     (case Begin MsgBind (wr c) of (bd, w) \<Rightarrow>
       (case writeBindParams (paramOIDs st) vals (b_CString (name st) (b_CString [] w)) of
          (w, e) \<Rightarrow> (c\<lparr>wr := w\<rparr>, bd, map_option EArg e)))"

definition allBinary :: "int list \<Rightarrow> bool" where
  "allBinary fmts \<longleftrightarrow> fmts \<noteq> [] \<and> (\<forall>f \<in> set fmts. f = 1)"

definition write_result_formats :: "int list \<Rightarrow> writer \<Rightarrow> writer" where
  "write_result_formats fmts w =
     (if allBinary fmts then b_Int16 1 (b_Int16 1 w)
      else fold b_Int16 fmts (b_Int16 (int16_of (int (length fmts))) w))"

definition put_execute :: "Client \<Rightarrow> Client" where
  "put_execute c = put_message MsgExecute (\<lambda>w. b_Int32 0 (b_CString [] w)) c"

definition put_sync :: "Client \<Rightarrow> Client" where
  "put_sync c = put_message MsgSync (\<lambda>w. w) c"

text \<open>The Close messages of evicted statements, then Parse, Describe and Sync.\<close>

definition put_close :: "bytes \<Rightarrow> Client \<Rightarrow> Client" where
  "put_close dead c = put_message MsgClose (\<lambda>w. b_CString dead (b_Byte (ch CHR ''S'') w)) c"

definition put_parse_describe :: "bytes \<Rightarrow> bytes \<Rightarrow> Client \<Rightarrow> Client" where
  "put_parse_describe nm sql c =
     put_message MsgDescribe (\<lambda>w. b_CString nm (b_Byte (ch CHR ''S'') w))
       (put_message MsgParse (\<lambda>w. b_Int16 0 (b_CString sql (b_CString nm w))) c)"

definition send_prepare :: "bytes \<Rightarrow> Client \<Rightarrow> bytes \<times> Client \<times> err option" where
  "send_prepare sql c =
     (case nextName (stmts c) of (nm, sc) \<Rightarrow>
       (case takePendingClose sc of (dead, sc) \<Rightarrow>
         (nm, flush_wire (put_sync (put_parse_describe nm sql (fold put_close dead (c\<lparr>stmts := sc\<rparr>)))))))"

section \<open>Prepare\<close>

record plocals =
  p_plan :: "Plan option"
  p_err :: "pg_error option"
  p_oids :: "OID list"
  p_nodata :: bool

text \<open>The formats of the result columns, and the upgrade of the columns in \<open>BinaryOIDs\<close>.\<close>

definition result_formats :: "config \<Rightarrow> Column list \<Rightarrow> int list" where
  "result_formats cf cols =
     map (\<lambda>(col, f). if TypeOID col \<in> set (BinaryOIDs cf) then 1 else f)
       (zip cols (PickResultFormatsEx cols (BinaryNumeric cf)))"

definition compile_stmt :: "bytes \<Rightarrow> Plan \<Rightarrow> OID list \<Rightarrow> config \<Rightarrow> preparedStmt" where
  "compile_stmt nm p oids cf =
     (let fmts = result_formats cf (Columns p) in
      \<lparr>name = nm, plan = Some (ApplyFormatsEx p fmts (BinaryNumeric cf)), resultFmts = fmts, paramOIDs = oids\<rparr>)"

definition describe_turn :: "bytes \<Rightarrow> byte \<Rightarrow> bytes \<Rightarrow> plocals \<Rightarrow> Client \<Rightarrow> Client \<times> (plocals + (err + preparedStmt))" where
  "describe_turn nm t body l c =
     (if t = MsgParseComplete \<or> t = MsgCloseComplete \<or> t = MsgNoData then (c, Inl l)
      else if t = MsgParameterDescription then (c, Inl (l\<lparr>p_oids := parseParamOIDs body\<rparr>))
      else if t = MsgRowDescription then
        (case ParseRowDescription body of Inl e \<Rightarrow> (c, Inr (Inl (EPlan e))) | Inr p \<Rightarrow> (c, Inl (l\<lparr>p_plan := Some p\<rparr>)))
      else if t = MsgErrorResponse then (c, Inl (l\<lparr>p_err := Some (Parse body)\<rparr>))
      else if t = MsgNoticeResponse then (on_notice body c, Inl l)
      else if t = MsgParameterStatus then (on_parameter body c, Inl l)
      else if t = MsgReadyForQuery then
        (case p_err l of
           Some pe \<Rightarrow> (c, Inr (Inl (EPg pe)))
         | None \<Rightarrow>
             (case p_plan l of
                None \<Rightarrow> (c, Inr (Inl (EMsg ''pgz: prepare returned no row description'')))
              | Some p \<Rightarrow> (c, Inr (Inr (compile_stmt nm p (p_oids l) (cfg c))))))
      else (c, Inr (Inl (EUnexpected t))))"

definition no_plocals :: plocals where
  "no_plocals = \<lparr>p_plan = None, p_err = None, p_oids = [], p_nodata = False\<rparr>"

definition prepareAndDescribe :: "bytes \<Rightarrow> Client \<Rightarrow> Client \<times> (err + preparedStmt)" where
  "prepareAndDescribe sql c =
     (case send_prepare sql c of
        (nm, c, Some e) \<Rightarrow> (c, Inl e)
      | (nm, c, None) \<Rightarrow> msg_loop (describe_turn nm) (\<lambda>e l c. (c, Inl (EWire e))) no_plocals c)"

section \<open>Execute\<close>

definition execute_turn :: "Mode \<Rightarrow> int list \<Rightarrow> byte \<Rightarrow> bytes \<Rightarrow> qlocals \<Rightarrow> Client \<Rightarrow> Client \<times> (qlocals + qresult)" where
  "execute_turn mode fmts t body l c =
     (if t = MsgBindComplete then (c, Inl (l\<lparr>q_bound := True\<rparr>))
      else if t = MsgDataRow then data_row mode body l c
      else if t = MsgCommandComplete \<or> t = MsgEmptyQueryResponse \<or> t = MsgPortalSuspended \<or> t = MsgCloseComplete
      then (c, Inl l)
      else if t = MsgRowDescription then
        (case ParseRowDescriptionForFormats body fmts of
           Inl e \<Rightarrow> stop (q_out l) l (Some (EPlan e)) c
         | Inr p \<Rightarrow> (c, Inl (l\<lparr>q_plan := Some p\<rparr>)))
      else if t = MsgNoticeResponse then (on_notice body c, Inl l)
      else if t = MsgParameterStatus then (on_parameter body c, Inl l)
      else if t = MsgErrorResponse then (c, Inl (l\<lparr>q_err := Some (Parse body)\<rparr>))
      else if t = MsgReadyForQuery then finish_rows mode (q_plan l) l c
      else stop (q_out l) l (Some (EUnexpected t)) c)"

definition read_failed :: "wire_error \<Rightarrow> qlocals \<Rightarrow> Client \<Rightarrow> Client \<times> qresult" where
  "read_failed e l c = (c, (q_out l, q_plan l, Some (EWire e)))"

definition init_q :: "outWriter \<Rightarrow> Plan option \<Rightarrow> qlocals" where
  "init_q out p = \<lparr>q_out = out, q_plan = p, q_rows = 0, q_hdr = False, q_bound = False, q_err = None\<rparr>"

definition bindExecute :: "outWriter \<Rightarrow> Mode \<Rightarrow> preparedStmt \<Rightarrow> goval list \<Rightarrow> Client \<Rightarrow> Client \<times> qresult" where
  "bindExecute out mode st vals c =
     (case begin_bind st vals c of
        (c, bd, Some e) \<Rightarrow> (c, (out, plan st, Some e))
      | (c, bd, None) \<Rightarrow>
          let c = c\<lparr>wr := Finish bd (write_result_formats (resultFmts st) (wr c))\<rparr> in
          (case flush_wire (put_sync (put_execute c)) of
             (c, Some e) \<Rightarrow> (c, (out, plan st, Some e))
           | (c, None) \<Rightarrow> msg_loop (execute_turn mode (resultFmts st)) read_failed (init_q out (plan st)) c))"

section \<open>The simple protocol\<close>

text \<open>The plan a result without RowDescription gets.\<close>

definition empty_plan :: Plan where
  "empty_plan = \<lparr>Columns = [], ColumnsArrayHeader = asc ''{\"columns\":[],\"rows\":['', TOONHeader = []\<rparr>"

definition text_turn :: "Mode \<Rightarrow> byte \<Rightarrow> bytes \<Rightarrow> qlocals \<Rightarrow> Client \<Rightarrow> Client \<times> (qlocals + qresult)" where
  "text_turn mode t body l c =
     (if t = MsgRowDescription then
        (case ParseRowDescription body of
           Inl e \<Rightarrow> stop (q_out l) l (Some (EPlan e)) c
         | Inr p \<Rightarrow> (c, Inl (l\<lparr>q_plan := Some p\<rparr>)))
      else if t = MsgDataRow then
        (if q_plan l = None then stop (q_out l) l (Some (EMsg ''pgz: DataRow before RowDescription'')) c
         else data_row mode body l c)
      else if t = MsgCommandComplete \<or> t = MsgEmptyQueryResponse then (c, Inl l)
      else if t = MsgNoticeResponse then (on_notice body c, Inl l)
      else if t = MsgParameterStatus then (on_parameter body c, Inl l)
      else if t = MsgErrorResponse then (c, Inl (l\<lparr>q_err := Some (Parse body)\<rparr>))
      else if t = MsgReadyForQuery then
        finish_rows mode (case q_plan l of None \<Rightarrow> Some empty_plan | Some p \<Rightarrow> Some p) l c
      else stop (q_out l) l (Some (EUnexpected t)) c)"

definition consumeText :: "outWriter \<Rightarrow> Mode \<Rightarrow> Client \<Rightarrow> Client \<times> qresult" where
  "consumeText out mode c = msg_loop (text_turn mode) read_failed (init_q out None) c"

definition runSimple :: "outWriter \<Rightarrow> Mode \<Rightarrow> bytes \<Rightarrow> Client \<Rightarrow> Client \<times> outWriter \<times> err option" where
  "runSimple out mode sql c =
     (case send_message MsgQuery (b_CString sql) c of
        (c, Some e) \<Rightarrow> (c, out, Some e)
      | (c, None) \<Rightarrow> (case consumeText out mode c of (c, out, p, e) \<Rightarrow> (c, out, e)))"

section \<open>Retries\<close>

definition has_code :: "bytes list \<Rightarrow> err \<Rightarrow> bool" where
  "has_code codes e = (case e of EPg pe \<Rightarrow> Code pe \<in> set codes | _ \<Rightarrow> False)"

definition isStaleStmtError :: "err \<Rightarrow> bool" where
  "isStaleStmtError = has_code [asc ''26000'']"

definition isRetryableSerialization :: "err \<Rightarrow> bool" where
  "isRetryableSerialization = has_code [asc ''40001'', asc ''40P01'']"

text \<open>\<open>st.plan = newPlan\<close> through the pointer the cache holds.\<close>

definition sc_update :: "bytes \<Rightarrow> preparedStmt \<Rightarrow> stmtCache \<Rightarrow> stmtCache" where
  "sc_update sql st sc = sc\<lparr>byKey := map (\<lambda>(k, v). if k = sql then (k, st) else (k, v)) (byKey sc)\<rparr>"

text \<open>The statement of \<open>sql\<close>, from the cache or freshly prepared and put there.\<close>

definition obtain_stmt ::
  "(bytes \<Rightarrow> Client \<Rightarrow> Client \<times> (err + preparedStmt)) \<Rightarrow> bytes \<Rightarrow> Client \<Rightarrow> Client \<times> (err + bool \<times> preparedStmt)"
where
  "obtain_stmt prepare sql c =
     (case sc_get sql (stmts c) of
        Some st \<Rightarrow> (c, Inr (True, st))
      | None \<Rightarrow>
          (case prepare sql c of
             (c, Inl e) \<Rightarrow> (c\<lparr>stmts := sc_invalidate sql (stmts c)\<rparr>, Inl e)
           | (c, Inr st) \<Rightarrow> (c\<lparr>stmts := sc_put sql st (stmts c)\<rparr>, Inr (False, st))))"

text \<open>\<open>for attempt := 0; attempt < 2; attempt++\<close>; \<open>n\<close> attempts are left, the first has \<open>n = 1\<close> after it.\<close>

fun cached_loop :: "nat \<Rightarrow> outWriter \<Rightarrow> Mode \<Rightarrow> bytes \<Rightarrow> goval list \<Rightarrow> Client \<Rightarrow> Client \<times> outWriter \<times> err option" where
  "cached_loop 0 out mode sql vals c = (c, out, None)"
| "cached_loop (Suc n) out mode sql vals c =
     (case obtain_stmt prepareAndDescribe sql c of
        (c, Inl e) \<Rightarrow> (c, out, Some e)
      | (c, Inr (fromCache, st)) \<Rightarrow>
          (case bindExecute out mode st vals c of
             (c, out, p, e) \<Rightarrow>
               let c = c\<lparr>stmts := sc_update sql (st\<lparr>plan := p\<rparr>) (stmts c)\<rparr> in
               (case e of
                  None \<Rightarrow> (c, out, None)
                | Some e \<Rightarrow>
                    if n = 1 \<and> fromCache \<and> isStaleStmtError e \<and> \<not> Committed out
                    then cached_loop n (Reset out) mode sql vals (c\<lparr>stmts := sc_invalidate sql (stmts c)\<rparr>)
                    else (c, out, Some e))))"

definition runCached :: "outWriter \<Rightarrow> Mode \<Rightarrow> bytes \<Rightarrow> goval list \<Rightarrow> Client \<Rightarrow> Client \<times> outWriter \<times> err option" where
  "runCached = cached_loop 2"

definition run_once :: "outWriter \<Rightarrow> Mode \<Rightarrow> bytes \<Rightarrow> goval list \<Rightarrow> Client \<Rightarrow> Client \<times> outWriter \<times> err option" where
  "run_once out mode sql vals c =
     (if StmtCacheSize (cfg c) < 0 \<and> vals = [] then runSimple out mode sql c
      else runCached out mode sql vals c)"

text \<open>\<open>for attempt := 0; ; attempt++\<close> of \<open>runQueryInner\<close>; waiting for the backoff changes nothing.\<close>

abbreviation (input) maxRetries :: nat where "maxRetries \<equiv> 3"

function query_loop ::
  "nat \<Rightarrow> ctx \<Rightarrow> outWriter \<Rightarrow> Mode \<Rightarrow> bytes \<Rightarrow> goval list \<Rightarrow> Client \<Rightarrow> Client \<times> outWriter \<times> err option"
where
  "query_loop attempt x out mode sql vals c =
     (case run_once out mode sql vals c of
        (c, out, None) \<Rightarrow> (c, out, None)
      | (c, out, Some e) \<Rightarrow>
          if \<not> RetryOnSerialization (cfg c) then (c, out, Some e)
          else if maxRetries \<le> attempt + 1 \<or> \<not> isRetryableSerialization e \<or> Committed out then (c, out, Some e)
          else if ctx_done x then (c, out, Some e)
          else
            let out = Reset out; c = c\<lparr>lastRetries := lastRetries c + 1\<rparr> in
            if ctx_done (tl x) then (c, out, Some e)
            else query_loop (attempt + 1) (tl (tl x)) out mode sql vals c)"
  by pat_completeness auto
termination
  by (relation "measure (\<lambda>(attempt, _). maxRetries - attempt)") auto

declare query_loop.simps [simp del]

definition runQueryInner ::
  "ctx \<Rightarrow> outWriter \<Rightarrow> Mode \<Rightarrow> bytes \<Rightarrow> goval list \<Rightarrow> Client \<Rightarrow> Client \<times> outWriter \<times> err option"
where
  "runQueryInner x out mode sql vals c =
     (let c = observe (OnQueryStart sql) c in
      case (case attachContext x of
              (x, Some e) \<Rightarrow> (c, out, Some e)
            | (x, None) \<Rightarrow> query_loop 0 x out mode sql vals c) of
        (c, out, e) \<Rightarrow>
          (case since c of (dur, c) \<Rightarrow> (recordEnd sql (lastRows c) (int (BytesOut out)) dur e c, out, e)))"

definition runQuery ::
  "ctx \<Rightarrow> outWriter \<Rightarrow> Mode \<Rightarrow> bytes \<Rightarrow> goval list \<Rightarrow> Client \<Rightarrow> Client \<times> outWriter \<times> err option"
where
  "runQuery x out mode sql vals c =
     (case rejectNonSelect sql of
        Some e \<Rightarrow> (c, out, Some e)
      | None \<Rightarrow> runQueryInner x out mode sql vals c)"

section \<open>The entry points\<close>

definition QueryJSON :: "ctx \<Rightarrow> bytes \<Rightarrow> goval list \<Rightarrow> Client \<Rightarrow> Client \<times> (err + bytes)" where
  "QueryJSON x sql vals c =
     (case runQuery x (BufW \<lparr>bw_p = [], bw_rowsHint = RowsHint (cfg c), bw_grew = False\<rparr>) ModeArray sql vals c of
        (c, out, Some e) \<Rightarrow> (c, Inl e)
      | (c, out, None) \<Rightarrow> (c, Inr (Buf out)))"

text \<open>\<open>ticks\<close> are the answers of the flush clock.\<close>

definition newFlushWriter :: "config \<Rightarrow> bool list \<Rightarrow> sink \<Rightarrow> outWriter" where
  "newFlushWriter cf ticks w =
     FlushW \<lparr>fw_w = w, threshold = FlushBytes cf, interval = (0 < FlushInterval cf), elapsed = ticks, fw_buf = [],
             src = True, committed = False, written = 0, fw_rowsHint = RowsHint cf, fw_grew = False\<rparr>"

definition stream :: "Mode \<Rightarrow> ctx \<Rightarrow> bool list \<Rightarrow> sink \<Rightarrow> bytes \<Rightarrow> goval list \<Rightarrow> Client \<Rightarrow> Client \<times> outWriter \<times> err option" where
  "stream mode x ticks w sql vals c = runQuery x (newFlushWriter (cfg c) ticks w) mode sql vals c"

definition StreamJSON where "StreamJSON = stream ModeArray"
definition StreamNDJSON where "StreamNDJSON = stream ModeNDJSON"
definition StreamColumnar where "StreamColumnar = stream ModeColumnar"
definition StreamTOON where "StreamTOON = stream ModeTOON"

end
