(* ===== verification/QueryOutput.thy ===== *)
theory QueryOutput
  imports Query RowsCorrect
begin

text \<open>
  What a query writes.  For any bytes from the server, any retries and any downstream writer, the
  output is a prefix of one document, and on success the whole of it: a header, the rows in the
  order they arrived, a footer.  The proof follows the code: an invariant of the row loops over
  the whole output so far (\<open>ow.total\<close>), lifted through \<open>runCached\<close> and \<open>runQueryInner\<close>, where a
  retry starts from an output that is empty again.
\<close>

section \<open>Documents\<close>

text \<open>The plans the driver compiles, with the cells they accept; the plan of an empty result.\<close>

definition plan_accepts :: "Plan \<Rightarrow> (Column \<Rightarrow> bytes \<Rightarrow> bool) \<Rightarrow> bool" where
  "plan_accepts p ok \<longleftrightarrow>
     (\<exists>desc. ParseRowDescription desc = Inr p \<and> ok = (\<lambda>c. server_text (TypeOID c))) \<or>
     (\<exists>desc p0 fs bn. ParseRowDescription desc = Inr p0 \<and> p = ApplyFormatsEx p0 fs bn \<and> ok = column_cell bn)"

definition compiled :: "Plan \<Rightarrow> bool" where
  "compiled p \<longleftrightarrow> (\<exists>ok. plan_accepts p ok)"

definition row_ok :: "Plan \<Rightarrow> bytes \<Rightarrow> bool" where
  "row_ok p body \<longleftrightarrow> compiled p \<and>
     (\<exists>vals rest. body = datarow_send vals @ rest \<and> length vals = length (Columns p) \<and> cells_ok vals)"

definition row_text :: "Mode \<Rightarrow> Plan \<Rightarrow> bytes \<Rightarrow> bytes" where
  "row_text mode p body =
     (case mode of
        ModeArray \<Rightarrow> fst (AppendObject [] body p)
      | ModeNDJSON \<Rightarrow> fst (AppendObject [] body p) @ [10]
      | ModeColumnar \<Rightarrow> fst (AppendArray [] body p)
      | ModeTOON \<Rightarrow> fst (AppendTOONRow [] body p))"

definition rows_text :: "Mode \<Rightarrow> (Plan \<times> bytes) list \<Rightarrow> bytes" where
  "rows_text mode prs =
     (let ts = map (\<lambda>(p, b). row_text mode p b) prs in
      if mode = ModeArray \<or> mode = ModeColumnar then join 44 ts else concat ts)"

definition header_text :: "Mode \<Rightarrow> Plan \<Rightarrow> bytes" where
  "header_text mode p =
     (case mode of ModeArray \<Rightarrow> [91] | ModeNDJSON \<Rightarrow> [] | ModeColumnar \<Rightarrow> ColumnsArrayHeader p | ModeTOON \<Rightarrow> TOONHeader p)"

definition footer_text :: "Mode \<Rightarrow> bytes" where
  "footer_text mode = (case mode of ModeArray \<Rightarrow> [93] | ModeColumnar \<Rightarrow> asc '']}'' | _ \<Rightarrow> [])"

definition header_plan :: "Plan \<Rightarrow> bool" where
  "header_plan p \<longleftrightarrow> compiled p \<or> p = empty_plan"

text \<open>A document without its footer, and with it.\<close>

definition open_doc :: "Mode \<Rightarrow> (Plan \<times> bytes) list \<Rightarrow> bytes \<Rightarrow> bool" where
  "open_doc mode prs t \<longleftrightarrow>
     (\<exists>p0. header_plan p0 \<and> t = header_text mode p0 @ rows_text mode prs) \<and> (\<forall>(p, b) \<in> set prs. row_ok p b)"

definition whole_doc :: "Mode \<Rightarrow> (Plan \<times> bytes) list \<Rightarrow> bytes \<Rightarrow> bool" where
  "whole_doc mode prs t \<longleftrightarrow> (\<exists>u. open_doc mode prs u \<and> t = u @ footer_text mode)"

section \<open>Compiled plans\<close>

lemma compiled_wf:
  assumes "compiled p"
  shows "\<forall>c \<in> set (Columns p). column_wf c" "length (Columns p) < 2 ^ 15"
    "ColumnsArrayHeader p = buildColumnsHeader (Columns p)"
proof -
  obtain desc p0 where p0: "ParseRowDescription desc = Inr p0" "p = p0 \<or> (\<exists>fs bn. p = ApplyFormatsEx p0 fs bn)"
    using assms by (auto simp: compiled_def plan_accepts_def)
  note wf = ParseRowDescription_wf [OF p0(1)]
  have h: "ColumnsArrayHeader p0 = buildColumnsHeader (Columns p0)"
    using p0(1) by (auto simp: ParseRowDescription_def Let_def split: if_splits sum.splits)
  have nm: "map Name (Columns (ApplyFormatsEx p0 fs bn)) = map Name (Columns p0)" for fs bn
    by (auto simp: ApplyFormatsEx_def apply_format_def Let_def intro!: nth_equalityI split: option.splits)
  have hdr: "map Name cs = map Name ds \<Longrightarrow> buildColumnsHeader cs = buildColumnsHeader ds" for cs ds
  proof -
    assume "map Name cs = map Name ds"
    then have "map (\<lambda>n. 34 # escape_ref n @ [34]) (map Name cs) = map (\<lambda>n. 34 # escape_ref n @ [34]) (map Name ds)" by simp
    then show ?thesis by (simp add: buildColumnsHeader_def columns_names_eq comp_def)
  qed
  show "\<forall>c \<in> set (Columns p). column_wf c"
    using p0(2) wf ApplyFormatsEx_ok by blast
  show "length (Columns p) < 2 ^ 15" using p0(2) wf by (auto simp: ApplyFormatsEx_def)
  show "ColumnsArrayHeader p = buildColumnsHeader (Columns p)"
    using p0(2) h hdr [OF nm] by (auto simp: ApplyFormatsEx_def)
qed

lemma compiled_intros:
  "ParseRowDescription desc = Inr p \<Longrightarrow> compiled p"
  "ParseRowDescription desc = Inr p0 \<Longrightarrow> compiled (ApplyFormatsEx p0 fs bn)"
  "ParseRowDescriptionForFormats desc fs = Inr p \<Longrightarrow> compiled p"
  unfolding compiled_def plan_accepts_def ParseRowDescriptionForFormats_def ApplyFormats_def
  by (blast, blast, fastforce split: sum.splits)

lemmas writer_defs = AppendObject_def AppendArray_def AppendTOONRow_def

lemma append_row_eq:
  assumes "compiled p" "append_row mode (length prs) scratch body p = (s, e)"
  shows "e = None \<Longrightarrow> row_ok p body"
    and "e = None \<Longrightarrow> s = scratch @ (if prs \<noteq> [] \<and> (mode = ModeArray \<or> mode = ModeColumnar) then [44] else []) @ row_text mode p body"
proof -
  note wf = compiled_wf(1,2) [OF assms(1)]
  show "row_ok p body" if "e = None"
    using assms object_writer.accepts [OF wf] array_writer.accepts [OF wf] toon_writer.accepts [OF wf] that
    by (cases mode) (auto simp: append_row_def writer_defs row_ok_def split: prod.splits option.splits
        dest!: arg_cong [where f = snd])
  have fst: "fst (AppendObject t body p) = t @ fst (AppendObject [] body p)"
    "fst (AppendArray t body p) = t @ fst (AppendArray [] body p)"
    "fst (AppendTOONRow t body p) = t @ fst (AppendTOONRow [] body p)" for t
    unfolding writer_defs
    by (subst object_writer.moved [OF wf(1)], simp) (subst array_writer.moved [OF wf(1)], simp,
      subst toon_writer.moved [OF wf(1)], simp)
  show "s = scratch @ (if prs \<noteq> [] \<and> (mode = ModeArray \<or> mode = ModeColumnar) then [44] else []) @ row_text mode p body"
    if "e = None"
    using assms(2) that fst [of scratch] fst [of "scratch @ [44]"]
    by (cases mode) (auto simp: append_row_def row_text_def split: if_splits prod.splits option.splits)
qed

lemma rows_text_snoc:
  "rows_text mode (prs @ [(p, b)]) =
     rows_text mode prs @ (if prs \<noteq> [] \<and> (mode = ModeArray \<or> mode = ModeColumnar) then [44] else []) @ row_text mode p b"
  by (simp add: rows_text_def Let_def join_snoc)

section \<open>The output so far\<close>

abbreviation (input) total :: "outWriter \<Rightarrow> bytes" where "total \<equiv> ow.total"

definition plan_or_empty :: "Plan option \<Rightarrow> Plan" where
  "plan_or_empty p = (case p of None \<Rightarrow> empty_plan | Some p \<Rightarrow> p)"

lemma down_write:
  assumes "out_inv out" "down (Write t out) = (out', e)"
  shows "out_inv out' \<and> e = None \<and> total out' = total out @ t"
  using assms ow.total_writ [OF assms(1), of t] by (auto simp: down_def map_prod_def split: prod.splits)

lemma writeHeader_total:
  assumes "out_inv out" "writeHeader out mode p = (out', e)"
  shows "out_inv out'" "total out' = total out @ (if e = None then header_text mode (plan_or_empty p) else [])"
  using assms down_write [OF assms(1)]
  by (auto simp: writeHeader_def WriteByte_Write header_text_def plan_or_empty_def split: Mode.splits option.splits)

lemma writeFooter_total:
  assumes "out_inv out" "writeFooter out mode = (out', e)"
  shows "out_inv out'" "e = None" "total out' = total out @ footer_text mode"
  using assms down_write [OF assms(1)]
  by (auto simp: writeFooter_def WriteByte_Write footer_text_def split: Mode.splits)

text \<open>A row that is written is acceptable and goes to the end; one that is refused leaves the output alone.\<close>

lemma writeRow_total:
  assumes "out_inv out" "compiled p" "writeRow out mode (Some p) body (length prs) = (out', e)"
    and "open_doc mode prs (total out)"
  shows "out_inv out'" "e = None \<Longrightarrow> open_doc mode (prs @ [(p, body)]) (total out')"
    "e \<noteq> None \<Longrightarrow> \<exists>prs. open_doc mode prs (total out')"
proof -
  obtain s re where ar: "append_row mode (length prs) (Buf out) body p = (s, re)" by fastforce
  note row = append_row_eq [OF assms(2) ar]
  have "out_inv out' \<and> (e = None \<longrightarrow> open_doc mode (prs @ [(p, body)]) (total out')) \<and> (e \<noteq> None \<longrightarrow> (\<exists>prs. open_doc mode prs (total out')))"
  proof (cases re)
    case (Some x)
    then have "out' = out" "e = Some (ERow x)" using assms(3) ar by (auto simp: writeRow_def)
    then show ?thesis using assms(1,4) by auto
  next
    case None
    let ?t = "(if prs \<noteq> [] \<and> (mode = ModeArray \<or> mode = ModeColumnar) then [44] else []) @ row_text mode p body"
    define o1 where "o1 = SetBuf s out"
    define o2 where "o2 = (if length prs = 0 then GrowForRow (int (length s) - int (length (Buf out))) o1 else o1)"
    have s: "s = Buf out @ ?t" and rok: "row_ok p body" using row None by simp_all
    have o1: "out_inv o1 \<and> total o1 = total out @ ?t" using ow.total_append [OF assms(1)] s o1_def by simp
    then have o2: "out_inv o2 \<and> total o2 = total out @ ?t" using ow.total_grow [of o1] by (simp add: o2_def)
    obtain o3 me where mf: "MaybeFlush o2 = (o3, me)" by fastforce
    have o3: "out_inv o3" "total o3 = total out @ ?t" using ow.total_maybe [OF conjunct1 [OF o2] mf] o2 by auto
    have "out' = o3" using assms(3) ar None mf unfolding o2_def o1_def by (auto simp: writeRow_def Let_def down_def)
    moreover have "open_doc mode (prs @ [(p, body)]) (total o3)"
      using assms(4) o3(2) rok by (auto simp: open_doc_def rows_text_snoc)
    ultimately show ?thesis using o3(1) by blast
  qed
  then show "out_inv out'" "e = None \<Longrightarrow> open_doc mode (prs @ [(p, body)]) (total out')"
    "e \<noteq> None \<Longrightarrow> \<exists>prs. open_doc mode prs (total out')" by blast+
qed

section \<open>The configuration is fixed\<close>

lemma cfg_simps [simp]:
  "cfg (observe ev c) = cfg c" "cfg (on_notice body c) = cfg c" "cfg (on_parameter body c) = cfg c"
  "cfg (fst (SendCancel c)) = cfg c" "cfg (put_message t f c) = cfg c" "cfg (put_sync c) = cfg c"
  "cfg (put_execute c) = cfg c" "cfg (put_close d c) = cfg c" "cfg (put_parse_describe nm sql c) = cfg c"
  by (auto simp: observe_def on_notice_def on_parameter_def SendCancel_def put_message_def put_sync_def
      put_execute_def put_close_def put_parse_describe_def Let_def split: prod.splits)

lemma cfg_flush_wire: "flush_wire c = (c', e) \<Longrightarrow> cfg c' = cfg c"
  by (auto simp: flush_wire_def split: prod.splits)

lemma cfg_abortOversize: "abortOversize e c = (c', e') \<Longrightarrow> cfg c' = cfg c \<and> e' = e"
proof -
  assume a: "abortOversize e c = (c', e')"
  have "case abortOversize e c of (c', x) \<Rightarrow> cfg c' = cfg c \<and> x = e"
    unfolding abortOversize_def
    by (rule msg_loop_rule [where Q = "\<lambda>_ c'. cfg c' = cfg c"]) (auto simp: abort_turn_def)
  then show ?thesis using a by simp
qed

section \<open>The row loops\<close>

text \<open>The caps hold for the rows counted so far.\<close>

definition below_caps :: "config \<Rightarrow> nat \<Rightarrow> nat \<Rightarrow> bool" where
  "below_caps cf n len \<longleftrightarrow>
     (0 < n \<and> 0 < MaxResponseRows cf \<longrightarrow> int n < MaxResponseRows cf) \<and>
     (0 < n \<and> 0 < MaxResponseBytes cf \<longrightarrow> int len < MaxResponseBytes cf)"

definition q_inv :: "config \<Rightarrow> Mode \<Rightarrow> qlocals \<Rightarrow> Client \<Rightarrow> bool" where
  "q_inv cf mode l c \<longleftrightarrow> cfg c = cf \<and> out_inv (q_out l) \<and> (\<forall>p. q_plan l = Some p \<longrightarrow> compiled p) \<and>
     below_caps cf (q_rows l) (length (total (q_out l))) \<and>
     (if q_hdr l then \<exists>prs. open_doc mode prs (total (q_out l)) \<and> length prs = q_rows l
      else total (q_out l) = [] \<and> q_rows l = 0)"

text \<open>How a loop ends: a whole document, or part of one with an error.\<close>

definition out_result :: "config \<Rightarrow> Mode \<Rightarrow> outWriter \<Rightarrow> err option \<Rightarrow> bool" where
  "out_result cf mode out e \<longleftrightarrow> out_inv out \<and>
     (case e of
        None \<Rightarrow> \<exists>prs u. open_doc mode prs u \<and> total out = u @ footer_text mode \<and> below_caps cf (length prs) (length u)
      | Some _ \<Rightarrow> total out = [] \<or> (\<exists>prs. open_doc mode prs (total out) \<or> whole_doc mode prs (total out)))"

definition q_result :: "config \<Rightarrow> Mode \<Rightarrow> Client \<Rightarrow> qresult \<Rightarrow> bool" where
  "q_result cf mode c = (\<lambda>(out, p, e). cfg c = cf \<and> (\<forall>p'. p = Some p' \<longrightarrow> compiled p') \<and> out_result cf mode out e)"

definition turn_ok :: "config \<Rightarrow> Mode \<Rightarrow> Client \<times> (qlocals + qresult) \<Rightarrow> bool" where
  "turn_ok cf mode = (\<lambda>(c, y). case y of Inl l \<Rightarrow> q_inv cf mode l c | Inr r \<Rightarrow> q_result cf mode c r)"

lemma header_open_doc:
  "out_inv out \<Longrightarrow> total out = [] \<Longrightarrow> header_plan (plan_or_empty p) \<Longrightarrow> writeHeader out mode p = (out', e) \<Longrightarrow>
     out_inv out' \<and> (e = None \<longrightarrow> open_doc mode [] (total out')) \<and> (e \<noteq> None \<longrightarrow> total out' = [])"
  using writeHeader_total [of out mode p out' e]
  by (auto simp: open_doc_def rows_text_def Let_def)

lemma q_inv_error:
  assumes "q_inv cf mode l c"
  shows "out_result cf mode (q_out l) (Some e)"
  using assms by (auto simp: q_inv_def out_result_def split: if_splits)

lemma with_header:
  assumes "q_inv cf mode l c" "header_plan (plan_or_empty p)"
    and "(if q_hdr l then (q_out l, None) else writeHeader (q_out l) mode p) = (out, e)"
  shows "out_inv out" "e = None \<Longrightarrow> \<exists>prs. open_doc mode prs (total out) \<and> length prs = q_rows l \<and>
           (q_rows l = 0 \<or> total out = total (q_out l))"
    "e \<noteq> None \<Longrightarrow> out_result cf mode out e"
  using assms header_open_doc [of "q_out l" p mode out e]
  by (auto simp: q_inv_def out_result_def split: if_splits)

lemma data_row_ok:
  assumes inv: "q_inv cf mode l c"
  shows "turn_ok cf mode (data_row mode body l c)"
proof -
  obtain out e where hd: "(if q_hdr l then (q_out l, None) else writeHeader (q_out l) mode (q_plan l)) = (out, e)"
    by fastforce
  have hp: "header_plan (plan_or_empty (q_plan l))"
    using inv by (cases "q_plan l") (auto simp: q_inv_def header_plan_def plan_or_empty_def)
  note h = with_header [OF inv hp hd]
  have c: "cfg c = cf" and pl: "\<And>p. q_plan l = Some p \<Longrightarrow> compiled p" using inv by (auto simp: q_inv_def)
  show ?thesis
  proof (cases e)
    case (Some x)
    then show ?thesis using h hd c pl by (auto simp: data_row_def stop_def turn_ok_def q_result_def)
  next
    case None
    then obtain prs where prs: "open_doc mode prs (total out)" "length prs = q_rows l" using h by auto
    obtain o2 e2 where wr: "writeRow out mode (q_plan l) body (q_rows l) = (o2, e2)" by fastforce
    have "out_inv o2 \<and> (e2 = None \<longrightarrow> (\<exists>prs. open_doc mode prs (total o2) \<and> length prs = q_rows l + 1)) \<and>
        (e2 \<noteq> None \<longrightarrow> (\<exists>prs. open_doc mode prs (total o2)))"
    proof (cases "q_plan l")
      case None
      then show ?thesis using wr h(1) prs by (auto simp: writeRow_def)
    next
      case (Some p)
      then have "writeRow out mode (Some p) body (length prs) = (o2, e2)" using wr prs(2) by simp
      from writeRow_total [OF h(1) pl [OF Some] this prs(1)] show ?thesis
        using prs(2) by (metis length_append_singleton Suc_eq_plus1)
    qed
    then have o2: "out_inv o2" "e2 = None \<Longrightarrow> \<exists>prs. open_doc mode prs (total o2) \<and> length prs = q_rows l + 1"
      "e2 \<noteq> None \<Longrightarrow> \<exists>prs. open_doc mode prs (total o2)" by auto
    show ?thesis
    proof (cases e2)
      case (Some x)
      then show ?thesis using o2 hd wr c pl None
        by (auto simp: data_row_def stop_def turn_ok_def q_result_def out_result_def)
    next
      case None2: None
      let ?n = "q_rows l + 1"
      show ?thesis
      proof (cases "checkCaps o2 ?n c")
        case (Some capErr)
        obtain c' e' where ab: "abortOversize capErr (c\<lparr>lastRows := int ?n\<rparr>) = (c', e')" by fastforce
        have "cfg c' = cf" using cfg_abortOversize [OF ab] c by simp
        then show ?thesis using o2 hd wr None None2 Some ab pl
          by (auto simp: data_row_def stop_def turn_ok_def q_result_def out_result_def)
      next
        case caps: None
        then have "below_caps cf ?n (length (total o2))"
          using ow.bytes_out_total [OF o2(1)] c by (auto simp: checkCaps_def Let_def below_caps_def split: if_splits)
        then show ?thesis using o2 hd wr None None2 caps c pl
          by (auto simp: data_row_def turn_ok_def q_inv_def)
      qed
    qed
  qed
qed

lemma finish_rows_ok:
  assumes inv: "q_inv cf mode l c" and hp: "header_plan (plan_or_empty p)"
  shows "turn_ok cf mode (finish_rows mode p l c)"
proof (cases "q_err l")
  case (Some pe)
  then show ?thesis using inv q_inv_error [OF inv]
    by (simp add: finish_rows_def stop_def turn_ok_def q_result_def Let_def) (simp add: q_inv_def)
next
  case None
  have c: "cfg c = cf" "\<And>p. q_plan l = Some p \<Longrightarrow> compiled p" using inv by (auto simp: q_inv_def)
  obtain out e where hd: "(if q_hdr l then (q_out l, None) else writeHeader (q_out l) mode p) = (out, e)" by fastforce
  note h = with_header [OF inv hp hd]
  show ?thesis
  proof (cases e)
    case (Some x)
    then show ?thesis using h(3) hd c None by (simp add: finish_rows_def stop_def turn_ok_def q_result_def Let_def)
  next
    case None2: None
    then obtain prs where prs: "open_doc mode prs (total out)" "length prs = q_rows l" "q_rows l = 0 \<or> total out = total (q_out l)"
      using h(2) by auto
    have caps: "below_caps cf (length prs) (length (total out))"
      using inv prs(2,3) by (auto simp: q_inv_def below_caps_def)
    obtain o2 e2 where wf: "writeFooter out mode = (o2, e2)" by fastforce
    note o2 = writeFooter_total [OF h(1) wf]
    obtain o3 e3 where fl: "down (FlushOut o2) = (o3, e3)" by fastforce
    have "out_inv o3 \<and> total o3 = total o2"
      using ow.total_flush [OF o2(1)] fl by (auto simp: down_def map_prod_def split: prod.splits)
    then have "out_result cf mode o3 e3"
      using o2 prs(1) caps by (auto simp: out_result_def whole_doc_def split: option.splits)
    then show ?thesis using hd wf o2(2) fl c None None2
      by (simp add: finish_rows_def stop_def turn_ok_def q_result_def Let_def)
  qed
qed

lemma stop_ok: "q_inv cf mode l c \<Longrightarrow> turn_ok cf mode (stop (q_out l) l (Some e) c)"
  using q_inv_error [of cf mode l c e] by (simp add: stop_def turn_ok_def q_result_def) (simp add: q_inv_def)

lemma q_inv_quiet:
  "q_inv cf mode l c \<Longrightarrow> q_inv cf mode l (on_notice body c)"
  "q_inv cf mode l c \<Longrightarrow> q_inv cf mode l (on_parameter body c)"
  "q_inv cf mode l c \<Longrightarrow> q_inv cf mode (l\<lparr>q_bound := b\<rparr>) c"
  "q_inv cf mode l c \<Longrightarrow> q_inv cf mode (l\<lparr>q_err := x\<rparr>) c"
  "q_inv cf mode l c \<Longrightarrow> compiled p \<Longrightarrow> q_inv cf mode (l\<lparr>q_plan := Some p\<rparr>) c"
  "q_inv cf mode l c \<Longrightarrow> q_inv cf mode l (c\<lparr>rd := r\<rparr>)"
  by (simp_all add: q_inv_def)

lemma turn_ok_Inl [simp]: "turn_ok cf mode (c, Inl l) = q_inv cf mode l c"
  by (simp add: turn_ok_def)

lemma header_plan_q:
  "q_inv cf mode l c \<Longrightarrow> header_plan (plan_or_empty (q_plan l))"
  "q_inv cf mode l c \<Longrightarrow> header_plan (plan_or_empty (case q_plan l of None \<Rightarrow> Some empty_plan | Some p \<Rightarrow> Some p))"
  by (cases "q_plan l"; simp add: q_inv_def header_plan_def plan_or_empty_def)+

lemma header_plan_empty [simp]: "header_plan (plan_or_empty (Some empty_plan))"
  by (simp add: header_plan_def plan_or_empty_def)

lemma execute_turn_ok: "q_inv cf mode l c \<Longrightarrow> turn_ok cf mode (execute_turn mode fmts t body l c)"
  unfolding execute_turn_def
  by (auto intro!: data_row_ok finish_rows_ok stop_ok q_inv_quiet header_plan_q split: sum.splits
      dest: compiled_intros)

lemma text_turn_ok: "q_inv cf mode l c \<Longrightarrow> turn_ok cf mode (text_turn mode t body l c)"
  unfolding text_turn_def
  by (auto intro!: data_row_ok finish_rows_ok stop_ok q_inv_quiet header_plan_q split: sum.splits
      dest: compiled_intros simp del: option.case_eq_if)

lemma q_loop_ok:
  assumes "q_inv cf mode l c" and turn: "\<And>t body l c. q_inv cf mode l c \<Longrightarrow> turn_ok cf mode (h t body l c)"
  shows "case msg_loop h read_failed l c of (c', x) \<Rightarrow> q_result cf mode c' x"
proof (rule msg_loop_rule [where Q = "q_inv cf mode", OF assms(1)])
  fix t body l c r
  assume "q_inv cf mode l c"
  then have "turn_ok cf mode (h t body l (c\<lparr>rd := r\<rparr>))" by (intro turn q_inv_quiet)
  then show "case h t body l (c\<lparr>rd := r\<rparr>) of (c', Inl l') \<Rightarrow> q_inv cf mode l' (c'\<lparr>rd := r\<rparr>)
      | (c', Inr x) \<Rightarrow> q_result cf mode c' x"
    by (auto simp: turn_ok_def q_inv_quiet split: prod.splits sum.splits)
next
  fix e l c r
  assume inv: "q_inv cf mode l c"
  show "case read_failed e l (c\<lparr>rd := r\<rparr>) of (c', x) \<Rightarrow> q_result cf mode c' x"
    using inv q_inv_error [OF inv] by (simp add: read_failed_def q_result_def) (simp add: q_inv_def)
qed

text \<open>An output that holds nothing yet.\<close>

definition blank :: "outWriter \<Rightarrow> bool" where
  "blank out \<longleftrightarrow> out_inv out \<and> total out = []"

lemma blank_Reset: "out_inv out \<Longrightarrow> \<not> Committed out \<Longrightarrow> blank (Reset out)"
  using ow.total_reset by (simp add: blank_def)

lemma blank_error: "blank out \<Longrightarrow> out_result cf mode out (Some e)"
  by (simp add: blank_def out_result_def)

lemma init_q_inv: "blank out \<Longrightarrow> (\<And>p'. p = Some p' \<Longrightarrow> compiled p') \<Longrightarrow> q_inv (cfg c) mode (init_q out p) c"
  by (simp add: q_inv_def init_q_def blank_def below_caps_def)

lemma bindExecute_result:
  assumes "blank out" "\<And>p. plan st = Some p \<Longrightarrow> compiled p"
  shows "case bindExecute out mode st vals c of (c', x) \<Rightarrow> q_result (cfg c) mode c' x"
proof -
  obtain c1 bd e where b: "begin_bind st vals c = (c1, bd, e)" by (cases "begin_bind st vals c") auto
  have c1: "cfg c1 = cfg c" using b by (auto simp: begin_bind_def split: prod.splits)
  show ?thesis
  proof (cases e)
    case (Some x)
    then show ?thesis using b c1 assms blank_error by (auto simp: bindExecute_def q_result_def)
  next
    case None
    let ?c = "c1\<lparr>wr := Finish bd (write_result_formats (resultFmts st) (wr c1))\<rparr>"
    obtain c2 e2 where f: "flush_wire (put_sync (put_execute ?c)) = (c2, e2)" by fastforce
    have c2: "cfg c2 = cfg c" using cfg_flush_wire [OF f] c1 by simp
    show ?thesis
    proof (cases e2)
      case (Some x)
      then show ?thesis using b None f c2 assms blank_error by (auto simp: bindExecute_def Let_def q_result_def)
    next
      case None2: None
      have "q_inv (cfg c) mode (init_q out (plan st)) c2" using init_q_inv [OF assms, where c = c2 and mode = mode] c2 by simp
      from q_loop_ok [OF this, of "execute_turn mode (resultFmts st)"] execute_turn_ok
      show ?thesis using b None f None2 by (simp add: bindExecute_def Let_def)
    qed
  qed
qed

lemma runSimple_result:
  assumes "blank out"
  shows "case runSimple out mode sql c of (c', out', e) \<Rightarrow> cfg c' = cfg c \<and> out_result (cfg c) mode out' e"
proof -
  obtain c1 e where f: "send_message MsgQuery (b_CString sql) c = (c1, e)" by fastforce
  have c1: "cfg c1 = cfg c" using f cfg_flush_wire by (fastforce simp: send_message_def)
  have "q_inv (cfg c) mode (init_q out None) c1" using init_q_inv [OF assms, where p = None and c = c1 and mode = mode] c1 by simp
  from q_loop_ok [OF this, of "text_turn mode"] text_turn_ok show ?thesis
    using f c1 assms blank_error by (auto simp: runSimple_def consumeText_def q_result_def split: option.splits prod.splits)
qed

section \<open>The cache holds compiled plans\<close>

definition st_ok :: "preparedStmt \<Rightarrow> bool" where
  "st_ok st \<longleftrightarrow> (\<forall>p. plan st = Some p \<longrightarrow> compiled p)"

definition plans_ok :: "stmtCache \<Rightarrow> bool" where
  "plans_ok sc \<longleftrightarrow> (\<forall>(k, st) \<in> set (byKey sc). st_ok st)"

lemma plans_ok_get: "plans_ok sc \<Longrightarrow> sc_get sql sc = Some st \<Longrightarrow> st_ok st"
  using map_of_SomeD by (fastforce simp: plans_ok_def sc_get_def)

lemma plans_ok_invalidate: "plans_ok sc \<Longrightarrow> plans_ok (sc_invalidate sql sc)"
  by (auto simp: plans_ok_def sc_invalidate_def map_delete_def split: option.splits)

lemma plans_ok_put:
  assumes "plans_ok sc" "st_ok st"
  shows "plans_ok (sc_put sql st sc)"
proof -
  have "set (byKey (make_room sc)) \<subseteq> set (byKey sc)"
    by (auto simp: make_room_def Let_def map_delete_def split: list.splits prod.splits)
  then show ?thesis using assms by (auto simp: sc_put_room plans_ok_def map_set_def map_delete_def)
qed

lemma plans_ok_update: "plans_ok sc \<Longrightarrow> st_ok st \<Longrightarrow> plans_ok (sc_update sql st sc)"
  by (auto simp: plans_ok_def sc_update_def split: if_splits)

lemma plans_ok_nextName: "plans_ok (snd (takePendingClose (snd (nextName sc)))) = plans_ok sc"
  by (simp add: plans_ok_def takePendingClose_def nextName_def Let_def)

text \<open>Messages leave the cache alone.\<close>

lemma stmts_simps [simp]:
  "stmts (observe ev c) = stmts c" "stmts (on_notice body c) = stmts c" "stmts (on_parameter body c) = stmts c"
  "stmts (fst (SendCancel c)) = stmts c" "stmts (put_message t f c) = stmts c" "stmts (put_sync c) = stmts c"
  "stmts (put_execute c) = stmts c" "stmts (put_close d c) = stmts c" "stmts (put_parse_describe nm sql c) = stmts c"
  by (auto simp: observe_def on_notice_def on_parameter_def SendCancel_def put_message_def put_sync_def
      put_execute_def put_close_def put_parse_describe_def Let_def split: prod.splits)

lemma stmts_flush_wire: "flush_wire c = (c', e) \<Longrightarrow> stmts c' = stmts c"
  by (auto simp: flush_wire_def split: prod.splits)

lemma stmts_abortOversize: "abortOversize e c = (c', e') \<Longrightarrow> stmts c' = stmts c"
proof -
  assume a: "abortOversize e c = (c', e')"
  have "case abortOversize e c of (c', x) \<Rightarrow> stmts c' = stmts c"
    unfolding abortOversize_def
    by (rule msg_loop_rule [where Q = "\<lambda>_ c'. stmts c' = stmts c"]) (auto simp: abort_turn_def)
  then show ?thesis using a by simp
qed

lemma stmts_data_row: "data_row mode body l c = (c', y) \<Longrightarrow> stmts c' = stmts c"
  by (auto simp: data_row_def stop_def Let_def dest!: stmts_abortOversize split: prod.splits option.splits if_splits)

lemma stmts_finish_rows: "finish_rows mode p l c = (c', y) \<Longrightarrow> stmts c' = stmts c"
  by (auto simp: finish_rows_def stop_def Let_def split: prod.splits option.splits if_splits)

lemma stmts_turns:
  "execute_turn mode fmts t body l c = (c', y) \<Longrightarrow> stmts c' = stmts c"
  "text_turn mode t body l c = (c', y) \<Longrightarrow> stmts c' = stmts c"
  by (auto simp: execute_turn_def text_turn_def stop_def dest: stmts_data_row stmts_finish_rows
      split: if_splits sum.splits)

lemma stmts_q_loop:
  assumes "\<And>t body l c c' y. h t body l c = (c', y) \<Longrightarrow> stmts c' = stmts c"
  shows "stmts (fst (msg_loop h read_failed l c)) = stmts c"
proof -
  have "case msg_loop h read_failed l c of (c', x) \<Rightarrow> stmts c' = stmts c"
  proof (rule msg_loop_rule [where Q = "\<lambda>_ c'. stmts c' = stmts c"])
    fix t body l r
    fix c1 :: Client
    assume "stmts c1 = stmts c"
    then show "case h t body l (c1\<lparr>rd := r\<rparr>) of (c', Inl l') \<Rightarrow> stmts (c'\<lparr>rd := r\<rparr>) = stmts c
        | (c', Inr x) \<Rightarrow> stmts c' = stmts c"
      using assms [of t body l "c1\<lparr>rd := r\<rparr>"] by (auto split: prod.splits sum.splits)
  qed (simp_all add: read_failed_def)
  then show ?thesis by (simp add: case_prod_unfold)
qed

lemma stmts_begin_bind: "begin_bind st vals c = (c', bd, e) \<Longrightarrow> stmts c' = stmts c \<and> cfg c' = cfg c"
  by (auto simp: begin_bind_def split: prod.splits)

lemma stmts_bindExecute:
  assumes "bindExecute out mode st vals c = (c', x)"
  shows "stmts c' = stmts c"
proof -
  obtain c1 bd e where b: "begin_bind st vals c = (c1, bd, e)" by (cases "begin_bind st vals c") auto
  let ?c = "put_sync (put_execute (c1\<lparr>wr := Finish bd (write_result_formats (resultFmts st) (wr c1))\<rparr>))"
  obtain c2 e2 where f: "flush_wire ?c = (c2, e2)" by fastforce
  have c2: "stmts c2 = stmts c" using stmts_flush_wire [OF f] stmts_begin_bind [OF b] by simp
  have "stmts (fst (msg_loop (execute_turn mode (resultFmts st)) read_failed (init_q out (plan st)) c2)) = stmts c2"
    by (rule stmts_q_loop) (rule stmts_turns(1))
  then show ?thesis
    using assms b f c2 stmts_begin_bind [OF b] by (cases e; cases e2) (auto simp: bindExecute_def Let_def)
qed

lemma stmts_runSimple:
  assumes "runSimple out mode sql c = (c', x)"
  shows "stmts c' = stmts c"
proof -
  obtain c1 e where f: "send_message MsgQuery (b_CString sql) c = (c1, e)" by fastforce
  have c1: "stmts c1 = stmts c" using f stmts_flush_wire by (fastforce simp: send_message_def)
  have "stmts (fst (msg_loop (text_turn mode) read_failed (init_q out None) c1)) = stmts c1"
    by (rule stmts_q_loop) (rule stmts_turns(2))
  then show ?thesis
    using assms f c1 by (cases e) (auto simp: runSimple_def consumeText_def split: prod.splits)
qed

section \<open>Preparing\<close>

text \<open>What \<open>obtain_stmt\<close> needs of the way a statement is prepared.\<close>

locale preparer =
  fixes prepare :: "bytes \<Rightarrow> Client \<Rightarrow> Client \<times> (err + preparedStmt)"
  assumes prepare: "plans_ok (stmts c) \<Longrightarrow> prepare sql c = (c', r) \<Longrightarrow>
    cfg c' = cfg c \<and> plans_ok (stmts c') \<and> (\<forall>st. r = Inr st \<longrightarrow> st_ok st)"
begin

lemma obtain_ok:
  assumes "plans_ok (stmts c)" "obtain_stmt prepare sql c = (c', r)"
  shows "cfg c' = cfg c \<and> plans_ok (stmts c') \<and> (\<forall>b st. r = Inr (b, st) \<longrightarrow> st_ok st)"
  using assms prepare [OF assms(1), of sql] plans_ok_get [OF assms(1), of sql]
  by (auto simp: obtain_stmt_def plans_ok_invalidate plans_ok_put split: option.splits prod.splits sum.splits)

end

lemma send_prepare_ok:
  assumes "send_prepare sql c = (nm, c', e)"
  shows "cfg c' = cfg c" "plans_ok (stmts c') = plans_ok (stmts c)"
proof -
  have f: "cfg (fold put_close dead c) = cfg c \<and> stmts (fold put_close dead c) = stmts c" for dead c
    by (induction dead arbitrary: c) auto
  obtain nm' sc1 where n: "nextName (stmts c) = (nm', sc1)" by fastforce
  obtain dead sc2 where d: "takePendingClose sc1 = (dead, sc2)" by fastforce
  have fw: "flush_wire (put_sync (put_parse_describe nm' sql (fold put_close dead (c\<lparr>stmts := sc2\<rparr>)))) = (c', e)"
    using assms by (auto simp: send_prepare_def n d)
  have "plans_ok sc2 = plans_ok (stmts c)" using plans_ok_nextName [of "stmts c"] n d by simp
  then show "cfg c' = cfg c" "plans_ok (stmts c') = plans_ok (stmts c)"
    using cfg_flush_wire [OF fw] stmts_flush_wire [OF fw] f by simp_all
qed

lemma compile_stmt_ok: "ParseRowDescription desc = Inr p \<Longrightarrow> st_ok (compile_stmt nm p oids cf)"
  using compiled_intros(2) by (auto simp: st_ok_def compile_stmt_def Let_def)

text \<open>The plan a describe loop has read so far came from a RowDescription.\<close>

definition p_inv :: "Client \<Rightarrow> plocals \<Rightarrow> Client \<Rightarrow> bool" where
  "p_inv c0 l c \<longleftrightarrow> cfg c = cfg c0 \<and> stmts c = stmts c0 \<and>
     (\<forall>p. p_plan l = Some p \<longrightarrow> (\<exists>desc. ParseRowDescription desc = Inr p))"

definition p_result :: "Client \<Rightarrow> Client \<Rightarrow> err + preparedStmt \<Rightarrow> bool" where
  "p_result c0 c r \<longleftrightarrow> cfg c = cfg c0 \<and> stmts c = stmts c0 \<and> (\<forall>st. r = Inr st \<longrightarrow> st_ok st)"

lemma p_loop_ok:
  assumes turn: "\<And>t body l c. p_inv c0 l c \<Longrightarrow>
      (case h t body l c of (c', Inl l') \<Rightarrow> p_inv c0 l' c' | (c', Inr x) \<Rightarrow> p_result c0 c' x)"
  shows "case msg_loop h (\<lambda>e l c. (c, Inl (EWire e))) no_plocals c0 of (c', x) \<Rightarrow> p_result c0 c' x"
proof (rule msg_loop_rule [where Q = "p_inv c0"])
  fix t body l c r
  assume "p_inv c0 l c"
  then have "p_inv c0 l (c\<lparr>rd := r\<rparr>)" by (simp add: p_inv_def)
  from turn [OF this, of t body] show "case h t body l (c\<lparr>rd := r\<rparr>) of (c', Inl l') \<Rightarrow> p_inv c0 l' (c'\<lparr>rd := r\<rparr>)
      | (c', Inr x) \<Rightarrow> p_result c0 c' x"
    by (auto simp: p_inv_def split: prod.splits sum.splits)
qed (simp_all add: p_inv_def p_result_def no_plocals_def)

lemma describe_turn_ok:
  "p_inv c0 l c \<Longrightarrow>
     (case describe_turn nm t body l c of (c', Inl l') \<Rightarrow> p_inv c0 l' c' | (c', Inr x) \<Rightarrow> p_result c0 c' x)"
  by (auto simp: describe_turn_def p_inv_def p_result_def intro: compile_stmt_ok split: sum.splits option.splits)

interpretation prep: preparer prepareAndDescribe
proof
  fix c sql c' r
  assume ok: "plans_ok (stmts c)" and p: "prepareAndDescribe sql c = (c', r)"
  obtain nm c1 e where s: "send_prepare sql c = (nm, c1, e)" by (cases "send_prepare sql c") auto
  note c1 = send_prepare_ok [OF s]
  show "cfg c' = cfg c \<and> plans_ok (stmts c') \<and> (\<forall>st. r = Inr st \<longrightarrow> st_ok st)"
    using p s c1 ok p_loop_ok [of c1 "describe_turn nm", OF describe_turn_ok]
    by (cases e) (auto simp: prepareAndDescribe_def p_result_def)
qed

section \<open>Retries\<close>

lemma plan_result_ok: "(\<And>p. q = Some p \<Longrightarrow> compiled p) \<Longrightarrow> st_ok (st\<lparr>plan := q\<rparr>)"
  by (simp add: st_ok_def)

text \<open>What a whole attempt does to the client and the output.\<close>

definition run_result :: "config \<Rightarrow> Mode \<Rightarrow> Client \<times> outWriter \<times> err option \<Rightarrow> bool" where
  "run_result cf mode = (\<lambda>(c, out, e). cfg c = cf \<and> plans_ok (stmts c) \<and> out_result cf mode out e)"

lemma bindExecute_update:
  assumes "blank out" "st_ok st" "plans_ok (stmts c)" "bindExecute out mode st vals c = (c', out', p, e)"
  shows "cfg c' = cfg c" "plans_ok (sc_update sql (st\<lparr>plan := p\<rparr>) (stmts c'))" "out_result (cfg c) mode out' e" "out_inv out'"
proof -
  have r: "q_result (cfg c) mode c' (out', p, e)"
    using bindExecute_result [OF assms(1), where st = st and mode = mode and vals = vals and c = c] assms(2,4) by (simp add: st_ok_def)
  then show "cfg c' = cfg c" "out_result (cfg c) mode out' e" "out_inv out'"
    by (auto simp: q_result_def out_result_def)
  have "st_ok (st\<lparr>plan := p\<rparr>)" using r by (intro plan_result_ok) (auto simp: q_result_def)
  then show "plans_ok (sc_update sql (st\<lparr>plan := p\<rparr>) (stmts c'))"
    using stmts_bindExecute [OF assms(4)] assms(3) by (simp add: plans_ok_update)
qed

lemma cached_loop_result:
  assumes "blank out" "plans_ok (stmts c)" "0 < n"
  shows "run_result (cfg c) mode (cached_loop n out mode sql vals c)"
  using assms
proof (induction n arbitrary: out c)
  case (Suc n)
  obtain c1 r where o: "obtain_stmt prepareAndDescribe sql c = (c1, r)" by fastforce
  note c1 = prep.obtain_ok [OF Suc.prems(2) o]
  show ?case
  proof (cases r)
    case (Inl e)
    then show ?thesis using o c1 blank_error [OF Suc.prems(1)] by (simp add: run_result_def)
  next
    case (Inr x)
    obtain b st where x: "x = (b, st)" by (cases x)
    obtain c2 out2 p e where be: "bindExecute out mode st vals c1 = (c2, out2, p, e)"
      by (cases "bindExecute out mode st vals c1") auto
    have st: "st_ok st" "plans_ok (stmts c1)" "cfg c1 = cfg c" using c1 Inr x by auto
    note c2 = bindExecute_update [OF Suc.prems(1) st(1,2) be]
    let ?c = "c2\<lparr>stmts := sc_update sql (st\<lparr>plan := p\<rparr>) (stmts c2)\<rparr>"
    have c: "plans_ok (stmts ?c)" "cfg ?c = cfg c" using c2(1,2) st(3) by simp_all
    let ?c' = "?c\<lparr>stmts := sc_invalidate sql (stmts ?c)\<rparr>"
    show ?thesis
    proof (cases "\<exists>x. e = Some x \<and> n = 1 \<and> b \<and> isStaleStmtError x \<and> \<not> Committed out2")
      case True
      then have "cached_loop (Suc n) out mode sql vals c = cached_loop n (Reset out2) mode sql vals ?c'"
        using o be Inr x by (auto simp: Let_def)
      moreover have "run_result (cfg ?c') mode (cached_loop n (Reset out2) mode sql vals ?c')"
        using True c2(4) c(1) by (intro Suc.IH blank_Reset) (auto simp: plans_ok_invalidate)
      ultimately show ?thesis using c(2) by simp
    next
      case False
      then have "cached_loop (Suc n) out mode sql vals c = (?c, out2, e)"
        using o be Inr x by (cases e) (auto simp: Let_def)
      then show ?thesis using c c2(3) st(3) by (simp add: run_result_def)
    qed
  qed
qed simp

lemma run_once_result:
  assumes "blank out" "plans_ok (stmts c)"
  shows "run_result (cfg c) mode (run_once out mode sql vals c)"
proof (cases "StmtCacheSize (cfg c) < 0 \<and> vals = []")
  case True
  then show ?thesis using runSimple_result [OF assms(1), where mode = mode and sql = sql and c = c] stmts_runSimple assms(2)
    by (cases "runSimple out mode sql c") (auto simp: run_once_def run_result_def)
next
  case False
  then show ?thesis using cached_loop_result [OF assms, where n = 2 and mode = mode and sql = sql and vals = vals] by (auto simp: run_once_def runCached_def)
qed

lemma query_loop_result:
  assumes "blank out" "plans_ok (stmts c)"
  shows "run_result (cfg c) mode (query_loop attempt x out mode sql vals c)"
  using assms
proof (induction attempt x out mode sql vals c rule: query_loop.induct)
  case (1 attempt x out mode sql vals c)
  obtain c1 out1 e where r: "run_once out mode sql vals c = (c1, out1, e)" by (cases "run_once out mode sql vals c") auto
  have rr: "run_result (cfg c) mode (c1, out1, e)" using run_once_result [OF 1(2,3), where mode = mode and sql = sql and vals = vals] r by simp
  then have c1: "cfg c1 = cfg c" "plans_ok (stmts c1)" "out_inv out1" by (auto simp: run_result_def out_result_def)
  let ?c = "c1\<lparr>lastRetries := lastRetries c1 + 1\<rparr>"
  show ?case
  proof (cases "\<exists>y. e = Some y \<and> RetryOnSerialization (cfg c1) \<and>
      \<not> (maxRetries \<le> attempt + 1 \<or> \<not> isRetryableSerialization y \<or> Committed out1) \<and> \<not> ctx_done x")
    case False
    then have "query_loop attempt x out mode sql vals c = (c1, out1, e)"
      using r by (subst query_loop.simps) (auto split: option.splits)
    then show ?thesis using rr by simp
  next
    case True
    then obtain y where y: "e = Some y" "RetryOnSerialization (cfg c1)"
      "\<not> (maxRetries \<le> attempt + 1 \<or> \<not> isRetryableSerialization y \<or> Committed out1)" "\<not> ctx_done x" by blast
    have bl: "blank (Reset out1)" using c1(3) y(3) by (intro blank_Reset) auto
    show ?thesis
    proof (cases "ctx_done (tl x)")
      case True
      then have "query_loop attempt x out mode sql vals c = (?c, Reset out1, e)"
        using r y by (subst query_loop.simps) (auto simp: Let_def)
      then show ?thesis using bl c1 y(1) blank_error by (simp add: run_result_def)
    next
      case False
      then have "query_loop attempt x out mode sql vals c
          = query_loop (attempt + 1) (tl (tl x)) (Reset out1) mode sql vals ?c"
        using r y by (subst query_loop.simps) (auto simp: Let_def)
      moreover have "run_result (cfg ?c) mode (query_loop (attempt + 1) (tl (tl x)) (Reset out1) mode sql vals ?c)"
      proof (rule "1.IH" [OF r [symmetric] refl])
        show "\<not> \<not> RetryOnSerialization (cfg c1)" using y by simp
        show "\<not> ctx_done (tl x)" by fact
        show "blank (Reset out1)" by (rule bl)
        show "plans_ok (stmts ?c)" using c1 by simp
      qed (use y in auto)
      ultimately show ?thesis using c1(1) by simp
    qed
  qed
qed

lemma recordEnd_keeps [simp]: "cfg (recordEnd sql r b d e c) = cfg c" "stmts (recordEnd sql r b d e c) = stmts c"
  by (simp_all add: recordEnd_def Let_def)

lemma runQueryInner_result:
  assumes "blank out" "plans_ok (stmts c)"
  shows "run_result (cfg c) mode (runQueryInner x out mode sql vals c)"
proof -
  let ?c = "observe (OnQueryStart sql) c"
  obtain x' ae where a: "attachContext x = (x', ae)" by fastforce
  obtain c1 out1 e where q: "(case attachContext x of (x, Some e) \<Rightarrow> (?c, out, Some e)
      | (x, None) \<Rightarrow> query_loop 0 x out mode sql vals ?c) = (c1, out1, e)"
    by (cases "(case attachContext x of (x, Some e) \<Rightarrow> (?c, out, Some e)
      | (x, None) \<Rightarrow> query_loop 0 x out mode sql vals ?c)") auto
  have "run_result (cfg c) mode (c1, out1, e)"
  proof (cases ae)
    case (Some y)
    then show ?thesis using a q assms blank_error [OF assms(1)] by (auto simp: run_result_def)
  next
    case None
    then show ?thesis using a q query_loop_result [where out = out and c = ?c and mode = mode and attempt = 0 and x = x' and sql = sql and vals = vals] assms by simp
  qed
  then show ?thesis using q
    by (auto simp: runQueryInner_def Let_def since_def run_result_def split: prod.splits)
qed

section \<open>Documents are JSON\<close>

text \<open>A DataRow whose cells have the form the server documents for the plan.\<close>

definition documented :: "Plan \<Rightarrow> bytes \<Rightarrow> bool" where
  "documented p body \<longleftrightarrow>
     (\<exists>ok vals rest. plan_accepts p ok \<and> body = datarow_send vals @ rest \<and> length vals = length (Columns p) \<and> cells_ok vals \<and>
        list_all2 (\<lambda>c v. \<forall>r. v = Some r \<longrightarrow> ok c r) (Columns p) vals)"

lemma documented_json:
  assumes "documented p body"
  shows "json_value (fst (AppendObject [] body p))" "json_value (fst (AppendArray [] body p))"
proof -
  obtain ok vals rest where r: "plan_accepts p ok" "body = datarow_send vals @ rest" "length vals = length (Columns p)"
    "cells_ok vals" "list_all2 (\<lambda>c v. \<forall>r. v = Some r \<longrightarrow> ok c r) (Columns p) vals"
    using assms by (auto simp: documented_def)
  have c: "compiled p" using r(1) by (auto simp: compiled_def)
  have "\<forall>c \<in> set (Columns p). column_wf c \<and> json_encoder (EncoderF c) (ok c)"
    using r(1) unfolding plan_accepts_def
  proof (elim disjE exE conjE)
    fix desc
    assume d: "ParseRowDescription desc = Inr p" and ok: "ok = (\<lambda>c. server_text (TypeOID c))"
    from d have "\<forall>c \<in> set (Columns p). column_wf c \<and> json_encoder (EncoderF c) (server_text (TypeOID c))"
      by (auto simp: ParseRowDescription_def Let_def split: if_splits sum.splits dest!: parse_columns_wf)
    then show ?thesis by (simp add: ok)
  next
    fix desc p0 fs bn
    assume "ParseRowDescription desc = Inr p0" "p = ApplyFormatsEx p0 fs bn" "ok = column_cell bn"
    then show ?thesis using ApplyFormatsEx_ok ParseRowDescription_wf by blast
  qed
  from rows_json [OF this r(3) _ r(4,5), of "[]" rest] compiled_wf(2) [OF c] r(3)
  show "json_value (fst (AppendObject [] body p))" "json_value (fst (AppendArray [] body p))"
    by (auto simp: r(2))
qed

lemma whole_doc_json:
  assumes "whole_doc mode prs t" "\<forall>(p, b) \<in> set prs. documented p b"
  shows "mode = ModeArray \<or> mode = ModeColumnar \<Longrightarrow> json_value t"
    "mode = ModeNDJSON \<Longrightarrow> \<exists>vs. length vs = length prs \<and> t = concat (map (\<lambda>v. v @ [10]) vs) \<and> (\<forall>v \<in> set vs. json_value v)"
proof -
  obtain p0 where p0: "header_plan p0" "t = (header_text mode p0 @ rows_text mode prs) @ footer_text mode"
    using assms(1) by (auto simp: whole_doc_def open_doc_def)
  have hp: "ColumnsArrayHeader p0 = buildColumnsHeader (Columns p0)"
    using p0(1) compiled_wf(3) by (auto simp: header_plan_def empty_plan_def buildColumnsHeader_def ascii_simps)
  have j: "\<And>r. r \<in> set (map (\<lambda>(p, b). fst (AppendObject [] b p)) prs) \<Longrightarrow> json_value r"
    "\<And>r. r \<in> set (map (\<lambda>(p, b). fst (AppendArray [] b p)) prs) \<Longrightarrow> json_value r"
    using assms(2) documented_json by fastforce+
  have rt: "map (\<lambda>(p, b). row_text ModeArray p b) prs = map (\<lambda>(p, b). fst (AppendObject [] b p)) prs"
    "map (\<lambda>(p, b). row_text ModeColumnar p b) prs = map (\<lambda>(p, b). fst (AppendArray [] b p)) prs"
    "map (\<lambda>(p, b). row_text ModeNDJSON p b) prs = map (\<lambda>v. v @ [10]) (map (\<lambda>(p, b). fst (AppendObject [] b p)) prs)"
    by (auto simp: row_text_def)
  show "json_value t" if m: "mode = ModeArray \<or> mode = ModeColumnar"
    using m
  proof
    assume m: "mode = ModeArray"
    have "json_value (91 # join 44 (map (\<lambda>(p, b). fst (AppendObject [] b p)) prs) @ [93])"
      by (rule json_array) (rule j(1))
    then show ?thesis by (simp add: p0(2) m header_text_def footer_text_def rows_text_def rt)
  next
    assume m: "mode = ModeColumnar"
    have "json_value (buildColumnsHeader (Columns p0) @ join 44 (map (\<lambda>(p, b). fst (AppendArray [] b p)) prs) @ asc '']}'')"
      by (rule columns_doc) (rule j(2))
    then show ?thesis using hp by (simp add: p0(2) m header_text_def footer_text_def rows_text_def rt)
  qed
  show "\<exists>vs. length vs = length prs \<and> t = concat (map (\<lambda>v. v @ [10]) vs) \<and> (\<forall>v \<in> set vs. json_value v)" if "mode = ModeNDJSON"
    using that j(1)
    by (intro exI [of _ "map (\<lambda>(p, b). fst (AppendObject [] b p)) prs"])
      (simp add: p0(2) header_text_def footer_text_def rows_text_def rt)
qed

section \<open>A buffer stays a buffer\<close>

fun isBuf :: "outWriter \<Rightarrow> bool" where
  "isBuf (BufW b) = True"
| "isBuf (FlushW f) = False"

lemma isBuf_ops [simp]:
  "isBuf (SetBuf p w) = isBuf w" "isBuf (fst (Write p w)) = isBuf w" "isBuf (fst (WriteByte b w)) = isBuf w"
  "isBuf (fst (MaybeFlush w)) = isBuf w" "isBuf (fst (FlushOut w)) = isBuf w" "isBuf (Reset w) = isBuf w"
  "isBuf (GrowForRow n w) = isBuf w" "fst (down (w, x)) = w"
  by (cases w; simp add: down_def)+

lemma isBuf_down [simp]: "isBuf (fst (down y)) = isBuf (fst y)"
  by (simp add: down_def)

lemma isBuf_write:
  "isBuf (fst (writeHeader w mode p)) = isBuf w" "isBuf (fst (writeRow w mode p body i)) = isBuf w"
  "isBuf (fst (writeFooter w mode)) = isBuf w"
  by (auto simp: writeHeader_def writeRow_def writeFooter_def Let_def split: Mode.splits option.splits prod.splits)

definition out_of :: "qlocals + qresult \<Rightarrow> outWriter" where
  "out_of y = (case y of Inl l \<Rightarrow> q_out l | Inr (w, _, _) \<Rightarrow> w)"

lemma out_of_simps [simp]: "out_of (Inl l) = q_out l" "out_of (Inr (w, p, e)) = w"
  by (simp_all add: out_of_def)

lemma isBuf_data_row: "isBuf (out_of (snd (data_row mode body l c))) = isBuf (q_out l)"
proof -
  obtain w e where w: "(if q_hdr l then (q_out l, None) else writeHeader (q_out l) mode (q_plan l)) = (w, e)" by fastforce
  obtain w2 e2 where w2: "writeRow w mode (q_plan l) body (q_rows l) = (w2, e2)" by fastforce
  have "isBuf w = isBuf (q_out l)" "isBuf w2 = isBuf w"
    using w isBuf_write(1) [of "q_out l" mode "q_plan l"] isBuf_write(2) [of w mode "q_plan l" body "q_rows l"] w2
    by (auto split: if_splits)
  then show ?thesis
    unfolding data_row_def w Let_def stop_def by (cases e; cases e2) (auto simp: w2 split: option.splits prod.splits)
qed

lemma isBuf_finish_rows: "isBuf (out_of (snd (finish_rows mode p l c))) = isBuf (q_out l)"
proof -
  obtain w e where w: "(if q_hdr l then (q_out l, None) else writeHeader (q_out l) mode p) = (w, e)" by fastforce
  obtain w2 e2 where w2: "writeFooter w mode = (w2, e2)" by fastforce
  obtain w3 e3 where w3: "down (FlushOut w2) = (w3, e3)" by fastforce
  have "isBuf w = isBuf (q_out l)" "isBuf w2 = isBuf w" "isBuf w3 = isBuf w2"
    using w isBuf_write(1) [of "q_out l" mode p] isBuf_write(3) [of w mode] w2 isBuf_down [of "FlushOut w2"] w3
    by (auto split: if_splits)
  then show ?thesis
    unfolding finish_rows_def w Let_def stop_def by (cases e; cases e2) (auto simp: w2 w3 split: option.splits)
qed

lemma isBuf_turns:
  "isBuf (out_of (snd (execute_turn mode fmts t body l c))) = isBuf (q_out l)"
  "isBuf (out_of (snd (text_turn mode t body l c))) = isBuf (q_out l)"
  unfolding execute_turn_def text_turn_def stop_def
  by (auto simp: isBuf_data_row isBuf_finish_rows split: sum.splits)

lemma isBuf_loop:
  assumes "\<And>t body l c. isBuf (out_of (snd (h t body l c))) = isBuf (q_out l)"
  shows "isBuf (fst (snd (msg_loop h read_failed l c))) = isBuf (q_out l)"
proof -
  have "case msg_loop h read_failed l c of (c', x) \<Rightarrow> isBuf (fst x) = isBuf (q_out l)"
  proof (rule msg_loop_rule [where Q = "\<lambda>l' c'. isBuf (q_out l') = isBuf (q_out l)"])
    fix t body r
    fix l1 :: qlocals and c1 :: Client
    assume "isBuf (q_out l1) = isBuf (q_out l)"
    then show "case h t body l1 (c1\<lparr>rd := r\<rparr>) of (c', Inl l') \<Rightarrow> isBuf (q_out l') = isBuf (q_out l)
        | (c', Inr x) \<Rightarrow> isBuf (fst x) = isBuf (q_out l)"
      using assms [of t body l1 "c1\<lparr>rd := r\<rparr>"] by (auto simp: out_of_def split: prod.splits sum.splits)
  qed (simp_all add: read_failed_def)
  then show ?thesis by (simp add: case_prod_unfold)
qed

lemma isBuf_bindExecute: "isBuf (fst (snd (bindExecute w mode st vals c))) = isBuf w"
  using isBuf_loop [of "execute_turn mode (resultFmts st)" "init_q w (plan st)", OF isBuf_turns(1)]
  by (auto simp: bindExecute_def Let_def init_q_def split: prod.splits option.splits)

lemma isBuf_runSimple: "isBuf (fst (snd (runSimple w mode sql c))) = isBuf w"
proof -
  obtain c1 e where f: "send_message MsgQuery (b_CString sql) c = (c1, e)" by fastforce
  show ?thesis using f isBuf_loop [of "text_turn mode" "init_q w None" c1, OF isBuf_turns(2)]
    by (cases e) (auto simp: runSimple_def consumeText_def init_q_def split: prod.splits)
qed

lemma isBuf_cached_loop: "isBuf (fst (snd (cached_loop n w mode sql vals c))) = isBuf w"
proof (induction n arbitrary: w c)
  case (Suc n)
  obtain c1 r where o: "obtain_stmt prepareAndDescribe sql c = (c1, r)" by fastforce
  show ?case
  proof (cases r)
    case (Inr x)
    obtain b st where x: "x = (b, st)" by (cases x)
    obtain c2 w2 p e where be: "bindExecute w mode st vals c1 = (c2, w2, p, e)"
      by (cases "bindExecute w mode st vals c1") auto
    have "isBuf w2 = isBuf w" using isBuf_bindExecute [of w mode st vals c1] be by simp
    let ?c = "c2\<lparr>stmts := sc_update sql (st\<lparr>plan := p\<rparr>) (stmts c2)\<rparr>"
    define retry where "retry = (\<exists>x. e = Some x \<and> n = 1 \<and> b \<and> isStaleStmtError x \<and> \<not> Committed w2)"
    have "cached_loop (Suc n) w mode sql vals c =
        (if retry then cached_loop n (Reset w2) mode sql vals (?c\<lparr>stmts := sc_invalidate sql (stmts ?c)\<rparr>) else (?c, w2, e))"
      by (subst cached_loop.simps(2)) (simp add: o be Inr x Let_def retry_def del: cached_loop.simps split: option.split)
    then show ?thesis
      using \<open>isBuf w2 = isBuf w\<close> Suc.IH [of "Reset w2" "?c\<lparr>stmts := sc_invalidate sql (stmts ?c)\<rparr>"]
      by (cases retry) (simp_all del: cached_loop.simps)
  qed (simp add: o)
qed simp

lemma isBuf_query_loop: "isBuf (fst (snd (query_loop attempt x w mode sql vals c))) = isBuf w"
proof (induction attempt x w mode sql vals c rule: query_loop.induct)
  case (1 attempt x w mode sql vals c)
  obtain c1 w1 e where r: "run_once w mode sql vals c = (c1, w1, e)" by (cases "run_once w mode sql vals c") auto
  have "isBuf w1 = isBuf w"
    using r isBuf_runSimple [of w mode sql c] isBuf_cached_loop [of 2 w mode sql vals c]
    by (auto simp: run_once_def runCached_def split: if_splits)
  then show ?case using 1 [OF r [symmetric] refl]
    by (subst query_loop.simps) (auto simp: r Let_def split: option.splits)
qed

lemma isBuf_runQueryInner: "isBuf (fst (snd (runQueryInner x w mode sql vals c))) = isBuf w"
proof -
  obtain x' ae where a: "attachContext x = (x', ae)" by fastforce
  obtain c1 w1 e where q: "query_loop 0 x' w mode sql vals (observe (OnQueryStart sql) c) = (c1, w1, e)"
    by (cases "query_loop 0 x' w mode sql vals (observe (OnQueryStart sql) c)") auto
  have "isBuf w1 = isBuf w" using isBuf_query_loop [of 0 x' w mode sql vals "observe (OnQueryStart sql) c"] q by simp
  then show ?thesis using a q by (cases ae) (auto simp: runQueryInner_def Let_def split: prod.splits)
qed

end
