(* ===== verification/QueryServe.thy ===== *)
theory QueryServe
  imports QueryOutput
begin

text \<open>
  A query against a server that answers as the protocol says: what goes out on the wire, what
  comes back to the caller, and where the connection is left.  The loops are followed message by
  message (\<open>loop_step\<close>, \<open>loop_stop\<close>).
\<close>

section \<open>Rows into a buffer\<close>

definition no_caps :: "config \<Rightarrow> bool" where
  "no_caps cf \<longleftrightarrow> MaxResponseRows cf \<le> 0 \<and> MaxResponseBytes cf \<le> 0"

lemma checkCaps_none: "no_caps (cfg c) \<Longrightarrow> checkCaps out n c = None"
  by (auto simp: no_caps_def checkCaps_def Let_def)

lemma append_row_ok:
  assumes "row_ok p body"
  shows "append_row mode (length prs) scratch body p =
    (scratch @ (if prs \<noteq> [] \<and> (mode = ModeArray \<or> mode = ModeColumnar) then [44] else []) @ row_text mode p body, None)"
proof -
  have c: "compiled p" and ex: "\<exists>vals rest. body = datarow_send vals @ rest \<and> length vals = length (Columns p) \<and> cells_ok vals"
    using assms by (auto simp: row_ok_def)
  note wf = compiled_wf(1,2) [OF c]
  have none: "snd (AppendObject t body p) = None" "snd (AppendArray t body p) = None" "snd (AppendTOONRow t body p) = None" for t
    unfolding writer_defs
    using object_writer.accepts [OF wf, of t body] array_writer.accepts [OF wf, of t body] toon_writer.accepts [OF wf, of t body] ex
    by (simp_all only:)
  obtain s e where ar: "append_row mode (length prs) scratch body p = (s, e)" by fastforce
  have "e = None"
    using ar none [of scratch] none [of "scratch @ [44]"]
    by (cases mode) (auto simp: append_row_def split: prod.splits option.splits if_splits)
  then show ?thesis using append_row_eq(2) [OF c ar] ar by simp
qed

text \<open>The buffered output holds the header, once written, and the rows so far.\<close>

definition buffered :: "Mode \<Rightarrow> Plan \<Rightarrow> bytes list \<Rightarrow> qlocals \<Rightarrow> bool" where
  "buffered mode p bodies l \<longleftrightarrow> q_plan l = Some p \<and> q_err l = None \<and> q_rows l = length bodies \<and>
     (\<exists>b. q_out l = BufW b \<and>
        (if q_hdr l then bw_p b = header_text mode p @ rows_text mode (map (Pair p) bodies) else bodies = [] \<and> bw_p b = []))"

lemma header_buf:
  "writeHeader (BufW b) mode (Some p) = (BufW (b\<lparr>bw_p := bw_p b @ header_text mode p\<rparr>), None)"
  by (cases mode) (simp_all add: writeHeader_def header_text_def down_def)

lemma data_row_buffered:
  assumes "buffered mode p bodies l" "row_ok p body"
  shows "\<exists>l'. buffered mode p (bodies @ [body]) l' \<and> (\<forall>c. no_caps (cfg c) \<longrightarrow> data_row mode body l c = (c, Inl l'))"
proof -
  obtain b where b: "q_out l = BufW b" "q_plan l = Some p" "q_err l = None" "q_rows l = length bodies"
    "if q_hdr l then bw_p b = header_text mode p @ rows_text mode (map (Pair p) bodies) else bodies = [] \<and> bw_p b = []"
    using assms(1) by (auto simp: buffered_def)
  define b1 where "b1 = (if q_hdr l then b else b\<lparr>bw_p := bw_p b @ header_text mode p\<rparr>)"
  have hd: "(if q_hdr l then (q_out l, None) else writeHeader (q_out l) mode (q_plan l)) = (BufW b1, None)"
    by (simp add: b b1_def header_buf)
  have p1: "bw_p b1 = header_text mode p @ rows_text mode (map (Pair p) bodies)"
    using b(5) by (auto simp: b1_def rows_text_def split: if_splits)
  have ar: "append_row mode (q_rows l) (bw_p b1) body p = (header_text mode p @ rows_text mode (map (Pair p) (bodies @ [body])), None)"
    using append_row_ok [OF assms(2), of mode "map (Pair p) bodies" "bw_p b1"] p1 b(4)
    by (simp add: rows_text_snoc)
  have "\<exists>b2. writeRow (BufW b1) mode (Some p) body (q_rows l) = (BufW b2, None) \<and>
      bw_p b2 = header_text mode p @ rows_text mode (map (Pair p) (bodies @ [body]))"
    using ar by (auto simp: writeRow_def Let_def down_def bw_GrowForRow_def)
  then obtain b2 where b2: "writeRow (BufW b1) mode (Some p) body (q_rows l) = (BufW b2, None)"
    "bw_p b2 = header_text mode p @ rows_text mode (map (Pair p) (bodies @ [body]))" by blast
  have "\<forall>c. no_caps (cfg c) \<longrightarrow>
      data_row mode body l c = (c, Inl (l\<lparr>q_out := BufW b2, q_hdr := True, q_rows := q_rows l + 1\<rparr>))"
    unfolding data_row_def hd using b2(1) checkCaps_none by (simp add: b(2))
  moreover have "buffered mode p (bodies @ [body]) (l\<lparr>q_out := BufW b2, q_hdr := True, q_rows := q_rows l + 1\<rparr>)"
    using b b2(2) by (simp add: buffered_def)
  ultimately show ?thesis by blast
qed

lemma rows_served:
  assumes "rx (rd c) = frames (map (Pair MsgDataRow) bodies) @ rest"
    and "\<forall>b \<in> set bodies. row_ok p b \<and> frame_ok b" "no_caps (cfg c)" "buffered mode p done l"
    and h: "\<And>body l c. q_plan l \<noteq> None \<Longrightarrow> h MsgDataRow body l c = data_row mode body l c"
  shows "\<exists>r l'. rx r = rest \<and> msg_loop h f l c = msg_loop h f l' (c\<lparr>rd := r\<rparr>) \<and> buffered mode p (done @ bodies) l'"
  using assms(1-4)
proof (induction bodies arbitrary: c l "done")
  case Nil
  then show ?case by (intro exI [of _ "rd c"] exI [of _ l]) simp
next
  case (Cons body bodies)
  have ok: "row_ok p body" "frame_ok body" using Cons.prems(2) by auto
  have pl: "q_plan l \<noteq> None" using Cons.prems(4) by (simp add: buffered_def)
  obtain l1 where l1: "buffered mode p (done @ [body]) l1" "\<And>c. no_caps (cfg c) \<Longrightarrow> data_row mode body l c = (c, Inl l1)"
    using data_row_buffered [OF Cons.prems(4) ok(1)] by blast
  have "data_row mode body l (c\<lparr>rd := r\<rparr>) = (c\<lparr>rd := r\<rparr>, Inl l1)" for r
    using l1(2) Cons.prems(3) by simp
  then obtain r where r: "rx r = frames (map (Pair MsgDataRow) bodies) @ rest"
    "msg_loop h f l c = msg_loop h f l1 (c\<lparr>rd := r\<rparr>)"
    using loop_step [of c MsgDataRow body "frames (map (Pair MsgDataRow) bodies) @ rest" h l l1 f] Cons.prems(1) ok(2) h [OF pl]
    by auto
  have "\<exists>r' l'. rx r' = rest \<and> msg_loop h f l1 (c\<lparr>rd := r\<rparr>) = msg_loop h f l' (c\<lparr>rd := r, rd := r'\<rparr>) \<and>
      buffered mode p ((done @ [body]) @ bodies) l'"
    using Cons.prems r l1(1) by (intro Cons.IH) simp_all
  then show ?case using r(2) by auto
qed

definition doc_text :: "Mode \<Rightarrow> Plan \<Rightarrow> bytes list \<Rightarrow> bytes" where
  "doc_text mode p bodies = header_text mode p @ rows_text mode (map (Pair p) bodies) @ footer_text mode"

lemma finish_buffered:
  assumes "buffered mode p bodies l"
  shows "\<exists>b. bw_p b = doc_text mode p bodies \<and>
    (\<forall>c. finish_rows mode (Some p) l c = (c\<lparr>lastRows := int (length bodies)\<rparr>, Inr (BufW b, Some p, None)))"
proof -
  obtain b where b: "q_out l = BufW b" "q_plan l = Some p" "q_err l = None" "q_rows l = length bodies"
    "if q_hdr l then bw_p b = header_text mode p @ rows_text mode (map (Pair p) bodies) else bodies = [] \<and> bw_p b = []"
    using assms by (auto simp: buffered_def)
  define b1 where "b1 = (if q_hdr l then b else b\<lparr>bw_p := bw_p b @ header_text mode p\<rparr>)"
  have hd: "(if q_hdr l then (q_out l, None) else writeHeader (q_out l) mode (Some p)) = (BufW b1, None)"
    by (simp add: b b1_def header_buf)
  have p1: "bw_p b1 = header_text mode p @ rows_text mode (map (Pair p) bodies)"
    using b(5) by (auto simp: b1_def rows_text_def split: if_splits)
  have ft: "writeFooter (BufW b1) mode = (BufW (b1\<lparr>bw_p := bw_p b1 @ footer_text mode\<rparr>), None)"
    by (cases mode) (simp_all add: writeFooter_def footer_text_def down_def)
  have "\<forall>c. finish_rows mode (Some p) l c =
      (c\<lparr>lastRows := int (length bodies)\<rparr>, Inr (BufW (b1\<lparr>bw_p := bw_p b1 @ footer_text mode\<rparr>), Some p, None))"
    unfolding finish_rows_def hd Let_def b(3) by (simp add: ft down_def stop_def b)
  then show ?thesis using p1 by (intro exI [of _ "b1\<lparr>bw_p := bw_p b1 @ footer_text mode\<rparr>"]) (simp add: doc_text_def)
qed

section \<open>What is sent\<close>

definition encodes :: "OID list \<Rightarrow> goval list \<Rightarrow> bytes option list \<Rightarrow> bool" where
  "encodes oids args vals \<longleftrightarrow> length vals = length args \<and>
     (\<forall>j < length args. param_value (oid_at oids j) (args ! j) = Inr (vals ! j))"

definition formats_text :: "int list \<Rightarrow> bytes" where
  "formats_text fmts =
     (if allBinary fmts then be_put 2 1 @ be_put 2 1
      else be_put 2 (int (length fmts)) @ concat (map (be_put 2) fmts))"

definition bind_body :: "preparedStmt \<Rightarrow> goval list \<Rightarrow> bytes option list \<Rightarrow> bytes" where
  "bind_body st args vals = [0] @ name st @ [0] @ params_block (paramOIDs st) args vals @ formats_text (resultFmts st)"

definition query_messages :: "preparedStmt \<Rightarrow> goval list \<Rightarrow> bytes option list \<Rightarrow> (byte \<times> bytes) list" where
  "query_messages st args vals = [(MsgBind, bind_body st args vals), (MsgExecute, [0, 0, 0, 0, 0]), (MsgSync, [])]"

lemma fold_Int16: "fold b_Int16 fmts w = app (concat (map (be_put 2) fmts)) w"
  by (induction fmts arbitrary: w) (simp_all add: b_Int16_def)

lemma write_result_formats_app: "write_result_formats fmts w = app (formats_text fmts) w"
  by (simp add: write_result_formats_def formats_text_def fold_Int16) (simp add: b_Int16_def be_put_int16_of)

lemma begin_bind_ok:
  assumes "encodes (paramOIDs st) args vals"
  obtains bd w where "begin_bind st args c = (c\<lparr>wr := w\<rparr>, bd, None)"
    "Finish bd (write_result_formats (resultFmts st) w) = app (frame MsgBind (bind_body st args vals)) (wr c)"
proof -
  define body where "body w = write_result_formats (resultFmts st)
      (fst (writeBindParams (paramOIDs st) args (b_CString (name st) (b_CString [] w))))" for w
  have ok: "writeBindParams (paramOIDs st) args w = (app (params_block (paramOIDs st) args vals) w, None)" for w
    using assms by (intro writeBindParams_ok) (auto simp: encodes_def)
  have "appends body (bind_body st args vals)"
    by (simp add: appends_def body_def ok write_result_formats_app bind_body_def b_CString_def)
  then have m: "message MsgBind body (wr c) = app (frame MsgBind (bind_body st args vals)) (wr c)" by (rule message_frame)
  obtain bd w0 where bg: "Begin MsgBind (wr c) = (bd, w0)" by fastforce
  let ?w = "fst (writeBindParams (paramOIDs st) args (b_CString (name st) (b_CString [] w0)))"
  have "begin_bind st args c = (c\<lparr>wr := ?w\<rparr>, bd, None)" unfolding begin_bind_def bg by (simp add: ok)
  moreover have "Finish bd (write_result_formats (resultFmts st) ?w) = app (frame MsgBind (bind_body st args vals)) (wr c)"
    using m unfolding message_def bg by (simp add: body_def)
  ultimately show ?thesis by (rule that)
qed

lemma put_execute_sync: "put_sync (put_execute c) = c\<lparr>wr := app (frames [(MsgExecute, [0, 0, 0, 0, 0]), (MsgSync, [])]) (wr c)\<rparr>"
proof -
  have "appends (\<lambda>w. b_Int32 0 (b_CString [] w)) [0, 0, 0, 0, 0]" "appends (\<lambda>w. w) []"
    by (simp_all add: appends_def b_Int32_def b_CString_def eval_nat_numeral)
  then show ?thesis by (simp add: put_sync_def put_execute_def put_message_def message_frame)
qed

text \<open>The writer after a query: the three messages are on the network, in order, and nothing else.\<close>

definition after_send :: "preparedStmt \<Rightarrow> goval list \<Rightarrow> bytes option list \<Rightarrow> writer \<Rightarrow> writer" where
  "after_send st args vals w = w\<lparr>tx := tx w @ frames (query_messages st args vals)\<rparr>"

lemma bindExecute_sends:
  assumes "encodes (paramOIDs st) args vals" "room (wr c) = None" "writeBuf (wr c) = []"
  shows "bindExecute out mode st args c =
    msg_loop (execute_turn mode (resultFmts st)) read_failed (init_q out (plan st)) (c\<lparr>wr := after_send st args vals (wr c)\<rparr>)"
proof -
  obtain bd w where b: "begin_bind st args c = (c\<lparr>wr := w\<rparr>, bd, None)"
    "Finish bd (write_result_formats (resultFmts st) w) = app (frame MsgBind (bind_body st args vals)) (wr c)"
    using begin_bind_ok [OF assms(1)] by blast
  have "writer.writeBuf_update (\<lambda>_. []) (wr c) = wr c" using assms(3) by (cases "wr c") simp
  then show ?thesis using assms(2,3)
    by (simp add: bindExecute_def b put_execute_sync flush_wire_all after_send_def query_messages_def)
      (cases "wr c"; simp add: app_def)
qed

section \<open>What is answered\<close>

definition answer :: "(byte \<times> bytes) list \<Rightarrow> bytes list \<Rightarrow> bytes \<Rightarrow> bytes \<Rightarrow> (byte \<times> bytes) list" where
  "answer pre bodies tag status =
     pre @ map (Pair MsgDataRow) bodies @ [(MsgCommandComplete, tag), (MsgReadyForQuery, status)]"

lemma execute_quiet:
  "t = MsgBindComplete \<or> t = MsgCommandComplete \<Longrightarrow>
     \<exists>l'. (\<forall>c. execute_turn mode fmts t body l c = (c, Inl l')) \<and> (buffered mode p bodies l \<longrightarrow> buffered mode p bodies l')"
  by (auto simp: execute_turn_def buffered_def)

lemma execute_quiet_step:
  assumes "rx (rd c) = frames [(t, body)] @ rest" "frame_ok body" "t = MsgBindComplete \<or> t = MsgCommandComplete"
    and "buffered mode p bodies l"
  shows "\<exists>r l'. rx r = rest \<and> buffered mode p bodies l' \<and>
    msg_loop (execute_turn mode fmts) f l c = msg_loop (execute_turn mode fmts) f l' (c\<lparr>rd := r\<rparr>)"
proof -
  obtain l' where l': "\<And>c. execute_turn mode fmts t body l c = (c, Inl l')" "buffered mode p bodies l'"
    using execute_quiet [OF assms(3), of mode fmts body l p bodies] assms(4) by blast
  obtain r where "rx r = rest" "msg_loop (execute_turn mode fmts) f l c = msg_loop (execute_turn mode fmts) f l' (c\<lparr>rd := r\<rparr>)"
    using loop_step [of c t body rest "execute_turn mode fmts" l l' f] assms(1,2) l'(1) by auto
  then show ?thesis using l'(2) by blast
qed

lemma execute_loop_served:
  assumes rx: "rx (rd c) = frames (answer pre bodies tag status) @ rest"
    and pre: "pre = [] \<or> pre = [(MsgBindComplete, [])]"
    and ok: "\<forall>b \<in> set bodies. row_ok p b \<and> frame_ok b" "frame_ok tag" "frame_ok status" "no_caps (cfg c)"
    and l: "buffered mode p [] l"
  shows "\<exists>r b. rx r = rest \<and> bw_p b = doc_text mode p bodies \<and>
    msg_loop (execute_turn mode fmts) read_failed l c
      = (c\<lparr>rd := r, lastRows := int (length bodies)\<rparr>, (BufW b, Some p, None))"
proof -
  let ?loop = "msg_loop (execute_turn mode fmts) read_failed"
  let ?tail = "frames (map (Pair MsgDataRow) bodies) @ frames [(MsgCommandComplete, tag)] @ frames [(MsgReadyForQuery, status)] @ rest"
  have "\<exists>r l1. rx r = ?tail \<and> buffered mode p [] l1 \<and> ?loop l c = ?loop l1 (c\<lparr>rd := r\<rparr>)"
  proof (cases "pre = []")
    case True
    then show ?thesis using rx l by (intro exI [of _ "rd c"] exI [of _ l]) (simp add: answer_def)
  next
    case False
    then show ?thesis using pre rx l
      by (intro execute_quiet_step [where t = MsgBindComplete and body = "[]"]) (auto simp: answer_def frame_ok_def)
  qed
  then obtain r1 l1 where 1: "rx r1 = ?tail" "buffered mode p [] l1" "?loop l c = ?loop l1 (c\<lparr>rd := r1\<rparr>)" by blast
  have "\<exists>r l2. rx r = frames [(MsgCommandComplete, tag)] @ frames [(MsgReadyForQuery, status)] @ rest \<and>
      ?loop l1 (c\<lparr>rd := r1\<rparr>) = ?loop l2 (c\<lparr>rd := r1, rd := r\<rparr>) \<and> buffered mode p ([] @ bodies) l2"
    using 1 ok by (intro rows_served) (auto simp: execute_turn_def)
  then obtain r2 l2 where 2: "rx r2 = frames [(MsgCommandComplete, tag)] @ frames [(MsgReadyForQuery, status)] @ rest"
    "?loop l1 (c\<lparr>rd := r1\<rparr>) = ?loop l2 (c\<lparr>rd := r2\<rparr>)" "buffered mode p bodies l2" by auto
  have "\<exists>r l'. rx r = frames [(MsgReadyForQuery, status)] @ rest \<and> buffered mode p bodies l' \<and>
      ?loop l2 (c\<lparr>rd := r2\<rparr>) = ?loop l' (c\<lparr>rd := r2, rd := r\<rparr>)"
    using 2 ok by (intro execute_quiet_step [where t = MsgCommandComplete and body = tag]) auto
  then obtain r3 l3 where 3: "rx r3 = frames [(MsgReadyForQuery, status)] @ rest" "buffered mode p bodies l3"
    "?loop l2 (c\<lparr>rd := r2\<rparr>) = ?loop l3 (c\<lparr>rd := r3\<rparr>)" by auto
  obtain b where b: "bw_p b = doc_text mode p bodies"
    "\<And>c. finish_rows mode (Some p) l3 c = (c\<lparr>lastRows := int (length bodies)\<rparr>, Inr (BufW b, Some p, None))"
    using finish_buffered [OF 3(2)] by blast
  have pl: "q_plan l3 = Some p" using 3(2) by (simp add: buffered_def)
  have "\<exists>r. rx r = rest \<and> ?loop l3 (c\<lparr>rd := r3\<rparr>)
      = ((c\<lparr>rd := r3, lastRows := int (length bodies)\<rparr>)\<lparr>rd := r\<rparr>, (BufW b, Some p, None))"
    using 3(1) ok(3) b(2)
    by (intro loop_stop [where t = MsgReadyForQuery and body = status and g = "\<lambda>c. c\<lparr>lastRows := int (length bodies)\<rparr>", simplified])
      (auto simp: execute_turn_def pl)
  then show ?thesis using 1(3) 2(2) 3(3) b(1) by auto
qed

section \<open>A whole query\<close>

lemma recordEnd_frame:
  "rd (recordEnd sql r b d e c) = rd c" "wr (recordEnd sql r b d e c) = wr c" "lastRows (recordEnd sql r b d e c) = lastRows c"
  by (simp_all add: recordEnd_def observe_def Let_def)

lemma runQueryInner_once:
  assumes "\<not> ctx_done x" "run_once out mode sql args (observe (OnQueryStart sql) c) = (c1, out1, e)"
    and "\<And>y. e = Some y \<Longrightarrow> \<not> isRetryableSerialization y"
  shows "\<exists>c'. runQueryInner x out mode sql args c = (c', out1, e) \<and> rd c' = rd c1 \<and> wr c' = wr c1 \<and>
    stmts c' = stmts c1 \<and> cfg c' = cfg c1 \<and> lastRows c' = lastRows c1"
proof -
  have "query_loop 0 (tl x) out mode sql args (observe (OnQueryStart sql) c) = (c1, out1, e)"
    using assms(2,3) by (subst query_loop.simps) (auto split: option.splits)
  then show ?thesis
    using assms(1) by (simp add: runQueryInner_def attachContext_def since_def recordEnd_frame)
qed

text \<open>The hypotheses on a client that is about to run a cached statement.\<close>

definition ready :: "bytes \<Rightarrow> preparedStmt \<Rightarrow> Plan \<Rightarrow> Client \<Rightarrow> bool" where
  "ready sql st p c \<longleftrightarrow> sc_get sql (stmts c) = Some st \<and> plan st = Some p \<and> room (wr c) = None \<and> writeBuf (wr c) = [] \<and>
     0 \<le> StmtCacheSize (cfg c) \<and> no_caps (cfg c)"

definition rows_sent :: "Plan \<Rightarrow> bytes list \<Rightarrow> bool" where
  "rows_sent p bodies \<longleftrightarrow> (\<forall>b \<in> set bodies. row_ok p b \<and> frame_ok b)"

lemma sc_get_update: "sc_get sql sc = Some st \<Longrightarrow> sc_get sql (sc_update sql st' sc) = Some st'"
proof -
  have "map_of xs sql = Some st \<Longrightarrow> map_of (map (\<lambda>(k, v). if k = sql then (k, st') else (k, v)) xs) sql = Some st'" for xs
    by (induction xs) (auto split: if_splits)
  then show "sc_get sql sc = Some st \<Longrightarrow> ?thesis" by (simp add: sc_get_def sc_update_def)
qed

lemma cached_loop_once:
  assumes "sc_get sql (stmts c) = Some st" "bindExecute out mode st args c = (c1, out1, p, e)"
    and "\<And>y. e = Some y \<Longrightarrow> \<not> isStaleStmtError y"
  shows "runCached out mode sql args c = (c1\<lparr>stmts := sc_update sql (st\<lparr>plan := p\<rparr>) (stmts c1)\<rparr>, out1, e)"
  using assms by (cases e) (auto simp: runCached_def numeral_2_eq_2 obtain_stmt_def Let_def)

lemma observe_ready: "ready sql st p (observe ev c) = ready sql st p c"
  by (simp add: ready_def observe_def)

lemma runQueryInner_served:
  assumes "\<not> ctx_done x" "ready sql st p c" "encodes (paramOIDs st) args vals"
    and "rx (rd c) = frames (answer pre bodies tag status) @ rest" "pre = [] \<or> pre = [(MsgBindComplete, [])]"
    and "rows_sent p bodies" "frame_ok tag" "frame_ok status" "bw_p b0 = []"
  shows "\<exists>c' b. runQueryInner x (BufW b0) mode sql args c = (c', BufW b, None) \<and> bw_p b = doc_text mode p bodies \<and>
    rx (rd c') = rest \<and> wr c' = after_send st args vals (wr c) \<and> lastRows c' = int (length bodies) \<and> ready sql st p c'"
proof -
  let ?c = "observe (OnQueryStart sql) c"
  have r: "ready sql st p ?c" using assms(2) by (simp add: observe_ready)
  have f: "rd ?c = rd c" "wr ?c = wr c" "cfg ?c = cfg c" "stmts ?c = stmts c" by (simp_all add: observe_def)
  have pl: "plan st = Some p" and caps: "no_caps (cfg c)" using assms(2) by (auto simp: ready_def)
  let ?c1 = "?c\<lparr>wr := after_send st args vals (wr c)\<rparr>"
  have send: "bindExecute (BufW b0) mode st args ?c
      = msg_loop (execute_turn mode (resultFmts st)) read_failed (init_q (BufW b0) (plan st)) ?c1"
    using bindExecute_sends [OF assms(3), of ?c "BufW b0" mode] assms(2) f by (simp add: ready_def)
  have "buffered mode p [] (init_q (BufW b0) (plan st))" using pl assms(9) by (simp add: buffered_def init_q_def)
  then have "\<exists>r b. rx r = rest \<and> bw_p b = doc_text mode p bodies \<and>
      bindExecute (BufW b0) mode st args ?c = (?c1\<lparr>rd := r, lastRows := int (length bodies)\<rparr>, (BufW b, Some p, None))"
    unfolding send using assms(4-8) f caps by (intro execute_loop_served [where pre = pre and tag = tag and status = status]) (auto simp: rows_sent_def)
  then obtain r1 b where b: "rx r1 = rest" "bw_p b = doc_text mode p bodies"
    "bindExecute (BufW b0) mode st args ?c = (?c1\<lparr>rd := r1, lastRows := int (length bodies)\<rparr>, (BufW b, Some p, None))"
    by blast
  let ?c2 = "?c1\<lparr>rd := r1, lastRows := int (length bodies), stmts := sc_update sql (st\<lparr>plan := Some p\<rparr>) (stmts c)\<rparr>"
  have "runCached (BufW b0) mode sql args ?c = (?c2, BufW b, None)"
    using cached_loop_once [OF _ b(3)] assms(2) f by (simp add: ready_def)
  then have "run_once (BufW b0) mode sql args ?c = (?c2, BufW b, None)" using r by (simp add: run_once_def ready_def)
  from runQueryInner_once [OF assms(1) this] obtain c' where c':
    "runQueryInner x (BufW b0) mode sql args c = (c', BufW b, None)" "rd c' = r1" "wr c' = after_send st args vals (wr c)"
    "stmts c' = sc_update sql (st\<lparr>plan := Some p\<rparr>) (stmts c)" "cfg c' = cfg c" "lastRows c' = int (length bodies)"
    using f by auto
  have st: "st\<lparr>plan := Some p\<rparr> = st" using pl by (cases st) simp
  have "ready sql st p c'" using assms(2) c' st by (simp add: ready_def sc_get_update after_send_def)
  then show ?thesis using c' b by blast
qed

text \<open>A stream whose consumer fails on the first flush.\<close>

lemma stream_fails:
  assumes "\<not> ctx_done x" "ready sql st p c" "encodes (paramOIDs st) args vals"
    and "rx (rd c) = frames (answer [(MsgBindComplete, [])] (body # bodies) tag status) @ rest"
    and "rows_sent p (body # bodies)" "accepts w = Some 0"
    and "0 < FlushBytes (cfg c)" "FlushBytes (cfg c) \<le> int (length (header_text mode p @ row_text mode p body))"
  shows "\<exists>c' out. runQueryInner x (newFlushWriter (cfg c) ticks w) mode sql args c = (c', out, Some (EDown DownstreamError)) \<and>
    rx (rd c') = frames (answer [] bodies tag status) @ rest \<and> ready sql st p c'"
proof -
  let ?out = "newFlushWriter (cfg c) ticks w"
  let ?c = "observe (OnQueryStart sql) c"
  have f: "rd ?c = rd c" "wr ?c = wr c" "cfg ?c = cfg c" "stmts ?c = stmts c" by (simp_all add: observe_def)
  have pl: "plan st = Some p" using assms(2) by (simp add: ready_def)
  let ?c1 = "?c\<lparr>wr := after_send st args vals (wr c)\<rparr>"
  let ?loop = "msg_loop (execute_turn mode (resultFmts st)) read_failed"
  have send: "bindExecute ?out mode st args ?c = ?loop (init_q ?out (plan st)) ?c1"
    using bindExecute_sends [OF assms(3), of ?c ?out mode] assms(2) f by (simp add: ready_def)
  let ?rest = "frames (answer [] bodies tag status) @ rest"
  let ?l = "(init_q ?out (plan st))\<lparr>q_bound := True\<rparr>"
  have ok: "row_ok p body" "frame_ok body" using assms(5) by (auto simp: rows_sent_def)
  obtain r1 where r1: "rx r1 = frame MsgDataRow body @ ?rest"
    "?loop (init_q ?out (plan st)) ?c1 = ?loop ?l (?c1\<lparr>rd := r1\<rparr>)"
    using loop_step [of ?c1 MsgBindComplete "[]" "frame MsgDataRow body @ ?rest" "execute_turn mode (resultFmts st)"
        "init_q ?out (plan st)" ?l read_failed] assms(4) f
    by (auto simp: answer_def frame_ok_def execute_turn_def)
  define o1 where "o1 = fst (writeHeader ?out mode (Some p))"
  have o1: "writeHeader ?out mode (Some p) = (o1, None)" "Buf o1 = header_text mode p"
    "\<exists>g. o1 = FlushW g \<and> threshold g = FlushBytes (cfg c) \<and> accepts (fw_w g) = Some 0"
    using assms(6) by (cases mode; simp add: o1_def newFlushWriter_def writeHeader_def header_text_def down_def)+
  obtain g where g: "o1 = FlushW g" "threshold g = FlushBytes (cfg c)" "accepts (fw_w g) = Some 0" using o1(3) by blast
  have ar: "append_row mode 0 (Buf o1) body p = (Buf o1 @ row_text mode p body, None)"
    using append_row_ok [OF ok(1), of mode "[]" "Buf o1"] by simp
  have wrow: "\<exists>o2. writeRow o1 mode (Some p) body 0 = (o2, Some (EDown DownstreamError))"
    using ar g o1(2) assms(7,8)
    by (auto simp: writeRow_def Let_def down_def fw_GrowForRow_def fw_MaybeFlush_def fw_Flush_def sink_write_def)
  then obtain o2 where o2: "writeRow o1 mode (Some p) body 0 = (o2, Some (EDown DownstreamError))" by blast
  have "data_row mode body ?l c = (c, Inr (o2, Some p, Some (EDown DownstreamError)))" for c
    using o1(1) o2 by (simp add: data_row_def init_q_def pl stop_def)
  then have "\<exists>r. rx r = ?rest \<and> ?loop ?l (?c1\<lparr>rd := r1\<rparr>)
      = ((?c1\<lparr>rd := r1\<rparr>)\<lparr>rd := r\<rparr>, (o2, Some p, Some (EDown DownstreamError)))"
    using r1(1) ok(2)
    by (intro loop_stop [where t = MsgDataRow and body = body and g = "\<lambda>c. c", simplified]) (auto simp: execute_turn_def)
  then obtain r2 where r2: "rx r2 = ?rest"
    "bindExecute ?out mode st args ?c = (?c1\<lparr>rd := r2\<rparr>, (o2, Some p, Some (EDown DownstreamError)))"
    using send r1(2) by auto
  let ?c2 = "?c1\<lparr>rd := r2, stmts := sc_update sql (st\<lparr>plan := Some p\<rparr>) (stmts c)\<rparr>"
  have "runCached ?out mode sql args ?c = (?c2, o2, Some (EDown DownstreamError))"
    using cached_loop_once [OF _ r2(2)] assms(2) f by (simp add: ready_def isStaleStmtError_def has_code_def)
  then have "run_once ?out mode sql args ?c = (?c2, o2, Some (EDown DownstreamError))"
    using assms(2) f by (simp add: run_once_def ready_def)
  from runQueryInner_once [OF assms(1) this] obtain c' where c':
    "runQueryInner x ?out mode sql args c = (c', o2, Some (EDown DownstreamError))" "rd c' = r2"
    "wr c' = after_send st args vals (wr c)" "stmts c' = sc_update sql (st\<lparr>plan := Some p\<rparr>) (stmts c)" "cfg c' = cfg c"
    using f by (auto simp: isRetryableSerialization_def has_code_def)
  have st: "st\<lparr>plan := Some p\<rparr> = st" using pl by (cases st) simp
  have "ready sql st p c'" using assms(2) c' st by (simp add: ready_def sc_get_update after_send_def)
  then show ?thesis using c' r2(1) by auto
qed

section \<open>An example client\<close>

text \<open>One cached statement with one binary int4 column, no parameters, and a server that has sent \<open>bs\<close>.\<close>

definition ex_plan0 :: Plan where
  "ex_plan0 =
     \<lparr>Columns = [field_column (asc ''n'', 0, 0, OIDInt4, 4, - 1, 0)],
      ColumnsArrayHeader = buildColumnsHeader [field_column (asc ''n'', 0, 0, OIDInt4, 4, - 1, 0)],
      TOONHeader = buildTOONHeader [field_column (asc ''n'', 0, 0, OIDInt4, 4, - 1, 0)]\<rparr>"

definition ex_plan :: Plan where "ex_plan = ApplyFormatsEx ex_plan0 [1] False"

definition ex_stmt :: preparedStmt where
  "ex_stmt = \<lparr>name = stmt_name 1, plan = Some ex_plan, resultFmts = [1], paramOIDs = []\<rparr>"

definition ex_sql :: bytes where "ex_sql = asc ''SELECT n''"

definition ex_client :: "bytes \<Rightarrow> Client" where
  "ex_client bs =
     \<lparr>cfg = zeroConfig\<lparr>FlushBytes := 1\<rparr>, rd = \<lparr>rx = bs, brSize = 131072, readCap = 8192\<rparr>,
      wr = \<lparr>tx = [], room = None, writeBuf = []\<rparr>, params = Map.empty, pid = 0, skey = 0,
      stmts = \<lparr>scmax = 64, byKey = [(ex_sql, ex_stmt)], closed = [], seqno = 1, picks = []\<rparr>,
      scram = None, observer = None, cnt = \<lparr>cQueries = 0, cErrors = 0, cRows = 0, cBytes = 0\<rparr>,
      lastRows = 0, lastRetries = 0, durations = [], dials = [], cancels = []\<rparr>"

definition ex_row :: "byte \<Rightarrow> bytes" where "ex_row b = datarow_send [Some [0, 0, 0, b]]"

lemma ex_plan0_parses: "\<exists>desc. ParseRowDescription desc = Inr ex_plan0"
proof -
  let ?f = "(asc ''n'', 0, 0, OIDInt4, 4, - 1, 0)"
  have "list_all field_ok [?f]" by (simp add: s16_def s32_def ascii_simps)
  from ParseRowDescription_send [OF this]
  have "ParseRowDescription (be_put 2 (int (length [?f])) @ concat (map field_send [?f])) = Inr ex_plan0"
    by (simp only: ex_plan0_def list.map) simp
  then show ?thesis by blast
qed

lemma ex_accepts: "plan_accepts ex_plan (column_cell False)"
  using ex_plan0_parses unfolding plan_accepts_def ex_plan_def by blast

lemma ex_compiled: "compiled ex_plan"
  using ex_accepts by (auto simp: compiled_def)

lemma ex_columns: "length (Columns ex_plan) = 1"
  by (simp add: ex_plan_def ApplyFormatsEx_def ex_plan0_def)

lemma ex_row_documented: "documented ex_plan (ex_row b)"
  unfolding documented_def
proof (intro exI conjI)
  show "plan_accepts ex_plan (column_cell False)" by (rule ex_accepts)
  show "ex_row b = datarow_send [Some [0, 0, 0, b]] @ []" by (simp add: ex_row_def)
  show "list_all2 (\<lambda>c v. \<forall>r. v = Some r \<longrightarrow> column_cell False c r) (Columns ex_plan) [Some [0, 0, 0, b]]"
    by (simp add: ex_plan_def ApplyFormatsEx_def ex_plan0_def apply_format_def column_cell_def server_binary_def
        server_scalar_def ArrayElem_def PickBinaryEx.simps)
qed (simp_all add: ex_columns cells_ok_def)

lemma ex_row_ok: "row_ok ex_plan (ex_row b)"
  using ex_compiled ex_row_documented [of b] by (auto simp: row_ok_def documented_def)

lemma ex_rows_sent: "rows_sent ex_plan (map ex_row bs)"
proof -
  have "frame_ok (ex_row b)" for b by (simp add: frame_ok_def ex_row_def datarow_send_def elem_send_def)
  then show ?thesis using ex_row_ok by (auto simp: rows_sent_def)
qed

lemma ex_ready: "ready ex_sql ex_stmt ex_plan (ex_client bs)"
  by (simp add: ready_def ex_client_def ex_stmt_def sc_get_def no_caps_def zeroConfig_def)

lemma ex_plans_ok: "plans_ok (stmts (ex_client bs))"
  by (simp add: plans_ok_def ex_client_def st_ok_def ex_stmt_def ex_compiled)

lemma ex_encodes: "encodes (paramOIDs ex_stmt) [] []"
  by (simp add: encodes_def)

lemma ex_select: "rejectNonSelect ex_sql = None"
  by (simp add: rejectNonSelect_def ex_sql_def ascii_simps trimBlank_def is_blank_def strip_line_comments.simps
      strip_block_comments.simps HasPrefix_def select_keywords_def Let_def)

section \<open>Properties\<close>



lemma QueryJSON_document:
  assumes "plans_ok (stmts c)" "QueryJSON x sql args c = (c', Inr js)"
  shows "\<exists>prs. whole_doc ModeArray prs js"
proof -
  let ?out = "BufW \<lparr>bw_p = [], bw_rowsHint = RowsHint (cfg c), bw_grew = False\<rparr>"
  obtain out' where q: "runQueryInner x ?out ModeArray sql args c = (c', out', None)" "js = Buf out'"
    using assms(2) by (auto simp: QueryJSON_def runQuery_def split: prod.splits option.splits)
  have "blank ?out" by (simp add: blank_def ow.total_def)
  from runQueryInner_result [OF this assms(1), of ModeArray x sql args] q(1)
  have r: "out_result (cfg c) ModeArray out' None" by (simp add: run_result_def)
  have "isBuf out'" using isBuf_runQueryInner [of x ?out ModeArray sql args c] q(1) by simp
  then obtain b where "out' = BufW b" by (cases out') auto
  with r q(2) show ?thesis by (auto simp: out_result_def whole_doc_def ow.total_def)
qed



text \<open>C3. A query is answered.  For a cached statement on a connection in order, when the server
  answers with BindComplete, rows that fit the plan, CommandComplete and ReadyForQuery, \<open>QueryJSON\<close>
  returns the array of exactly those rows in order; what it sent is one Bind with the encoded
  arguments, one Execute and one Sync; it read its answer and nothing more; and the client is again
  in the state the next such query needs.\<close>

theorem cached_query_served:
  assumes "rejectNonSelect sql = None" "\<not> ctx_done x" "ready sql st p c" "encodes (paramOIDs st) args vals"
    and "rx (rd c) = frames (answer [(MsgBindComplete, [])] bodies tag status) @ rest"
    and "rows_sent p bodies" "frame_ok tag" "frame_ok status"
  shows "\<exists>c'. QueryJSON x sql args c = (c', Inr (doc_text ModeArray p bodies)) \<and>
    tx (wr c') = tx (wr c) @ frames (query_messages st args vals) \<and> rx (rd c') = rest \<and>
    lastRows c' = int (length bodies) \<and> ready sql st p c'"
proof -
  let ?b0 = "\<lparr>bw_p = [], bw_rowsHint = RowsHint (cfg c), bw_grew = False\<rparr>"
  obtain c' b where r: "runQueryInner x (BufW ?b0) ModeArray sql args c = (c', BufW b, None)"
    "bw_p b = doc_text ModeArray p bodies" "rx (rd c') = rest" "wr c' = after_send st args vals (wr c)"
    "lastRows c' = int (length bodies)" "ready sql st p c'"
    using runQueryInner_served [OF assms(2-5) _ assms(6-8), of ?b0 ModeArray] by auto
  then show ?thesis by (simp add: QueryJSON_def runQuery_def assms(1) after_send_def)
qed

theorem cached_query_served_witness:
  "\<exists>c'. QueryJSON [] ex_sql [] (ex_client (frames (answer [(MsgBindComplete, [])] (map ex_row [7]) [] []) @ [1, 2]))
     = (c', Inr (doc_text ModeArray ex_plan (map ex_row [7]))) \<and> rx (rd c') = [1, 2]"
proof -
  let ?c = "ex_client (frames (answer [(MsgBindComplete, [])] (map ex_row [7]) [] []) @ [1, 2])"
  have "\<not> ctx_done []" by (simp add: ctx_done_def ask_def)
  from cached_query_served [OF ex_select this ex_ready ex_encodes, of _ "map ex_row [7]" "[]" "[]" "[1, 2]"]
  show ?thesis using ex_rows_sent [of "[7]"] by (auto simp: ex_client_def frame_ok_def)
qed

text \<open>C6. A failed stream poisons the client.  When the consumer of a stream fails on the first row,
  the rest of the answer stays on the connection, and because \<open>BindComplete\<close> is not required, the
  next query on the same client takes those rows for its own answer: a retry of the same statement
  reports success with the first row missing.\<close>

theorem retry_after_failed_stream_loses_rows:
  assumes "rejectNonSelect sql = None" "\<not> ctx_done x" "\<not> ctx_done x'" "ready sql st p c" "encodes (paramOIDs st) args vals"
    and "rx (rd c) = frames (answer [(MsgBindComplete, [])] (body # bodies) tag status) @ rest"
    and "rows_sent p (body # bodies)" "frame_ok tag" "frame_ok status" "accepts w = Some 0"
    and "0 < FlushBytes (cfg c)" "FlushBytes (cfg c) \<le> int (length (91 # row_text ModeArray p body))"
  shows "\<exists>c1 out c2. StreamJSON x ticks w sql args c = (c1, out, Some (EDown DownstreamError)) \<and>
    QueryJSON x' sql args c1 = (c2, Inr (doc_text ModeArray p bodies)) \<and> rx (rd c2) = rest"
proof -
  obtain c1 out where 1:
    "runQueryInner x (newFlushWriter (cfg c) ticks w) ModeArray sql args c = (c1, out, Some (EDown DownstreamError))"
    "rx (rd c1) = frames (answer [] bodies tag status) @ rest" "ready sql st p c1"
    using stream_fails [OF assms(2,4-7,10,11), of ModeArray ticks] assms(12) by (auto simp: header_text_def)
  let ?b0 = "\<lparr>bw_p = [], bw_rowsHint = RowsHint (cfg c1), bw_grew = False\<rparr>"
  have "rows_sent p bodies" using assms(7) by (simp add: rows_sent_def)
  then obtain c2 b where 2: "runQueryInner x' (BufW ?b0) ModeArray sql args c1 = (c2, BufW b, None)"
    "bw_p b = doc_text ModeArray p bodies" "rx (rd c2) = rest"
    using runQueryInner_served [OF assms(3) 1(3) assms(5) 1(2) _ _ assms(8,9), of ?b0 ModeArray] by auto
  show ?thesis
    using 1 2 by (simp add: StreamJSON_def stream_def QueryJSON_def runQuery_def assms(1))
qed

theorem retry_after_failed_stream_loses_rows_witness:
  "\<exists>c1 out c2. StreamJSON [] [] \<lparr>got = [], accepts = Some 0\<rparr> ex_sql []
        (ex_client (frames (answer [(MsgBindComplete, [])] (map ex_row [7, 8]) [] [])))
      = (c1, out, Some (EDown DownstreamError)) \<and>
    QueryJSON [] ex_sql [] c1 = (c2, Inr (doc_text ModeArray ex_plan (map ex_row [8]))) \<and> rx (rd c2) = []"
proof -
  let ?c = "ex_client (frames (answer [(MsgBindComplete, [])] (map ex_row [7, 8]) [] []))"
  have x: "\<not> ctx_done []" by (simp add: ctx_done_def ask_def)
  have r: "rx (rd ?c) = frames (answer [(MsgBindComplete, [])] (ex_row 7 # map ex_row [8]) [] []) @ []"
    by (simp add: ex_client_def)
  have s: "rows_sent ex_plan (ex_row 7 # map ex_row [8])" using ex_rows_sent [of "[7, 8]"] by simp
  show ?thesis
    by (rule retry_after_failed_stream_loses_rows [OF ex_select x x ex_ready ex_encodes r s])
      (simp_all add: frame_ok_def ex_client_def zeroConfig_def)
qed

text \<open>
  How the server's scanner leaves a block comment: comments nest, and \<open>/\<close> right after the opening
  is no end.
\<close>

fun skip_comment :: "nat \<Rightarrow> bytes \<Rightarrow> bytes option" where
  "skip_comment d (c # e # s) =
     (if c = 42 \<and> e = 47 then (case d of 0 \<Rightarrow> Some s | Suc d \<Rightarrow> skip_comment d s)
      else if c = 47 \<and> e = 42 then skip_comment (Suc d) s
      else skip_comment d (e # s))"
| "skip_comment d s = None"

text \<open>C8. The SELECT guard does not hold.  Behind the comment \<open>/*/SELECT*/\<close> any statement at all is
  accepted, since the guard looks for the end of a comment from its first byte on and takes
  \<open>/*/\<close> for a whole comment, while the server sees one comment and then the statement.\<close>

theorem select_guard_bypassed:
  "rejectNonSelect (asc ''/*/SELECT*/'' @ stmt) = None \<and>
   asc ''/*/SELECT*/'' = asc ''/*'' @ asc ''/SELECT*/'' \<and> skip_comment 0 (asc ''/SELECT*/'' @ stmt) = Some stmt"
proof -
  have 1: "trimBlank (asc ''/*/SELECT*/'' @ stmt) = asc ''/*/SELECT*/'' @ stmt"
    by (simp add: trimBlank_def is_blank_def ascii_simps)
  have 2: "strip_line_comments (asc ''/*/SELECT*/'' @ stmt) = asc ''/*/SELECT*/'' @ stmt"
    by (subst strip_line_comments.simps) (simp add: HasPrefix_def ascii_simps)
  have 3: "strip_block_comments (asc ''SELECT*/'' @ stmt) = asc ''SELECT*/'' @ stmt"
    by (subst strip_block_comments.simps) (simp add: HasPrefix_def ascii_simps)
  have "trimBlank (drop (1 + 2) (asc ''/*/SELECT*/'' @ stmt)) = asc ''SELECT*/'' @ stmt"
    by (simp add: trimBlank_def is_blank_def ascii_simps)
  then have 4: "strip_block_comments (asc ''/*/SELECT*/'' @ stmt) = asc ''SELECT*/'' @ stmt"
    using 3 by (subst strip_block_comments.simps) (simp add: HasPrefix_def ascii_simps)
  have "HasPrefix (ToUpper (asc ''SELECT*/'' @ stmt)) (asc ''SELECT'')"
    by (simp add: HasPrefix_def ascii_simps)
  then show ?thesis
    by (simp add: rejectNonSelect_def Let_def 1 2 4 select_keywords_def) (simp add: ascii_simps)
qed

end
