(* ===== verification/Exec.thy ===== *)
theory Exec
  imports Query
begin

text \<open>
  src/pgz/exec.go: statements that return no rows (\<open>Exec\<close>) and DML with RETURNING, which runs on
  the query engine.  \<open>execBind\<close> asks for no result formats and does not expect rows.
\<close>

record ExecResult =
  RowsAffected :: int
  Tag :: bytes

definition no_result :: ExecResult where
  "no_result = \<lparr>RowsAffected = 0, Tag = []\<rparr>"

text \<open>\<open>strings.LastIndexByte(tag, ' ')\<close> and the token after it; \<open>strconv.ParseInt\<close> fails out of range.\<close>

fun LastIndexByte :: "byte \<Rightarrow> bytes \<Rightarrow> nat option" where
  "LastIndexByte d [] = None"
| "LastIndexByte d (c # s) =
     (case LastIndexByte d s of Some i \<Rightarrow> Some (Suc i) | None \<Rightarrow> if c = d then Some 0 else None)"

definition parseRowsAffected :: "bytes \<Rightarrow> int" where
  "parseRowsAffected tag =
     (case LastIndexByte 32 tag of
        None \<Rightarrow> 0
      | Some idx \<Rightarrow> (case Atoi_opt (drop (idx + 1) tag) of None \<Rightarrow> 0 | Some n \<Rightarrow> n))"

section \<open>Prepare\<close>

definition exec_describe_turn ::
  "bytes \<Rightarrow> byte \<Rightarrow> bytes \<Rightarrow> plocals \<Rightarrow> Client \<Rightarrow> Client \<times> (plocals + (err + preparedStmt))"
where
  "exec_describe_turn nm t body l c =
     (if t = MsgParseComplete \<or> t = MsgCloseComplete then (c, Inl l)
      else if t = MsgParameterDescription then (c, Inl (l\<lparr>p_oids := parseParamOIDs body\<rparr>))
      else if t = MsgNoData then (c, Inl (l\<lparr>p_nodata := True\<rparr>))
      else if t = MsgRowDescription then
        (case ParseRowDescription body of Inl e \<Rightarrow> (c, Inr (Inl (EPlan e))) | Inr p \<Rightarrow> (c, Inl (l\<lparr>p_plan := Some p\<rparr>)))
      else if t = MsgErrorResponse then (c, Inl (l\<lparr>p_err := Some (Parse body)\<rparr>))
      else if t = MsgNoticeResponse then (on_notice body c, Inl l)
      else if t = MsgParameterStatus then (on_parameter body c, Inl l)
      else if t = MsgReadyForQuery then
        (case p_err l of
           Some pe \<Rightarrow> (c, Inr (Inl (EPg pe)))
         | None \<Rightarrow>
             if p_nodata l
             then (c, Inr (Inr \<lparr>name = nm, plan = None, resultFmts = [], paramOIDs = p_oids l\<rparr>))
             else (case p_plan l of
                     None \<Rightarrow> (c, Inr (Inl (EMsg ''pgz: exec prepare returned neither NoData nor RowDescription'')))
                   | Some p \<Rightarrow> (c, Inr (Inr (compile_stmt nm p (p_oids l) (cfg c))))))
      else (c, Inr (Inl (EUnexpected t))))"

definition execPrepare :: "bytes \<Rightarrow> Client \<Rightarrow> Client \<times> (err + preparedStmt)" where
  "execPrepare sql c =
     (case send_prepare sql c of
        (nm, c, Some e) \<Rightarrow> (c, Inl e)
      | (nm, c, None) \<Rightarrow> msg_loop (exec_describe_turn nm) (\<lambda>e l c. (c, Inl (EWire e))) no_plocals c)"

section \<open>Execute\<close>

text \<open>\<open>body[:len(body)-1]\<close> panics on an empty body.\<close>

definition complete_tag :: "bytes \<Rightarrow> ExecResult option" where
  "complete_tag body =
     (if body = [] then None else Some \<lparr>RowsAffected = parseRowsAffected (butlast body), Tag = butlast body\<rparr>)"

definition exec_turn ::
  "byte \<Rightarrow> bytes \<Rightarrow> ExecResult \<times> pg_error option \<Rightarrow> Client \<Rightarrow>
   Client \<times> (ExecResult \<times> pg_error option + ExecResult \<times> err option)"
where
  "exec_turn t body l c =
     (case l of (res, pgError) \<Rightarrow>
       if t = MsgBindComplete then (c, Inl (res, pgError))
       else if t = MsgCommandComplete then
         (case complete_tag body of None \<Rightarrow> (c, Inr (res, Some EPanic)) | Some r \<Rightarrow> (c, Inl (r, pgError)))
       else if t = MsgEmptyQueryResponse then (c, Inl (res, pgError))
       else if t = MsgNoticeResponse then (on_notice body c, Inl (res, pgError))
       else if t = MsgParameterStatus then (on_parameter body c, Inl (res, pgError))
       else if t = MsgErrorResponse then (c, Inl (res, Some (Parse body)))
       else if t = MsgReadyForQuery then (c, Inr (res, map_option EPg pgError))
       else (c, Inr (res, Some (EUnexpected t))))"

definition execBind :: "preparedStmt \<Rightarrow> goval list \<Rightarrow> Client \<Rightarrow> Client \<times> ExecResult \<times> err option" where
  "execBind st vals c =
     (case begin_bind st vals c of
        (c, bd, Some e) \<Rightarrow> (c, no_result, Some e)
      | (c, bd, None) \<Rightarrow>
          let c = c\<lparr>wr := Finish bd (b_Int16 0 (wr c))\<rparr> in
          (case flush_wire (put_sync (put_execute c)) of
             (c, Some e) \<Rightarrow> (c, no_result, Some e)
           | (c, None) \<Rightarrow> msg_loop exec_turn (\<lambda>e l c. (c, fst l, Some (EWire e))) (no_result, None) c))"

section \<open>Retries\<close>

fun exec_cached_loop :: "nat \<Rightarrow> bytes \<Rightarrow> goval list \<Rightarrow> Client \<Rightarrow> Client \<times> ExecResult \<times> err option" where
  "exec_cached_loop 0 sql vals c = (c, no_result, None)"
| "exec_cached_loop (Suc n) sql vals c =
     (case obtain_stmt execPrepare sql c of
        (c, Inl e) \<Rightarrow> (c, no_result, Some e)
      | (c, Inr (fromCache, st)) \<Rightarrow>
          (case execBind st vals c of
             (c, res, None) \<Rightarrow> (c, res, None)
           | (c, res, Some e) \<Rightarrow>
               if n = 1 \<and> fromCache \<and> isStaleStmtError e
               then exec_cached_loop n sql vals (c\<lparr>stmts := sc_invalidate sql (stmts c)\<rparr>)
               else (c, res, Some e)))"

definition execCached :: "bytes \<Rightarrow> goval list \<Rightarrow> Client \<Rightarrow> Client \<times> ExecResult \<times> err option" where
  "execCached = exec_cached_loop 2"

function exec_loop :: "nat \<Rightarrow> ctx \<Rightarrow> bytes \<Rightarrow> goval list \<Rightarrow> Client \<Rightarrow> Client \<times> ExecResult \<times> err option" where
  "exec_loop attempt x sql vals c =
     (case execCached sql vals c of
        (c, res, None) \<Rightarrow> (c, res, None)
      | (c, res, Some e) \<Rightarrow>
          if \<not> RetryOnSerialization (cfg c) then (c, res, Some e)
          else if maxRetries \<le> attempt + 1 \<or> \<not> isRetryableSerialization e then (c, res, Some e)
          else if ctx_done x then (c, res, Some e)
          else if ctx_done (tl x) then (c, res, Some e)
          else exec_loop (attempt + 1) (tl (tl x)) sql vals c)"
  by pat_completeness auto
termination
  by (relation "measure (\<lambda>(attempt, _). maxRetries - attempt)") auto

declare exec_loop.simps [simp del]

definition Exec :: "ctx \<Rightarrow> bytes \<Rightarrow> goval list \<Rightarrow> Client \<Rightarrow> Client \<times> ExecResult \<times> err option" where
  "Exec x sql vals c =
     (let c = observe (OnQueryStart sql) c in
      case (case attachContext x of
              (x, Some e) \<Rightarrow> (c, no_result, Some e)
            | (x, None) \<Rightarrow> exec_loop 0 x sql vals c) of
        (c, res, e) \<Rightarrow> (case since c of (dur, c) \<Rightarrow> (recordEnd sql 0 0 dur e c, res, e)))"

section \<open>RETURNING\<close>

definition ExecReturning ::
  "ctx \<Rightarrow> bool list \<Rightarrow> sink \<Rightarrow> bytes \<Rightarrow> goval list \<Rightarrow> Client \<Rightarrow> Client \<times> outWriter \<times> err option"
where
  "ExecReturning x ticks w sql vals c = runQueryInner x (newFlushWriter (cfg c) ticks w) ModeNDJSON sql vals c"

definition ExecReturningJSON :: "ctx \<Rightarrow> bytes \<Rightarrow> goval list \<Rightarrow> Client \<Rightarrow> Client \<times> (err + bytes)" where
  "ExecReturningJSON x sql vals c =
     (case runQueryInner x (BufW \<lparr>bw_p = [], bw_rowsHint = RowsHint (cfg c), bw_grew = False\<rparr>) ModeNDJSON sql vals c of
        (c, out, Some e) \<Rightarrow> (c, Inl e)
      | (c, out, None) \<Rightarrow> (c, Inr (Buf out)))"

end
