(* ===== verification/Iter.thy ===== *)
theory Iter
  imports Query
begin

text \<open>
  src/pgz/iter.go: the iterator over the rows of one query.  The Go iterator points to its client
  and its statement; here the client is threaded through, and a plan replaced by the server is
  written to the cache entry of the statement, found by its name (\<open>sc_set_plan\<close>).  Releasing the
  context has no effect that the model sees.
\<close>

record Iterator =
  it_st :: preparedStmt
  it_plan :: "Plan option"
  bound :: bool
  it_done :: bool
  it_err :: "err option"
  it_pgErr :: "pg_error option"
  rowCount :: nat

definition sc_set_plan :: "bytes \<Rightarrow> Plan \<Rightarrow> stmtCache \<Rightarrow> stmtCache" where
  "sc_set_plan nm p sc =
     sc\<lparr>byKey := map (\<lambda>(k, v). if name v = nm then (k, v\<lparr>plan := Some p\<rparr>) else (k, v)) (byKey sc)\<rparr>"

definition newIterator :: "preparedStmt \<Rightarrow> Iterator" where
  "newIterator st =
     \<lparr>it_st = st, it_plan = plan st, bound = False, it_done = False, it_err = None, it_pgErr = None, rowCount = 0\<rparr>"

text \<open>\<open>it.st.plan = newPlan; it.plan = newPlan\<close>.\<close>

definition set_plan :: "Plan \<Rightarrow> Iterator \<Rightarrow> Client \<Rightarrow> Client \<times> Iterator" where
  "set_plan p it c =
     (c\<lparr>stmts := sc_set_plan (name (it_st it)) p (stmts c)\<rparr>,
      it\<lparr>it_st := (it_st it)\<lparr>plan := Some p\<rparr>, it_plan := Some p\<rparr>)"

section \<open>Draining\<close>

definition drain_turn :: "byte \<Rightarrow> bytes \<Rightarrow> Iterator \<Rightarrow> Client \<Rightarrow> Client \<times> (Iterator + Iterator \<times> err option)" where
  "drain_turn t body it c =
     (if t = MsgReadyForQuery then (c, Inr (it\<lparr>it_done := True\<rparr>, map_option EPg (it_pgErr it)))
      else if t = MsgErrorResponse then (c, Inl (it\<lparr>it_pgErr := Some (Parse body)\<rparr>))
      else if t = MsgParameterStatus then (on_parameter body c, Inl it)
      else if t = MsgNoticeResponse then (on_notice body c, Inl it)
      else (c, Inl it))"

definition drain_failed :: "wire_error \<Rightarrow> Iterator \<Rightarrow> Client \<Rightarrow> Client \<times> Iterator \<times> err option" where
  "drain_failed e it c = (c, it\<lparr>it_err := Some (EWire e), it_done := True\<rparr>, Some (EWire e))"

definition drainUntilReady :: "Iterator \<Rightarrow> Client \<Rightarrow> Client \<times> Iterator \<times> err option" where
  "drainUntilReady it c = msg_loop drain_turn drain_failed it c"

section \<open>Starting\<close>

definition bind_turn :: "byte \<Rightarrow> bytes \<Rightarrow> Iterator \<Rightarrow> Client \<Rightarrow> Client \<times> (Iterator + Iterator \<times> err option)" where
  "bind_turn t body it c =
     (if t = MsgBindComplete then (c, Inr (it\<lparr>bound := True\<rparr>, None))
      else if t = MsgRowDescription then
        (case ParseRowDescriptionForFormats body (resultFmts (it_st it)) of
           Inl e \<Rightarrow> (c, Inr (it, Some (EPlan e)))
         | Inr p \<Rightarrow> (case set_plan p it c of (c, it) \<Rightarrow> (c, Inl it)))
      else if t = MsgParameterStatus then (on_parameter body c, Inl it)
      else if t = MsgNoticeResponse then (on_notice body c, Inl it)
      else if t = MsgErrorResponse then
        (let it = it\<lparr>it_pgErr := Some (Parse body)\<rparr> in
         case drainUntilReady it c of
           (c, it, Some (EPg pe)) \<Rightarrow> (c, Inr (it, Some (EPg pe)))
         | (c, it, Some e) \<Rightarrow> (c, Inr (it, Some e))
         | (c, it, None) \<Rightarrow> (c, Inr (it, map_option EPg (it_pgErr it))))
      else (c, Inr (it, Some (EUnexpected t))))"

text \<open>The loop runs while BindComplete has not been seen.\<close>

definition startRawExecute :: "preparedStmt \<Rightarrow> goval list \<Rightarrow> Client \<Rightarrow> Client \<times> Iterator \<times> err option" where
  "startRawExecute st vals c =
     (case begin_bind st vals c of
        (c, bd, Some e) \<Rightarrow> (c, newIterator st, Some e)
      | (c, bd, None) \<Rightarrow>
          let c = c\<lparr>wr := Finish bd (write_result_formats (resultFmts st) (wr c))\<rparr> in
          (case flush_wire (put_sync (put_execute c)) of
             (c, Some e) \<Rightarrow> (c, newIterator st, Some e)
           | (c, None) \<Rightarrow> msg_loop bind_turn (\<lambda>e it c. (c, it, Some (EWire e))) (newIterator st) c))"

fun raw_loop :: "nat \<Rightarrow> bytes \<Rightarrow> goval list \<Rightarrow> Client \<Rightarrow> Client \<times> (err + Iterator)" where
  "raw_loop 0 sql vals c = (c, Inl EPanic)"
| "raw_loop (Suc n) sql vals c =
     (case obtain_stmt prepareAndDescribe sql c of
        (c, Inl e) \<Rightarrow> (c, Inl e)
      | (c, Inr (fromCache, st)) \<Rightarrow>
          (case startRawExecute st vals c of
             (c, it, None) \<Rightarrow> (c, Inr it)
           | (c, it, Some e) \<Rightarrow>
               if n = 1 \<and> fromCache \<and> isStaleStmtError e
               then raw_loop n sql vals (c\<lparr>stmts := sc_invalidate sql (stmts c)\<rparr>)
               else (c, Inl e)))"

definition RawQueryAny :: "ctx \<Rightarrow> bytes \<Rightarrow> goval list \<Rightarrow> Client \<Rightarrow> Client \<times> (err + Iterator)" where
  "RawQueryAny x sql vals c =
     (case attachContext x of
        (_, Some e) \<Rightarrow> (c, Inl e)
      | (_, None) \<Rightarrow> raw_loop 2 sql vals c)"

definition RawQuery :: "ctx \<Rightarrow> bytes \<Rightarrow> goval list \<Rightarrow> Client \<Rightarrow> Client \<times> (err + Iterator)" where
  "RawQuery x sql vals c =
     (case rejectNonSelect sql of
        Some e \<Rightarrow> (c, Inl e)
      | None \<Rightarrow> RawQueryAny x sql vals c)"

section \<open>Iterating\<close>

definition PlanOf :: "Iterator \<Rightarrow> Plan option" where
  "PlanOf it = it_plan it"

definition next_turn :: "byte \<Rightarrow> bytes \<Rightarrow> Iterator \<Rightarrow> Client \<Rightarrow> Client \<times> (Iterator + Iterator \<times> (err + bytes))" where
  "next_turn t body it c =
     (if t = MsgDataRow then (c, Inr (it\<lparr>rowCount := rowCount it + 1\<rparr>, Inr body))
      else if t = MsgCommandComplete \<or> t = MsgEmptyQueryResponse \<or> t = MsgPortalSuspended \<or> t = MsgCloseComplete
      then (c, Inl it)
      else if t = MsgRowDescription then
        (case ParseRowDescriptionForFormats body (resultFmts (it_st it)) of
           Inl e \<Rightarrow> (c, Inr (it\<lparr>it_err := Some (EPlan e)\<rparr>, Inl (EPlan e)))
         | Inr p \<Rightarrow> (case set_plan p it c of (c, it) \<Rightarrow> (c, Inl it)))
      else if t = MsgParameterStatus then (on_parameter body c, Inl it)
      else if t = MsgNoticeResponse then (on_notice body c, Inl it)
      else if t = MsgErrorResponse then (c, Inl (it\<lparr>it_pgErr := Some (Parse body)\<rparr>))
      else if t = MsgReadyForQuery then
        (let it = it\<lparr>it_done := True\<rparr>; c = c\<lparr>lastRows := int (rowCount it)\<rparr> in
         case it_pgErr it of
           Some pe \<Rightarrow> (c, Inr (it\<lparr>it_err := Some (EPg pe)\<rparr>, Inl (EPg pe)))
         | None \<Rightarrow> (c, Inr (it, Inl EEOF)))
      else (c, Inr (it\<lparr>it_err := Some (EUnexpected t)\<rparr>, Inl (EUnexpected t))))"

definition NextRaw :: "Iterator \<Rightarrow> Client \<Rightarrow> Client \<times> Iterator \<times> (err + bytes)" where
  "NextRaw it c =
     (case it_err it of
        Some e \<Rightarrow> (c, it, Inl e)
      | None \<Rightarrow>
          if it_done it then (c, it, Inl EEOF)
          else msg_loop next_turn (\<lambda>e it c. (c, it\<lparr>it_err := Some (EWire e)\<rparr>, Inl (EWire e))) it c)"

text \<open>\<open>Close\<close>: cancel what is still running, drain, and forgive the error the cancel caused.\<close>

definition iter_Close :: "Iterator \<Rightarrow> Client \<Rightarrow> Client \<times> Iterator \<times> err option" where
  "iter_Close it c =
     (if it_done it then (c, it, None)
      else
        let userCanceled = (pid c \<noteq> 0); c = (if userCanceled then fst (SendCancel c) else c) in
        (case drainUntilReady it c of
           (c, it, e) \<Rightarrow>
             (c, it, (case e of Some e \<Rightarrow> if userCanceled \<and> has_code [asc ''57014''] e then None else Some e | None \<Rightarrow> None))))"

end
