(* ===== verification/Pool.thy ===== *)
theory Pool
  imports Args Config Output "HOL-Library.Multiset"
begin

text \<open>
  src/pgz/pool/pool.go: the connection pool.  A critical section of the code (what runs between
  \<^verbatim>\<open>p.mu.Lock\<close> and \<^verbatim>\<open>p.mu.Unlock\<close>) is a function on the record \<open>Pool\<close>.  The goroutines are the
  items of a multiset, each at the place where it goes on next; a step takes one item through one
  critical section, channel operation or answer of the environment, in any order, so a run is any
  interleaving.  A client is a number: the pool only opens it, pings it and closes it.  Sent
  messages that were not received yet are items too; a channel holds one of them.
\<close>

section \<open>Configuration\<close>

record pool_config = config +
  MaxConns :: int
  MinIdle :: int
  IdleTimeout :: int
  AcquireTimeout :: int
  HealthCheck :: int
  PingAfterIdle :: int
  MaxConnLifetime :: int
  MaxInFlightBuffers :: int

text \<open>\<open>applyDefaults\<close>, with the buffer pool whose cap it sets.\<close>

definition pool_applyDefaults :: "pool_config \<Rightarrow> buf_pool \<Rightarrow> pool_config \<times> buf_pool" where
  "pool_applyDefaults c b =
     (let c = (if MaxConns c \<le> 0 then c\<lparr>MaxConns := 16\<rparr> else c);
          c = (if IdleTimeout c \<le> 0 then c\<lparr>IdleTimeout := 300 * Second\<rparr> else c);
          c = (if HealthCheck c \<le> 0 then c\<lparr>HealthCheck := 30 * Second\<rparr> else c);
          c = (if PingAfterIdle c = 0 then c\<lparr>PingAfterIdle := 30 * Second\<rparr> else c);
          c = (if MaxConnLifetime c = 0 then c\<lparr>MaxConnLifetime := 3600 * Second\<rparr> else c)
      in (c, if 0 < MaxInFlightBuffers c then SetMaxLive (MaxInFlightBuffers c) b else b))"

section \<open>State\<close>

text \<open>Times are nanoseconds since the Unix epoch; \<open>time.Time\{\}\<close> is the start of the year 1.\<close>

definition zeroTime :: int where "zeroTime = - 62135596800 * Second"

record entry =
  e_conn :: nat
  lastUsed :: int
  bornAt :: int

record Pool =
  pcfg :: pool_config
  p_idle :: "entry list"
  p_open :: int
  p_inUse :: int
  p_closed :: bool
  p_draining :: bool
  p_waiters :: "nat list"

datatype acq_error = ErrClosed | OpenFailed | CtxErr | RetriesExhausted

text \<open>What the goroutine that called \<open>discard()\<close> does afterwards.\<close>

datatype cont = Return | Retry nat | Fail acq_error

datatype item =
    Acq nat
  | Opening nat
  | Waiting nat nat
  | Granted nat entry
  | Obtained nat entry
  | Conn entry bool
  | Discarding cont
  | Discarded cont
  | PutClosed
  | Sending nat "entry option"
  | Mail nat "entry option"
  | Replacing nat
  | ReplFailed
  | Draining1 nat "nat list"
  | Draining2 "nat list"
  | CondWait bool bool
  | Drained
  | Closing "nat list" "entry list"
  | Failed acq_error

record world =
  pool :: Pool
  soup :: "item multiset"
  conns :: "nat set"
  next_conn :: nat
  next_ch :: nat
  clock :: int

section \<open>Critical sections\<close>

datatype acq_result = AClosed | AIdle entry | AOpen | AWait

text \<open>\<open>acquireOnce\<close>; \<open>w\<close> is the channel it makes.\<close>

definition acquireOnce :: "nat \<Rightarrow> Pool \<Rightarrow> Pool \<times> acq_result" where
  "acquireOnce w p =
     (if p_closed p \<or> p_draining p then (p, AClosed)
      else if p_idle p \<noteq> [] then
        (p\<lparr>p_idle := butlast (p_idle p), p_inUse := p_inUse p + 1\<rparr>, AIdle (last (p_idle p)))
      else if p_open p < MaxConns (pcfg p) then
        (p\<lparr>p_open := p_open p + 1, p_inUse := p_inUse p + 1\<rparr>, AOpen)
      else (p\<lparr>p_waiters := p_waiters p @ [w]\<rparr>, AWait))"

definition inUse_add :: "int \<Rightarrow> Pool \<Rightarrow> Pool" where
  "inUse_add d p = p\<lparr>p_inUse := p_inUse p + d\<rparr>"

definition open_add :: "int \<Rightarrow> Pool \<Rightarrow> Pool" where
  "open_add d p = p\<lparr>p_open := p_open p + d\<rparr>"

definition cancel_wait :: "nat \<Rightarrow> Pool \<Rightarrow> Pool" where
  "cancel_wait w p = p\<lparr>p_waiters := remove1 w (p_waiters p)\<rparr>"

text \<open>\<open>Acquire\<close>: is the connection past its lifetime, and is a ping due?\<close>

definition expired :: "int \<Rightarrow> entry \<Rightarrow> pool_config \<Rightarrow> bool" where
  "expired t e c \<longleftrightarrow> 0 < MaxConnLifetime c \<and> MaxConnLifetime c < Time_Sub t (bornAt e)"

definition ping_due :: "int \<Rightarrow> entry \<Rightarrow> pool_config \<Rightarrow> bool" where
  "ping_due t e c \<longleftrightarrow> 0 < PingAfterIdle c \<and> PingAfterIdle c < Time_Sub t (lastUsed e)"

datatype put_result = PClose | PSend nat | PIdle

definition put :: "entry \<Rightarrow> Pool \<Rightarrow> Pool \<times> put_result" where
  "put e p =
     (let p = inUse_add (- 1) p in
      if p_closed p \<or> p_draining p then (p, PClose)
      else case p_waiters p of
             w # ws \<Rightarrow> (p\<lparr>p_waiters := ws\<rparr>, PSend w)
           | [] \<Rightarrow> (p\<lparr>p_idle := p_idle p @ [e]\<rparr>, PIdle))"

definition discard :: "Pool \<Rightarrow> Pool \<times> nat option" where
  "discard p =
     (let p = open_add (- 1) p in
      case p_waiters p of
        w # ws \<Rightarrow> (p\<lparr>p_waiters := ws\<rparr>, Some w)
      | [] \<Rightarrow> (p, None))"

definition replaced :: "Pool \<Rightarrow> Pool \<times> bool" where
  "replaced p = (if p_closed p then (p, False) else (open_add 1 p, True))"

definition not_replaced :: "Pool \<Rightarrow> Pool" where
  "not_replaced p = (if p_closed p then p else open_add (- 1) p)"

definition Drain_start :: "Pool \<Rightarrow> (Pool \<times> entry list \<times> nat list) option" where
  "Drain_start p =
     (if p_closed p then None
      else Some (p\<lparr>p_draining := True, p_idle := [], p_waiters := []\<rparr>, p_idle p, p_waiters p))"

definition Close_start :: "Pool \<Rightarrow> (Pool \<times> entry list \<times> nat list) option" where
  "Close_start p =
     (if p_closed p then None
      else Some (p\<lparr>p_closed := True, p_idle := [], p_waiters := []\<rparr>, p_idle p, p_waiters p))"

text \<open>The loop of \<open>evictIdle\<close>: the entries kept, and the ones dropped.\<close>

fun evict_loop :: "int \<Rightarrow> int \<Rightarrow> entry list \<Rightarrow> entry list \<Rightarrow> entry list \<Rightarrow> entry list \<times> entry list" where
  "evict_loop cutoff minIdle keep dropped [] = (keep, dropped)"
| "evict_loop cutoff minIdle keep dropped (e # es) =
     (if lastUsed e < cutoff \<and> minIdle < int (length keep) + 1
      then evict_loop cutoff minIdle keep (dropped @ [e]) es
      else evict_loop cutoff minIdle (keep @ [e]) dropped es)"

definition evictIdle :: "int \<Rightarrow> Pool \<Rightarrow> Pool \<times> entry list" where
  "evictIdle t p =
     (case evict_loop (t - IdleTimeout (pcfg p)) (MinIdle (pcfg p)) [] [] (p_idle p) of
        (keep, dropped) \<Rightarrow> (p\<lparr>p_idle := keep, p_open := p_open p - int (length dropped)\<rparr>, dropped))"

record pool_stats =
  sOpen :: int
  sIdle :: int
  sInUse :: int
  sWaiting :: int
  sMax :: int

definition pool_Stats :: "Pool \<Rightarrow> pool_stats" where
  "pool_Stats p =
     \<lparr>sOpen = p_open p, sIdle = int (length (p_idle p)), sInUse = p_inUse p, sWaiting = int (length (p_waiters p)),
      sMax = MaxConns (pcfg p)\<rparr>"

section \<open>Starting a pool\<close>

text \<open>Each connection to open succeeds at some time, or fails; \<open>New\<close> closes what it had opened then.\<close>

fun open_min :: "int option list \<Rightarrow> nat \<Rightarrow> nat \<Rightarrow> Pool \<Rightarrow> Pool option" where
  "open_min ts 0 i p = Some p"
| "open_min [] (Suc n) i p = None"
| "open_min (None # ts) (Suc n) i p = None"
| "open_min (Some t # ts) (Suc n) i p =
     open_min ts n (i + 1)
       (p\<lparr>p_idle := p_idle p @ [\<lparr>e_conn = i, lastUsed = t, bornAt = t\<rparr>], p_open := p_open p + 1\<rparr>)"

definition New :: "int option list \<Rightarrow> int \<Rightarrow> buf_pool \<Rightarrow> pool_config \<Rightarrow> world option" where
  "New ts t b c =
     (let c = fst (pool_applyDefaults c b);
          p = \<lparr>pcfg = c, p_idle = [], p_open = 0, p_inUse = 0, p_closed = False, p_draining = False, p_waiters = []\<rparr> in
      case open_min ts (nat (MinIdle c)) 0 p of
        None \<Rightarrow> None
      | Some p \<Rightarrow>
          Some \<lparr>pool = p, soup = {#}, conns = set (map e_conn (p_idle p)), next_conn = nat (MinIdle c),
                next_ch = 0, clock = t\<rparr>)"

section \<open>Runs\<close>

definition become :: "item \<Rightarrow> item list \<Rightarrow> world \<Rightarrow> world" where
  "become x ys s = s\<lparr>soup := soup s - {#x#} + mset ys\<rparr>"

text \<open>\<open>p.idleCond.Broadcast()\<close> once nothing is in use: the goroutines asleep look again.\<close>

fun wake :: "item \<Rightarrow> item" where
  "wake (CondWait d awake) = CondWait d True"
| "wake x = x"

definition broadcast :: "bool \<Rightarrow> world \<Rightarrow> world" where
  "broadcast b s = (if b then s\<lparr>soup := image_mset wake (soup s)\<rparr> else s)"

definition with_pool :: "Pool \<Rightarrow> world \<Rightarrow> world" where
  "with_pool p s = s\<lparr>pool := p\<rparr>"

definition shut :: "entry list \<Rightarrow> world \<Rightarrow> world" where
  "shut es s = s\<lparr>conns := conns s - set (map e_conn es)\<rparr>"

definition dial :: "world \<Rightarrow> world" where
  "dial s = s\<lparr>conns := insert (next_conn s) (conns s), next_conn := next_conn s + 1\<rparr>"

definition new_entry :: "int \<Rightarrow> world \<Rightarrow> entry" where
  "new_entry t s = \<lparr>e_conn = next_conn s, lastUsed = clock s, bornAt = t\<rparr>"

fun goes_on :: "cont \<Rightarrow> item list" where
  "goes_on Return = []"
| "goes_on (Retry r) = [if r < 3 then Acq r else Failed RetriesExhausted]"
| "goes_on (Fail e) = [Failed e]"

fun acq_item :: "nat \<Rightarrow> nat \<Rightarrow> acq_result \<Rightarrow> item" where
  "acq_item r w AClosed = Failed ErrClosed"
| "acq_item r w (AIdle e) = Obtained r e"
| "acq_item r w AOpen = Opening r"
| "acq_item r w AWait = Waiting r w"

fun wake_cond :: "bool \<Rightarrow> Pool \<Rightarrow> bool" where
  "wake_cond True p = (p_inUse p \<le> 0)"
| "wake_cond False p = (p_inUse p \<le> 0 \<or> p_closed p)"

datatype event =
    EvAcquire | EvLock | EvOpened | EvOpenFailed | EvReceive | EvCancel | EvGranted | EvCheck bool
  | EvRelease | EvDiscard | EvGiveBack | EvDiscardLock | EvPutClosed | EvSend | EvReplaced | EvReplaceFailed
  | EvReplFailed | EvDrain | EvDrain1 | EvDrain2 | EvWaitIdle | EvLook | EvExpire | EvClose | EvClosing
  | EvEvict | EvTick

text \<open>\<open>Acquire\<close> up to the connection it hands out.\<close>

inductive pstep :: "world \<Rightarrow> event \<Rightarrow> world \<Rightarrow> bool" where
  acquire: "pstep s EvAcquire (s\<lparr>soup := add_mset (Acq 0) (soup s)\<rparr>)"
| lock: "Acq r \<in># soup s \<Longrightarrow> acquireOnce (next_ch s) (pool s) = (p, a) \<Longrightarrow>
    pstep s EvLock ((become (Acq r) [acq_item r (next_ch s) a] (with_pool p s))\<lparr>next_ch := next_ch s + 1\<rparr>)"
| opened: "Opening r \<in># soup s \<Longrightarrow>
    pstep s EvOpened (dial (become (Opening r) [Obtained r (new_entry (clock s) s)] s))"
| open_failed: "Opening r \<in># soup s \<Longrightarrow>
    pstep s EvOpenFailed (become (Opening r) [Discarded (Fail OpenFailed)] (with_pool (inUse_add (- 1) (pool s)) s))"
| receive: "Waiting r w \<in># soup s \<Longrightarrow> Mail w x \<in># soup s \<Longrightarrow>
    pstep s EvReceive (become (Mail w x) [] (become (Waiting r w)
      [case x of None \<Rightarrow> Failed ErrClosed | Some e \<Rightarrow> Granted r e] s))"
| cancel: "Waiting r w \<in># soup s \<Longrightarrow>
    pstep s EvCancel (become (Waiting r w) [Failed CtxErr] (with_pool (cancel_wait w (pool s)) s))"
| granted: "Granted r e \<in># soup s \<Longrightarrow>
    pstep s EvGranted (become (Granted r e) [Obtained r e] (with_pool (inUse_add 1 (pool s)) s))"
| check_ok: "Obtained r e \<in># soup s \<Longrightarrow> \<not> expired (clock s) e (pcfg (pool s)) \<Longrightarrow>
    ping_due (clock s) e (pcfg (pool s)) \<longrightarrow> ping \<Longrightarrow> pstep s (EvCheck ping) (become (Obtained r e) [Conn e False] s)"
| check_bad: "Obtained r e \<in># soup s \<Longrightarrow>
    expired (clock s) e (pcfg (pool s)) \<or> ping_due (clock s) e (pcfg (pool s)) \<and> \<not> ping \<Longrightarrow>
    pstep s (EvCheck ping) (shut [e] (become (Obtained r e) [Discarding (Retry (r + 1))] s))"
| release: "Conn e False \<in># soup s \<Longrightarrow> put (e\<lparr>lastUsed := clock s\<rparr>) (pool s) = (p, a) \<Longrightarrow>
    pstep s EvRelease (broadcast (p_inUse p = 0) (case a of
      PIdle \<Rightarrow> become (Conn e False) [Conn e True] (with_pool p s)
    | PSend w \<Rightarrow> become (Conn e False) [Conn e True, Sending w (Some (e\<lparr>lastUsed := clock s\<rparr>))] (with_pool p s)
    | PClose \<Rightarrow> shut [e] (become (Conn e False) [Conn e True, PutClosed] (with_pool p s))))"
| release_done: "Conn e True \<in># soup s \<Longrightarrow> pstep s EvRelease s"
| discard: "Conn e False \<in># soup s \<Longrightarrow>
    pstep s EvDiscard (shut [e] (become (Conn e False) [Conn e True, Discarding Return] s))"
| discard_done: "Conn e True \<in># soup s \<Longrightarrow> pstep s EvDiscard s"
| give_back: "Discarding k \<in># soup s \<Longrightarrow> p = inUse_add (- 1) (pool s) \<Longrightarrow>
    pstep s EvGiveBack (broadcast (p_inUse p = 0) (become (Discarding k) [Discarded k] (with_pool p s)))"
| discarded: "Discarded k \<in># soup s \<Longrightarrow> discard (pool s) = (p, w) \<Longrightarrow>
    pstep s EvDiscardLock (become (Discarded k)
      (goes_on k @ (case w of None \<Rightarrow> [] | Some w \<Rightarrow> [Replacing w])) (with_pool p s))"
| put_closed: "PutClosed \<in># soup s \<Longrightarrow>
    pstep s EvPutClosed (become PutClosed [] (with_pool (open_add (- 1) (pool s)) s))"
| send: "Sending w x \<in># soup s \<Longrightarrow> \<forall>y. Mail w y \<notin># soup s \<Longrightarrow> pstep s EvSend (become (Sending w x) [Mail w x] s)"
| replaced: "Replacing w \<in># soup s \<Longrightarrow> replaced (pool s) = (p, b) \<Longrightarrow>
    pstep s EvReplaced
      (if b then dial (become (Replacing w) [Sending w (Some (new_entry zeroTime s))] (with_pool p s))
       else become (Replacing w) [Sending w None] s)"
| replace_failed: "Replacing w \<in># soup s \<Longrightarrow> \<forall>y. Mail w y \<notin># soup s \<Longrightarrow>
    pstep s EvReplaceFailed (become (Replacing w) [Mail w None, ReplFailed] s)"
| repl_failed: "ReplFailed \<in># soup s \<Longrightarrow>
    pstep s EvReplFailed (become ReplFailed [] (with_pool (not_replaced (pool s)) s))"
| drain: "Drain_start (pool s) = Some (p, es, ws) \<Longrightarrow>
    pstep s EvDrain (shut es ((with_pool p s)\<lparr>soup := add_mset (Draining1 (length es) ws) (soup s)\<rparr>))"
| drain1: "Draining1 n ws \<in># soup s \<Longrightarrow>
    pstep s EvDrain1 (become (Draining1 n ws) [Draining2 ws] (with_pool (open_add (- int n) (pool s)) s))"
| drain2: "Draining2 (w # ws) \<in># soup s \<Longrightarrow> \<forall>y. Mail w y \<notin># soup s \<Longrightarrow>
    pstep s EvDrain2 (become (Draining2 (w # ws)) [Draining2 ws, Mail w None] s)"
| drain2_end: "Draining2 [] \<in># soup s \<Longrightarrow> pstep s EvDrain2 (become (Draining2 []) [CondWait True True] s)"
| wait_idle: "pstep s EvWaitIdle (s\<lparr>soup := add_mset (CondWait False True) (soup s)\<rparr>)"
| look: "CondWait d True \<in># soup s \<Longrightarrow>
    pstep s EvLook (become (CondWait d True) [if wake_cond d (pool s) then Drained else CondWait d False] s)"
| expire: "CondWait d awake \<in># soup s \<Longrightarrow>
    pstep s EvExpire (broadcast True (become (CondWait d awake) [Failed CtxErr] s))"
| close_start: "Close_start (pool s) = Some (p, es, ws) \<Longrightarrow>
    pstep s EvClose (broadcast True ((with_pool p s)\<lparr>soup := add_mset (Closing ws es) (soup s)\<rparr>))"
| closing: "Closing (w # ws) es \<in># soup s \<Longrightarrow> \<forall>y. Mail w y \<notin># soup s \<Longrightarrow>
    pstep s EvClosing (become (Closing (w # ws) es) [Closing ws es, Mail w None] s)"
| closing_end: "Closing [] es \<in># soup s \<Longrightarrow> pstep s EvClosing (shut es (become (Closing [] es) [] s))"
| evict: "evictIdle (clock s) (pool s) = (p, es) \<Longrightarrow> pstep s EvEvict (shut es (with_pool p s))"
| tick: "clock s \<le> t \<Longrightarrow> pstep s EvTick (s\<lparr>clock := t\<rparr>)"

inductive prun :: "world \<Rightarrow> event list \<Rightarrow> world \<Rightarrow> bool" where
  start: "prun s [] s"
| snoc: "prun s es s1 \<Longrightarrow> pstep s1 e s2 \<Longrightarrow> prun s (es @ [e]) s2"

end
