(* ===== verification/PoolSafe.thy ===== *)
theory PoolSafe
  imports Pool
begin

text \<open>
  What every run of the pool keeps: one owner for every open connection, the count of what is in
  use, and a message for everyone who waits.
\<close>

section \<open>What the items stand for\<close>

text \<open>The connections an item owns, the channels it will answer or has answered, the one it waits for.\<close>

fun conns_of :: "item \<Rightarrow> nat multiset" where
  "conns_of (Granted r e) = {#e_conn e#}"
| "conns_of (Obtained r e) = {#e_conn e#}"
| "conns_of (Conn e d) = (if d then {#} else {#e_conn e#})"
| "conns_of (Sending w x) = (case x of None \<Rightarrow> {#} | Some e \<Rightarrow> {#e_conn e#})"
| "conns_of (Mail w x) = (case x of None \<Rightarrow> {#} | Some e \<Rightarrow> {#e_conn e#})"
| "conns_of (Closing ws es) = mset (map e_conn es)"
| "conns_of _ = {#}"

fun chans_of :: "item \<Rightarrow> nat multiset" where
  "chans_of (Sending w x) = {#w#}"
| "chans_of (Mail w x) = {#w#}"
| "chans_of (Replacing w) = {#w#}"
| "chans_of (Draining1 n ws) = mset ws"
| "chans_of (Draining2 ws) = mset ws"
| "chans_of (Closing ws es) = mset ws"
| "chans_of _ = {#}"

fun waits_of :: "item \<Rightarrow> nat multiset" where
  "waits_of (Waiting r w) = {#w#}"
| "waits_of _ = {#}"

fun busy :: "item \<Rightarrow> nat" where
  "busy (Opening r) = 1"
| "busy (Obtained r e) = 1"
| "busy (Conn e d) = (if d then 0 else 1)"
| "busy (Discarding k) = 1"
| "busy _ = 0"

definition sum_of :: "(item \<Rightarrow> 'a::comm_monoid_add) \<Rightarrow> world \<Rightarrow> 'a" where
  "sum_of f s = \<Sum>\<^sub># (image_mset f (soup s))"

definition owned :: "world \<Rightarrow> nat multiset" where
  "owned s = mset (map e_conn (p_idle (pool s))) + sum_of conns_of s"

definition addressed :: "world \<Rightarrow> nat multiset" where
  "addressed s = mset (p_waiters (pool s)) + sum_of chans_of s"

text \<open>Replacing items leaves every sum as the items say.\<close>

lemma wake_measures [simp]:
  "conns_of (wake x) = conns_of x" "chans_of (wake x) = chans_of x" "waits_of (wake x) = waits_of x" "busy (wake x) = busy x"
  by (cases x; simp)+

lemma soup_become: "soup (become x ys s) = soup s - {#x#} + mset ys"
  by (simp add: become_def)

lemma sum_broadcast [simp]:
  "sum_of conns_of (broadcast b s) = sum_of conns_of s" "sum_of chans_of (broadcast b s) = sum_of chans_of s"
  "sum_of waits_of (broadcast b s) = sum_of waits_of s" "sum_of busy (broadcast b s) = sum_of busy s"
  by (simp_all add: sum_of_def broadcast_def multiset.map_comp comp_def)

lemma sum_become:
  assumes "x \<in># soup s"
  shows "sum_of f (become x ys s) + f x = sum_of f s + sum_list (map f ys)"
proof -
  obtain R where "soup s = add_mset x R" using assms by (metis multi_member_split)
  moreover have "\<Sum>\<^sub># (image_mset f (mset ys)) = sum_list (map f ys)"
    by (simp add: sum_mset_sum_list flip: mset_map)
  ultimately show ?thesis by (simp add: sum_of_def become_def ac_simps)
qed

lemma sum_step [simp]:
  "sum_of f (with_pool p s) = sum_of f s" "sum_of f (shut es s) = sum_of f s" "sum_of f (dial s) = sum_of f s"
  "sum_of f (s\<lparr>next_ch := n\<rparr>) = sum_of f s" "sum_of f (s\<lparr>clock := t\<rparr>) = sum_of f s"
  "sum_of f (s\<lparr>soup := add_mset x (soup s)\<rparr>) = sum_of f s + f x"
  "sum_of f ((with_pool p s)\<lparr>soup := add_mset x (soup s)\<rparr>) = sum_of f s + f x"
  by (simp_all add: sum_of_def with_pool_def shut_def dial_def ac_simps)

lemma world_simps [simp]:
  "pool (become x ys s) = pool s" "pool (broadcast b s) = pool s" "pool (with_pool p s) = p"
  "pool (shut es s) = pool s" "pool (dial s) = pool s"
  "conns (become x ys s) = conns s" "conns (broadcast b s) = conns s" "conns (with_pool p s) = conns s"
  "conns (shut es s) = conns s - set (map e_conn es)" "conns (dial s) = insert (next_conn s) (conns s)"
  "next_conn (become x ys s) = next_conn s" "next_conn (broadcast b s) = next_conn s"
  "next_conn (with_pool p s) = next_conn s" "next_conn (shut es s) = next_conn s" "next_conn (dial s) = next_conn s + 1"
  "next_ch (become x ys s) = next_ch s" "next_ch (broadcast b s) = next_ch s"
  "next_ch (with_pool p s) = next_ch s" "next_ch (shut es s) = next_ch s" "next_ch (dial s) = next_ch s"
  "soup (with_pool p s) = soup s" "soup (shut es s) = soup s" "soup (dial s) = soup s"
  "e_conn (new_entry t s) = next_conn s"
  by (simp_all add: become_def broadcast_def with_pool_def shut_def dial_def new_entry_def)

lemma pool_ops [simp]:
  "p_idle (inUse_add d p) = p_idle p" "p_idle (open_add d p) = p_idle p"
  "p_waiters (inUse_add d p) = p_waiters p" "p_waiters (open_add d p) = p_waiters p"
  "p_inUse (inUse_add d p) = p_inUse p + d" "p_inUse (open_add d p) = p_inUse p"
  "p_idle (cancel_wait w p) = p_idle p" "p_inUse (cancel_wait w p) = p_inUse p"
  "p_waiters (cancel_wait w p) = remove1 w (p_waiters p)"
  "p_idle (not_replaced p) = p_idle p" "p_inUse (not_replaced p) = p_inUse p" "p_waiters (not_replaced p) = p_waiters p"
  by (simp_all add: inUse_add_def open_add_def cancel_wait_def not_replaced_def)

section \<open>In use\<close>

text \<open>The counter \<open>inUse\<close> is the number of connections handed out or on the way there and back.\<close>

definition users_ok :: "world \<Rightarrow> bool" where
  "users_ok s \<longleftrightarrow> p_inUse (pool s) = int (sum_of busy s)"

lemma sum_busy_become:
  "x \<in># soup s \<Longrightarrow> int (sum_of busy (become x ys s)) = int (sum_of busy s) + int (sum_list (map busy ys)) - int (busy x)"
  using sum_become [of x s busy ys] by linarith

lemma sum_busy_become':
  "x \<in># soup s \<Longrightarrow> int (sum_of busy (become x ys (with_pool p s))) =
     int (sum_of busy s) + int (sum_list (map busy ys)) - int (busy x)"
  using sum_busy_become [of x "with_pool p s" ys] by simp

lemma evictIdle_inUse: "evictIdle t p = (q, es) \<Longrightarrow> p_inUse q = p_inUse p"
  by (auto simp: evictIdle_def split: prod.splits)

lemma goes_on_busy: "sum_list (map busy (goes_on k)) = 0"
  by (cases k) auto

lemma users_ok_step:
  assumes "pstep s e s'" "users_ok s"
  shows "users_ok s'"
  using assms
proof (induction rule: pstep.induct)
  case (receive r w s x)
  have "sum_of busy (become (Mail w x) [] (become (Waiting r w) [case x of None \<Rightarrow> Failed ErrClosed | Some e \<Rightarrow> Granted r e] s))
      = sum_of busy s"
  proof -
    have m: "Mail w x \<in># soup (become (Waiting r w) [case x of None \<Rightarrow> Failed ErrClosed | Some e \<Rightarrow> Granted r e] s)"
      using receive.hyps by (simp add: soup_become in_diff_count)
    show ?thesis
      using sum_become [OF m, of busy "[]"] sum_become [OF receive.hyps(1), of busy "[case x of None \<Rightarrow> Failed ErrClosed | Some e \<Rightarrow> Granted r e]"]
      by (simp split: option.splits)
  qed
  then show ?case using receive.prems by (simp add: users_ok_def)
qed (auto simp: users_ok_def sum_busy_become sum_busy_become' acquireOnce_def put_def discard_def replaced_def
      Drain_start_def Close_start_def goes_on_busy evictIdle_inUse Let_def
      split: if_splits list.splits option.splits put_result.splits)

section \<open>Owners\<close>

text \<open>Every open connection is owned exactly once, a closed one by nobody.\<close>

definition conns_ok :: "world \<Rightarrow> bool" where
  "conns_ok s \<longleftrightarrow> (\<forall>c. int (count (owned s) c) = (if c \<in> conns s then 1 else 0)) \<and> (\<forall>c\<in>conns s. c < next_conn s)"

lemma count_become:
  "x \<in># soup s \<Longrightarrow> int (count (sum_of f (become x ys s)) c) =
     int (count (sum_of f s) c) + int (count (sum_list (map f ys)) c) - int (count (f x) c)"
  using arg_cong [OF sum_become [of x s f ys], of "\<lambda>M. int (count M c)"] by simp

lemma count_become':
  "x \<in># soup s \<Longrightarrow> int (count (sum_of f (become x ys (with_pool p s))) c) =
     int (count (sum_of f s) c) + int (count (sum_list (map f ys)) c) - int (count (f x) c)"
  using count_become [of x "with_pool p s" f ys c] by simp

lemma int_count_owned:
  "int (count (owned s) c) = int (count (mset (map e_conn (p_idle (pool s)))) c) + int (count (sum_of conns_of s) c)"
  by (simp add: owned_def)

lemma count_image_set:
  "c \<in> f ` set xs \<Longrightarrow> 1 \<le> count (image_mset f (mset xs)) c" "c \<notin> f ` set xs \<Longrightarrow> count (image_mset f (mset xs)) c = 0"
  by (metis (no_types, opaque_lifting) One_nat_def Suc_leI count_greater_zero_iff image_set set_mset_mset mset_map)
     (metis count_inI image_set set_mset_mset mset_map)

lemma receive_count:
  assumes "Waiting r w \<in># soup s" "Mail w x \<in># soup s"
  shows "int (count (sum_of f (become (Mail w x) [] (become (Waiting r w) [y] s))) c) =
    int (count (sum_of f s) c) + int (count (f y) c) - int (count (f (Waiting r w)) c) - int (count (f (Mail w x)) c)"
proof -
  have "Mail w x \<in># soup (become (Waiting r w) [y] s)" using assms by (simp add: soup_become in_diff_count)
  then show ?thesis using assms by (simp add: count_become)
qed

lemma evict_loop_mset:
  "evict_loop k m keep dropped es = (keep', dropped') \<Longrightarrow>
   mset keep' + mset dropped' = mset keep + mset dropped + mset es"
  by (induction k m keep dropped es rule: evict_loop.induct) (auto split: if_splits)

lemma evictIdle_idle:
  "evictIdle t p = (q, es) \<Longrightarrow> mset (p_idle p) = mset (p_idle q) + mset es"
  by (auto simp: evictIdle_def dest: evict_loop_mset split: prod.splits)

lemma goes_on_conns [simp]:
  "sum_list (map conns_of (goes_on k)) = {#}" "sum_list (map chans_of (goes_on k)) = {#}"
  "sum_list (map waits_of (goes_on k)) = {#}"
  by (cases k; simp)+

lemma conns_ok_shut:
  assumes ok: "conns_ok s" and sum: "owned s' + mset (map e_conn es) = owned s"
    and keep: "conns s' = conns s - set (map e_conn es)" "next_conn s' = next_conn s"
  shows "conns_ok s'"
proof -
  have "int (count (owned s') c) = (if c \<in> conns s' then 1 else 0)" for c
  proof -
    have eq: "count (owned s) c = count (owned s') c + count (image_mset e_conn (mset es)) c"
      using sum by (metis count_union mset_map)
    have one: "int (count (owned s) c) = (if c \<in> conns s then 1 else 0)" using ok by (simp add: conns_ok_def)
    show ?thesis
    proof (cases "c \<in> e_conn ` set es")
      case True
      have "count (owned s) c \<le> 1" using one by (simp split: if_splits)
      then have "count (owned s') c = 0" using count_image_set(1) [OF True] eq by linarith
      then show ?thesis using True keep by simp
    next
      case False
      then show ?thesis using count_image_set(2) [OF False] one eq keep by auto
    qed
  qed
  then show ?thesis using ok keep by (auto simp: conns_ok_def)
qed

lemma acquireOnce_cases:
  assumes "acquireOnce w p = (q, a)"
  obtains (closed) "a = AClosed" "q = p"
  | (idle) e es where "p_idle p = es @ [e]" "a = AIdle e" "q = p\<lparr>p_idle := es, p_inUse := p_inUse p + 1\<rparr>"
  | (fresh) "p_idle p = []" "a = AOpen" "q = p\<lparr>p_open := p_open p + 1, p_inUse := p_inUse p + 1\<rparr>"
      "p_open p < MaxConns (pcfg p)"
  | (wait) "p_idle p = []" "a = AWait" "q = p\<lparr>p_waiters := p_waiters p @ [w]\<rparr>"
      "MaxConns (pcfg p) \<le> p_open p"
  using assms by (cases "p_idle p" rule: rev_cases) (auto simp: acquireOnce_def split: if_splits)

lemma become_with_pool: "become x ys (with_pool p s) = with_pool p (become x ys s)"
  by (simp add: become_def with_pool_def)

lemma owned_add: "x \<in># soup s \<Longrightarrow> owned (become x ys s) + conns_of x = owned s + sum_list (map conns_of ys)"
  using sum_become [of x s conns_of ys] by (simp add: owned_def ac_simps)

lemma owned_keep: "x \<in># soup s \<Longrightarrow> sum_list (map conns_of ys) = conns_of x \<Longrightarrow> owned (become x ys s) = owned s"
  using owned_add [of x s ys] by simp

lemma owned_with_pool: "p_idle p = p_idle (pool s) \<Longrightarrow> owned (with_pool p s) = owned s"
  by (simp add: owned_def)

lemma owned_with_pool': "owned (with_pool p s) + mset (map e_conn (p_idle (pool s))) = owned s + mset (map e_conn (p_idle p))"
  by (simp add: owned_def ac_simps)

lemmas owned_simps = become_with_pool owned_keep owned_with_pool

lemma owned_frame [simp]:
  "owned (shut es s) = owned s" "owned (broadcast b s) = owned s" "owned (dial s) = owned s"
  "owned (s\<lparr>next_ch := n\<rparr>) = owned s" "owned (s\<lparr>clock := t\<rparr>) = owned s"
  "owned (s\<lparr>soup := add_mset x (soup s)\<rparr>) = owned s + conns_of x"
  by (simp_all add: owned_def)

lemma put_cases:
  assumes "put e p = (q, a)"
  obtains (shut) "a = PClose" "p_closed p \<or> p_draining p" "q = inUse_add (- 1) p"
  | (hand) w ws where "a = PSend w" "p_waiters p = w # ws" "q = (inUse_add (- 1) p)\<lparr>p_waiters := ws\<rparr>"
      "\<not> p_closed p" "\<not> p_draining p"
  | (keep) "a = PIdle" "q = (inUse_add (- 1) p)\<lparr>p_idle := p_idle p @ [e]\<rparr>" "p_waiters p = []"
      "\<not> p_closed p" "\<not> p_draining p"
proof (cases "p_closed p \<or> p_draining p")
  case True
  then show ?thesis using assms by (intro shut) (auto simp: put_def inUse_add_def Let_def)
next
  case False
  then show ?thesis using assms hand keep
    by (cases "p_waiters p") (auto simp: put_def inUse_add_def Let_def)
qed

lemma conns_ok_same:
  "conns_ok s \<Longrightarrow> owned s' = owned s \<Longrightarrow> conns s' = conns s \<Longrightarrow> next_conn s' = next_conn s \<Longrightarrow> conns_ok s'"
  by (simp add: conns_ok_def)

lemma conns_ok_dial:
  assumes ok: "conns_ok s" and s': "owned s' = add_mset (next_conn s) (owned s)"
    "conns s' = insert (next_conn s) (conns s)" "next_conn s' = next_conn s + 1"
  shows "conns_ok s'"
proof -
  have "next_conn s \<notin> conns s" using ok by (auto simp: conns_ok_def)
  then have "int (count (owned s) (next_conn s)) = 0" using ok by (simp add: conns_ok_def)
  then show ?thesis using ok s' by (auto simp: conns_ok_def not_in_iff less_Suc_eq split: if_splits)
qed

lemma conns_ok_step:
  assumes "pstep s e s'" "conns_ok s"
  shows "conns_ok s'"
  using assms
proof (induction rule: pstep.induct)
  case (lock r s p a)
  from lock.hyps(2) show ?case
  proof (cases rule: acquireOnce_cases)
    case (idle e es)
    have "owned (with_pool p (become (Acq r) [Obtained r e] s)) = owned s"
      using owned_add [OF lock.hyps(1), of "[Obtained r e]"] owned_with_pool' [of p "become (Acq r) [Obtained r e] s"] idle
      by simp
    then show ?thesis by (intro conns_ok_same [OF lock.prems]) (simp_all add: idle become_with_pool)
  qed (rule conns_ok_same [OF lock.prems]; simp add: owned_simps lock.hyps(1))+
next
  case (opened r s)
  show ?case
    by (rule conns_ok_dial [OF opened.prems]) (use owned_add [OF opened.hyps] in simp_all)
next
  case (receive r w s x)
  have m: "Mail w x \<in># soup (become (Waiting r w) [case x of None \<Rightarrow> Failed ErrClosed | Some e \<Rightarrow> Granted r e] s)"
    using receive.hyps by (simp add: soup_become in_diff_count)
  show ?case
    by (rule conns_ok_same [OF receive.prems])
       (use owned_add [OF m, of "[]"] owned_add [OF receive.hyps(1)] in \<open>simp_all split: option.splits\<close>)
next
  case (check_bad r e s ping)
  show ?case
    by (rule conns_ok_shut [OF check_bad.prems, where es = "[e]"])
       (use owned_add [OF check_bad.hyps(1), of "[Discarding (Retry (r + 1))]"] in simp_all)
next
  case (release e s p a)
  from release.hyps(2) show ?case
  proof (cases rule: put_cases)
    case shut
    then show ?thesis
      by (intro conns_ok_shut [OF release.prems, where es = "[e]"])
         (use owned_add [OF release.hyps(1), of "[Conn e True, PutClosed]"] in \<open>simp_all add: owned_simps\<close>)
  next
    case (hand w ws)
    then show ?thesis
      by (intro conns_ok_same [OF release.prems]) (simp_all add: owned_simps release.hyps(1))
  next
    case keep
    then show ?thesis
      by (intro conns_ok_same [OF release.prems])
         (use owned_add [OF release.hyps(1), of "[Conn e True]"] in \<open>simp_all add: become_with_pool owned_def\<close>)
  qed
next
  case (discard e s)
  show ?case
    by (rule conns_ok_shut [OF discard.prems, where es = "[e]"])
       (use owned_add [OF discard.hyps(1), of "[Conn e True, Discarding Return]"] in simp_all)
next
  case (replaced w s p b)
  show ?case
  proof (cases "p_closed (pool s)")
    case True
    then show ?thesis using replaced.hyps
      by (intro conns_ok_same [OF replaced.prems]) (auto simp: replaced_def owned_simps)
  next
    case False
    then show ?thesis using replaced.hyps owned_add [OF replaced.hyps(1), of "[Sending w (Some (new_entry zeroTime s))]"]
      by (intro conns_ok_dial [OF replaced.prems]) (auto simp: replaced_def owned_simps)
  qed
next
  case (drain s p es ws)
  have "owned (shut es ((with_pool p s)\<lparr>soup := add_mset (Draining1 (length es) ws) (soup s)\<rparr>)) + mset (map e_conn es) = owned s"
    using drain.hyps by (auto simp: owned_def Drain_start_def ac_simps split: if_splits)
  then show ?case by (rule conns_ok_shut [OF drain.prems]) simp_all
next
  case (close_start s p es ws)
  then show ?case
    by (intro conns_ok_same [OF close_start.prems]) (auto simp: Close_start_def owned_def split: if_splits)
next
  case (closing_end es s)
  show ?case
    by (rule conns_ok_shut [OF closing_end.prems]) (use owned_add [OF closing_end.hyps(1), of "[]"] in simp_all)
next
  case (evict s p es)
  have "mset (map e_conn (p_idle p)) + mset (map e_conn es) = mset (map e_conn (p_idle (pool s)))"
    using evictIdle_idle [OF evict.hyps] by simp
  then have "owned (shut es (with_pool p s)) + mset (map e_conn es) = owned s" by (simp add: owned_def ac_simps)
  then show ?case by (rule conns_ok_shut [OF evict.prems]) simp_all
next
  case (discarded k s p w)
  then show ?case
    by (intro conns_ok_same [OF discarded.prems])
       (auto simp: owned_simps discard_def Let_def split: list.splits)
qed (erule conns_ok_same; simp add: owned_simps)+

section \<open>Channels\<close>

text \<open>A channel is answered at most once, and everyone who waits on one will be answered.\<close>

definition chans_ok :: "world \<Rightarrow> bool" where
  "chans_ok s \<longleftrightarrow> (\<forall>w. count (addressed s) w \<le> 1) \<and> (\<forall>w\<in>#addressed s. w < next_ch s) \<and>
     sum_of waits_of s \<subseteq># addressed s"

lemma chans_ok_same:
  "chans_ok s \<Longrightarrow> addressed s' = addressed s \<Longrightarrow> sum_of waits_of s' = sum_of waits_of s \<Longrightarrow> next_ch s \<le> next_ch s' \<Longrightarrow>
   chans_ok s'"
  by (auto simp: chans_ok_def)

lemma chans_ok_less:
  assumes "chans_ok s" "addressed s' + A = addressed s" "sum_of waits_of s' \<subseteq># addressed s'" "next_ch s' = next_ch s"
  shows "chans_ok s'"
proof -
  have "count (addressed s') w \<le> count (addressed s) w" for w using assms(2) by (metis count_union le_add1)
  moreover have "set_mset (addressed s') \<subseteq> set_mset (addressed s)" using assms(2) by (metis set_mset_union Un_upper1)
  ultimately show ?thesis using assms by (auto simp: chans_ok_def intro: order_trans)
qed

lemma sum_keep: "x \<in># soup s \<Longrightarrow> sum_list (map f ys) = f x \<Longrightarrow> sum_of f (become x ys s) = (sum_of f s :: 'a :: cancel_comm_monoid_add)"
  using sum_become [of x s f ys] by simp

lemma addressed_add:
  "x \<in># soup s \<Longrightarrow> addressed (become x ys s) + chans_of x = addressed s + sum_list (map chans_of ys)"
  using sum_become [of x s chans_of ys] by (simp add: addressed_def ac_simps)

lemma addressed_keep: "x \<in># soup s \<Longrightarrow> sum_list (map chans_of ys) = chans_of x \<Longrightarrow> addressed (become x ys s) = addressed s"
  using addressed_add [of x s ys] by simp

lemma addressed_with_pool: "p_waiters p = p_waiters (pool s) \<Longrightarrow> addressed (with_pool p s) = addressed s"
  by (simp add: addressed_def)

lemma addressed_with_pool':
  "addressed (with_pool p s) + mset (p_waiters (pool s)) = addressed s + mset (p_waiters p)"
  by (simp add: addressed_def ac_simps)

lemma addressed_frame [simp]:
  "addressed (shut es s) = addressed s" "addressed (broadcast b s) = addressed s" "addressed (dial s) = addressed s"
  "addressed (s\<lparr>next_ch := n\<rparr>) = addressed s" "addressed (s\<lparr>clock := t\<rparr>) = addressed s"
  "addressed (s\<lparr>soup := add_mset x (soup s)\<rparr>) = addressed s + chans_of x"
  by (simp_all add: addressed_def)

lemmas addressed_simps = become_with_pool addressed_keep addressed_with_pool sum_keep

lemma evictIdle_waiters: "evictIdle t p = (q, es) \<Longrightarrow> p_waiters q = p_waiters p"
  by (auto simp: evictIdle_def split: prod.splits)

lemma chans_ok_step:
  assumes "pstep s e s'" "chans_ok s"
  shows "chans_ok s'"
  using assms
proof (induction rule: pstep.induct)
  case (lock r s p a)
  let ?s = "(become (Acq r) [acq_item r (next_ch s) a] (with_pool p s))\<lparr>next_ch := next_ch s + 1\<rparr>"
  from lock.hyps(2) show ?case
  proof (cases rule: acquireOnce_cases)
    case wait
    have fresh: "count (addressed s) (next_ch s) = 0" using lock.prems by (auto simp: chans_ok_def not_in_iff [symmetric])
    have "addressed ?s = add_mset (next_ch s) (addressed s)"
      using addressed_with_pool' [of p "become (Acq r) [Waiting r (next_ch s)] s"] wait lock.hyps(1)
      by (simp add: addressed_simps)
    moreover have "sum_of waits_of ?s = add_mset (next_ch s) (sum_of waits_of s)"
      using sum_become [OF lock.hyps(1), of waits_of "[Waiting r (next_ch s)]"] wait by (simp add: become_with_pool)
    ultimately show ?thesis using lock.prems fresh by (auto simp: chans_ok_def less_Suc_eq)
  qed (rule chans_ok_same [OF lock.prems]; simp add: addressed_simps lock.hyps(1))+
next
  case (receive r w s x)
  let ?s = "become (Waiting r w) [case x of None \<Rightarrow> Failed ErrClosed | Some e \<Rightarrow> Granted r e] s"
  have m: "Mail w x \<in># soup ?s" using receive.hyps by (simp add: soup_become in_diff_count)
  have a: "addressed (become (Mail w x) [] ?s) + {#w#} = addressed s"
    using addressed_add [OF m, of "[]"] addressed_keep [OF receive.hyps(1)] by (simp split: option.splits)
  have "sum_of waits_of (become (Mail w x) [] ?s) + {#w#} = sum_of waits_of s"
    using sum_become [OF m, of waits_of "[]"]
      sum_become [OF receive.hyps(1), of waits_of "[case x of None \<Rightarrow> Failed ErrClosed | Some e \<Rightarrow> Granted r e]"]
    by (simp split: option.splits)
  then have "sum_of waits_of (become (Mail w x) [] ?s) \<subseteq># addressed (become (Mail w x) [] ?s)"
    using a receive.prems by (metis chans_ok_def subset_mset.add_le_cancel_right)
  then show ?case by (rule chans_ok_less [OF receive.prems a]) simp
next
  case (cancel r w s)
  let ?s = "become (Waiting r w) [Failed CtxErr] (with_pool (cancel_wait w (pool s)) s)"
  let ?A = "if w \<in> set (p_waiters (pool s)) then {#w#} else {#}"
  have a: "addressed ?s + ?A = addressed s"
    using cancel.hyps addressed_with_pool' [of "cancel_wait w (pool s)" "become (Waiting r w) [Failed CtxErr] s"]
    by (auto simp: addressed_simps addressed_def remove1_idem)
  have "sum_of waits_of ?s + {#w#} = sum_of waits_of s"
    using sum_become [OF cancel.hyps, of waits_of "[Failed CtxErr]"] by (simp add: become_with_pool)
  then have "sum_of waits_of ?s \<subseteq># addressed ?s"
    using a cancel.prems
    by (metis (full_types) add.right_neutral chans_ok_def mset_subset_eq_add_left subset_mset.add_le_cancel_right subset_mset.order_trans)
  then show ?case by (rule chans_ok_less [OF cancel.prems a]) simp
next
  case (release e s p a)
  from release.hyps(2) show ?case
  proof (cases rule: put_cases)
    case shut
    then show ?thesis using release.hyps(1)
      by (intro chans_ok_same [OF release.prems]) (simp_all add: addressed_simps)
  next
    case (hand w ws)
    let ?ys = "[Conn e True, Sending w (Some (e\<lparr>lastUsed := clock s\<rparr>))]"
    have "addressed (with_pool p (become (Conn e False) ?ys s)) = addressed s"
      using addressed_add [OF release.hyps(1), of ?ys] addressed_with_pool' [of p "become (Conn e False) ?ys s"] hand by simp
    then show ?thesis using hand release.hyps(1)
      by (intro chans_ok_same [OF release.prems]) (simp_all add: become_with_pool sum_keep)
  next
    case keep
    then show ?thesis using release.hyps(1)
      by (intro chans_ok_same [OF release.prems]) (simp_all add: addressed_simps)
  qed
next
  case (discarded k s p w)
  let ?ys = "goes_on k @ (case w of None \<Rightarrow> [] | Some w \<Rightarrow> [Replacing w])"
  have "addressed (with_pool p (become (Discarded k) ?ys s)) = addressed s"
    using discarded.hyps addressed_add [OF discarded.hyps(1), of ?ys] addressed_with_pool' [of p "become (Discarded k) ?ys s"]
    by (auto simp: discard_def Let_def split: list.splits)
  then show ?case using discarded.hyps(1)
    by (intro chans_ok_same [OF discarded.prems]) (simp_all add: become_with_pool sum_keep split: option.splits)
next
  case (drain s p es ws)
  then show ?case
    by (intro chans_ok_same [OF drain.prems]) (auto simp: Drain_start_def addressed_def split: if_splits)
next
  case (close_start s p es ws)
  then show ?case
    by (intro chans_ok_same [OF close_start.prems]) (auto simp: Close_start_def addressed_def split: if_splits)
next
  case (evict s p es)
  then show ?case by (intro chans_ok_same [OF evict.prems]) (auto simp: addressed_def dest: evictIdle_waiters)
next
  case (replaced w s p b)
  then show ?case by (intro chans_ok_same [OF replaced.prems]) (auto simp: replaced_def addressed_simps split: if_splits)
qed (erule chans_ok_same; simp add: addressed_simps)+

section \<open>Runs\<close>

lemma open_min_ok:
  "open_min ts n i p = Some q \<Longrightarrow> map e_conn (p_idle p) = [0..<i] \<Longrightarrow> map e_conn (p_idle q) = [0..<i + n] \<and>
     p_waiters q = p_waiters p \<and> p_inUse q = p_inUse p \<and> p_open q = p_open p + int n \<and> pcfg q = pcfg p \<and>
     p_closed q = p_closed p"
  by (induction ts n i p rule: open_min.induct) auto

lemma New_ok:
  assumes "New ts t b c = Some s"
  shows "conns_ok s" "users_ok s" "chans_ok s" "soup s = {#}" "\<not> p_closed (pool s)"
    "p_open (pool s) = int (length (p_idle (pool s)))" "p_open (pool s) = int (nat (MinIdle (pcfg (pool s))))"
proof -
  obtain p where p: "open_min ts (nat (MinIdle (fst (pool_applyDefaults c b)))) 0
      \<lparr>pcfg = fst (pool_applyDefaults c b), p_idle = [], p_open = 0, p_inUse = 0, p_closed = False, p_draining = False, p_waiters = []\<rparr> = Some p"
    and s: "s = \<lparr>pool = p, soup = {#}, conns = set (map e_conn (p_idle p)),
      next_conn = nat (MinIdle (fst (pool_applyDefaults c b))), next_ch = 0, clock = t\<rparr>"
    using assms by (auto simp: New_def Let_def split: option.splits)
  note q = open_min_ok [OF p, simplified]
  have len: "length (p_idle p) = nat (MinIdle (fst (pool_applyDefaults c b)))"
    using arg_cong [OF conjunct1 [OF q], of length] by simp
  have "count (mset [0..<n]) x = (if x < n then 1 else 0)" for n x :: nat
    by (induction n) auto
  then show "conns_ok s" using q s by (auto simp: conns_ok_def owned_def sum_of_def simp flip: mset_map)
  show "users_ok s" "chans_ok s" "soup s = {#}" "\<not> p_closed (pool s)"
    "p_open (pool s) = int (length (p_idle (pool s)))" "p_open (pool s) = int (nat (MinIdle (pcfg (pool s))))"
    using q s len by (auto simp: users_ok_def chans_ok_def addressed_def sum_of_def)
qed

lemma prun_keeps:
  "prun s es s' \<Longrightarrow> conns_ok s \<and> users_ok s \<and> chans_ok s \<Longrightarrow> conns_ok s' \<and> users_ok s' \<and> chans_ok s'"
  by (induction rule: prun.induct) (auto dest: conns_ok_step users_ok_step chans_ok_step)

end
