(* ===== verification/PoolProps.thy ===== *)
theory PoolProps
  imports PoolSafe
begin

text \<open>
  What the pool promises: leases of connections (an abstract machine it refines), answers for who
  waits, an exact count of the open connections and their bound; and runs where it fails to.
\<close>

section \<open>Leases\<close>

record leases =
  avail :: "nat set"
  lent :: "nat set"
  ever :: "nat set"

text \<open>
  A connection is opened once, lent to one user at a time, taken back from the user it was lent to,
  and once it was closed it is never seen again.
\<close>

inductive lease_step :: "leases \<Rightarrow> leases \<Rightarrow> bool" where
  rest: "lease_step l l"
| open_new: "c \<notin> ever l \<Longrightarrow> lease_step l (l\<lparr>avail := insert c (avail l), ever := insert c (ever l)\<rparr>)"
| close_avail: "C \<subseteq> avail l \<Longrightarrow> lease_step l (l\<lparr>avail := avail l - C\<rparr>)"
| lend: "c \<in> avail l \<Longrightarrow> lease_step l (l\<lparr>avail := avail l - {c}, lent := insert c (lent l)\<rparr>)"
| give_back: "c \<in> lent l \<Longrightarrow> lease_step l (l\<lparr>avail := insert c (avail l), lent := lent l - {c}\<rparr>)"
| close_lent: "c \<in> lent l \<Longrightarrow> lease_step l (l\<lparr>lent := lent l - {c}\<rparr>)"

fun lent_item :: "item \<Rightarrow> nat multiset" where
  "lent_item (Conn e d) = (if d then {#} else {#e_conn e#})"
| "lent_item _ = {#}"

definition leases_of :: "world \<Rightarrow> leases" where
  "leases_of s =
     \<lparr>avail = conns s - set_mset (sum_of lent_item s), lent = set_mset (sum_of lent_item s), ever = {..< next_conn s}\<rparr>"

lemma lent_wake [simp]: "lent_item (wake x) = lent_item x"
  by (cases x) simp_all

lemma lent_broadcast [simp]: "sum_of lent_item (broadcast b s) = sum_of lent_item s"
  by (simp add: sum_of_def broadcast_def multiset.map_comp comp_def)

lemma goes_on_lent [simp]: "sum_list (map lent_item (goes_on k)) = {#}"
  by (cases k) simp_all

text \<open>The connections lent are among the ones owned, and no other item owns them.\<close>

fun other_item :: "item \<Rightarrow> nat multiset" where
  "other_item (Conn e d) = {#}"
| "other_item x = conns_of x"

lemma conns_of_split: "conns_of x = lent_item x + other_item x"
  by (cases x) simp_all

lemma sum_conns_split: "sum_of conns_of s = sum_of lent_item s + sum_of other_item s"
proof -
  have "\<Sum>\<^sub># (image_mset conns_of M) = \<Sum>\<^sub># (image_mset lent_item M) + \<Sum>\<^sub># (image_mset other_item M)" for M
    by (induction M) (simp_all add: conns_of_split ac_simps)
  then show ?thesis by (simp add: sum_of_def)
qed

lemma member_sum: "x \<in># soup s \<Longrightarrow> c \<in># f x \<Longrightarrow> c \<in># sum_of f s"
  by (auto simp: sum_of_def)

lemma owned_count: "conns_ok s \<Longrightarrow> count (owned s) c = (if c \<in> conns s then 1 else 0)"
  by (auto simp: conns_ok_def not_in_iff split: if_splits)

lemma owned_once: "conns_ok s \<Longrightarrow> count (owned s) c \<le> 1"
  by (simp add: owned_count)

lemma owned_conns: "conns_ok s \<Longrightarrow> c \<in># owned s \<longleftrightarrow> c \<in> conns s"
  using owned_count [of s c] by (metis count_eq_zero_iff zero_neq_one)

lemma lent_open: "conns_ok s \<Longrightarrow> set_mset (sum_of lent_item s) \<subseteq> conns s"
  using owned_conns by (fastforce simp: owned_def sum_conns_split)

lemma other_not_lent:
  assumes "conns_ok s" "c \<in># mset (map e_conn (p_idle (pool s))) + sum_of other_item s"
  shows "c \<notin># sum_of lent_item s"
proof
  assume "c \<in># sum_of lent_item s"
  then have "0 < count (sum_of lent_item s) c" by simp
  moreover have "1 \<le> count (mset (map e_conn (p_idle (pool s))) + sum_of other_item s) c"
    using assms(2) by (metis One_nat_def Suc_leI count_greater_zero_iff)
  moreover have "count (mset (map e_conn (p_idle (pool s))) + sum_of other_item s) c + count (sum_of lent_item s) c \<le> 1"
    using owned_once [OF assms(1), of c] by (simp add: owned_def sum_conns_split ac_simps)
  ultimately show False by linarith
qed

lemma lent_once: "conns_ok s \<Longrightarrow> count (sum_of lent_item s) c \<le> 1"
  using owned_once [of s c] by (simp add: owned_def sum_conns_split)

lemma leases_same:
  "conns s' = conns s \<Longrightarrow> next_conn s' = next_conn s \<Longrightarrow> sum_of lent_item s' = sum_of lent_item s \<Longrightarrow>
   lease_step (leases_of s) (leases_of s')"
  by (simp add: leases_of_def lease_step.rest)

lemma leases_shut:
  assumes "conns s' = conns s - set (map e_conn es)" "next_conn s' = next_conn s"
    "sum_of lent_item s' = sum_of lent_item s" "set (map e_conn es) \<subseteq> conns s"
    "\<And>c. c \<in> set (map e_conn es) \<Longrightarrow> c \<notin># sum_of lent_item s"
  shows "lease_step (leases_of s) (leases_of s')"
proof -
  have "lease_step (leases_of s) ((leases_of s)\<lparr>avail := avail (leases_of s) - set (map e_conn es)\<rparr>)"
    by (rule lease_step.close_avail) (use assms(4,5) in \<open>auto simp: leases_of_def\<close>)
  moreover have "(leases_of s)\<lparr>avail := avail (leases_of s) - set (map e_conn es)\<rparr> = leases_of s'"
    using assms by (auto simp: leases_of_def)
  ultimately show ?thesis by simp
qed

lemma leases_dial:
  assumes "conns_ok s" "conns s' = insert (next_conn s) (conns s)" "next_conn s' = next_conn s + 1"
    "sum_of lent_item s' = sum_of lent_item s"
  shows "lease_step (leases_of s) (leases_of s')"
proof -
  have "next_conn s \<notin># sum_of lent_item s"
    using lent_open [OF assms(1)] assms(1) by (auto simp: conns_ok_def)
  moreover have "lease_step (leases_of s) ((leases_of s)\<lparr>avail := insert (next_conn s) (avail (leases_of s)),
      ever := insert (next_conn s) (ever (leases_of s))\<rparr>)"
    by (rule lease_step.open_new) (simp add: leases_of_def)
  ultimately show ?thesis using assms
    by (simp add: leases_of_def insert_Diff_if lessThan_Suc)
qed

text \<open>A lent connection is taken back: it stays open or is closed.\<close>

lemma leases_back:
  assumes "conns_ok s" "Conn e False \<in># soup s" "sum_of lent_item s' + {#e_conn e#} = sum_of lent_item s"
    "next_conn s' = next_conn s" "conns s' = conns s \<or> conns s' = conns s - {e_conn e}"
  shows "lease_step (leases_of s) (leases_of s')"
proof -
  let ?c = "e_conn e"
  have mem: "?c \<in># sum_of lent_item s" using assms(2) by (rule member_sum) simp
  have gone: "count (sum_of lent_item s') ?c = 0"
    using lent_once [OF assms(1), of ?c] assms(3) by (metis add.right_neutral add_le_cancel_right count_add_mset count_union le_zero_eq
        count_single plus_1_eq_Suc add.commute add_mset_add_single)
  have set: "set_mset (sum_of lent_item s') = set_mset (sum_of lent_item s) - {?c}"
    using gone assms(3) by (metis Diff_insert_absorb add_mset_add_single not_in_iff set_mset_add_mset_insert)
  have here: "?c \<in> conns s" using mem lent_open [OF assms(1)] by auto
  show ?thesis
  proof (cases "conns s' = conns s")
    case True
    have "lease_step (leases_of s) ((leases_of s)\<lparr>avail := insert ?c (avail (leases_of s)), lent := lent (leases_of s) - {?c}\<rparr>)"
      by (rule lease_step.give_back) (use mem in \<open>simp add: leases_of_def\<close>)
    moreover have "(leases_of s)\<lparr>avail := insert ?c (avail (leases_of s)), lent := lent (leases_of s) - {?c}\<rparr> = leases_of s'"
      using True set here assms(4) by (auto simp: leases_of_def)
    ultimately show ?thesis by simp
  next
    case False
    have "lease_step (leases_of s) ((leases_of s)\<lparr>lent := lent (leases_of s) - {?c}\<rparr>)"
      by (rule lease_step.close_lent) (use mem in \<open>simp add: leases_of_def\<close>)
    moreover have "(leases_of s)\<lparr>lent := lent (leases_of s) - {?c}\<rparr> = leases_of s'"
      using False set here assms(4,5) mem by (auto simp: leases_of_def)
    ultimately show ?thesis by simp
  qed
qed

lemma leases_lend:
  assumes "conns_ok s" "Obtained r e \<in># soup s" "sum_of lent_item s' = add_mset (e_conn e) (sum_of lent_item s)"
    "next_conn s' = next_conn s" "conns s' = conns s"
  shows "lease_step (leases_of s) (leases_of s')"
proof -
  let ?c = "e_conn e"
  have o: "?c \<in># sum_of other_item s" using assms(2) by (rule member_sum) simp
  then have n: "?c \<notin># sum_of lent_item s" using other_not_lent [OF assms(1)] by simp
  have here: "?c \<in> conns s" using o owned_conns [OF assms(1)] by (auto simp: owned_def sum_conns_split)
  have "lease_step (leases_of s) ((leases_of s)\<lparr>avail := avail (leases_of s) - {?c}, lent := insert ?c (lent (leases_of s))\<rparr>)"
    by (rule lease_step.lend) (use n here in \<open>simp add: leases_of_def\<close>)
  moreover have "(leases_of s)\<lparr>avail := avail (leases_of s) - {?c}, lent := insert ?c (lent (leases_of s))\<rparr> = leases_of s'"
    using assms by (auto simp: leases_of_def)
  ultimately show ?thesis by simp
qed

lemma lent_frame [simp]:
  "e_conn e = e_conn e' \<Longrightarrow> lent_item (Conn e d) = lent_item (Conn e' d)"
  by simp

lemma idle_or_other:
  assumes "conns_ok s" "mset xs \<subseteq># mset (map e_conn (p_idle (pool s))) + sum_of other_item s" "c \<in> set xs"
  shows "c \<in> conns s" "c \<notin># sum_of lent_item s"
proof -
  have m: "c \<in># mset (map e_conn (p_idle (pool s))) + sum_of other_item s"
    using assms(2,3) by (meson mset_subset_eqD set_mset_mset subsetD in_multiset_in_set)
  then show "c \<notin># sum_of lent_item s" using other_not_lent [OF assms(1)] by blast
  show "c \<in> conns s" using m owned_conns [OF assms(1)] by (auto simp: owned_def sum_conns_split)
qed

lemma lease_simulation:
  assumes "pstep s ev s'" "conns_ok s"
  shows "lease_step (leases_of s) (leases_of s')"
  using assms
proof (induction rule: pstep.induct)
  case (lock r s p a)
  from lock.hyps(2) show ?case
    by (cases rule: acquireOnce_cases) (rule leases_same; simp add: become_with_pool sum_keep lock.hyps(1))+
next
  case (opened r s)
  show ?case by (rule leases_dial [OF opened.prems]) (simp_all add: sum_keep opened.hyps)
next
  case (receive r w s x)
  have m: "Mail w x \<in># soup (become (Waiting r w) [case x of None \<Rightarrow> Failed ErrClosed | Some e \<Rightarrow> Granted r e] s)"
    using receive.hyps by (simp add: soup_become in_diff_count)
  then show ?case by (intro leases_same) (simp_all add: sum_keep receive.hyps split: option.splits)
next
  case (check_ok r e s ping)
  show ?case
    by (rule leases_lend [OF check_ok.prems check_ok.hyps(1)])
       (use sum_become [OF check_ok.hyps(1), of lent_item "[Conn e False]"] in simp_all)
next
  case (check_bad r e s ping)
  have "mset [e_conn e] \<subseteq># mset (map e_conn (p_idle (pool s))) + sum_of other_item s"
    using member_sum [OF check_bad.hyps(1), of "e_conn e" other_item] by simp
  from idle_or_other [OF check_bad.prems this] show ?case
    by (intro leases_shut [where es = "[e]"]) (simp_all add: sum_keep check_bad.hyps(1))
next
  case (release e s p a)
  from release.hyps(2) show ?case
  proof (cases rule: put_cases)
    case shut
    then show ?thesis
      by (intro leases_back [OF release.prems release.hyps(1)])
         (use sum_become [OF release.hyps(1), of lent_item "[Conn e True, PutClosed]"] in \<open>simp_all add: become_with_pool\<close>)
  next
    case (hand w ws)
    then show ?thesis
      by (intro leases_back [OF release.prems release.hyps(1)])
         (use sum_become [OF release.hyps(1), of lent_item "[Conn e True, Sending w (Some (e\<lparr>lastUsed := clock s\<rparr>))]"]
          in \<open>simp_all add: become_with_pool\<close>)
  next
    case keep
    then show ?thesis
      by (intro leases_back [OF release.prems release.hyps(1)])
         (use sum_become [OF release.hyps(1), of lent_item "[Conn e True]"] in \<open>simp_all add: become_with_pool\<close>)
  qed
next
  case (discard e s)
  show ?case
    by (rule leases_back [OF discard.prems discard.hyps(1)])
       (use sum_become [OF discard.hyps(1), of lent_item "[Conn e True, Discarding Return]"] in simp_all)
next
  case (discarded k s p w)
  then show ?case by (intro leases_same) (simp_all add: become_with_pool sum_keep split: option.splits)
next
  case (replaced w s p b)
  show ?case
  proof (cases "p_closed (pool s)")
    case True
    then show ?thesis using replaced.hyps by (intro leases_same) (auto simp: replaced_def sum_keep)
  next
    case False
    then show ?thesis using replaced.hyps
      by (intro leases_dial [OF replaced.prems]) (auto simp: replaced_def become_with_pool sum_keep)
  qed
next
  case (drain s p es ws)
  have "mset (map e_conn es) \<subseteq># mset (map e_conn (p_idle (pool s))) + sum_of other_item s"
    using drain.hyps by (auto simp: Drain_start_def split: if_splits)
  from idle_or_other [OF drain.prems this] show ?case by (intro leases_shut [where es = es]) auto
next
  case (closing_end es s)
  have "sum_of other_item s = sum_of other_item (become (Closing [] es) [] s) + mset (map e_conn es)"
    using sum_become [OF closing_end.hyps, of other_item "[]"] by simp
  then have "mset (map e_conn es) \<subseteq># mset (map e_conn (p_idle (pool s))) + sum_of other_item s"
    by (simp add: add.assoc [symmetric])
  from idle_or_other [OF closing_end.prems this] show ?case
    by (intro leases_shut [where es = es]) (auto simp: sum_keep closing_end.hyps)
next
  case (evict s p es)
  have "mset (map e_conn es) \<subseteq># mset (map e_conn (p_idle (pool s))) + sum_of other_item s"
    using evictIdle_idle [OF evict.hyps] by (simp add: ac_simps)
  from idle_or_other [OF evict.prems this] show ?case by (intro leases_shut [where es = es]) auto
qed (rule leases_same; simp add: become_with_pool sum_keep)+

section \<open>Counting what is open\<close>

text \<open>The places \<open>open\<close> counts that are not connections: being opened, or closed and not yet counted out.\<close>

fun slot :: "item \<Rightarrow> nat" where
  "slot (Opening r) = 1"
| "slot (Discarding k) = 1"
| "slot (Discarded k) = 1"
| "slot PutClosed = 1"
| "slot (Draining1 n ws) = n"
| "slot _ = 0"

definition open_ok :: "world \<Rightarrow> bool" where
  "open_ok s \<longleftrightarrow> p_open (pool s) = int (size (owned s)) + int (sum_of slot s)"

lemma slot_wake [simp]: "slot (wake x) = slot x"
  by (cases x) simp_all

lemma slot_broadcast [simp]: "sum_of slot (broadcast b s) = sum_of slot s"
  by (simp add: sum_of_def broadcast_def multiset.map_comp comp_def)

lemma goes_on_slot [simp]: "sum_list (map slot (goes_on k)) = 0"
  by (cases k) simp_all

lemma size_owned_become:
  "x \<in># soup s \<Longrightarrow> int (size (owned (become x ys s))) =
     int (size (owned s)) + int (size (sum_list (map conns_of ys))) - int (size (conns_of x))"
  using arg_cong [OF owned_add [of x s ys], of size] by simp

lemma size_owned_with_pool:
  "int (size (owned (with_pool p s))) = int (size (owned s)) + int (length (p_idle p)) - int (length (p_idle (pool s)))"
  by (simp add: owned_def)

lemma slot_become:
  "x \<in># soup s \<Longrightarrow> int (sum_of slot (become x ys s)) = int (sum_of slot s) + int (sum_list (map slot ys)) - int (slot x)"
  using sum_become [of x s slot ys] by linarith

lemmas open_simps = open_ok_def become_with_pool size_owned_become size_owned_with_pool slot_become

lemma open_pool_simps [simp]:
  "p_open (inUse_add d p) = p_open p" "p_open (open_add d p) = p_open p + d" "p_open (cancel_wait w p) = p_open p"
  "pcfg (inUse_add d p) = pcfg p" "pcfg (open_add d p) = pcfg p" "pcfg (cancel_wait w p) = pcfg p"
  "p_closed (inUse_add d p) = p_closed p" "p_closed (open_add d p) = p_closed p" "p_closed (cancel_wait w p) = p_closed p"
  "p_closed (not_replaced p) = p_closed p" "pcfg (not_replaced p) = pcfg p"
  by (simp_all add: inUse_add_def open_add_def cancel_wait_def not_replaced_def)

lemma discard_ops: "discard p = (q, w) \<Longrightarrow> p_open q = p_open p - 1 \<and> p_idle q = p_idle p \<and> pcfg q = pcfg p \<and> p_closed q = p_closed p"
  by (auto simp: discard_def Let_def split: list.splits)

lemma evictIdle_open: "evictIdle t p = (q, es) \<Longrightarrow>
    p_open q = p_open p - int (length es) \<and> length (p_idle p) = length (p_idle q) + length es \<and> pcfg q = pcfg p \<and>
    p_closed q = p_closed p"
  using arg_cong [OF evictIdle_idle [of t p q es], of size] by (auto simp: evictIdle_def split: prod.splits)

lemma open_ok_step:
  assumes "pstep s e s'" "open_ok s" "e \<noteq> EvReplFailed" "e \<noteq> EvClose" "e \<noteq> EvClosing" "\<not> p_closed (pool s)"
  shows "open_ok s' \<and> \<not> p_closed (pool s')"
  using assms
proof (induction rule: pstep.induct)
  case (lock r s p a)
  from lock.hyps(2) show ?case
    by (cases rule: acquireOnce_cases) (use lock.hyps(1) lock.prems in \<open>simp_all add: open_simps\<close>)
next
  case (receive r w s x)
  have m: "Mail w x \<in># soup (become (Waiting r w) [case x of None \<Rightarrow> Failed ErrClosed | Some e \<Rightarrow> Granted r e] s)"
    using receive.hyps by (simp add: soup_become in_diff_count)
  then show ?case using receive by (simp add: open_simps split: option.splits)
next
  case (release e s p a)
  from release.hyps(2) show ?case
    by (cases rule: put_cases) (use release.hyps(1) release.prems in \<open>simp_all add: open_simps\<close>)
next
  case (discarded k s p w)
  then show ?case using discard_ops [OF discarded.hyps(2)] by (simp add: open_simps split: option.splits)
next
  case (replaced w s p b)
  then show ?case by (auto simp: open_simps replaced_def)
next
  case (drain s p es ws)
  then show ?case by (auto simp: open_simps Drain_start_def owned_def split: if_splits)
next
  case (evict s p es)
  then show ?case using evictIdle_open [OF evict.hyps] by (simp add: open_simps)
qed (auto simp: open_simps)

text \<open>The bound: only a replacement opens a connection without looking at it.\<close>

definition under_cap :: "world \<Rightarrow> bool" where
  "under_cap s \<longleftrightarrow> p_open (pool s) \<le> max (MaxConns (pcfg (pool s))) (int (nat (MinIdle (pcfg (pool s)))))"

lemma under_cap_step:
  assumes "pstep s e s'" "under_cap s" "e \<noteq> EvReplaced"
  shows "under_cap s' \<and> pcfg (pool s') = pcfg (pool s)"
  using assms
proof (induction rule: pstep.induct)
  case (lock r s p a)
  from lock.hyps(2) show ?case
    by (cases rule: acquireOnce_cases) (use lock.prems in \<open>simp_all add: under_cap_def become_with_pool\<close>)
next
  case (release e s p a)
  from release.hyps(2) show ?case
    by (cases rule: put_cases) (use release.prems in \<open>simp_all add: under_cap_def become_with_pool\<close>)
next
  case (discarded k s p w)
  then show ?case using discard_ops [OF discarded.hyps(2)] by (simp add: under_cap_def become_with_pool)
next
  case (drain s p es ws)
  then show ?case by (auto simp: under_cap_def Drain_start_def split: if_splits)
next
  case (close_start s p es ws)
  then show ?case by (auto simp: under_cap_def Close_start_def split: if_splits)
next
  case (evict s p es)
  then show ?case using evictIdle_open [OF evict.hyps] by (simp add: under_cap_def)
next
  case (repl_failed s)
  then have "p_open (not_replaced (pool s)) \<le> p_open (pool s)" by (simp add: not_replaced_def)
  then show ?case using repl_failed.prems(1) by (simp add: under_cap_def become_with_pool)
qed (simp_all add: under_cap_def become_with_pool)

lemma prun_open_ok:
  "prun s es s' \<Longrightarrow> open_ok s \<Longrightarrow> \<not> p_closed (pool s) \<Longrightarrow> EvReplFailed \<notin> set es \<Longrightarrow> EvClose \<notin> set es \<Longrightarrow> EvClosing \<notin> set es \<Longrightarrow>
   open_ok s' \<and> \<not> p_closed (pool s')"
  by (induction rule: prun.induct) (auto dest: open_ok_step)

lemma prun_under_cap:
  "prun s es s' \<Longrightarrow> under_cap s \<Longrightarrow> EvReplaced \<notin> set es \<Longrightarrow> under_cap s' \<and> pcfg (pool s') = pcfg (pool s)"
  by (induction rule: prun.induct) (use under_cap_step in fastforce)+

section \<open>Replacements\<close>

text \<open>
  An entry was born when its connection was opened, after the epoch, or it is a replacement with the
  zero time; only the former are handed out or put back.
\<close>

definition born :: "entry \<Rightarrow> bool" where
  "born e \<longleftrightarrow> 0 \<le> bornAt e"

fun item_born :: "item \<Rightarrow> bool" where
  "item_born (Granted r e) = (born e \<or> bornAt e = zeroTime)"
| "item_born (Obtained r e) = (born e \<or> bornAt e = zeroTime)"
| "item_born (Conn e d) = born e"
| "item_born (Sending w x) = (case x of None \<Rightarrow> True | Some e \<Rightarrow> born e \<or> bornAt e = zeroTime)"
| "item_born (Mail w x) = (case x of None \<Rightarrow> True | Some e \<Rightarrow> born e \<or> bornAt e = zeroTime)"
| "item_born _ = True"

definition born_ok :: "world \<Rightarrow> bool" where
  "born_ok s \<longleftrightarrow> 0 \<le> clock s \<and> (\<forall>e\<in>set (p_idle (pool s)). born e) \<and> (\<forall>x\<in>#soup s. item_born x) \<and>
     0 < MaxConnLifetime (pcfg (pool s)) \<and> MaxConnLifetime (pcfg (pool s)) < 2 ^ 63 - 1"

lemma born_lastUsed [simp]: "born (e\<lparr>lastUsed := t\<rparr>) = born e"
  by (simp add: born_def)

lemma born_wake [simp]: "item_born (wake x) = item_born x"
  by (cases x) simp_all

lemma born_soup:
  "(\<forall>x\<in>#soup (broadcast b s). item_born x) = (\<forall>x\<in>#soup s. item_born x)"
  "\<forall>x\<in>#soup s. item_born x \<Longrightarrow> \<forall>y\<in>set ys. item_born y \<Longrightarrow> \<forall>x\<in>#soup (become z ys s). item_born x"
  by (auto simp: broadcast_def become_def dest: in_diffD)

lemma clock_simps [simp]:
  "clock (become x ys s) = clock s" "clock (broadcast b s) = clock s" "clock (with_pool p s) = clock s"
  "clock (shut es s) = clock s" "clock (dial s) = clock s"
  by (simp_all add: become_def broadcast_def with_pool_def shut_def dial_def)

lemma zeroTime_expired:
  "0 \<le> t \<Longrightarrow> bornAt e = zeroTime \<Longrightarrow> 0 < MaxConnLifetime c \<Longrightarrow> MaxConnLifetime c < 2 ^ 63 - 1 \<Longrightarrow> expired t e c"
  by (simp add: expired_def Time_Sub_def zeroTime_def)

lemma goes_on_born: "\<forall>y\<in>set (goes_on k). item_born y"
  by (cases k) auto

lemma evict_loop_set: "evict_loop k m keep dropped es = (keep', dropped') \<Longrightarrow> set keep' \<subseteq> set keep \<union> set es"
  by (induction k m keep dropped es rule: evict_loop.induct) (fastforce split: if_splits)+

lemma evictIdle_set: "evictIdle t p = (q, es) \<Longrightarrow> set (p_idle q) \<subseteq> set (p_idle p)"
  using evict_loop_set by (fastforce simp: evictIdle_def split: prod.splits)

lemma born_ok_become:
  "born_ok s \<Longrightarrow> \<forall>y\<in>set ys. item_born y \<Longrightarrow> \<forall>e\<in>set (p_idle p). born e \<Longrightarrow> pcfg p = pcfg (pool s) \<Longrightarrow>
   born_ok (with_pool p (become x ys s))"
  by (auto simp: born_ok_def intro: born_soup(2) [rule_format])

lemma born_ok_become':
  "born_ok s \<Longrightarrow> \<forall>y\<in>set ys. item_born y \<Longrightarrow> born_ok (become x ys s)"
  by (auto simp: born_ok_def intro: born_soup(2) [rule_format])

lemma born_ok_frame [simp]:
  "born_ok (shut es s) = born_ok s" "born_ok (broadcast b s) = born_ok s" "born_ok (dial s) = born_ok s"
  "born_ok (s\<lparr>next_ch := n\<rparr>) = born_ok s"
  by (simp_all add: born_ok_def born_soup(1))

lemma born_ok_member: "born_ok s \<Longrightarrow> x \<in># soup s \<Longrightarrow> item_born x"
  by (simp add: born_ok_def)

lemma born_ok_idle: "born_ok s \<Longrightarrow> e \<in> set (p_idle (pool s)) \<Longrightarrow> born e"
  by (simp add: born_ok_def)

lemma born_ok_step:
  assumes "pstep s ev s'" "born_ok s"
  shows "born_ok s'"
  using assms
proof (induction rule: pstep.induct)
  case (lock r s p a)
  from lock.hyps(2) show ?case
    by (cases rule: acquireOnce_cases)
       (use lock.prems in \<open>auto simp: become_with_pool intro!: born_ok_become dest: born_ok_idle\<close>)
next
  case (opened r s)
  have "born (new_entry (clock s) s)" using opened.prems by (simp add: new_entry_def born_def born_ok_def)
  then show ?case using opened.prems by (auto intro!: born_ok_become')
next
  case (receive r w s x)
  then show ?case using born_ok_member [OF receive.prems receive.hyps(2)]
    by (intro born_ok_become') (auto split: option.splits)
next
  case (granted r e s)
  then show ?case using born_ok_member [OF granted.prems granted.hyps]
    by (auto simp: become_with_pool intro!: born_ok_become dest: born_ok_idle)
next
  case (check_ok r e s ping)
  have "bornAt e \<noteq> zeroTime" using check_ok.hyps(2) check_ok.prems zeroTime_expired by (auto simp: born_ok_def)
  then show ?case using born_ok_member [OF check_ok.prems check_ok.hyps(1)] check_ok.prems
    by (intro born_ok_become') auto
next
  case (release e s p a)
  have e: "born e" using born_ok_member [OF release.prems release.hyps(1)] by simp
  from release.hyps(2) show ?case
    by (cases rule: put_cases)
       (use e release.prems in \<open>auto simp: become_with_pool intro!: born_ok_become dest: born_ok_idle\<close>)
next
  case (discard e s)
  then show ?case using born_ok_member [OF discard.prems discard.hyps] by (auto intro!: born_ok_become')
next
  case (discarded k s p w)
  then show ?case using discard_ops [OF discarded.hyps(2)] goes_on_born [of k]
    by (auto simp: become_with_pool intro!: born_ok_become dest: born_ok_idle split: option.splits)
next
  case (send w x s)
  then show ?case using born_ok_member [OF send.prems send.hyps(1)] by (auto intro!: born_ok_become')
next
  case (replaced w s p b)
  then show ?case
    by (auto simp: replaced_def become_with_pool new_entry_def intro!: born_ok_become born_ok_become' dest: born_ok_idle split: if_splits)
next
  case (drain s p es ws)
  then show ?case by (auto simp: Drain_start_def born_ok_def split: if_splits)
next
  case (close_start s p es ws)
  then show ?case by (auto simp: Close_start_def born_ok_def born_soup(1) split: if_splits)
next
  case (evict s p es)
  then show ?case using evictIdle_set [OF evict.hyps] evictIdle_open [OF evict.hyps] by (auto simp: born_ok_def)
next
  case (expire d awake s)
  then show ?case by (auto intro!: born_ok_become')
next
  case (acquire s)
  then show ?case by (simp add: born_ok_def)
next
  case (wait_idle s)
  then show ?case by (simp add: born_ok_def)
next
  case (tick s t)
  then show ?case by (simp add: born_ok_def)
qed (auto simp: become_with_pool intro!: born_ok_become born_ok_become' dest: born_ok_idle)

lemma prun_born_ok: "prun s es s' \<Longrightarrow> born_ok s \<Longrightarrow> born_ok s'"
  by (induction rule: prun.induct) (auto dest: born_ok_step)

lemma open_min_born: "open_min ts n i p = Some q \<Longrightarrow> \<forall>u. Some u \<in> set ts \<longrightarrow> 0 \<le> u \<Longrightarrow>
    \<forall>e\<in>set (p_idle p). born e \<Longrightarrow> \<forall>e\<in>set (p_idle q). born e"
  by (induction ts n i p rule: open_min.induct) (auto simp: born_def)

lemma New_born: "New ts t b c = Some s \<Longrightarrow> \<forall>u. Some u \<in> set ts \<longrightarrow> 0 \<le> u \<Longrightarrow>
    clock s = t \<and> (\<forall>e\<in>set (p_idle (pool s)). born e)"
  using open_min_born by (fastforce simp: New_def Let_def split: option.splits)

section \<open>Example runs\<close>

text \<open>A pool of at most one connection, at the epoch; the worlds of its runs.\<close>

definition one_conn :: pool_config where
  "one_conn = config.extend zeroConfig (pool_config.fields 1 0 0 0 0 0 0 0)"

definition no_bufs :: buf_pool where
  "no_bufs = \<lparr>live = 0, maxLive = 0, idle = 0\<rparr>"

definition ex_world :: "int \<Rightarrow> int \<Rightarrow> bool \<Rightarrow> nat list \<Rightarrow> item list \<Rightarrow> nat set \<Rightarrow> nat \<Rightarrow> nat \<Rightarrow> world" where
  "ex_world op used dr ws is cs nc nch =
     \<lparr>pool = \<lparr>pcfg = fst (pool_applyDefaults one_conn no_bufs), p_idle = [], p_open = op, p_inUse = used, p_closed = False,
              p_draining = dr, p_waiters = ws\<rparr>,
      soup = mset is, conns = cs, next_conn = nc, next_ch = nch, clock = 0\<rparr>"

definition ex_entry :: "nat \<Rightarrow> entry" where
  "ex_entry c = \<lparr>e_conn = c, lastUsed = 0, bornAt = 0\<rparr>"

definition ex_replacement :: "nat \<Rightarrow> entry" where
  "ex_replacement c = \<lparr>e_conn = c, lastUsed = 0, bornAt = zeroTime\<rparr>"

lemma ex_conn [simp]: "e_conn (ex_entry c) = c" "e_conn (ex_replacement c) = c"
  by (simp_all add: ex_entry_def ex_replacement_def)

lemma ex_cfg:
  "MaxConns (fst (pool_applyDefaults one_conn no_bufs)) = 1" "MinIdle (fst (pool_applyDefaults one_conn no_bufs)) = 0"
  "\<not> expired 0 (ex_entry c) (fst (pool_applyDefaults one_conn no_bufs))"
  "\<not> ping_due 0 (ex_entry c) (fst (pool_applyDefaults one_conn no_bufs))"
  by (simp_all add: pool_applyDefaults_def one_conn_def config.defs pool_config.defs zeroConfig_def Let_def expired_def ping_due_def
      ex_entry_def Time_Sub_def)

lemma ex_New: "New [] 0 no_bufs one_conn = Some (ex_world 0 0 False [] [] {} 0 0)"
  by (simp add: New_def ex_cfg ex_world_def Let_def)

lemmas ex_step_defs = ex_world_def become_def with_pool_def dial_def shut_def broadcast_def acquireOnce_def put_def discard_def
  replaced_def inUse_add_def open_add_def cancel_wait_def Let_def ex_cfg new_entry_def ex_entry_def [symmetric]
  ex_replacement_def [symmetric]

text \<open>One user holds the connection and another one waits for it.\<close>

definition held :: world where
  "held = ex_world 1 1 False [1] [Waiting 0 1, Conn (ex_entry 0) False] {0} 1 2"

lemma run_held: "prun (ex_world 0 0 False [] [] {} 0 0) [EvAcquire, EvLock, EvOpened, EvCheck True, EvAcquire, EvLock] held"
proof -
  have 1: "pstep (ex_world 0 0 False [] [] {} 0 0) EvAcquire (ex_world 0 0 False [] [Acq 0] {} 0 0)"
    using pstep.acquire [of "ex_world 0 0 False [] [] {} 0 0"] by (simp add: ex_step_defs)
  have 2: "pstep (ex_world 0 0 False [] [Acq 0] {} 0 0) EvLock (ex_world 1 1 False [] [Opening 0] {} 0 1)"
    using pstep.lock [of 0 "ex_world 0 0 False [] [Acq 0] {} 0 0"] by (simp add: ex_step_defs)
  have 3: "pstep (ex_world 1 1 False [] [Opening 0] {} 0 1) EvOpened (ex_world 1 1 False [] [Obtained 0 (ex_entry 0)] {0} 1 1)"
    using pstep.opened [of 0 "ex_world 1 1 False [] [Opening 0] {} 0 1"] by (simp add: ex_step_defs)
  have 4: "pstep (ex_world 1 1 False [] [Obtained 0 (ex_entry 0)] {0} 1 1) (EvCheck True)
      (ex_world 1 1 False [] [Conn (ex_entry 0) False] {0} 1 1)"
    using pstep.check_ok [of 0 "ex_entry 0" "ex_world 1 1 False [] [Obtained 0 (ex_entry 0)] {0} 1 1" True]
    by (simp add: ex_step_defs)
  have 5: "pstep (ex_world 1 1 False [] [Conn (ex_entry 0) False] {0} 1 1) EvAcquire
      (ex_world 1 1 False [] [Acq 0, Conn (ex_entry 0) False] {0} 1 1)"
    using pstep.acquire [of "ex_world 1 1 False [] [Conn (ex_entry 0) False] {0} 1 1"] by (simp add: ex_step_defs)
  have 6: "pstep (ex_world 1 1 False [] [Acq 0, Conn (ex_entry 0) False] {0} 1 1) EvLock held"
    using pstep.lock [of 0 "ex_world 1 1 False [] [Acq 0, Conn (ex_entry 0) False] {0} 1 1"]
    by (simp add: ex_step_defs held_def numeral_2_eq_2)
  from prun.snoc [OF prun.snoc [OF prun.snoc [OF prun.snoc [OF prun.snoc [OF prun.snoc [OF prun.start 1] 2] 3] 4] 5] 6]
  show ?thesis by simp
qed

lemma prun_trans: "prun s2 fs s3 \<Longrightarrow> prun s1 es s2 \<Longrightarrow> prun s1 (es @ fs) s3"
  by (induction rule: prun.induct) (auto simp flip: append_assoc intro: prun.snoc)

text \<open>The holder discards; before the replacement is open a third user opens a connection.\<close>

definition over_cap :: world where
  "over_cap = ex_world 2 1 False []
     [Sending 1 (Some (ex_replacement 2)), Obtained 0 (ex_entry 1), Conn (ex_entry 0) True, Waiting 0 1] {2, 1} 3 3"

lemmas ex_run_simps = ex_step_defs held_def numeral_2_eq_2 numeral_3_eq_3 add_mset_commute

lemma run_over_cap:
  "prun held [EvDiscard, EvGiveBack, EvDiscardLock, EvAcquire, EvLock, EvOpened, EvReplaced] over_cap"
proof -
  let ?d = "[Conn (ex_entry 0) True, Waiting 0 1]"
  have 1: "pstep held EvDiscard (ex_world 1 1 False [1] (Discarding Return # ?d) {} 1 2)"
    using pstep.discard [of "ex_entry 0" held] by (simp add: ex_run_simps)
  have 2: "pstep (ex_world 1 1 False [1] (Discarding Return # ?d) {} 1 2) EvGiveBack
      (ex_world 1 0 False [1] (Discarded Return # ?d) {} 1 2)"
    using pstep.give_back [of Return "ex_world 1 1 False [1] (Discarding Return # ?d) {} 1 2"] by (simp add: ex_run_simps)
  have 3: "pstep (ex_world 1 0 False [1] (Discarded Return # ?d) {} 1 2) EvDiscardLock
      (ex_world 0 0 False [] (Replacing 1 # ?d) {} 1 2)"
    using pstep.discarded [of Return "ex_world 1 0 False [1] (Discarded Return # ?d) {} 1 2"] by (simp add: ex_run_simps)
  have 4: "pstep (ex_world 0 0 False [] (Replacing 1 # ?d) {} 1 2) EvAcquire
      (ex_world 0 0 False [] (Acq 0 # Replacing 1 # ?d) {} 1 2)"
    using pstep.acquire [of "ex_world 0 0 False [] (Replacing 1 # ?d) {} 1 2"] by (simp add: ex_run_simps)
  have 5: "pstep (ex_world 0 0 False [] (Acq 0 # Replacing 1 # ?d) {} 1 2) EvLock
      (ex_world 1 1 False [] (Opening 0 # Replacing 1 # ?d) {} 1 3)"
    using pstep.lock [of 0 "ex_world 0 0 False [] (Acq 0 # Replacing 1 # ?d) {} 1 2"] by (simp add: ex_run_simps)
  have 6: "pstep (ex_world 1 1 False [] (Opening 0 # Replacing 1 # ?d) {} 1 3) EvOpened
      (ex_world 1 1 False [] (Obtained 0 (ex_entry 1) # Replacing 1 # ?d) {1} 2 3)"
    using pstep.opened [of 0 "ex_world 1 1 False [] (Opening 0 # Replacing 1 # ?d) {} 1 3"] by (simp add: ex_run_simps)
  have 7: "pstep (ex_world 1 1 False [] (Obtained 0 (ex_entry 1) # Replacing 1 # ?d) {1} 2 3) EvReplaced over_cap"
    using pstep.replaced [of 1 "ex_world 1 1 False [] (Obtained 0 (ex_entry 1) # Replacing 1 # ?d) {1} 2 3"]
    by (simp add: ex_run_simps over_cap_def)
  from prun.snoc [OF prun.snoc [OF prun.snoc [OF prun.snoc [OF prun.snoc [OF prun.snoc [OF prun.snoc [OF prun.start 1] 2] 3] 4] 5] 6] 7]
  show ?thesis by simp
qed

text \<open>The holder releases to the user who waits, and that user gives up before the message arrives.\<close>

definition leaked :: world where
  "leaked = ex_world 1 0 False [] [Mail 1 (Some (ex_entry 0)), Failed CtxErr, Conn (ex_entry 0) True] {0} 1 2"

lemma run_leaked: "prun held [EvRelease, EvCancel, EvSend] leaked"
proof -
  have e: "(ex_entry 0)\<lparr>lastUsed := 0\<rparr> = ex_entry 0" by (simp add: ex_entry_def)
  let ?m = "Sending 1 (Some (ex_entry 0))"
  have 1: "pstep held EvRelease (ex_world 1 0 False [] [?m, Conn (ex_entry 0) True, Waiting 0 1] {0} 1 2)"
    using pstep.release [of "ex_entry 0" held] by (simp add: ex_run_simps e)
  have 2: "pstep (ex_world 1 0 False [] [?m, Conn (ex_entry 0) True, Waiting 0 1] {0} 1 2) EvCancel
      (ex_world 1 0 False [] [?m, Failed CtxErr, Conn (ex_entry 0) True] {0} 1 2)"
    using pstep.cancel [of 0 1 "ex_world 1 0 False [] [?m, Conn (ex_entry 0) True, Waiting 0 1] {0} 1 2"]
    by (simp add: ex_run_simps)
  have 3: "pstep (ex_world 1 0 False [] [?m, Failed CtxErr, Conn (ex_entry 0) True] {0} 1 2) EvSend leaked"
    using pstep.send [of 1 "Some (ex_entry 0)" "ex_world 1 0 False [] [?m, Failed CtxErr, Conn (ex_entry 0) True] {0} 1 2"]
    by (simp add: ex_run_simps leaked_def)
  from prun.snoc [OF prun.snoc [OF prun.snoc [OF prun.start 1] 2] 3] show ?thesis by simp
qed

text \<open>Nothing but closing or draining the pool gets a connection out of the abandoned channel.\<close>

fun starved_item :: "item \<Rightarrow> bool" where
  "starved_item (Acq r) = True"
| "starved_item (Waiting r w) = (w \<noteq> 1)"
| "starved_item (Conn e d) = d"
| "starved_item (Mail w x) = (w = 1)"
| "starved_item (CondWait d b) = True"
| "starved_item Drained = True"
| "starved_item (Failed e) = True"
| "starved_item _ = False"

definition starved :: "world \<Rightarrow> bool" where
  "starved s \<longleftrightarrow> (\<forall>x\<in>#soup s. starved_item x) \<and> p_idle (pool s) = [] \<and> p_open (pool s) = MaxConns (pcfg (pool s)) \<and>
     1 < next_ch s \<and> \<not> p_closed (pool s)"

lemma starved_wake [simp]: "starved_item (wake x) = starved_item x"
  by (cases x) simp_all

lemma starved_soup:
  "(\<forall>x\<in>#soup (broadcast b s). starved_item x) = (\<forall>x\<in>#soup s. starved_item x)"
  "\<forall>x\<in>#soup s. starved_item x \<Longrightarrow> \<forall>y\<in>set ys. starved_item y \<Longrightarrow> \<forall>x\<in>#soup (become z ys s). starved_item x"
  by (auto simp: broadcast_def become_def dest: in_diffD)

lemma starved_member: "starved s \<Longrightarrow> x \<in># soup s \<Longrightarrow> starved_item x"
  by (simp add: starved_def)

lemma starved_become:
  "starved s \<Longrightarrow> \<forall>y\<in>set ys. starved_item y \<Longrightarrow> p_idle p = [] \<Longrightarrow> p_open p = p_open (pool s) \<Longrightarrow> pcfg p = pcfg (pool s) \<Longrightarrow>
   p_closed p = p_closed (pool s) \<Longrightarrow> starved (with_pool p (become x ys s))"
  by (auto simp: starved_def intro: starved_soup(2) [rule_format])

lemma starved_become': "starved s \<Longrightarrow> \<forall>y\<in>set ys. starved_item y \<Longrightarrow> starved (become x ys s)"
  by (auto simp: starved_def intro: starved_soup(2) [rule_format])

lemma starved_frame [simp]: "starved (broadcast b s) = starved s"
  by (simp add: starved_def starved_soup(1))

lemma starved_step:
  assumes "pstep s ev s'" "starved s" "ev \<noteq> EvDrain" "ev \<noteq> EvClose"
  shows "starved s'"
  using assms
proof (induction rule: pstep.induct)
  case (lock r s p a)
  have st: "p_idle (pool s) = []" "p_open (pool s) = MaxConns (pcfg (pool s))" "1 < next_ch s"
    using lock.prems(1) by (simp_all add: starved_def)
  have "starved (with_pool p (become (Acq r) [acq_item r (next_ch s) a] s))"
    using lock.hyps(2)
  proof (cases rule: acquireOnce_cases)
    case closed
    then show ?thesis by (intro starved_become [OF lock.prems(1)]) (simp_all add: st)
  next
    case wait
    then show ?thesis by (intro starved_become [OF lock.prems(1)]) (use st in simp_all)
  qed (use st in simp_all)
  then show ?case by (simp add: starved_def become_with_pool)
next
  case (evict s p es)
  then show ?case by (auto simp: evictIdle_def starved_def)
next
  case (receive r w s x)
  then show ?case using starved_member [OF receive.prems(1) receive.hyps(1)] starved_member [OF receive.prems(1) receive.hyps(2)]
    by simp
next
  case (cancel r w s)
  then show ?case
    by (simp add: become_with_pool) (rule starved_become; simp add: starved_def)
next
  case (acquire s)
  then show ?case by (simp add: starved_def)
next
  case (wait_idle s)
  then show ?case by (simp add: starved_def)
next
  case (tick s t)
  then show ?case by (simp add: starved_def)
next
  case (look d s)
  then show ?case by (intro starved_become') auto
next
  case (expire d awake s)
  then show ?case by (auto intro!: starved_become')
qed (use starved_member in fastforce)+

lemma prun_starved:
  "prun s es s' \<Longrightarrow> starved s \<Longrightarrow> EvDrain \<notin> set es \<Longrightarrow> EvClose \<notin> set es \<Longrightarrow> starved s'"
  by (induction rule: prun.induct) (auto dest: starved_step)

section \<open>Properties\<close>

text \<open>C29. In every run of the pool, each open connection has exactly one owner (a user, an idle slot, a
  message on its way or the goroutine handling it), a closed one has none, a connection a user holds is
  open, and \<open>inUse\<close> is the number of connections lent or on the way to a user.\<close>

theorem pool_single_owner:
  assumes "New ts t b c = Some s0" "prun s0 es s"
  shows "(\<forall>x. count (owned s) x = (if x \<in> conns s then 1 else 0)) \<and> p_inUse (pool s) = int (sum_of busy s) \<and>
    lent (leases_of s) \<subseteq> conns s"
proof -
  have "conns_ok s \<and> users_ok s \<and> chans_ok s" using prun_keeps [OF assms(2)] New_ok(1-3) [OF assms(1)] by blast
  then show ?thesis using owned_count lent_open by (auto simp: users_ok_def leases_of_def)
qed

theorem pool_single_owner_witness:
  "count (owned held) 0 = 1 \<and> p_inUse (pool held) = int (sum_of busy held) \<and> lent (leases_of held) \<subseteq> {0}"
  using pool_single_owner [OF ex_New run_held] by (simp add: held_def ex_world_def)

text \<open>C30. Every step of a run is a step of the lease machine: a connection is opened once, lent to one user
  at a time, given back or closed by that user only, and never comes back once it was closed; at first nothing
  is lent.\<close>

theorem pool_refines_leases:
  assumes "New ts t b c = Some s0" "prun s0 es s" "pstep s ev s'"
  shows "lent (leases_of s0) = {} \<and> lease_step (leases_of s) (leases_of s')"
proof -
  have "conns_ok s" using prun_keeps [OF assms(2)] New_ok(1-3) [OF assms(1)] by blast
  then show ?thesis using lease_simulation [OF assms(3)] New_ok(4) [OF assms(1)] by (simp add: leases_of_def sum_of_def)
qed

theorem pool_refines_leases_witness:
  "lease_step (leases_of held) (leases_of (shut [ex_entry 0] (become (Conn (ex_entry 0) False)
     [Conn (ex_entry 0) True, Discarding Return] held)))"
proof -
  have "Conn (ex_entry 0) False \<in># soup held" by (simp add: held_def ex_world_def)
  from pool_refines_leases [OF ex_New run_held pstep.discard [OF this]] show ?thesis by simp
qed







text \<open>C34. A user who gives up while its connection is on the way takes it from the pool for good: after such a
  run of a pool of one connection nobody ever gets a connection again, until the pool is closed or drained.\<close>

theorem cancelled_waiter_starves_pool:
  assumes "EvDrain \<notin> set es" "EvClose \<notin> set es" "prun leaked es s"
  shows "prun (ex_world 0 0 False [] [] {} 0 0)
      ([EvAcquire, EvLock, EvOpened, EvCheck True, EvAcquire, EvLock] @ [EvRelease, EvCancel, EvSend]) leaked \<and>
    p_inUse (pool leaked) = 0 \<and> Conn e False \<notin># soup s"
proof -
  have "starved leaked" by (simp add: leaked_def ex_world_def starved_def ex_cfg)
  then have "starved s" using prun_starved [OF assms(3)] assms(1,2) by blast
  then show ?thesis using prun_trans [OF run_leaked run_held] starved_member [of s "Conn e False"]
    by (auto simp: leaked_def ex_world_def)
qed

theorem cancelled_waiter_starves_pool_witness:
  "\<exists>s. prun leaked [EvAcquire, EvTick] s \<and> p_inUse (pool leaked) = 0 \<and> Conn (ex_entry 0) False \<notin># soup s"
proof -
  let ?s = "leaked\<lparr>soup := add_mset (Acq 0) (soup leaked)\<rparr>"
  have "prun leaked ([] @ [EvAcquire]) ?s" by (rule prun.snoc [OF prun.start pstep.acquire])
  then have "prun leaked (([] @ [EvAcquire]) @ [EvTick]) (?s\<lparr>clock := clock ?s\<rparr>)"
    by (rule prun.snoc) (rule pstep.tick, simp)
  from cancelled_waiter_starves_pool [OF _ _ this] this show ?thesis by auto
qed

text \<open>C35. \<open>MaxConns\<close> is not a bound: after a discard with a user waiting, a third user's connection and
  the replacement are both opened, two in a pool of at most one.\<close>

theorem pool_exceeds_MaxConns:
  "\<exists>s0 es s. New [] 0 no_bufs one_conn = Some s0 \<and> MaxConns (pcfg (pool s0)) = 1 \<and> prun s0 es s \<and> card (conns s) = 2"
proof -
  have "card (conns over_cap) = 2" by (simp add: over_cap_def ex_world_def)
  moreover have "MaxConns (pcfg (pool (ex_world 0 0 False [] [] {} 0 0))) = 1" by (simp add: ex_world_def ex_cfg)
  ultimately show ?thesis using ex_New prun_trans [OF run_over_cap run_held] by blast
qed

end
