(* ===== verification/CopyIn.thy ===== *)
theory CopyIn
  imports Exec
begin

text \<open>
  src/pgz/copy.go: COPY FROM STDIN, from a reader and from rows written in the binary format.

  The reader delivers \<open>cs_data\<close> and then ends, or fails when \<open>cs_err\<close> is set; \<^verbatim>\<open>io.ReadFull\<close> is modelled
  on it.  The callback \<open>emit\<close> can only write fields and return, so what it does is a list: for each
  of its calls the fields it writes and the error it returns.  \<open>msg\<close> is the text of an error.
\<close>

section \<open>The row writer\<close>

record CopyWriter =
  fieldCount :: int
  cw_buf :: bytes
  rowStart :: nat
  cw_written :: nat

definition copyFlushThreshold :: nat where "copyFlushThreshold = 256 * 1024"
definition copyHdrLen :: nat where "copyHdrLen = 5"

definition newCopyWriter :: "int \<Rightarrow> CopyWriter" where
  "newCopyWriter n = \<lparr>fieldCount = n, cw_buf = [MsgCopyData, 0, 0, 0, 0], rowStart = 0, cw_written = 0\<rparr>"

definition cw_app :: "bytes \<Rightarrow> CopyWriter \<Rightarrow> CopyWriter" where
  "cw_app b w = w\<lparr>cw_buf := cw_buf w @ b\<rparr>"

definition cw_count :: "CopyWriter \<Rightarrow> CopyWriter" where
  "cw_count w = w\<lparr>cw_written := cw_written w + 1\<rparr>"

definition writeLen :: "int \<Rightarrow> CopyWriter \<Rightarrow> CopyWriter" where
  "writeLen n w = cw_app (be_put 4 n) w"

definition w_Null :: "CopyWriter \<Rightarrow> CopyWriter" where
  "w_Null w = cw_count (cw_app [255, 255, 255, 255] w)"

definition w_Int2 :: "int \<Rightarrow> CopyWriter \<Rightarrow> CopyWriter" where
  "w_Int2 v w = cw_count (cw_app ([0, 0, 0, 2] @ be_put 2 v) w)"

definition w_Int4 :: "int \<Rightarrow> CopyWriter \<Rightarrow> CopyWriter" where
  "w_Int4 v w = cw_count (cw_app ([0, 0, 0, 4] @ be_put 4 v) w)"

definition w_Int8 :: "int \<Rightarrow> CopyWriter \<Rightarrow> CopyWriter" where
  "w_Int8 v w = cw_count (cw_app ([0, 0, 0, 8] @ be_put 8 v) w)"

definition w_Bool :: "bool \<Rightarrow> CopyWriter \<Rightarrow> CopyWriter" where
  "w_Bool v w = (let b = (if v then 1 else 0) in cw_count (cw_app [0, 0, 0, 1, b] w))"

text \<open>A float is its IEEE 754 bits.\<close>

definition w_Float4 :: "int \<Rightarrow> CopyWriter \<Rightarrow> CopyWriter" where
  "w_Float4 u w = cw_count (cw_app ([0, 0, 0, 4] @ be_put 4 u) w)"

definition w_Float8 :: "int \<Rightarrow> CopyWriter \<Rightarrow> CopyWriter" where
  "w_Float8 u w = cw_count (cw_app ([0, 0, 0, 8] @ be_put 8 u) w)"

definition w_Text :: "bytes \<Rightarrow> CopyWriter \<Rightarrow> CopyWriter" where
  "w_Text s w = cw_count (cw_app s (writeLen (int32_of (int (length s))) w))"

definition w_Bytes :: "bytes \<Rightarrow> CopyWriter \<Rightarrow> CopyWriter" where
  "w_Bytes b w = cw_count (cw_app b (writeLen (int32_of (int (length b))) w))"

text \<open>A UUID is an array of 16 bytes.\<close>

definition w_UUID :: "bytes \<Rightarrow> CopyWriter \<Rightarrow> CopyWriter" where
  "w_UUID u w = cw_count (cw_app u (cw_app [0, 0, 0, 16] w))"

text \<open>A time is its nanoseconds since the Unix epoch, the same in every zone.\<close>

definition w_Timestamp :: "int \<Rightarrow> CopyWriter \<Rightarrow> CopyWriter" where
  "w_Timestamp t w =
     (let us = Microseconds (Time_Sub t pgEpoch) in cw_count (cw_app ([0, 0, 0, 8] @ be_put 8 us) w))"

definition w_TimestampTZ :: "int \<Rightarrow> CopyWriter \<Rightarrow> CopyWriter" where
  "w_TimestampTZ t w =
     (let us = Microseconds (Time_Sub t pgEpoch) in cw_count (cw_app ([0, 0, 0, 8] @ be_put 8 us) w))"

datatype copy_field =
    FNull | FInt2 int | FInt4 int | FInt8 int | FBool bool | FFloat4 int | FFloat8 int
  | FText bytes | FBytes bytes | FUUID bytes | FTimestamp int | FTimestampTZ int

text \<open>One call of a method of the writer.\<close>

fun write_field :: "copy_field \<Rightarrow> CopyWriter \<Rightarrow> CopyWriter" where
  "write_field FNull = w_Null"
| "write_field (FInt2 v) = w_Int2 v"
| "write_field (FInt4 v) = w_Int4 v"
| "write_field (FInt8 v) = w_Int8 v"
| "write_field (FBool v) = w_Bool v"
| "write_field (FFloat4 v) = w_Float4 v"
| "write_field (FFloat8 v) = w_Float8 v"
| "write_field (FText v) = w_Text v"
| "write_field (FBytes v) = w_Bytes v"
| "write_field (FUUID v) = w_UUID v"
| "write_field (FTimestamp v) = w_Timestamp v"
| "write_field (FTimestampTZ v) = w_TimestampTZ v"

definition cw_flush :: "CopyWriter \<Rightarrow> Client \<Rightarrow> Client \<times> CopyWriter \<times> err option" where
  "cw_flush w c =
     (if length (cw_buf w) \<le> copyHdrLen then (c, w, None)
      else
        let w = w\<lparr>cw_buf := patch 1 (int (length (cw_buf w)) - 1) (cw_buf w)\<rparr> in
        (case WriteRaw (cw_buf w) (wr c) of
           (x, Some e) \<Rightarrow> (c\<lparr>wr := x\<rparr>, w, Some (EWire e))
         | (x, None) \<Rightarrow> (c\<lparr>wr := x\<rparr>, w\<lparr>cw_buf := take copyHdrLen (cw_buf w)\<rparr>, None)))"

section \<open>Waiting for the server\<close>

definition copy_in_turn ::
  "byte \<Rightarrow> bytes \<Rightarrow> pg_error option \<Rightarrow> Client \<Rightarrow> Client \<times> (pg_error option + err option)"
where
  "copy_in_turn t body l c =
     (if t = MsgCopyInResponse then (c, Inr None)
      else if t = MsgErrorResponse then (c, Inl (Some (Parse body)))
      else if t = MsgReadyForQuery then
        (case l of
           Some pe \<Rightarrow> (c, Inr (Some (EPg pe)))
         | None \<Rightarrow> (c, Inr (Some (EMsg ''pgz: ReadyForQuery before CopyInResponse''))))
      else if t = MsgNoticeResponse then (on_notice body c, Inl l)
      else if t = MsgParameterStatus then (on_parameter body c, Inl l)
      else if t = MsgCommandComplete then (c, Inr (Some (EMsg ''pgz: COPY completed without accepting data'')))
      else (c, Inr (Some (EUnexpected t))))"

definition awaitCopyInResponse :: "Client \<Rightarrow> Client \<times> err option" where
  "awaitCopyInResponse c = msg_loop copy_in_turn (\<lambda>e l c. (c, Some (EWire e))) None c"

text \<open>\<open>drainUntilReady\<close>: every message is swallowed, notices and parameters too.\<close>

definition swallow_turn :: "byte \<Rightarrow> bytes \<Rightarrow> unit \<Rightarrow> Client \<Rightarrow> Client \<times> (unit + unit)" where
  "swallow_turn t body l c = (c, if t = MsgReadyForQuery then Inr () else Inl ())"

definition swallowUntilReady :: "Client \<Rightarrow> Client" where
  "swallowUntilReady c = fst (msg_loop swallow_turn (\<lambda>e l c. (c, ())) () c)"

definition complete_turn ::
  "byte \<Rightarrow> bytes \<Rightarrow> int \<times> pg_error option \<Rightarrow> Client \<Rightarrow> Client \<times> ((int \<times> pg_error option) + int \<times> err option)"
where
  "complete_turn t body l c =
     (case l of (rows, pgError) \<Rightarrow>
       if t = MsgCommandComplete then
         (case complete_tag body of
            None \<Rightarrow> (c, Inr (0, Some EPanic))
          | Some r \<Rightarrow> (c, Inl (RowsAffected r, pgError)))
       else if t = MsgNoticeResponse then (on_notice body c, Inl (rows, pgError))
       else if t = MsgParameterStatus then (on_parameter body c, Inl (rows, pgError))
       else if t = MsgErrorResponse then (c, Inl (rows, Some (Parse body)))
       else if t = MsgReadyForQuery then
         (c, Inr (case pgError of Some pe \<Rightarrow> (0, Some (EPg pe)) | None \<Rightarrow> (rows, None)))
       else if t = MsgEmptyQueryResponse then (c, Inl (rows, pgError))
       else (c, Inr (0, Some (EUnexpected t))))"

definition awaitCopyComplete :: "Client \<Rightarrow> Client \<times> int \<times> err option" where
  "awaitCopyComplete c = msg_loop complete_turn (\<lambda>e l c. (c, 0, Some (EWire e))) (0, None) c"

section \<open>Sending\<close>

definition sendCopyDone :: "Client \<Rightarrow> Client \<times> err option" where
  "sendCopyDone c = send_message MsgCopyDone id c"

definition sendCopyFail :: "bytes \<Rightarrow> Client \<Rightarrow> Client \<times> err option" where
  "sendCopyFail reason c = send_message MsgCopyFail (b_CString reason) c"

record copy_source =
  cs_data :: bytes
  cs_err :: "err option"

text \<open>\<open>io.ReadFull(r, buf)\<close>: the bytes read, and how it ended.\<close>

datatype read_end = ReadOK | ReadEOF | ReadErr err

definition ReadFull :: "nat \<Rightarrow> copy_source \<Rightarrow> copy_source \<times> bytes \<times> read_end" where
  "ReadFull n r =
     (if n \<le> length (cs_data r) then (r\<lparr>cs_data := drop n (cs_data r)\<rparr>, take n (cs_data r), ReadOK)
      else (r\<lparr>cs_data := []\<rparr>, cs_data r, case cs_err r of None \<Rightarrow> ReadEOF | Some e \<Rightarrow> ReadErr e))"

definition copy_data_frame :: "bytes \<Rightarrow> bytes" where
  "copy_data_frame b = [MsgCopyData] @ be_put 4 (int (length b) + 4) @ b"

function pumpCopyData :: "copy_source \<Rightarrow> Client \<Rightarrow> Client \<times> err option" where
  "pumpCopyData r c =
     (case ReadFull copyFlushThreshold r of (r', b, end) \<Rightarrow>
       (case (if b \<noteq> [] then WriteRaw (copy_data_frame b) (wr c) else (wr c, None)) of
          (x, Some e) \<Rightarrow> (c\<lparr>wr := x\<rparr>, Some (EWire e))
        | (x, None) \<Rightarrow>
            (case end of
               ReadEOF \<Rightarrow> (c\<lparr>wr := x\<rparr>, None)
             | ReadErr e \<Rightarrow> (c\<lparr>wr := x\<rparr>, Some e)
             | ReadOK \<Rightarrow> pumpCopyData r' (c\<lparr>wr := x\<rparr>))))"
  by pat_completeness auto
termination
  by (relation "measure (\<lambda>(r, c). length (cs_data r))")
     (auto simp: ReadFull_def copyFlushThreshold_def split: if_splits option.splits)

declare pumpCopyData.simps [simp del]

section \<open>CopyFrom\<close>

definition copyFrom :: "(err \<Rightarrow> bytes) \<Rightarrow> bytes \<Rightarrow> copy_source \<Rightarrow> Client \<Rightarrow> Client \<times> int \<times> err option" where
  "copyFrom msg sql r c =
     (case send_message MsgQuery (b_CString sql) c of
        (c, Some e) \<Rightarrow> (c, 0, Some e)
      | (c, None) \<Rightarrow>
          (case awaitCopyInResponse c of
             (c, Some e) \<Rightarrow> (c, 0, Some e)
           | (c, None) \<Rightarrow>
               (case pumpCopyData r c of
                  (c, Some e) \<Rightarrow> (swallowUntilReady (fst (sendCopyFail (msg e) c)), 0, Some e)
                | (c, None) \<Rightarrow>
                    (case sendCopyDone c of
                       (c, Some e) \<Rightarrow> (c, 0, Some e)
                     | (c, None) \<Rightarrow> awaitCopyComplete c))))"

text \<open>The deferred \<open>recordEnd\<close> and the context, shared by the four entry points.\<close>

definition recorded ::
  "ctx \<Rightarrow> bytes \<Rightarrow> (Client \<Rightarrow> Client \<times> int \<times> int \<times> err option) \<Rightarrow> Client \<Rightarrow> Client \<times> int \<times> err option"
where
  "recorded x sql f c =
     (let c = observe (OnQueryStart sql) c in
      case (case attachContext x of (_, Some e) \<Rightarrow> (c, 0, 0, Some e) | (_, None) \<Rightarrow> f c) of
        (c, rows, bytes, e) \<Rightarrow>
          (case since c of (dur, c) \<Rightarrow> (recordEnd sql rows bytes dur e c, rows, e)))"

definition CopyFrom :: "(err \<Rightarrow> bytes) \<Rightarrow> ctx \<Rightarrow> bytes \<Rightarrow> copy_source \<Rightarrow> Client \<Rightarrow> Client \<times> int \<times> err option" where
  "CopyFrom msg x sql r = recorded x sql (\<lambda>c. case copyFrom msg sql r c of (c, rows, e) \<Rightarrow> (c, rows, 0, e))"

section \<open>CopyFromBinary\<close>

definition pgcopy_header :: bytes where
  "pgcopy_header = asc ''PGCOPY'' @ [10, 255, 13, 10, 0] @ [0, 0, 0, 0] @ [0, 0, 0, 0]"

text \<open>The loop over the calls of \<open>emit\<close>; when the list ends \<open>emit\<close> reports the end of the stream.\<close>

definition patch2 :: "nat \<Rightarrow> int \<Rightarrow> bytes \<Rightarrow> bytes" where
  "patch2 a v buf = take a buf @ be_put 2 v @ drop (a + 2) buf"

definition abort_copy :: "bytes \<Rightarrow> err \<Rightarrow> Client \<Rightarrow> Client \<times> int \<times> err option" where
  "abort_copy reason e c = (swallowUntilReady (fst (sendCopyFail reason c)), 0, Some e)"

definition end_copy :: "int \<Rightarrow> CopyWriter \<Rightarrow> Client \<Rightarrow> Client \<times> int \<times> err option" where
  "end_copy rows w c =
     (let w = w\<lparr>cw_buf := take (rowStart w) (cw_buf w)\<rparr>; w = cw_app [255, 255] w in
      case cw_flush w c of
        (c, w, Some e) \<Rightarrow> (c, 0, Some e)
      | (c, w, None) \<Rightarrow>
          (case sendCopyDone c of
             (c, Some e) \<Rightarrow> (c, 0, Some e)
           | (c, None) \<Rightarrow> (case awaitCopyComplete c of (c, _, e) \<Rightarrow> (c, rows, e))))"

fun emit_loop ::
  "(err \<Rightarrow> bytes) \<Rightarrow> int \<Rightarrow> (copy_field list \<times> err option) list \<Rightarrow> int \<Rightarrow> CopyWriter \<Rightarrow> Client \<Rightarrow> Client \<times> int \<times> err option"
where
  "emit_loop msg n [] rows w c =
     end_copy rows ((cw_app [0, 0] (w\<lparr>rowStart := length (cw_buf w)\<rparr>))\<lparr>cw_written := 0\<rparr>) c"
| "emit_loop msg n ((fs, res) # calls) rows w c =
     (let w = (cw_app [0, 0] (w\<lparr>rowStart := length (cw_buf w)\<rparr>))\<lparr>cw_written := 0\<rparr>;
          w = fold write_field fs w in
      case res of
        Some e \<Rightarrow> if e = EEOF then end_copy rows w c else abort_copy (msg e) e c
      | None \<Rightarrow>
          if int (cw_written w) \<noteq> n
          then let e = EMsg ''pgz: CopyFromBinary: wrong number of fields'' in abort_copy (msg e) e c
          else
            let w = w\<lparr>cw_buf := patch2 (rowStart w) n (cw_buf w)\<rparr> in
            if copyFlushThreshold \<le> length (cw_buf w)
            then (case cw_flush w c of
                    (c, w, Some e) \<Rightarrow> (c, 0, Some e)
                  | (c, w, None) \<Rightarrow> emit_loop msg n calls (rows + 1) w c)
            else emit_loop msg n calls (rows + 1) w c)"

definition copyFromBinary ::
  "(err \<Rightarrow> bytes) \<Rightarrow> bytes \<Rightarrow> int \<Rightarrow> (copy_field list \<times> err option) list \<Rightarrow> Client \<Rightarrow> Client \<times> int \<times> err option"
where
  "copyFromBinary msg sql n calls c =
     (case send_message MsgQuery (b_CString sql) c of
        (c, Some e) \<Rightarrow> (c, 0, Some e)
      | (c, None) \<Rightarrow>
          (case awaitCopyInResponse c of
             (c, Some e) \<Rightarrow> (c, 0, Some e)
           | (c, None) \<Rightarrow> emit_loop msg n calls 0 (cw_app pgcopy_header (newCopyWriter n)) c))"

definition CopyFromBinary ::
  "(err \<Rightarrow> bytes) \<Rightarrow> ctx \<Rightarrow> bytes \<Rightarrow> int \<Rightarrow> (copy_field list \<times> err option) list \<Rightarrow> Client \<Rightarrow> Client \<times> int \<times> err option"
where
  "CopyFromBinary msg x sql n calls c =
     (if n \<le> 0 \<or> 2 ^ 15 - 1 < n then (c, 0, Some (EMsg ''pgz: CopyFromBinary: invalid fieldCount''))
      else recorded x sql (\<lambda>c. case copyFromBinary msg sql n calls c of (c, rows, e) \<Rightarrow> (c, rows, 0, e)) c)"

end
