(* ===== verification/CopyOut.thy ===== *)
theory CopyOut
  imports CopyIn
begin

text \<open>
  src/pgz/copy_to.go: COPY TO STDOUT, to a writer and row by row in the binary format.

  The callback \<open>handler\<close> gets a \<open>CopyReader\<close> and can only call its methods, so it is a tree: it
  returns, or calls a method and goes on with its result.  It may keep a state \<open>'u\<close> between rows.
\<close>

section \<open>The row reader\<close>

record CopyReader =
  cr_body :: bytes
  cr_err :: "err option"

definition cr_reset :: "bytes \<Rightarrow> CopyReader \<Rightarrow> CopyReader" where
  "cr_reset b r = \<lparr>cr_body = b, cr_err = None\<rparr>"

text \<open>\<open>fieldHeader\<close>: the length and whether the field is NULL.\<close>

definition fieldHeader :: "CopyReader \<Rightarrow> CopyReader \<times> int \<times> bool" where
  "fieldHeader r =
     (if cr_err r \<noteq> None then (r, 0, False)
      else if length (cr_body r) < 4
      then (r\<lparr>cr_err := Some (EMsg ''pgz: CopyReader: truncated field header'')\<rparr>, 0, False)
      else
        let l = int32_of (be_get (take 4 (cr_body r)));
            r = r\<lparr>cr_body := drop 4 (cr_body r)\<rparr> in
        if l = - 1 then (r, 0, True)
        else if l < 0 \<or> int (length (cr_body r)) < l
        then (r\<lparr>cr_err := Some (EMsg ''pgz: CopyReader: bad field length'')\<rparr>, 0, False)
        else (r, l, False))"

definition IsNull :: "CopyReader \<Rightarrow> CopyReader \<times> bool" where
  "IsNull r =
     (if cr_err r \<noteq> None then (r, False)
      else if length (cr_body r) < 4
      then (r\<lparr>cr_err := Some (EMsg ''pgz: CopyReader: truncated field header'')\<rparr>, False)
      else (r, int32_of (be_get (take 4 (cr_body r))) = - 1))"

definition SkipNull :: "CopyReader \<Rightarrow> CopyReader \<times> bool" where
  "SkipNull r =
     (if cr_err r \<noteq> None \<or> length (cr_body r) < 4 then (r, False)
      else if int32_of (be_get (take 4 (cr_body r))) = - 1 then (r\<lparr>cr_body := drop 4 (cr_body r)\<rparr>, True)
      else (r, False))"

text \<open>
  The readers of a fixed width share their code: header, width check, value.  What they do on NULL
  or after an error is return the zero value and the NULL flag.
\<close>

definition read_fixed :: "nat \<Rightarrow> (bytes \<Rightarrow> 'a) \<Rightarrow> 'a \<Rightarrow> CopyReader \<Rightarrow> CopyReader \<times> 'a \<times> bool" where
  "read_fixed n f z r =
     (case fieldHeader r of (r, l, isnull) \<Rightarrow>
       if isnull \<or> cr_err r \<noteq> None then (r, z, isnull)
       else if l \<noteq> int n
       then (r\<lparr>cr_err := Some (EMsg ''pgz: CopyReader: unexpected field length'')\<rparr>, z, False)
       else (r\<lparr>cr_body := drop n (cr_body r)\<rparr>, f (take n (cr_body r)), False))"

definition r_Int2 :: "CopyReader \<Rightarrow> CopyReader \<times> int \<times> bool" where
  "r_Int2 = read_fixed 2 (\<lambda>b. int16_of (be_get b)) 0"

definition r_Int4 :: "CopyReader \<Rightarrow> CopyReader \<times> int \<times> bool" where
  "r_Int4 = read_fixed 4 (\<lambda>b. int32_of (be_get b)) 0"

definition r_Int8 :: "CopyReader \<Rightarrow> CopyReader \<times> int \<times> bool" where
  "r_Int8 = read_fixed 8 (\<lambda>b. int64_of (be_get b)) 0"

definition r_Bool :: "CopyReader \<Rightarrow> CopyReader \<times> bool \<times> bool" where
  "r_Bool = read_fixed 1 (\<lambda>b. hd b \<noteq> 0) False"

definition r_Float4 :: "CopyReader \<Rightarrow> CopyReader \<times> int \<times> bool" where
  "r_Float4 = read_fixed 4 be_get 0"

definition r_Float8 :: "CopyReader \<Rightarrow> CopyReader \<times> int \<times> bool" where
  "r_Float8 = read_fixed 8 be_get 0"

definition r_UUID :: "CopyReader \<Rightarrow> CopyReader \<times> bytes \<times> bool" where
  "r_UUID = read_fixed 16 id (replicate 16 0)"

definition r_Text :: "CopyReader \<Rightarrow> CopyReader \<times> bytes \<times> bool" where
  "r_Text r =
     (case fieldHeader r of (r, l, isnull) \<Rightarrow>
       if isnull \<or> cr_err r \<noteq> None then (r, [], isnull)
       else (r\<lparr>cr_body := drop (nat l) (cr_body r)\<rparr>, take (nat l) (cr_body r), False))"

definition r_Bytes :: "CopyReader \<Rightarrow> CopyReader \<times> bytes \<times> bool" where
  "r_Bytes = r_Text"

definition r_Timestamp :: "CopyReader \<Rightarrow> CopyReader \<times> int \<times> bool" where
  "r_Timestamp = read_fixed 8 (\<lambda>b. int64_of (be_get b)) 0"

text \<open>
  \<open>pgEpoch.Add(time.Duration(us) * time.Microsecond)\<close>: the product wraps in 64 bits; a time is its
  nanoseconds since the Unix epoch, and \<open>time.Time\{\}\<close> is the start of the year 1.
\<close>

definition r_TimestampTime :: "CopyReader \<Rightarrow> CopyReader \<times> int \<times> bool" where
  "r_TimestampTime r =
     (case r_Timestamp r of (r, us, isnull) \<Rightarrow>
       if isnull \<or> cr_err r \<noteq> None then (r, - 62135596800000000000, isnull)
       else (r, pgEpoch + int64_of (us * 1000), False))"

section \<open>Handlers\<close>

datatype read_op =
    RIsNull | RSkipNull | RInt2 | RInt4 | RInt8 | RBool | RFloat4 | RFloat8 | RText | RBytes | RUUID
  | RTimestamp | RTimestampTime | RErr

datatype read_value = RBit bool | RInt int bool | RBoolean bool bool | RSlice bytes bool | RError "err option"

fun read_call :: "read_op \<Rightarrow> CopyReader \<Rightarrow> CopyReader \<times> read_value" where
  "read_call RIsNull r = (case IsNull r of (r, b) \<Rightarrow> (r, RBit b))"
| "read_call RSkipNull r = (case SkipNull r of (r, b) \<Rightarrow> (r, RBit b))"
| "read_call RInt2 r = (case r_Int2 r of (r, v, n) \<Rightarrow> (r, RInt v n))"
| "read_call RInt4 r = (case r_Int4 r of (r, v, n) \<Rightarrow> (r, RInt v n))"
| "read_call RInt8 r = (case r_Int8 r of (r, v, n) \<Rightarrow> (r, RInt v n))"
| "read_call RBool r = (case r_Bool r of (r, v, n) \<Rightarrow> (r, RBoolean v n))"
| "read_call RFloat4 r = (case r_Float4 r of (r, v, n) \<Rightarrow> (r, RInt v n))"
| "read_call RFloat8 r = (case r_Float8 r of (r, v, n) \<Rightarrow> (r, RInt v n))"
| "read_call RText r = (case r_Text r of (r, v, n) \<Rightarrow> (r, RSlice v n))"
| "read_call RBytes r = (case r_Bytes r of (r, v, n) \<Rightarrow> (r, RSlice v n))"
| "read_call RUUID r = (case r_UUID r of (r, v, n) \<Rightarrow> (r, RSlice v n))"
| "read_call RTimestamp r = (case r_Timestamp r of (r, v, n) \<Rightarrow> (r, RInt v n))"
| "read_call RTimestampTime r = (case r_TimestampTime r of (r, v, n) \<Rightarrow> (r, RInt v n))"
| "read_call RErr r = (r, RError (cr_err r))"

datatype 'u handler = Ret 'u "err option" | Call read_op "read_value \<Rightarrow> 'u handler"

primrec run_handler :: "'u handler \<Rightarrow> CopyReader \<Rightarrow> CopyReader \<times> 'u \<times> err option" where
  "run_handler (Ret u e) r = (r, u, e)"
| "run_handler (Call rop k) r = (case read_call rop r of (r, v) \<Rightarrow> run_handler (k v) r)"

text \<open>No method gives bytes back.\<close>

lemma fieldHeader_shrinks: "fieldHeader r = (r', l, b) \<Longrightarrow> length (cr_body r') \<le> length (cr_body r)"
  by (auto simp: fieldHeader_def Let_def split: if_splits)

lemma read_fixed_shrinks: "read_fixed n f z r = (r', v, b) \<Longrightarrow> length (cr_body r') \<le> length (cr_body r)"
  by (auto simp: read_fixed_def dest!: fieldHeader_shrinks split: prod.splits if_splits)

lemma r_Text_shrinks: "r_Text r = (r', v, b) \<Longrightarrow> length (cr_body r') \<le> length (cr_body r)"
  by (auto simp: r_Text_def dest!: fieldHeader_shrinks split: prod.splits if_splits)

lemma read_call_shrinks: "read_call rop r = (r', v) \<Longrightarrow> length (cr_body r') \<le> length (cr_body r)"
  by (cases rop)
     (auto simp: IsNull_def SkipNull_def r_Int2_def r_Int4_def r_Int8_def r_Bool_def r_Float4_def r_Float8_def r_UUID_def
        r_Bytes_def r_Timestamp_def r_TimestampTime_def
       dest!: read_fixed_shrinks r_Text_shrinks split: prod.splits if_splits)

lemma run_handler_shrinks: "run_handler h r = (r', u, e) \<Longrightarrow> length (cr_body r') \<le> length (cr_body r)"
proof (induction h arbitrary: r)
  case (Call rop k)
  obtain r1 v where v: "read_call rop r = (r1, v)" by (cases "read_call rop r")
  have "run_handler (k v) r1 = (r', u, e)" using Call.prems v by simp
  from Call.IH [OF _ this] have "length (cr_body r') \<le> length (cr_body r1)" by simp
  then show ?case using read_call_shrinks [OF v] by simp
qed simp

section \<open>Waiting for the server\<close>

definition copy_out_turn ::
  "byte \<Rightarrow> bytes \<Rightarrow> pg_error option \<Rightarrow> Client \<Rightarrow> Client \<times> (pg_error option + err option)"
where
  "copy_out_turn t body l c =
     (if t = MsgCopyOutResponse then (c, Inr None)
      else if t = MsgErrorResponse then (c, Inl (Some (Parse body)))
      else if t = MsgReadyForQuery then
        (case l of
           Some pe \<Rightarrow> (c, Inr (Some (EPg pe)))
         | None \<Rightarrow> (c, Inr (Some (EMsg ''pgz: ReadyForQuery before CopyOutResponse''))))
      else if t = MsgNoticeResponse then (on_notice body c, Inl l)
      else if t = MsgParameterStatus then (on_parameter body c, Inl l)
      else if t = MsgCommandComplete then (c, Inr (Some (EMsg ''pgz: COPY completed before producing data'')))
      else (c, Inr (Some (EUnexpected t))))"

definition awaitCopyOutResponse :: "Client \<Rightarrow> Client \<times> err option" where
  "awaitCopyOutResponse c = msg_loop copy_out_turn (\<lambda>e l c. (c, Some (EWire e))) None c"

definition ready_turn :: "byte \<Rightarrow> bytes \<Rightarrow> unit \<Rightarrow> Client \<Rightarrow> Client \<times> (unit + err option)" where
  "ready_turn t body l c =
     (if t = MsgReadyForQuery then (c, Inr None)
      else if t = MsgNoticeResponse then (on_notice body c, Inl ())
      else if t = MsgParameterStatus then (on_parameter body c, Inl ())
      else (c, Inl ()))"

definition waitForReady :: "Client \<Rightarrow> Client \<times> err option" where
  "waitForReady c = msg_loop ready_turn (\<lambda>e l c. (c, Some (EWire e))) () c"

section \<open>CopyTo\<close>

definition copy_to_turn ::
  "byte \<Rightarrow> bytes \<Rightarrow> sink \<times> int \<Rightarrow> Client \<Rightarrow> Client \<times> ((sink \<times> int) + sink \<times> int \<times> int \<times> err option)"
where
  "copy_to_turn t body l c =
     (case l of (w, bytesOut) \<Rightarrow>
       if t = MsgCopyData then
         (case sink_write body w of
            (w, None) \<Rightarrow> (c, Inl (w, bytesOut + int (length body)))
          | (w, Some e) \<Rightarrow> (swallowUntilReady c, Inr (w, 0, bytesOut, Some (EDown e))))
       else if t = MsgCopyDone then (c, Inl (w, bytesOut))
       else if t = MsgCommandComplete then
         (case complete_tag body of
            None \<Rightarrow> (c, Inr (w, 0, bytesOut, Some EPanic))
          | Some r \<Rightarrow> (case waitForReady c of (c, e) \<Rightarrow> (c, Inr (w, RowsAffected r, bytesOut, e))))
       else if t = MsgErrorResponse then
         (swallowUntilReady c, Inr (w, 0, bytesOut, Some (EPg (Parse body))))
       else if t = MsgNoticeResponse then (on_notice body c, Inl (w, bytesOut))
       else if t = MsgParameterStatus then (on_parameter body c, Inl (w, bytesOut))
       else (c, Inr (w, 0, bytesOut, Some (EUnexpected t))))"

definition copyTo :: "bytes \<Rightarrow> sink \<Rightarrow> Client \<Rightarrow> Client \<times> sink \<times> int \<times> int \<times> err option" where
  "copyTo sql w c =
     (case send_message MsgQuery (b_CString sql) c of
        (c, Some e) \<Rightarrow> (c, w, 0, 0, Some e)
      | (c, None) \<Rightarrow>
          (case awaitCopyOutResponse c of
             (c, Some e) \<Rightarrow> (c, w, 0, 0, Some e)
           | (c, None) \<Rightarrow>
               msg_loop copy_to_turn (\<lambda>e (w, bytesOut) c. (c, w, 0, bytesOut, Some (EWire e))) (w, 0) c))"

definition CopyTo :: "ctx \<Rightarrow> bytes \<Rightarrow> sink \<Rightarrow> Client \<Rightarrow> Client \<times> sink \<times> int \<times> err option" where
  "CopyTo x sql w c =
     (let c = observe (OnQueryStart sql) c in
      case (case attachContext x of (_, Some e) \<Rightarrow> (c, w, 0, 0, Some e) | (_, None) \<Rightarrow> copyTo sql w c) of
        (c, w, rows, bytesOut, e) \<Rightarrow>
          (case since c of (dur, c) \<Rightarrow> (recordEnd sql rows bytesOut dur e c, w, rows, e)))"

section \<open>CopyToBinary\<close>

definition pgcopy_magic :: bytes where
  "pgcopy_magic = asc ''PGCOPY'' @ [10, 255, 13, 10, 0]"

text \<open>\<open>consumePGCopyHeader\<close>; \<open>None\<close> is the invalid magic.\<close>

definition consumePGCopyHeader :: "bytes \<Rightarrow> nat \<Rightarrow> (bytes \<times> nat \<times> bool) option" where
  "consumePGCopyHeader body cursor =
     (if cursor = 0 \<and> 11 \<le> length body \<and> take 11 body \<noteq> pgcopy_magic then None
      else let remaining = 19 - cursor in
        if length body < remaining then Some ([], cursor + length body, False)
        else Some (drop remaining body, 19, True))"

text \<open>What ends the loop over the tuples of a message; \<open>drain\<close> says whether the rest is swallowed.\<close>

datatype tuple_end = TupleDone | TupleStop bool "err option"

function tuple_loop :: "('u \<Rightarrow> 'u handler) \<Rightarrow> int \<Rightarrow> bytes \<Rightarrow> int \<Rightarrow> 'u \<Rightarrow> int \<times> 'u \<times> tuple_end" where
  "tuple_loop h n body rows u =
     (if body = [] then (rows, u, TupleDone)
      else if length body < 2
      then (rows, u, TupleStop False (Some (EMsg ''pgz: truncated CopyData tuple header'')))
      else let fc = int16_of (be_get (take 2 body)) in
        if fc = - 1 then tuple_loop h n (drop 2 body) rows u
        else if fc \<noteq> n
        then (rows, u, TupleStop False (Some (EMsg ''pgz: CopyToBinary: wrong number of fields'')))
        else (case run_handler (h u) \<lparr>cr_body = drop 2 body, cr_err = None\<rparr> of
                (r, u, Some e) \<Rightarrow> (rows, u, TupleStop True (if e = EEOF then None else Some e))
              | (r, u, None) \<Rightarrow>
                  (case cr_err r of
                     Some e \<Rightarrow> (rows, u, TupleStop True (Some e))
                   | None \<Rightarrow> tuple_loop h n (cr_body r) (rows + 1) u)))"
  by pat_completeness auto
termination
proof (relation "measure (\<lambda>(h, n, body, rows, u). length body)", goal_cases)
  case (3 h n body rows u fc r x u' z)
  then show ?case using run_handler_shrinks [of "h u" "\<lparr>cr_body = drop 2 body, cr_err = None\<rparr>" r u' None]
    by (cases body) auto
qed auto

declare tuple_loop.simps [simp del]

record 'u copy_locals =
  hdrCursor :: nat
  headerSeen :: bool
  ct_rows :: int
  ct_user :: 'u

definition copy_to_binary_turn ::
  "('u \<Rightarrow> 'u handler) \<Rightarrow> int \<Rightarrow> byte \<Rightarrow> bytes \<Rightarrow> 'u copy_locals \<Rightarrow> Client \<Rightarrow>
   Client \<times> ('u copy_locals + int \<times> 'u \<times> err option)"
where
  "copy_to_binary_turn h n t body l c =
     (if t = MsgCopyData then
        (case (if headerSeen l then Some (body, hdrCursor l, True) else consumePGCopyHeader body (hdrCursor l)) of
           None \<Rightarrow> (swallowUntilReady c, Inr (ct_rows l, ct_user l, Some (EMsg ''pgz: invalid PGCOPY magic'')))
         | Some (body, cursor, seen) \<Rightarrow>
             let l = l\<lparr>hdrCursor := cursor, headerSeen := seen\<rparr> in
             if \<not> seen then (c, Inl l)
             else (case tuple_loop h n body (ct_rows l) (ct_user l) of
                     (rows, u, TupleDone) \<Rightarrow> (c, Inl (l\<lparr>ct_rows := rows, ct_user := u\<rparr>))
                   | (rows, u, TupleStop drain e) \<Rightarrow> (if drain then swallowUntilReady c else c, Inr (rows, u, e))))
      else if t = MsgCopyDone then (c, Inl l)
      else if t = MsgCommandComplete then
        (case waitForReady c of (c, e) \<Rightarrow> (c, Inr (ct_rows l, ct_user l, e)))
      else if t = MsgErrorResponse then
        (swallowUntilReady c, Inr (ct_rows l, ct_user l, Some (EPg (Parse body))))
      else if t = MsgNoticeResponse then (on_notice body c, Inl l)
      else if t = MsgParameterStatus then (on_parameter body c, Inl l)
      else (c, Inr (ct_rows l, ct_user l, Some (EUnexpected t))))"

definition copyToBinary ::
  "bytes \<Rightarrow> int \<Rightarrow> ('u \<Rightarrow> 'u handler) \<Rightarrow> 'u \<Rightarrow> Client \<Rightarrow> Client \<times> int \<times> 'u \<times> err option"
where
  "copyToBinary sql n h u c =
     (case send_message MsgQuery (b_CString sql) c of
        (c, Some e) \<Rightarrow> (c, 0, u, Some e)
      | (c, None) \<Rightarrow>
          (case awaitCopyOutResponse c of
             (c, Some e) \<Rightarrow> (c, 0, u, Some e)
           | (c, None) \<Rightarrow>
               msg_loop (copy_to_binary_turn h n) (\<lambda>e l c. (c, ct_rows l, ct_user l, Some (EWire e)))
                 \<lparr>hdrCursor = 0, headerSeen = False, ct_rows = 0, ct_user = u\<rparr> c))"

definition CopyToBinary ::
  "ctx \<Rightarrow> bytes \<Rightarrow> int \<Rightarrow> ('u \<Rightarrow> 'u handler) \<Rightarrow> 'u \<Rightarrow> Client \<Rightarrow> Client \<times> int \<times> 'u \<times> err option"
where
  "CopyToBinary x sql n h u c =
     (if n \<le> 0 \<or> 2 ^ 15 - 1 < n then (c, 0, u, Some (EMsg ''pgz: CopyToBinary: invalid fieldCount''))
      else
        let c = observe (OnQueryStart sql) c in
        (case (case attachContext x of (_, Some e) \<Rightarrow> (c, 0, u, Some e) | (_, None) \<Rightarrow> copyToBinary sql n h u c) of
           (c, rows, u, e) \<Rightarrow> (case since c of (dur, c) \<Rightarrow> (recordEnd sql rows 0 dur e c, rows, u, e))))"

end
