(* ===== verification/CopyCorrect.thy ===== *)
theory CopyCorrect
  imports CopyOut QueryServe
begin

text \<open>
  The binary COPY format: what \<open>CopyFromBinary\<close> sends for given rows, and what a handler of
  \<open>CopyToBinary\<close> reads from it.
\<close>

section \<open>The format\<close>

text \<open>A field is sent like a cell of a DataRow, a row is a count and its fields.\<close>

fun field_value :: "copy_field \<Rightarrow> bytes option" where
  "field_value FNull = None"
| "field_value (FInt2 v) = Some (be_put 2 v)"
| "field_value (FInt4 v) = Some (be_put 4 v)"
| "field_value (FInt8 v) = Some (be_put 8 v)"
| "field_value (FBool b) = Some [if b then 1 else 0]"
| "field_value (FFloat4 u) = Some (be_put 4 u)"
| "field_value (FFloat8 u) = Some (be_put 8 u)"
| "field_value (FText s) = Some s"
| "field_value (FBytes s) = Some s"
| "field_value (FUUID s) = Some s"
| "field_value (FTimestamp t) = Some (be_put 8 (Microseconds (Time_Sub t pgEpoch)))"
| "field_value (FTimestampTZ t) = Some (be_put 8 (Microseconds (Time_Sub t pgEpoch)))"

fun field_ok :: "copy_field \<Rightarrow> bool" where
  "field_ok (FInt2 v) = (- (2 ^ 15) \<le> v \<and> v < 2 ^ 15)"
| "field_ok (FInt4 v) = (- (2 ^ 31) \<le> v \<and> v < 2 ^ 31)"
| "field_ok (FInt8 v) = (- (2 ^ 63) \<le> v \<and> v < 2 ^ 63)"
| "field_ok (FFloat4 u) = (0 \<le> u \<and> u < 2 ^ 32)"
| "field_ok (FFloat8 u) = (0 \<le> u \<and> u < 2 ^ 64)"
| "field_ok (FText s) = (length s < 2 ^ 31)"
| "field_ok (FBytes s) = (length s < 2 ^ 31)"
| "field_ok (FUUID s) = (length s = 16)"
| "field_ok _ = True"

definition row_bytes :: "copy_field list \<Rightarrow> bytes" where
  "row_bytes fs = concat (map (\<lambda>f. elem_send (field_value f)) fs)"

definition tuple_bytes :: "int \<Rightarrow> copy_field list \<Rightarrow> bytes" where
  "tuple_bytes n fs = be_put 2 n @ row_bytes fs"

definition copy_stream :: "int \<Rightarrow> copy_field list list \<Rightarrow> bytes" where
  "copy_stream n rs = pgcopy_header @ concat (map (tuple_bytes n) rs) @ [255, 255]"

section \<open>Writing\<close>

lemma be_put_small: "[0, 0, 0, 1] = be_put 4 1" "[0, 0, 0, 2] = be_put 4 2" "[0, 0, 0, 4] = be_put 4 4"
  "[0, 0, 0, 8] = be_put 4 8" "[0, 0, 0, 16] = be_put 4 16" "[255, 255, 255, 255] = be_put 4 (- 1)"
  by code_simp+

lemma write_field_eq:
  "field_ok f \<Longrightarrow> write_field f w =
     w\<lparr>cw_buf := cw_buf w @ elem_send (field_value f), cw_written := cw_written w + 1\<rparr>"
  by (cases f)
     (simp_all add: w_Null_def w_Int2_def w_Int4_def w_Int8_def w_Bool_def w_Float4_def w_Float8_def w_Text_def w_Bytes_def
       w_UUID_def w_Timestamp_def w_TimestampTZ_def cw_count_def cw_app_def writeLen_def elem_send_def be_put_int32_of Let_def
       be_put_small)

lemma write_fields_eq:
  "\<forall>f\<in>set fs. field_ok f \<Longrightarrow> fold write_field fs w =
     w\<lparr>cw_buf := cw_buf w @ row_bytes fs, cw_written := cw_written w + length fs\<rparr>"
  by (induction fs arbitrary: w) (simp_all add: write_field_eq row_bytes_def)

section \<open>Reading\<close>

text \<open>What a method of the reader returns on a field it is meant for.\<close>

fun results :: "copy_field \<Rightarrow> (read_op \<times> read_value) list" where
  "results FNull =
     [(RSkipNull, RBit True), (RInt2, RInt 0 True), (RInt4, RInt 0 True), (RInt8, RInt 0 True), (RBool, RBoolean False True),
      (RFloat4, RInt 0 True), (RFloat8, RInt 0 True), (RText, RSlice [] True), (RBytes, RSlice [] True),
      (RUUID, RSlice (replicate 16 0) True), (RTimestamp, RInt 0 True), (RTimestampTime, RInt (- 62135596800000000000) True)]"
| "results (FInt2 v) = [(RInt2, RInt v False)]"
| "results (FInt4 v) = [(RInt4, RInt v False)]"
| "results (FInt8 v) = [(RInt8, RInt v False)]"
| "results (FBool b) = [(RBool, RBoolean b False)]"
| "results (FFloat4 u) = [(RFloat4, RInt u False)]"
| "results (FFloat8 u) = [(RFloat8, RInt u False)]"
| "results (FText s) = [(RText, RSlice s False), (RBytes, RSlice s False)]"
| "results (FBytes s) = [(RBytes, RSlice s False), (RText, RSlice s False)]"
| "results (FUUID s) = [(RUUID, RSlice s False)]"
| "results (FTimestamp t) = [(RTimestamp, RInt (Microseconds (Time_Sub t pgEpoch)) False)]"
| "results (FTimestampTZ t) = [(RTimestamp, RInt (Microseconds (Time_Sub t pgEpoch)) False)]"

definition expected :: "read_op \<Rightarrow> copy_field \<Rightarrow> read_value option" where
  "expected rop f = map_of (results f) rop"

lemma fieldHeader_send:
  "fieldHeader \<lparr>cr_body = elem_send None @ rest, cr_err = None\<rparr> = (\<lparr>cr_body = rest, cr_err = None\<rparr>, 0, True)"
  "length b < 2 ^ 31 \<Longrightarrow> fieldHeader \<lparr>cr_body = elem_send (Some b) @ rest, cr_err = None\<rparr> =
     (\<lparr>cr_body = b @ rest, cr_err = None\<rparr>, int (length b), False)"
proof -
  have "int32_of (be_get (be_put 4 (- 1))) = - 1" using int32_of_mod [of "- 1"] by (simp add: be_get_put int32_of_id)
  then show "fieldHeader \<lparr>cr_body = elem_send None @ rest, cr_err = None\<rparr> = (\<lparr>cr_body = rest, cr_err = None\<rparr>, 0, True)"
    by (simp add: fieldHeader_def elem_send_def)
  show "fieldHeader \<lparr>cr_body = elem_send (Some b) @ rest, cr_err = None\<rparr> =
     (\<lparr>cr_body = b @ rest, cr_err = None\<rparr>, int (length b), False)" if "length b < 2 ^ 31"
    using int32_of_length [OF that] by (simp add: fieldHeader_def elem_send_def Let_def)
qed

lemma read_fixed_send:
  "read_fixed n f z \<lparr>cr_body = elem_send None @ rest, cr_err = None\<rparr> = (\<lparr>cr_body = rest, cr_err = None\<rparr>, z, True)"
  "length b = n \<Longrightarrow> n < 2 ^ 31 \<Longrightarrow> read_fixed n f z \<lparr>cr_body = elem_send (Some b) @ rest, cr_err = None\<rparr> =
     (\<lparr>cr_body = rest, cr_err = None\<rparr>, f b, False)"
  by (simp_all add: read_fixed_def fieldHeader_send)

lemma r_Text_send:
  "r_Text \<lparr>cr_body = elem_send None @ rest, cr_err = None\<rparr> = (\<lparr>cr_body = rest, cr_err = None\<rparr>, [], True)"
  "length b < 2 ^ 31 \<Longrightarrow> r_Text \<lparr>cr_body = elem_send (Some b) @ rest, cr_err = None\<rparr> =
     (\<lparr>cr_body = rest, cr_err = None\<rparr>, b, False)"
  by (simp_all add: r_Text_def fieldHeader_send)

lemma signed_fields:
  "- (2 ^ 15) \<le> v \<Longrightarrow> v < 2 ^ 15 \<Longrightarrow> int16_of (be_get (be_put 2 v)) = v"
  "- (2 ^ 31) \<le> v \<Longrightarrow> v < 2 ^ 31 \<Longrightarrow> int32_of (be_get (be_put 4 v)) = v"
  "- (2 ^ 63) \<le> v \<Longrightarrow> v < 2 ^ 63 \<Longrightarrow> int64_of (be_get (be_put 8 v)) = v"
  using int16_of_mod [of v] int32_of_mod [of v] int64_of_mod [of v]
  by (simp_all add: be_get_put int16_of_id int32_of_id int64_of_id)

lemma signed_mods:
  "- 32768 \<le> v \<Longrightarrow> v < 32768 \<Longrightarrow> int16_of (v mod 65536) = v"
  "- 2147483648 \<le> v \<Longrightarrow> v < 2147483648 \<Longrightarrow> int32_of (v mod 4294967296) = v"
  "- 9223372036854775808 \<le> v \<Longrightarrow> v < 9223372036854775808 \<Longrightarrow> int64_of (v mod 18446744073709551616) = v"
  using int16_of_mod [of v] int32_of_mod [of v] int64_of_mod [of v]
  by (simp_all add: int16_of_id int32_of_id int64_of_id)

lemma Microseconds_range: "- (2 ^ 63) \<le> Microseconds (Time_Sub t u)" "Microseconds (Time_Sub t u) < 2 ^ 63"
proof -
  have d: "- (2 ^ 63) \<le> Time_Sub t u" "Time_Sub t u < 2 ^ 63" by (simp_all add: Time_Sub_def)
  have q: "0 \<le> \<bar>Time_Sub t u\<bar> div 1000" "\<bar>Time_Sub t u\<bar> div 1000 \<le> \<bar>Time_Sub t u\<bar> div 1" by (auto intro: zdiv_mono2)
  have "\<bar>Microseconds (Time_Sub t u)\<bar> \<le> \<bar>Time_Sub t u\<bar> div 1000"
    by (simp add: Microseconds_def signed_divide_int_def abs_mult sgn_if)
  moreover have "\<bar>Time_Sub t u\<bar> div 1000 < 2 ^ 63" using d by (auto simp: abs_if)
  ultimately show "- (2 ^ 63) \<le> Microseconds (Time_Sub t u)" "Microseconds (Time_Sub t u) < 2 ^ 63" by linarith+
qed

lemma SkipNull_send:
  "SkipNull \<lparr>cr_body = elem_send None @ rest, cr_err = None\<rparr> = (\<lparr>cr_body = rest, cr_err = None\<rparr>, True)"
proof -
  have "int32_of (be_get (be_put 4 (- 1))) = - 1" using int32_of_mod [of "- 1"] by (simp add: be_get_put int32_of_id)
  then show ?thesis by (simp add: SkipNull_def elem_send_def)
qed

lemma read_call_send:
  assumes "expected rop f = Some v" "field_ok f"
  shows "read_call rop \<lparr>cr_body = elem_send (field_value f) @ rest, cr_err = None\<rparr> = (\<lparr>cr_body = rest, cr_err = None\<rparr>, v)"
  using assms
  by (cases f)
     (auto simp: expected_def r_Int2_def r_Int4_def r_Int8_def r_Bool_def r_Float4_def r_Float8_def r_UUID_def r_Bytes_def r_Timestamp_def
        r_TimestampTime_def read_fixed_send r_Text_send signed_mods be_get_put Microseconds_range [simplified] SkipNull_send split: if_splits)

section \<open>Rows\<close>

text \<open>A handler that reads each row with the same methods and keeps what they return.\<close>

fun read_row :: "read_op list \<Rightarrow> read_value list \<Rightarrow> read_value list list \<Rightarrow> read_value list list handler" where
  "read_row [] vs u = Ret (u @ [vs]) None"
| "read_row (rop # rops) vs u = Call rop (\<lambda>v. read_row rops (vs @ [v]) u)"

definition row_values :: "read_op list \<Rightarrow> copy_field list \<Rightarrow> read_value list" where
  "row_values rops fs = map (\<lambda>(rop, f). the (expected rop f)) (zip rops fs)"

definition row_fits :: "read_op list \<Rightarrow> copy_field list \<Rightarrow> bool" where
  "row_fits rops fs \<longleftrightarrow> list_all2 (\<lambda>rop f. field_ok f \<and> expected rop f \<noteq> None) rops fs"

lemma run_read_row:
  "row_fits rops fs \<Longrightarrow> run_handler (read_row rops vs u) \<lparr>cr_body = row_bytes fs @ rest, cr_err = None\<rparr> =
     (\<lparr>cr_body = rest, cr_err = None\<rparr>, u @ [vs @ row_values rops fs], None)"
proof (induction rops arbitrary: fs vs)
  case Nil
  then show ?case by (simp add: row_fits_def row_bytes_def row_values_def)
next
  case (Cons rop rops)
  then obtain f fs' where fs: "fs = f # fs'" and ok: "field_ok f" "expected rop f \<noteq> None" and rest: "row_fits rops fs'"
    by (auto simp: row_fits_def list_all2_Cons1)
  obtain v where v: "expected rop f = Some v" using ok by blast
  show ?case
    using read_call_send [OF v ok(1), of "row_bytes fs' @ rest"] Cons.IH [OF rest, of "vs @ [v]"] v
    by (simp add: fs row_bytes_def row_values_def)
qed

lemma row_fits_length: "row_fits rops fs \<Longrightarrow> length fs = length rops"
  by (simp add: row_fits_def list_all2_lengthD)

lemma int16_field_count: "n < 2 ^ 15 \<Longrightarrow> int16_of (be_get (be_put 2 (int n))) = int n"
  by (rule signed_fields(1)) simp_all

lemma tuple_loop_step:
  assumes "int16_of (be_get [x, y]) = n" "0 \<le> n"
    and "run_handler (h u) \<lparr>cr_body = b, cr_err = None\<rparr> = (\<lparr>cr_body = b', cr_err = None\<rparr>, u', None)"
  shows "tuple_loop h n (x # y # b) k u = tuple_loop h n b' (k + 1) u'"
proof -
  have "take 2 (x # y # b) = [x, y]" "drop 2 (x # y # b) = b" by simp_all
  then show ?thesis using assms by (subst tuple_loop.simps) (simp only: Let_def list.distinct if_False, simp)
qed

lemma tuple_loop_rows:
  assumes "rops \<noteq> []" "length rops < 2 ^ 15" "\<forall>fs\<in>set rs. row_fits rops fs"
  shows "tuple_loop (read_row rops []) (int (length rops)) (concat (map (tuple_bytes (int (length rops))) rs) @ tail) k u =
    tuple_loop (read_row rops []) (int (length rops)) tail (k + int (length rs)) (u @ map (row_values rops) rs)"
  using assms(3)
proof (induction rs arbitrary: k u)
  case (Cons fs rs)
  let ?n = "int (length rops)"
  let ?rest = "concat (map (tuple_bytes ?n) rs) @ tail"
  have "tuple_loop (read_row rops []) ?n (be_put 2 ?n @ row_bytes fs @ ?rest) k u =
      tuple_loop (read_row rops []) ?n ?rest (k + 1) (u @ [row_values rops fs])"
  proof -
    have "length (be_put 2 ?n) = Suc (Suc 0)" by simp
    then obtain x y where xy: "be_put 2 ?n = [x, y]" unfolding length_Suc_conv by blast
    have "int16_of (be_get [x, y]) = ?n" using int16_field_count [OF assms(2)] xy by simp
    moreover have "run_handler (read_row rops [] u) \<lparr>cr_body = row_bytes fs @ ?rest, cr_err = None\<rparr> =
        (\<lparr>cr_body = ?rest, cr_err = None\<rparr>, u @ [row_values rops fs], None)"
      using run_read_row [of rops fs "[]" u ?rest] Cons.prems by simp
    ultimately show ?thesis using tuple_loop_step [of x y ?n "read_row rops []" u "row_bytes fs @ ?rest" ?rest] xy by simp
  qed
  then show ?case using Cons.IH [of "k + 1" "u @ [row_values rops fs]"] Cons.prems
    by (simp add: tuple_bytes_def [of _ fs] ac_simps)
qed simp

lemma tuple_loop_trailer: "tuple_loop h n [] k u = (k, u, TupleDone)" "tuple_loop h n [255, 255] k u = (k, u, TupleDone)"
proof -
  show nil: "tuple_loop h n [] k u = (k, u, TupleDone)" for k u by (simp add: tuple_loop.simps)
  have "int16_of (be_get [255, 255]) = - 1" by code_simp
  then show "tuple_loop h n [255, 255] k u = (k, u, TupleDone)" by (subst tuple_loop.simps) (simp add: Let_def nil)
qed

section \<open>CopyToBinary\<close>

text \<open>The server sends the header with some rows, then more rows, any number to a message, then the trailer.\<close>

definition copy_messages :: "int \<Rightarrow> copy_field list list \<Rightarrow> copy_field list list list \<Rightarrow> bytes list" where
  "copy_messages n rs0 rss =
     (pgcopy_header @ concat (map (tuple_bytes n) rs0)) # map (\<lambda>rs. concat (map (tuple_bytes n) rs)) rss @ [[255, 255]]"

lemma copy_messages_stream: "concat (copy_messages n rs0 rss) = copy_stream n (rs0 @ concat rss)"
  by (induction rss) (simp_all add: copy_messages_def copy_stream_def)

lemma header_consumed: "consumePGCopyHeader (pgcopy_header @ b) 0 = Some (b, 19, True)"
  by (simp add: consumePGCopyHeader_def pgcopy_header_def pgcopy_magic_def)

lemma copy_data_turn:
  "headerSeen l \<Longrightarrow> tuple_loop h n body (ct_rows l) (ct_user l) = (k, u, TupleDone) \<Longrightarrow>
     copy_to_binary_turn h n MsgCopyData body l c = (c, Inl (l\<lparr>ct_rows := k, ct_user := u\<rparr>))"
  by (cases l) (simp add: copy_to_binary_turn_def)

lemma copy_header_turn:
  "\<not> headerSeen l \<Longrightarrow> hdrCursor l = 0 \<Longrightarrow> tuple_loop h n b (ct_rows l) (ct_user l) = (k, u, TupleDone) \<Longrightarrow>
     copy_to_binary_turn h n MsgCopyData (pgcopy_header @ b) l c =
     (c, Inl (l\<lparr>hdrCursor := 19, headerSeen := True, ct_rows := k, ct_user := u\<rparr>))"
  by (cases l) (simp add: copy_to_binary_turn_def header_consumed)

text \<open>Messages that carry rows, one after the other.\<close>

lemma copy_loop_rows:
  assumes fits: "rops \<noteq> []" "length rops < 2 ^ 15" "\<forall>rs\<in>set rss. \<forall>fs\<in>set rs. row_fits rops fs"
    and sizes: "\<forall>rs\<in>set rss. frame_ok (concat (map (tuple_bytes (int (length rops))) rs))"
    and rx: "rx (rd c) = frames (map (\<lambda>rs. (MsgCopyData, concat (map (tuple_bytes (int (length rops))) rs))) rss) @ rest"
    and seen: "headerSeen l"
  shows "\<exists>r. rx r = rest \<and> msg_loop (copy_to_binary_turn (read_row rops []) (int (length rops))) f l c =
    msg_loop (copy_to_binary_turn (read_row rops []) (int (length rops))) f
      (l\<lparr>ct_rows := ct_rows l + int (length (concat rss)), ct_user := ct_user l @ map (row_values rops) (concat rss)\<rparr>) (c\<lparr>rd := r\<rparr>)"
  using fits(3) sizes rx seen
proof (induction rss arbitrary: l c)
  case Nil
  then show ?case by (intro exI [of _ "rd c"]) (simp add: frames_simps)
next
  case (Cons rs rss)
  let ?n = "int (length rops)" and ?b = "concat (map (tuple_bytes (int (length rops))) rs)"
  let ?l = "l\<lparr>ct_rows := ct_rows l + int (length rs), ct_user := ct_user l @ map (row_values rops) rs\<rparr>"
  let ?rest = "frames (map (\<lambda>rs. (MsgCopyData, concat (map (tuple_bytes ?n) rs))) rss) @ rest"
  have turn: "copy_to_binary_turn (read_row rops []) ?n MsgCopyData ?b l c = (c, Inl ?l)" for c
    by (rule copy_data_turn [OF Cons.prems(4)])
       (use tuple_loop_rows [OF fits(1,2), of rs "[]" "ct_rows l" "ct_user l"] Cons.prems(1) in \<open>simp add: tuple_loop_trailer\<close>)
  have rx: "rx (rd c) = frame MsgCopyData ?b @ ?rest" using Cons.prems(3) by (simp add: frames_simps)
  have ok: "frame_ok ?b" using Cons.prems(2) by simp
  obtain r where r: "rx r = ?rest" "msg_loop (copy_to_binary_turn (read_row rops []) ?n) f l c =
      msg_loop (copy_to_binary_turn (read_row rops []) ?n) f ?l (c\<lparr>rd := r\<rparr>)"
    using loop_step [OF rx ok, of "copy_to_binary_turn (read_row rops []) ?n" l ?l f] turn by blast
  obtain r' where r': "rx r' = rest" "msg_loop (copy_to_binary_turn (read_row rops []) ?n) f ?l (c\<lparr>rd := r\<rparr>) =
      msg_loop (copy_to_binary_turn (read_row rops []) ?n) f
        (?l\<lparr>ct_rows := ct_rows ?l + int (length (concat rss)), ct_user := ct_user ?l @ map (row_values rops) (concat rss)\<rparr>)
        (c\<lparr>rd := r, rd := r'\<rparr>)"
    using Cons.IH [of "c\<lparr>rd := r\<rparr>" ?l] Cons.prems r(1) by auto
  show ?case using r(2) r' by (intro exI [of _ r']) (simp add: ac_simps)
qed

lemma waitForReady_at_once:
  assumes "rx (rd c) = frame MsgReadyForQuery st @ rest" "frame_ok st"
  shows "\<exists>r. rx r = rest \<and> waitForReady c = (c\<lparr>rd := r\<rparr>, None)"
  using loop_stop [OF assms, of ready_turn "()" "\<lambda>c. c" None] by (simp add: waitForReady_def ready_turn_def)

definition copy_answer :: "int \<Rightarrow> copy_field list list \<Rightarrow> copy_field list list list \<Rightarrow> bytes \<Rightarrow> bytes \<Rightarrow> bytes \<Rightarrow> (byte \<times> bytes) list" where
  "copy_answer n rs0 rss fmt tag st =
     [(MsgCopyOutResponse, fmt)] @ map (Pair MsgCopyData) (copy_messages n rs0 rss) @
     [(MsgCopyDone, []), (MsgCommandComplete, tag), (MsgReadyForQuery, st)]"

lemma copy_tail:
  assumes rx: "rx (rd c) = frames [(MsgCopyData, [255, 255]), (MsgCopyDone, []), (MsgCommandComplete, tag), (MsgReadyForQuery, st)] @ rest"
    and ok: "frame_ok tag" "frame_ok st" and seen: "headerSeen l"
  shows "\<exists>r. rx r = rest \<and> msg_loop (copy_to_binary_turn h n) f l c = (c\<lparr>rd := r\<rparr>, ct_rows l, ct_user l, None)"
proof -
  let ?h = "copy_to_binary_turn h n"
  have small: "frame_ok [255, 255]" "frame_ok []" by (simp_all add: frame_ok_def)
  have t1: "?h MsgCopyData [255, 255] l c = (c, Inl l)" for c
    using copy_data_turn [OF seen tuple_loop_trailer(2), where c = c] by simp
  have t2: "?h MsgCopyDone [] l c = (c, Inl l)" for c by (simp add: copy_to_binary_turn_def)
  have t3: "?h MsgCommandComplete tag l c = (case waitForReady c of (c, e) \<Rightarrow> (c, Inr (ct_rows l, ct_user l, e)))" for c
    by (simp add: copy_to_binary_turn_def)
  obtain r1 where r1: "rx r1 = frames [(MsgCopyDone, []), (MsgCommandComplete, tag), (MsgReadyForQuery, st)] @ rest"
      "msg_loop ?h f l c = msg_loop ?h f l (c\<lparr>rd := r1\<rparr>)"
    using loop_step [of c MsgCopyData "[255, 255]" _ ?h l l f] rx small t1 by auto
  obtain r2 where r2: "rx r2 = frames [(MsgCommandComplete, tag), (MsgReadyForQuery, st)] @ rest"
      "msg_loop ?h f l (c\<lparr>rd := r1\<rparr>) = msg_loop ?h f l (c\<lparr>rd := r2\<rparr>)"
    using loop_step [of "c\<lparr>rd := r1\<rparr>" MsgCopyDone "[]" _ ?h l l f] r1(1) small t2 by auto
  obtain r3 where r3: "rx r3 = frame MsgReadyForQuery st @ rest" "msg_loop ?h f l (c\<lparr>rd := r2\<rparr>) =
      (case ?h MsgCommandComplete tag l (c\<lparr>rd := r3\<rparr>) of (c', Inr x) \<Rightarrow> (c', x) | (c', Inl l') \<Rightarrow> msg_loop ?h f l' (c'\<lparr>rd := r3\<rparr>))"
    using loop_turn [of "c\<lparr>rd := r2\<rparr>" MsgCommandComplete tag _ ?h f l] r2(1) ok(1) by auto
  obtain r4 where r4: "rx r4 = rest" "waitForReady (c\<lparr>rd := r3\<rparr>) = (c\<lparr>rd := r4\<rparr>, None)"
    using waitForReady_at_once [of "c\<lparr>rd := r3\<rparr>" st rest] r3(1) ok(2) by auto
  have "msg_loop ?h f l c = (c\<lparr>rd := r4\<rparr>, ct_rows l, ct_user l, None)"
    using r1(2) r2(2) r3(2) unfolding t3 r4(2) by simp
  then show ?thesis using r4(1) by blast
qed

lemma awaitCopyOut_at_once:
  assumes "rx (rd c) = frame MsgCopyOutResponse b @ rest" "frame_ok b"
  shows "\<exists>r. rx r = rest \<and> awaitCopyOutResponse c = (c\<lparr>rd := r\<rparr>, None)"
  using loop_stop [OF assms, of copy_out_turn None "\<lambda>c. c" None] by (simp add: awaitCopyOutResponse_def copy_out_turn_def)

lemma send_query:
  assumes "room (wr c) = None" "writeBuf (wr c) = []"
  shows "send_message MsgQuery (b_CString sql) c =
    (c\<lparr>wr := (wr c)\<lparr>tx := tx (wr c) @ frame MsgQuery (sql @ [0])\<rparr>\<rparr>, None)"
proof -
  have "message MsgQuery (b_CString sql) (wr c) = app (frame MsgQuery (sql @ [0])) (wr c)"
    by (rule message_frame) (simp add: appends_def b_CString_def)
  then show ?thesis using assms
    by (simp add: send_message_def put_message_def flush_wire_all app_def)
qed

lemma copyToBinary_served:
  assumes rops: "rops \<noteq> []" "length rops < 2 ^ 15" and fits: "\<forall>fs\<in>set (rs0 @ concat rss). row_fits rops fs"
    and sizes: "\<forall>b\<in>set (copy_messages (int (length rops)) rs0 rss). frame_ok b" "frame_ok fmt" "frame_ok tag" "frame_ok st"
    and w: "room (wr c) = None" "writeBuf (wr c) = []"
    and rx: "rx (rd c) = frames (copy_answer (int (length rops)) rs0 rss fmt tag st) @ rest"
  shows "\<exists>r. rx r = rest \<and> copyToBinary sql (int (length rops)) (read_row rops []) u c =
    (c\<lparr>wr := (wr c)\<lparr>tx := tx (wr c) @ frame MsgQuery (sql @ [0])\<rparr>, rd := r\<rparr>,
     int (length (rs0 @ concat rss)), u @ map (row_values rops) (rs0 @ concat rss), None)"
proof -
  let ?n = "int (length rops)"
  let ?h = "copy_to_binary_turn (read_row rops []) ?n"
  let ?f = "\<lambda>e l c. (c, ct_rows l, ct_user l, Some (EWire e))"
  let ?c = "c\<lparr>wr := (wr c)\<lparr>tx := tx (wr c) @ frame MsgQuery (sql @ [0])\<rparr>\<rparr>"
  let ?l0 = "\<lparr>hdrCursor = 0, headerSeen = False, ct_rows = 0, ct_user = u\<rparr>"
  let ?l1 = "\<lparr>hdrCursor = 19, headerSeen = True, ct_rows = int (length rs0), ct_user = u @ map (row_values rops) rs0\<rparr>"
  let ?tail = "frames [(MsgCopyData, [255, 255]), (MsgCopyDone, []), (MsgCommandComplete, tag), (MsgReadyForQuery, st)] @ rest"
  let ?rows = "frames (map (\<lambda>rs. (MsgCopyData, concat (map (tuple_bytes ?n) rs))) rss)"
  let ?b0 = "pgcopy_header @ concat (map (tuple_bytes ?n) rs0)"
  have rx: "rx (rd ?c) = frame MsgCopyOutResponse fmt @ frame MsgCopyData ?b0 @ ?rows @ ?tail"
    using rx by (simp add: copy_answer_def copy_messages_def comp_def)
  obtain r0 where r0: "rx r0 = frame MsgCopyData ?b0 @ ?rows @ ?tail" "awaitCopyOutResponse ?c = (?c\<lparr>rd := r0\<rparr>, None)"
    using awaitCopyOut_at_once [OF rx sizes(2)] by blast
  have turn0: "?h MsgCopyData ?b0 ?l0 c = (c, Inl ?l1)" for c
    using copy_header_turn [of ?l0 "read_row rops []" ?n "concat (map (tuple_bytes ?n) rs0)" "int (length rs0)"
        "u @ map (row_values rops) rs0" c]
      tuple_loop_rows [OF rops, of rs0 "[]" 0 u] fits by (simp add: tuple_loop_trailer)
  have "frame_ok ?b0" using sizes(1) by (simp add: copy_messages_def)
  then obtain r1 where r1: "rx r1 = ?rows @ ?tail" "msg_loop ?h ?f ?l0 (?c\<lparr>rd := r0\<rparr>) = msg_loop ?h ?f ?l1 (?c\<lparr>rd := r1\<rparr>)"
    using loop_step [of "?c\<lparr>rd := r0\<rparr>" MsgCopyData ?b0 _ ?h ?l0 ?l1 ?f] r0(1) turn0 by auto
  let ?l2 = "?l1\<lparr>ct_rows := ct_rows ?l1 + int (length (concat rss)), ct_user := ct_user ?l1 @ map (row_values rops) (concat rss)\<rparr>"
  have "\<forall>rs\<in>set rss. frame_ok (concat (map (tuple_bytes ?n) rs))" using sizes(1) by (simp add: copy_messages_def)
  then obtain r2 where r2: "rx r2 = ?tail" "msg_loop ?h ?f ?l1 (?c\<lparr>rd := r1\<rparr>) = msg_loop ?h ?f ?l2 (?c\<lparr>rd := r2\<rparr>)"
    using copy_loop_rows [OF rops, of rss "?c\<lparr>rd := r1\<rparr>" ?tail ?l1 ?f] r1(1) fits by auto
  obtain r3 where r3: "rx r3 = rest" "msg_loop ?h ?f ?l2 (?c\<lparr>rd := r2\<rparr>) = (?c\<lparr>rd := r3\<rparr>, ct_rows ?l2, ct_user ?l2, None)"
    using copy_tail [of "?c\<lparr>rd := r2\<rparr>" tag st rest ?l2 "read_row rops []" ?n ?f] r2(1) sizes(3,4) by auto
  have "copyToBinary sql ?n (read_row rops []) u c = msg_loop ?h ?f ?l0 (?c\<lparr>rd := r0\<rparr>)"
    using r0(2) unfolding copyToBinary_def send_query [OF w] by simp
  then show ?thesis using r1(2) r2(2) r3 by (intro exI [of _ r3]) simp
qed

section \<open>CopyFromBinary\<close>

text \<open>A buffer of the row writer: the five bytes of a header, then the payload.\<close>

definition pending :: "CopyWriter \<Rightarrow> bytes \<Rightarrow> bool" where
  "pending w p \<longleftrightarrow> (\<exists>x. length x = 4 \<and> cw_buf w = MsgCopyData # x @ p)"

lemma cw_flush_sends:
  assumes "pending w p" "room (wr c) = None" "p \<noteq> []"
  shows "\<exists>w'. cw_flush w c = (c\<lparr>wr := (wr c)\<lparr>tx := tx (wr c) @ frame MsgCopyData p\<rparr>\<rparr>, w', None) \<and> pending w' [] \<and>
    rowStart w' = rowStart w"
proof -
  obtain x where x: "length x = 4" "cw_buf w = MsgCopyData # x @ p" using assms(1) by (auto simp: pending_def)
  have p: "patch 1 (int (length (cw_buf w)) - 1) (cw_buf w) = frame MsgCopyData p"
    using x by (simp add: patch_def frame_def add.commute)
  have long: "\<not> length (cw_buf w) \<le> copyHdrLen" using x assms(3) by (simp add: copyHdrLen_def)
  have "WriteRaw (frame MsgCopyData p) (wr c) = ((wr c)\<lparr>tx := tx (wr c) @ frame MsgCopyData p\<rparr>, None)"
    using assms(2) by (simp add: WriteRaw_def frame_def)
  then have "cw_flush w c = (c\<lparr>wr := (wr c)\<lparr>tx := tx (wr c) @ frame MsgCopyData p\<rparr>\<rparr>,
      w\<lparr>cw_buf := take copyHdrLen (frame MsgCopyData p)\<rparr>, None)"
    using long unfolding cw_flush_def Let_def by (simp add: p [simplified])
  moreover have "take copyHdrLen (frame MsgCopyData p) = MsgCopyData # be_put 4 (int (length p) + 4) @ []"
    by (simp add: copyHdrLen_def frame_def)
  then have "pending (w\<lparr>cw_buf := take copyHdrLen (frame MsgCopyData p)\<rparr>) []"
    by (auto simp: pending_def intro!: exI [of _ "be_put 4 (int (length p) + 4)"])
  ultimately show ?thesis by auto
qed

text \<open>One row: its bytes are at the end of the buffer, with the count in place.\<close>

lemma row_written:
  assumes "pending w p" "\<forall>f\<in>set fs. field_ok f"
  shows "let w1 = (cw_app [0, 0] (w\<lparr>rowStart := length (cw_buf w)\<rparr>))\<lparr>cw_written := 0\<rparr>; w2 = fold write_field fs w1 in
    cw_written w2 = length fs \<and> pending (w2\<lparr>cw_buf := patch2 (rowStart w2) n (cw_buf w2)\<rparr>) (p @ tuple_bytes n fs) \<and>
    pending (cw_app b (w2\<lparr>cw_buf := take (rowStart w2) (cw_buf w2)\<rparr>)) (p @ b)"
proof -
  have buf: "pending w' (p @ y)" if "cw_buf w' = cw_buf w @ y" for w' y
    using assms(1) that by (auto simp: pending_def)
  let ?w2 = "fold write_field fs ((cw_app [0, 0] (w\<lparr>rowStart := length (cw_buf w)\<rparr>))\<lparr>cw_written := 0\<rparr>)"
  have "cw_buf (?w2\<lparr>cw_buf := patch2 (rowStart ?w2) n (cw_buf ?w2)\<rparr>) = cw_buf w @ tuple_bytes n fs"
    by (simp add: write_fields_eq [OF assms(2)] cw_app_def patch2_def tuple_bytes_def)
  moreover have "cw_buf (cw_app b (?w2\<lparr>cw_buf := take (rowStart ?w2) (cw_buf ?w2)\<rparr>)) = cw_buf w @ b"
    by (simp add: write_fields_eq [OF assms(2)] cw_app_def)
  moreover have "cw_written ?w2 = length fs" by (simp add: write_fields_eq [OF assms(2)] cw_app_def)
  ultimately show ?thesis using buf by (simp add: Let_def)
qed

text \<open>A list of calls that writes \<open>rs\<close> and then ends the stream, perhaps within a row.\<close>

definition emits :: "copy_field list list \<Rightarrow> copy_field list \<Rightarrow> (copy_field list \<times> err option) list" where
  "emits rs fin = map (\<lambda>fs. (fs, None)) rs @ [(fin, Some EEOF)]"

lemma writeBuf_empty: "writeBuf w = [] \<Longrightarrow> w\<lparr>tx := t, writeBuf := []\<rparr> = w\<lparr>tx := t\<rparr>"
  by (cases w) simp

lemma emit_loop_sends:
  assumes "pending w p" "room (wr c) = None" "writeBuf (wr c) = []" "\<forall>fs\<in>set (fin # rs). \<forall>f\<in>set fs. field_ok f"
    "\<forall>fs\<in>set rs. int (length fs) = n"
  shows "\<exists>ps. concat ps = p @ concat (map (tuple_bytes n) rs) @ [255, 255] \<and>
    emit_loop msg n (emits rs fin) k w c =
      (case awaitCopyComplete (c\<lparr>wr := (wr c)\<lparr>tx := tx (wr c) @ frames (map (Pair MsgCopyData) ps @ [(MsgCopyDone, [])])\<rparr>\<rparr>) of
         (c, _, e) \<Rightarrow> (c, k + int (length rs), e))"
  using assms
proof (induction rs arbitrary: w p c k)
  case Nil
  let ?w = "fold write_field fin ((cw_app [0, 0] (w\<lparr>rowStart := length (cw_buf w)\<rparr>))\<lparr>cw_written := 0\<rparr>)"
  let ?t = "cw_app [255, 255] (?w\<lparr>cw_buf := take (rowStart ?w) (cw_buf ?w)\<rparr>)"
  have "pending ?t (p @ [255, 255])"
    using row_written [OF Nil.prems(1), of fin n "[255, 255]"] Nil.prems(4) by (simp add: Let_def)
  then obtain w' where "cw_flush ?t c = (c\<lparr>wr := (wr c)\<lparr>tx := tx (wr c) @ frame MsgCopyData (p @ [255, 255])\<rparr>\<rparr>, w', None)"
    using cw_flush_sends [OF _ Nil.prems(2)] by blast
  moreover have "message MsgCopyDone id w = app (frame MsgCopyDone []) w" for w
    by (rule message_frame) (simp add: appends_def app_def)
  ultimately have "emit_loop msg n (emits [] fin) k w c =
      (case awaitCopyComplete (c\<lparr>wr := (wr c)\<lparr>tx := tx (wr c) @ frame MsgCopyData (p @ [255, 255]) @ frame MsgCopyDone []\<rparr>\<rparr>) of
         (c, _, e) \<Rightarrow> (c, k, e))"
    using Nil.prems(2,3) unfolding emits_def
    by (simp add: end_copy_def Let_def sendCopyDone_def send_message_def put_message_def flush_wire_all app_def writeBuf_empty)
  then show ?case by (intro exI [of _ "[p @ [255, 255]]"]) simp
next
  case (Cons fs rs)
  let ?w = "fold write_field fs ((cw_app [0, 0] (w\<lparr>rowStart := length (cw_buf w)\<rparr>))\<lparr>cw_written := 0\<rparr>)"
  let ?t = "?w\<lparr>cw_buf := patch2 (rowStart ?w) n (cw_buf ?w)\<rparr>"
  let ?p = "p @ tuple_bytes n fs"
  have row: "cw_written ?w = length fs" "pending ?t ?p"
    using row_written [OF Cons.prems(1), of fs n "[]"] Cons.prems(4) by (simp_all add: Let_def)
  have n: "\<not> int (cw_written ?w) \<noteq> n" using row(1) Cons.prems(5) by simp
  have step: "emit_loop msg n (emits (fs # rs) fin) k w c =
      (if copyFlushThreshold \<le> length (cw_buf ?t)
       then (case cw_flush ?t c of (c, w, Some e) \<Rightarrow> (c, 0, Some e) | (c, w, None) \<Rightarrow> emit_loop msg n (emits rs fin) (k + 1) w c)
       else emit_loop msg n (emits rs fin) (k + 1) ?t c)"
    unfolding emits_def using n by (simp add: Let_def)
  show ?case
  proof (cases "copyFlushThreshold \<le> length (cw_buf ?t)")
    case True
    have "?p \<noteq> []" by (simp add: tuple_bytes_def) (metis length_be_put length_0_conv zero_neq_numeral)
    then obtain w' where f: "cw_flush ?t c = (c\<lparr>wr := (wr c)\<lparr>tx := tx (wr c) @ frame MsgCopyData ?p\<rparr>\<rparr>, w', None)" "pending w' []"
      using cw_flush_sends [OF row(2) Cons.prems(2)] by blast
    let ?c = "c\<lparr>wr := (wr c)\<lparr>tx := tx (wr c) @ frame MsgCopyData ?p\<rparr>\<rparr>"
    obtain ps where ps: "concat ps = [] @ concat (map (tuple_bytes n) rs) @ [255, 255]"
      "emit_loop msg n (emits rs fin) (k + 1) w' ?c =
        (case awaitCopyComplete (?c\<lparr>wr := (wr ?c)\<lparr>tx := tx (wr ?c) @ frames (map (Pair MsgCopyData) ps @ [(MsgCopyDone, [])])\<rparr>\<rparr>) of
           (c, _, e) \<Rightarrow> (c, k + 1 + int (length rs), e))"
      using Cons.IH [OF f(2), of ?c "k + 1"] Cons.prems by auto
    show ?thesis using ps step True f(1) by (intro exI [of _ "?p # ps"]) (simp add: ac_simps)
  next
    case False
    obtain ps where ps: "concat ps = ?p @ concat (map (tuple_bytes n) rs) @ [255, 255]"
      "emit_loop msg n (emits rs fin) (k + 1) ?t c =
        (case awaitCopyComplete (c\<lparr>wr := (wr c)\<lparr>tx := tx (wr c) @ frames (map (Pair MsgCopyData) ps @ [(MsgCopyDone, [])])\<rparr>\<rparr>) of
           (c, _, e) \<Rightarrow> (c, k + 1 + int (length rs), e))"
      using Cons.IH [OF row(2), of c "k + 1"] Cons.prems by auto
    show ?thesis using ps step False by (intro exI [of _ ps]) (simp add: ac_simps)
  qed
qed

lemma awaitCopyIn_at_once:
  assumes "rx (rd c) = frame MsgCopyInResponse b @ rest" "frame_ok b"
  shows "\<exists>r. rx r = rest \<and> awaitCopyInResponse c = (c\<lparr>rd := r\<rparr>, None)"
  using loop_stop [OF assms, of copy_in_turn None "\<lambda>c. c" None] by (simp add: awaitCopyInResponse_def copy_in_turn_def)

lemma awaitCopyComplete_served:
  assumes rx: "rx (rd c) = frames [(MsgCommandComplete, tag), (MsgReadyForQuery, st)] @ rest"
    and ok: "frame_ok tag" "frame_ok st" "tag \<noteq> []"
  shows "\<exists>r. rx r = rest \<and> awaitCopyComplete c = (c\<lparr>rd := r\<rparr>, parseRowsAffected (butlast tag), None)"
proof -
  let ?f = "\<lambda>e l c. (c, 0, Some (EWire e))"
  have t1: "complete_turn MsgCommandComplete tag (0, None) c = (c, Inl (parseRowsAffected (butlast tag), None))" for c
    using ok(3) by (simp add: complete_turn_def complete_tag_def)
  have t2: "complete_turn MsgReadyForQuery st (n, None) c = (c, Inr (n, None))" for c n by (simp add: complete_turn_def)
  have rx1: "rx (rd c) = frame MsgCommandComplete tag @ frame MsgReadyForQuery st @ rest" using rx by simp
  obtain r1 where r1: "rx r1 = frame MsgReadyForQuery st @ rest" "msg_loop complete_turn ?f (0, None) c =
      msg_loop complete_turn ?f (parseRowsAffected (butlast tag), None) (c\<lparr>rd := r1\<rparr>)"
    using loop_step [OF rx1 ok(1), of complete_turn "(0, None)" "(parseRowsAffected (butlast tag), None)" ?f] t1 by blast
  obtain r2 where "rx r2 = rest" "msg_loop complete_turn ?f (parseRowsAffected (butlast tag), None) (c\<lparr>rd := r1\<rparr>) =
      (c\<lparr>rd := r1, rd := r2\<rparr>, parseRowsAffected (butlast tag), None)"
    using loop_stop [of "c\<lparr>rd := r1\<rparr>" MsgReadyForQuery st rest complete_turn "(parseRowsAffected (butlast tag), None)"
        "\<lambda>c. c" "(parseRowsAffected (butlast tag), None)" ?f] r1(1) ok(2) t2 by auto
  then show ?thesis using r1(2) by (auto simp: awaitCopyComplete_def)
qed

lemma copyFromBinary_sends:
  assumes fields: "\<forall>fs\<in>set (fin # rs). \<forall>f\<in>set fs. field_ok f" and width: "\<forall>fs\<in>set rs. int (length fs) = n"
    and w: "room (wr c) = None" "writeBuf (wr c) = []"
    and rx: "rx (rd c) = frames [(MsgCopyInResponse, fmt), (MsgCommandComplete, tag), (MsgReadyForQuery, st)] @ rest"
    and ok: "frame_ok fmt" "frame_ok tag" "frame_ok st" "tag \<noteq> []"
  shows "\<exists>r ps. rx r = rest \<and> concat ps = copy_stream n rs \<and> copyFromBinary msg sql n (emits rs fin) c =
    (c\<lparr>wr := (wr c)\<lparr>tx := tx (wr c) @ frames ((MsgQuery, sql @ [0]) # map (Pair MsgCopyData) ps @ [(MsgCopyDone, [])])\<rparr>, rd := r\<rparr>,
     int (length rs), None)"
proof -
  let ?c = "c\<lparr>wr := (wr c)\<lparr>tx := tx (wr c) @ frame MsgQuery (sql @ [0])\<rparr>\<rparr>"
  let ?w = "cw_app pgcopy_header (newCopyWriter n)"
  have pend: "pending ?w pgcopy_header" by (simp add: pending_def newCopyWriter_def cw_app_def)
  obtain r0 where r0: "rx r0 = frames [(MsgCommandComplete, tag), (MsgReadyForQuery, st)] @ rest"
      "awaitCopyInResponse ?c = (?c\<lparr>rd := r0\<rparr>, None)"
    using awaitCopyIn_at_once [of ?c fmt] rx ok(1) by auto
  obtain ps where ps: "concat ps = pgcopy_header @ concat (map (tuple_bytes n) rs) @ [255, 255]"
      "emit_loop msg n (emits rs fin) 0 ?w (?c\<lparr>rd := r0\<rparr>) =
        (case awaitCopyComplete (?c\<lparr>rd := r0, wr := (wr ?c)\<lparr>tx := tx (wr ?c) @ frames (map (Pair MsgCopyData) ps @ [(MsgCopyDone, [])])\<rparr>\<rparr>) of
           (c, _, e) \<Rightarrow> (c, 0 + int (length rs), e))"
    using emit_loop_sends [OF pend, of "?c\<lparr>rd := r0\<rparr>" fin rs n msg 0] w fields width by auto
  let ?d = "?c\<lparr>rd := r0, wr := (wr ?c)\<lparr>tx := tx (wr ?c) @ frames (map (Pair MsgCopyData) ps @ [(MsgCopyDone, [])])\<rparr>\<rparr>"
  obtain r1 where r1: "rx r1 = rest" "awaitCopyComplete ?d = (?d\<lparr>rd := r1\<rparr>, parseRowsAffected (butlast tag), None)"
    using awaitCopyComplete_served [of ?d tag st rest] r0(1) ok by auto
  have "copyFromBinary msg sql n (emits rs fin) c = emit_loop msg n (emits rs fin) 0 ?w (?c\<lparr>rd := r0\<rparr>)"
    using r0(2) unfolding copyFromBinary_def send_query [OF w] by simp
  also have "\<dots> = (?d\<lparr>rd := r1\<rparr>, int (length rs), None)" using ps(2) r1(2) by simp
  finally show ?thesis using r1(1) ps(1) by (intro exI [of _ r1] exI [of _ ps]) (simp add: copy_stream_def)
qed

section \<open>Properties\<close>

text \<open>What \<open>recorded\<close> adds around a COPY leaves the connection alone.\<close>

lemma observe_frame: "rd (observe ev c) = rd c" "wr (observe ev c) = wr c"
  by (simp_all add: observe_def)

lemma since_frame: "since c = (d, c') \<Longrightarrow> rd c' = rd c \<and> wr c' = wr c"
  by (auto simp: since_def)

text \<open>C36. Against a server that accepts the COPY, \<open>CopyFromBinary\<close> sends the query, then CopyData messages whose
  contents joined are the header, one tuple for each row the callback wrote, in order and with its fields in
  order, and the trailer, then CopyDone; fields written before the end of the stream was reported are not
  sent; it returns the number of rows and leaves the connection at the next answer.\<close>

theorem copy_from_sends_stream:
  assumes "\<not> ctx_done x" "0 < n" "n < 2 ^ 15"
    and "\<forall>fs\<in>set (fin # rs). \<forall>f\<in>set fs. field_ok f" "\<forall>fs\<in>set rs. int (length fs) = n"
    and "room (wr c) = None" "writeBuf (wr c) = []"
    and "rx (rd c) = frames [(MsgCopyInResponse, fmt), (MsgCommandComplete, tag), (MsgReadyForQuery, st)] @ rest"
    and "frame_ok fmt" "frame_ok tag" "frame_ok st" "tag \<noteq> []"
  shows "\<exists>c' ps. CopyFromBinary msg x sql n (emits rs fin) c = (c', int (length rs), None) \<and>
    concat ps = copy_stream n rs \<and> rx (rd c') = rest \<and>
    tx (wr c') = tx (wr c) @ frames ((MsgQuery, sql @ [0]) # map (Pair MsgCopyData) ps @ [(MsgCopyDone, [])])"
proof -
  let ?c = "observe (OnQueryStart sql) c"
  obtain r ps where run: "rx r = rest" "concat ps = copy_stream n rs" "copyFromBinary msg sql n (emits rs fin) ?c =
      (?c\<lparr>wr := (wr ?c)\<lparr>tx := tx (wr ?c) @ frames ((MsgQuery, sql @ [0]) # map (Pair MsgCopyData) ps @ [(MsgCopyDone, [])])\<rparr>, rd := r\<rparr>,
       int (length rs), None)"
    using copyFromBinary_sends [of fin rs n ?c fmt tag st rest msg sql] assms by (auto simp: observe_frame)
  have "CopyFromBinary msg x sql n (emits rs fin) c =
      recorded x sql (\<lambda>c. case copyFromBinary msg sql n (emits rs fin) c of (c, rows, e) \<Rightarrow> (c, rows, 0, e)) c"
    using assms(2,3) by (simp add: CopyFromBinary_def)
  then show ?thesis using run assms(1)
    by (auto simp: recorded_def attachContext_def Let_def since_def recordEnd_frame observe_frame)
qed

definition ex_fields :: "copy_field list" where
  "ex_fields = [FInt4 (- 7), FNull, FText (asc ''hi''), FBool True]"

definition ex_ops :: "read_op list" where
  "ex_ops = [RInt4, RText, RText, RBool]"

lemma ex_fields_ok: "\<forall>f\<in>set ex_fields. field_ok f" "length ex_fields = 4"
  by (simp_all add: ex_fields_def)

lemma ex_small: "frame_ok []" "frame_ok (asc ''COPY 2'' @ [0])" "frame_ok [73]"
  by (simp_all add: frame_ok_def)

theorem copy_from_sends_stream_witness:
  "\<exists>c' ps. CopyFromBinary (\<lambda>_. []) [] [] 4 (emits [ex_fields, ex_fields] [FNull])
      (ex_client (frames [(MsgCopyInResponse, []), (MsgCommandComplete, asc ''COPY 2'' @ [0]), (MsgReadyForQuery, [73])])) = (c', 2, None) \<and>
    concat ps = copy_stream 4 [ex_fields, ex_fields]"
  using copy_from_sends_stream [of "[]" 4 "[FNull]" "[ex_fields, ex_fields]"
      "ex_client (frames [(MsgCopyInResponse, []), (MsgCommandComplete, asc ''COPY 2'' @ [0]), (MsgReadyForQuery, [73])])"
      "[]" "asc ''COPY 2'' @ [0]" "[73]" "[]" "\<lambda>_. []" "[]"] ex_fields_ok ex_small
  by (fastforce simp: ctx_done_def ask_def ex_client_def)

text \<open>C37. What \<open>CopyFromBinary\<close> sends for some rows, cut into messages between rows, is what a handler of
  \<open>CopyToBinary\<close> reads: calling for each row the methods that fit its fields it gets back every value and
  every NULL, row after row; the rows are counted and the connection is left at the next answer.\<close>

theorem copy_binary_roundtrip:
  assumes "\<not> ctx_done x" "rops \<noteq> []" "length rops < 2 ^ 15" "\<forall>fs\<in>set (rs0 @ concat rss). row_fits rops fs"
    and "\<forall>b\<in>set (copy_messages (int (length rops)) rs0 rss). frame_ok b" "frame_ok fmt" "frame_ok tag" "frame_ok st"
    and "room (wr c) = None" "writeBuf (wr c) = []"
    and "rx (rd c) = frames (copy_answer (int (length rops)) rs0 rss fmt tag st) @ rest"
  shows "concat (copy_messages (int (length rops)) rs0 rss) = copy_stream (int (length rops)) (rs0 @ concat rss) \<and>
    (\<exists>c'. CopyToBinary x sql (int (length rops)) (read_row rops []) [] c =
       (c', int (length (rs0 @ concat rss)), map (row_values rops) (rs0 @ concat rss), None) \<and> rx (rd c') = rest)"
proof -
  let ?c = "observe (OnQueryStart sql) c"
  obtain r where run: "rx r = rest" "copyToBinary sql (int (length rops)) (read_row rops []) [] ?c =
      (?c\<lparr>wr := (wr ?c)\<lparr>tx := tx (wr ?c) @ frame MsgQuery (sql @ [0])\<rparr>, rd := r\<rparr>,
       int (length (rs0 @ concat rss)), [] @ map (row_values rops) (rs0 @ concat rss), None)"
    using copyToBinary_served [OF assms(2-8), of ?c rest sql "[]"] assms(9-11) by (auto simp: observe_frame)
  have n: "0 < length rops" "int (length rops) < 2 ^ 15" using assms(2,3) by auto
  have "CopyToBinary x sql (int (length rops)) (read_row rops []) [] c =
      (case copyToBinary sql (int (length rops)) (read_row rops []) [] ?c of
         (c, rows, u, e) \<Rightarrow> (case since c of (dur, c) \<Rightarrow> (recordEnd sql rows 0 dur e c, rows, u, e)))"
    using assms(1) n by (simp add: CopyToBinary_def attachContext_def Let_def)
  then show ?thesis using run by (simp add: copy_messages_stream since_def recordEnd_frame)
qed

theorem copy_binary_roundtrip_witness:
  "\<exists>c'. CopyToBinary [] [] 4 (read_row ex_ops []) []
      (ex_client (frames (copy_answer 4 [ex_fields] [[ex_fields]] [] (asc ''COPY 2'' @ [0]) [73]))) =
    (c', 2, [[RInt (- 7) False, RSlice [] True, RSlice (asc ''hi'') False, RBoolean True False],
             [RInt (- 7) False, RSlice [] True, RSlice (asc ''hi'') False, RBoolean True False]], None)"
proof -
  have len: "int (length ex_ops) = 4" by (simp add: ex_ops_def)
  have fits: "row_fits ex_ops ex_fields"
    by (simp add: row_fits_def ex_ops_def ex_fields_def expected_def)
  have vals: "row_values ex_ops ex_fields = [RInt (- 7) False, RSlice [] True, RSlice (asc ''hi'') False, RBoolean True False]"
    by (simp add: row_values_def ex_ops_def ex_fields_def expected_def)
  have sizes: "\<forall>b\<in>set (copy_messages 4 [ex_fields] [[ex_fields]]). frame_ok b"
    by (simp add: copy_messages_def frame_ok_def pgcopy_header_def tuple_bytes_def row_bytes_def ex_fields_def elem_send_simps)
  show ?thesis
    using copy_binary_roundtrip [of "[]" ex_ops "[ex_fields]" "[[ex_fields]]" "[]" "asc ''COPY 2'' @ [0]" "[73]"
        "ex_client (frames (copy_answer 4 [ex_fields] [[ex_fields]] [] (asc ''COPY 2'' @ [0]) [73]))" "[]" "[]"]
      fits sizes ex_small vals len
    by (auto simp: ctx_done_def ask_def ex_client_def ex_ops_def)
qed

end
