(* ===== verification/Pipeline.thy ===== *)
theory Pipeline
  imports Exec Iter
begin

text \<open>
  src/pgz/pipeline.go: batches of statements sent in one write.

  A stage of the batch points to its prepared statement, which other stages with the same SQL and
  the cache of the client may share; a statement object is identified by its name, which the client
  never uses twice, and a change of it is made in every place that points to it (\<open>set_stmt\<close>).
\<close>

section \<open>Batches\<close>

record batchItem =
  bi_sql :: bytes
  bi_args :: "goval list"

type_synonym Batch = "batchItem list"

definition NewBatch :: Batch where "NewBatch = []"

definition Queue :: "bytes \<Rightarrow> goval list \<Rightarrow> Batch \<Rightarrow> Batch" where
  "Queue sql vals b = b @ [\<lparr>bi_sql = sql, bi_args = vals\<rparr>]"

definition batch_Len :: "Batch \<Rightarrow> nat" where "batch_Len b = length b"

definition batch_Reset :: "Batch \<Rightarrow> Batch" where "batch_Reset b = []"

definition ErrBatchAborted :: err where
  "ErrBatchAborted = EMsg ''pgz: batch aborted by earlier item''"

record parseStage =
  hasParse :: bool
  hasDescribe :: bool
  sg_sql :: bytes
  sg_name :: bytes
  sg_cached :: "preparedStmt option"

definition no_stage :: parseStage where
  "no_stage = \<lparr>hasParse = False, hasDescribe = False, sg_sql = [], sg_name = [], sg_cached = None\<rparr>"

record BatchResults =
  br_n :: nat
  br_idx :: nat
  br_done :: bool
  br_aborted :: bool
  br_closed :: bool
  parsePlan :: "parseStage list"

definition set_stmt :: "bytes \<Rightarrow> (preparedStmt \<Rightarrow> preparedStmt) \<Rightarrow> BatchResults \<times> Client \<Rightarrow> BatchResults \<times> Client" where
  "set_stmt nm f s =
     (case s of (br, c) \<Rightarrow>
       (br\<lparr>parsePlan := map (\<lambda>sg. sg\<lparr>sg_cached := map_option (\<lambda>st. if name st = nm then f st else st) (sg_cached sg)\<rparr>) (parsePlan br)\<rparr>,
        c\<lparr>stmts := (stmts c)\<lparr>byKey := map (\<lambda>(k, st). (k, if name st = nm then f st else st)) (byKey (stmts c))\<rparr>\<rparr>))"

section \<open>Sending\<close>

definition writeBindExecute :: "preparedStmt \<Rightarrow> goval list \<Rightarrow> Client \<Rightarrow> Client \<times> err option" where
  "writeBindExecute st vals c =
     (case begin_bind st vals c of
        (c, bd, Some e) \<Rightarrow> (c, Some e)
      | (c, bd, None) \<Rightarrow> (put_execute (c\<lparr>wr := Finish bd (b_Int16 0 (wr c))\<rparr>), None))"

text \<open>The stage of one item; \<open>seen\<close> maps the SQL texts met before in this batch.\<close>

definition plan_stage ::
  "bytes \<Rightarrow> (bytes \<rightharpoonup> preparedStmt) \<Rightarrow> Client \<Rightarrow> parseStage \<times> preparedStmt \<times> (bytes \<rightharpoonup> preparedStmt) \<times> Client"
where
  "plan_stage sql seen c =
     (let stage = no_stage\<lparr>sg_sql := sql\<rparr> in
      case seen sql of
        Some st \<Rightarrow> (stage\<lparr>sg_cached := Some st\<rparr>, st, seen, c)
      | None \<Rightarrow>
          (case sc_get sql (stmts c) of
             Some st \<Rightarrow> (stage\<lparr>sg_cached := Some st\<rparr>, st, seen(sql \<mapsto> st), c)
           | None \<Rightarrow>
               (case nextName (stmts c) of (nm, sc) \<Rightarrow>
                 let st = \<lparr>name = nm, plan = None, resultFmts = [], paramOIDs = []\<rparr> in
                 (stage\<lparr>hasParse := True, hasDescribe := True, sg_name := nm, sg_cached := Some st\<rparr>, st, seen(sql \<mapsto> st),
                  put_parse_describe nm sql (c\<lparr>stmts := sc\<rparr>)))))"

fun send_items ::
  "Batch \<Rightarrow> nat \<Rightarrow> (bytes \<rightharpoonup> preparedStmt) \<Rightarrow> BatchResults \<Rightarrow> Client \<Rightarrow> Client \<times> BatchResults \<times> err option"
where
  "send_items [] i seen br c = (c, br, None)"
| "send_items (it # b) i seen br c =
     (case plan_stage (bi_sql it) seen c of
        (stage, st, seen, c) \<Rightarrow>
          (case writeBindExecute st (bi_args it) c of
             (c, Some e) \<Rightarrow> (c, br, Some e)
           | (c, None) \<Rightarrow> send_items b (i + 1) seen (br\<lparr>parsePlan := (parsePlan br)[i := stage]\<rparr>) c))"

definition SendBatch :: "ctx \<Rightarrow> Batch \<Rightarrow> Client \<Rightarrow> Client \<times> BatchResults" where
  "SendBatch x b c =
     (let br = \<lparr>br_n = length b, br_idx = 0, br_done = False, br_aborted = False, br_closed = False, parsePlan = []\<rparr>;
          failed = (\<lambda>br. br\<lparr>br_done := True, br_aborted := True\<rparr>) in
      case attachContext x of
        (_, Some e) \<Rightarrow> (c, failed br)
      | (_, None) \<Rightarrow>
          (case takePendingClose (stmts c) of (dead, sc) \<Rightarrow>
            let c = fold put_close dead ((observe (OnQueryStart (asc ''pgz.SendBatch'')) c)\<lparr>stmts := sc\<rparr>);
                br = br\<lparr>parsePlan := replicate (length b) no_stage\<rparr> in
            (case send_items b 0 Map.empty br c of
               (c, br, Some e) \<Rightarrow> (c, failed br)
             | (c, br, None) \<Rightarrow>
                 (case flush_wire (put_sync c) of
                    (c, Some e) \<Rightarrow> (c, failed br)
                  | (c, None) \<Rightarrow> (c, br)))))"

section \<open>Results\<close>

definition commitStage :: "parseStage \<Rightarrow> Client \<Rightarrow> Client" where
  "commitStage stage c =
     (case sg_cached stage of
        Some st \<Rightarrow> if hasParse stage then c\<lparr>stmts := sc_put (sg_sql stage) st (stmts c)\<rparr> else c
      | None \<Rightarrow> c)"

text \<open>The stage as it is now, after changes of the statement it points to.\<close>

definition stage_at :: "nat \<Rightarrow> BatchResults \<Rightarrow> parseStage" where
  "stage_at i br = parsePlan br ! i"

definition update_cached :: "nat \<Rightarrow> (preparedStmt \<Rightarrow> preparedStmt) \<Rightarrow> BatchResults \<Rightarrow> Client \<Rightarrow> Client \<times> BatchResults" where
  "update_cached i f br c =
     (case sg_cached (stage_at i br) of
        None \<Rightarrow> (c, br)
      | Some st \<Rightarrow> (case set_stmt (name st) f (br, c) of (br, c) \<Rightarrow> (c, br)))"

definition item_exec_turn ::
  "nat \<Rightarrow> byte \<Rightarrow> bytes \<Rightarrow> BatchResults \<times> pg_error option \<Rightarrow> Client \<Rightarrow>
   Client \<times> (BatchResults \<times> pg_error option + BatchResults \<times> ExecResult \<times> err option)"
where
  "item_exec_turn i t body l c =
     (case l of (br, pgError) \<Rightarrow>
       if t = MsgParseComplete then (c, Inl l)
       else if t = MsgParameterDescription then
         (case update_cached i (\<lambda>st. st\<lparr>paramOIDs := parseParamOIDs body\<rparr>) br c of (c, br) \<Rightarrow> (c, Inl (br, pgError)))
       else if t = MsgRowDescription then
         (case (sg_cached (stage_at i br), ParseRowDescription body) of
            (Some st, Inr p) \<Rightarrow>
              (case update_cached i (\<lambda>st. st\<lparr>plan := Some p\<rparr>) br c of (c, br) \<Rightarrow> (c, Inl (br, pgError)))
          | _ \<Rightarrow> (c, Inl l))
       else if t = MsgNoData \<or> t = MsgBindComplete \<or> t = MsgDataRow then (c, Inl l)
       else if t = MsgCommandComplete then
         (case complete_tag body of
            None \<Rightarrow> (c, Inr (br, no_result, Some EPanic))
          | Some res \<Rightarrow>
              (case pgError of
                 Some pe \<Rightarrow> (c, Inr (br, res, Some (EPg pe)))
               | None \<Rightarrow> (commitStage (stage_at i br) c, Inr (br, res, None))))
       else if t = MsgEmptyQueryResponse then
         (case pgError of
            Some pe \<Rightarrow> (c, Inr (br, no_result, Some (EPg pe)))
          | None \<Rightarrow> (commitStage (stage_at i br) c, Inr (br, no_result, None)))
       else if t = MsgErrorResponse then (c, Inl (br, Some (Parse body)))
       else if t = MsgNoticeResponse then (on_notice body c, Inl l)
       else if t = MsgParameterStatus then (on_parameter body c, Inl l)
       else if t = MsgReadyForQuery then
         (c, Inr (br\<lparr>br_done := True\<rparr>, no_result,
              Some (case pgError of Some pe \<Rightarrow> EPg pe | None \<Rightarrow> ErrBatchAborted)))
       else (c, Inr (br, no_result, Some (EUnexpected t))))"

definition readItemExec :: "nat \<Rightarrow> BatchResults \<Rightarrow> Client \<Rightarrow> Client \<times> BatchResults \<times> ExecResult \<times> err option" where
  "readItemExec i br c =
     msg_loop (item_exec_turn i) (\<lambda>e (br, pgError) c. (c, br, no_result, Some (EWire e))) (br, None) c"

text \<open>\<open>Exec\<close> and \<open>Query\<close>; indexing a \<open>parsePlan\<close> that was never made panics.\<close>

definition br_Exec :: "BatchResults \<Rightarrow> Client \<Rightarrow> Client \<times> BatchResults \<times> ExecResult \<times> err option" where
  "br_Exec br c =
     (if br_closed br then (c, br, no_result, Some (EMsg ''pgz: BatchResults closed''))
      else if br_n br \<le> br_idx br then (c, br, no_result, Some EEOF)
      else if length (parsePlan br) \<le> br_idx br then (c, br, no_result, Some EPanic)
      else
        let i = br_idx br; br = br\<lparr>br_idx := i + 1\<rparr> in
        if br_aborted br then (c, br, no_result, Some ErrBatchAborted)
        else (case readItemExec i br c of
                (c, br, res, e) \<Rightarrow> (c, (if e \<noteq> None then br\<lparr>br_aborted := True\<rparr> else br), res, e)))"

definition batch_iterator :: "Plan option \<Rightarrow> preparedStmt \<Rightarrow> Iterator" where
  "batch_iterator p st =
     \<lparr>it_st = st, it_plan = p, bound = True, it_done = False, it_err = None, it_pgErr = None, rowCount = 0\<rparr>"

text \<open>Every stage that is read has a statement; an iterator without one would panic when used.\<close>

definition item_query_turn ::
  "nat \<Rightarrow> byte \<Rightarrow> bytes \<Rightarrow> BatchResults \<times> pg_error option \<Rightarrow> Client \<Rightarrow>
   Client \<times> (BatchResults \<times> pg_error option + BatchResults \<times> (err + Iterator))"
where
  "item_query_turn i t body l c =
     (case l of (br, pgError) \<Rightarrow>
       if t = MsgParseComplete \<or> t = MsgBindComplete then (c, Inl l)
       else if t = MsgParameterDescription then
         (case update_cached i (\<lambda>st. st\<lparr>paramOIDs := parseParamOIDs body\<rparr>) br c of (c, br) \<Rightarrow> (c, Inl (br, pgError)))
       else if t = MsgRowDescription then
         (case ParseRowDescription body of
            Inl e \<Rightarrow> (c, Inr (br, Inl (EPlan e)))
          | Inr p \<Rightarrow>
              (case update_cached i (\<lambda>st. st\<lparr>plan := Some p\<rparr>) br c of (c, br) \<Rightarrow>
                (case sg_cached (stage_at i br) of
                   None \<Rightarrow> (c, Inr (br, Inl EPanic))
                 | Some st \<Rightarrow> (commitStage (stage_at i br) c, Inr (br, Inr (batch_iterator (Some p) st))))))
       else if t = MsgNoData then
         (case sg_cached (stage_at i br) of
            None \<Rightarrow> (c, Inr (br, Inl EPanic))
          | Some st \<Rightarrow> (commitStage (stage_at i br) c, Inr (br, Inr (batch_iterator None st))))
       else if t = MsgErrorResponse then (c, Inl (br, Some (Parse body)))
       else if t = MsgNoticeResponse then (on_notice body c, Inl l)
       else if t = MsgParameterStatus then (on_parameter body c, Inl l)
       else if t = MsgReadyForQuery then
         (c, Inr (br\<lparr>br_done := True\<rparr>, Inl (case pgError of Some pe \<Rightarrow> EPg pe | None \<Rightarrow> ErrBatchAborted)))
       else (c, Inr (br, Inl (EUnexpected t))))"

definition readItemQuery :: "nat \<Rightarrow> BatchResults \<Rightarrow> Client \<Rightarrow> Client \<times> BatchResults \<times> (err + Iterator)" where
  "readItemQuery i br c =
     msg_loop (item_query_turn i) (\<lambda>e (br, pgError) c. (c, br, Inl (EWire e))) (br, None) c"

definition br_Query :: "BatchResults \<Rightarrow> Client \<Rightarrow> Client \<times> BatchResults \<times> (err + Iterator)" where
  "br_Query br c =
     (if br_closed br then (c, br, Inl (EMsg ''pgz: BatchResults closed''))
      else if br_n br \<le> br_idx br then (c, br, Inl EEOF)
      else if length (parsePlan br) \<le> br_idx br then (c, br, Inl EPanic)
      else
        let i = br_idx br; br = br\<lparr>br_idx := i + 1\<rparr> in
        if br_aborted br then (c, br, Inl ErrBatchAborted)
        else (case readItemQuery i br c of
                (c, br, Inl e) \<Rightarrow> (c, br\<lparr>br_aborted := True\<rparr>, Inl e)
              | (c, br, Inr it) \<Rightarrow> (c, br, Inr it)))"

section \<open>Closing\<close>

definition skip_turn :: "byte \<Rightarrow> bytes \<Rightarrow> BatchResults \<Rightarrow> Client \<Rightarrow> Client \<times> (BatchResults + BatchResults \<times> err option)" where
  "skip_turn t body br c =
     (if t = MsgCommandComplete \<or> t = MsgEmptyQueryResponse then (c, Inr (br, None))
      else if t = MsgReadyForQuery then (c, Inr (br\<lparr>br_done := True\<rparr>, None))
      else if t = MsgNoticeResponse then (on_notice body c, Inl br)
      else if t = MsgParameterStatus then (on_parameter body c, Inl br)
      else (c, Inl br))"

definition skipItem :: "BatchResults \<Rightarrow> Client \<Rightarrow> Client \<times> BatchResults \<times> err option" where
  "skipItem br c = msg_loop skip_turn (\<lambda>e br c. (c, br, Some (EWire e))) br c"

fun skip_rest :: "nat \<Rightarrow> BatchResults \<Rightarrow> Client \<Rightarrow> Client \<times> BatchResults" where
  "skip_rest 0 br c = (c, br)"
| "skip_rest (Suc k) br c =
     (if br_done br then (c, br)
      else case skipItem br c of
             (c, br, Some e) \<Rightarrow> (c, br)
           | (c, br, None) \<Rightarrow> skip_rest k (br\<lparr>br_idx := br_idx br + 1\<rparr>) c)"

definition end_turn :: "byte \<Rightarrow> bytes \<Rightarrow> BatchResults \<Rightarrow> Client \<Rightarrow> Client \<times> (BatchResults + BatchResults)" where
  "end_turn t body br c = (c, if t = MsgReadyForQuery then Inr (br\<lparr>br_done := True\<rparr>) else Inl br)"

definition br_drainUntilReady :: "BatchResults \<Rightarrow> Client \<Rightarrow> Client \<times> BatchResults" where
  "br_drainUntilReady br c =
     (if br_done br then (c, br) else msg_loop end_turn (\<lambda>e br c. (c, br)) br c)"

definition br_Close :: "BatchResults \<Rightarrow> Client \<Rightarrow> Client \<times> BatchResults" where
  "br_Close br c =
     (if br_closed br then (c, br)
      else
        (case skip_rest (br_n br - br_idx br) (br\<lparr>br_closed := True\<rparr>) c of (c, br) \<Rightarrow>
          (case br_drainUntilReady br c of (c, br) \<Rightarrow>
            (case since c of (dur, c) \<Rightarrow>
              (recordEnd (asc ''pgz.SendBatch'') (int (br_n br)) 0 dur None c, br)))))"

end
