(* ===== verification/PipelineCorrect.thy ===== *)
theory PipelineCorrect
  imports Pipeline CopyCorrect
begin

text \<open>
  Batches against a server that answers as documented: the results come in the order of the
  statements and the connection is left ready.  Two situations in which a batch fails: the context
  was done before it was sent, and a statement evicted from the cache is closed along with it.
\<close>

section \<open>One answer\<close>

text \<open>What comes before the end of an item's answer.\<close>

definition quiet_message :: "byte \<Rightarrow> bool" where
  "quiet_message t \<longleftrightarrow> t = MsgParseComplete \<or> t = MsgParameterDescription \<or> t = MsgRowDescription \<or> t = MsgNoData \<or>
     t = MsgBindComplete \<or> t = MsgDataRow \<or> t = MsgNoticeResponse \<or> t = MsgParameterStatus"

definition shape :: "BatchResults \<Rightarrow> nat \<times> nat \<times> bool \<times> bool \<times> bool \<times> nat" where
  "shape br = (br_n br, br_idx br, br_done br, br_aborted br, br_closed br, length (parsePlan br))"

lemma set_stmt_frame:
  "set_stmt nm f (br, c) = (br', c') \<Longrightarrow> shape br' = shape br \<and> rd c' = rd c"
  by (auto simp: set_stmt_def shape_def)

lemma update_cached_frame: "update_cached i f br c = (c', br') \<Longrightarrow> shape br' = shape br \<and> rd c' = rd c"
  by (auto simp: update_cached_def dest!: set_stmt_frame split: option.splits prod.splits)

lemma commitStage_frame [simp]: "rd (commitStage sg c) = rd c"
  by (simp add: commitStage_def split: option.split)

lemma async_frame [simp]: "rd (on_notice body c) = rd c" "rd (on_parameter body c) = rd c"
  by (simp_all add: on_notice_def on_parameter_def observe_def split: prod.split)

lemma quiet_turn:
  assumes "quiet_message t"
  shows "\<exists>c' br'. item_exec_turn i t body (br, None) c = (c', Inl (br', None)) \<and> shape br' = shape br \<and> rd c' = rd c"
  using assms
  by (auto simp: quiet_message_def item_exec_turn_def dest: update_cached_frame split: prod.splits option.splits sum.splits)

lemma item_answer:
  assumes "\<forall>(t, b)\<in>set qs. quiet_message t \<and> frame_ok b" "frame_ok tag" "tag \<noteq> []"
    and "rx (rd c) = frames (qs @ [(MsgCommandComplete, tag)]) @ rest"
  shows "\<exists>c' br'. readItemExec i br c = (c', br', \<lparr>RowsAffected = parseRowsAffected (butlast tag), Tag = butlast tag\<rparr>, None) \<and>
    shape br' = shape br \<and> rx (rd c') = rest"
  using assms
proof (induction qs arbitrary: br c)
  case Nil
  have rx: "rx (rd c) = frame MsgCommandComplete tag @ rest" using Nil.prems(4) by simp
  have turn: "item_exec_turn i MsgCommandComplete tag (br, None) c =
      (commitStage (stage_at i br) c, Inr (br, \<lparr>RowsAffected = parseRowsAffected (butlast tag), Tag = butlast tag\<rparr>, None))" for c
    using Nil.prems(3) by (simp add: item_exec_turn_def complete_tag_def)
  obtain r where "rx r = rest" "readItemExec i br c =
      (commitStage (stage_at i br) (c\<lparr>rd := r\<rparr>), br, \<lparr>RowsAffected = parseRowsAffected (butlast tag), Tag = butlast tag\<rparr>, None)"
    using loop_turn [OF rx Nil.prems(2), of "item_exec_turn i" _ "(br, None)"] unfolding turn readItemExec_def by auto
  then show ?case by auto
next
  case (Cons q qs)
  obtain t b where q: "q = (t, b)" by (cases q)
  have rx: "rx (rd c) = frame t b @ (frames (qs @ [(MsgCommandComplete, tag)]) @ rest)" using Cons.prems(4) by (simp add: q)
  have ok: "frame_ok b" "quiet_message t" using Cons.prems(1) q by auto
  let ?f = "\<lambda>e (br, pgError) c. (c, br, no_result, Some (EWire e))"
  obtain r where r: "rx r = frames (qs @ [(MsgCommandComplete, tag)]) @ rest"
      "msg_loop (item_exec_turn i) ?f (br, None) c = (case item_exec_turn i t b (br, None) (c\<lparr>rd := r\<rparr>) of
         (c', Inr x) \<Rightarrow> (c', x) | (c', Inl l') \<Rightarrow> msg_loop (item_exec_turn i) ?f l' (c'\<lparr>rd := r\<rparr>))"
    using loop_turn [OF rx ok(1), of "item_exec_turn i" ?f "(br, None)"] by (elim exE conjE)
  obtain c1 br1 where t: "item_exec_turn i t b (br, None) (c\<lparr>rd := r\<rparr>) = (c1, Inl (br1, None))" "shape br1 = shape br"
    using quiet_turn [OF ok(2)] by blast
  have eq: "readItemExec i br c = readItemExec i br1 (c1\<lparr>rd := r\<rparr>)"
    using r(2) by (simp add: readItemExec_def t(1))
  obtain c' br' where "readItemExec i br1 (c1\<lparr>rd := r\<rparr>) =
      (c', br', \<lparr>RowsAffected = parseRowsAffected (butlast tag), Tag = butlast tag\<rparr>, None)" "shape br' = shape br1" "rx (rd c') = rest"
    using Cons.IH [of "c1\<lparr>rd := r\<rparr>" br1] Cons.prems(1-3) r(1) by auto
  then show ?case using eq t(2) by (intro exI [of _ c'] exI [of _ br']) simp
qed

section \<open>All answers\<close>

type_synonym item_answer = "(byte \<times> bytes) list \<times> bytes"

definition answer_ok :: "item_answer \<Rightarrow> bool" where
  "answer_ok a \<longleftrightarrow> (\<forall>(t, b)\<in>set (fst a). quiet_message t \<and> frame_ok b) \<and> frame_ok (snd a) \<and> snd a \<noteq> []"

definition answer_frames :: "item_answer \<Rightarrow> bytes" where
  "answer_frames a = frames (fst a @ [(MsgCommandComplete, snd a)])"

definition answer_result :: "item_answer \<Rightarrow> ExecResult" where
  "answer_result a = \<lparr>RowsAffected = parseRowsAffected (butlast (snd a)), Tag = butlast (snd a)\<rparr>"

text \<open>Calling \<open>Exec\<close> \<open>k\<close> times.\<close>

fun exec_times :: "nat \<Rightarrow> BatchResults \<Rightarrow> Client \<Rightarrow> Client \<times> BatchResults \<times> (ExecResult \<times> err option) list" where
  "exec_times 0 br c = (c, br, [])"
| "exec_times (Suc k) br c =
     (case br_Exec br c of (c, br, res, e) \<Rightarrow>
       (case exec_times k br c of (c, br, xs) \<Rightarrow> (c, br, (res, e) # xs)))"

lemma exec_times_answers:
  assumes "shape br = (i + length as, i, False, False, False, i + length as)" "\<forall>a\<in>set as. answer_ok a"
    and "rx (rd c) = concat (map answer_frames as) @ rest"
  shows "\<exists>c' br'. exec_times (length as) br c = (c', br', map (\<lambda>a. (answer_result a, None)) as) \<and>
    shape br' = (i + length as, i + length as, False, False, False, i + length as) \<and> rx (rd c') = rest"
  using assms
proof (induction as arbitrary: i br c)
  case (Cons a as)
  let ?br = "br\<lparr>br_idx := Suc i\<rparr>"
  have sh: "br_n br = i + length as + 1" "br_idx br = i" "\<not> br_aborted br" "\<not> br_closed br" "length (parsePlan br) = i + length as + 1"
      "shape ?br = (Suc i + length as, Suc i, False, False, False, Suc i + length as)"
    using Cons.prems(1) by (auto simp: shape_def)
  have "answer_ok a" using Cons.prems(2) by simp
  moreover have "rx (rd c) = frames (fst a @ [(MsgCommandComplete, snd a)]) @ concat (map answer_frames as) @ rest"
    using Cons.prems(3) by (simp add: answer_frames_def [of a])
  ultimately obtain c1 br1 where item: "readItemExec i ?br c = (c1, br1, answer_result a, None)" "shape br1 = shape ?br"
      "rx (rd c1) = concat (map answer_frames as) @ rest"
    using item_answer [of "fst a" "snd a" c "concat (map answer_frames as) @ rest" i ?br]
    unfolding answer_ok_def answer_result_def by blast
  have ex: "br_Exec br c = (c1, br1, answer_result a, None)" using sh item(1) by (simp add: br_Exec_def Let_def)
  obtain c2 br2 where "exec_times (length as) br1 c1 = (c2, br2, map (\<lambda>a. (answer_result a, None)) as)"
      "shape br2 = (Suc i + length as, Suc i + length as, False, False, False, Suc i + length as)" "rx (rd c2) = rest"
    using Cons.IH [of br1 "Suc i" c1] item sh(6) Cons.prems(2) by auto
  then show ?case by (simp add: ex)
qed (auto simp: shape_def)

lemma close_after_all:
  assumes "shape br = (n, n, False, False, False, n)" "rx (rd c) = frame MsgReadyForQuery st @ rest" "frame_ok st"
  shows "\<exists>c' br'. br_Close br c = (c', br') \<and> br_done br' \<and> rx (rd c') = rest"
proof -
  have sh: "br_n br = n" "br_idx br = n" "\<not> br_closed br" "\<not> br_done br" using assms(1) by (auto simp: shape_def)
  let ?br = "br\<lparr>br_closed := True\<rparr>"
  have turn: "end_turn MsgReadyForQuery st ?br c = (c, Inr (?br\<lparr>br_done := True\<rparr>))" for c by (simp add: end_turn_def)
  obtain r where "rx r = rest" "msg_loop end_turn (\<lambda>e br c. (c, br)) ?br c = (c\<lparr>rd := r\<rparr>, ?br\<lparr>br_done := True\<rparr>)"
    using loop_stop [OF assms(2,3), of end_turn ?br "\<lambda>c. c" "?br\<lparr>br_done := True\<rparr>" "\<lambda>e br c. (c, br)"] turn by auto
  then show ?thesis using sh
    by (simp add: br_Close_def br_drainUntilReady_def since_def recordEnd_frame)
qed

section \<open>Sending\<close>

lemma put_frame: "rd (put_message t b c) = rd c" "rd (put_execute c) = rd c" "rd (put_sync c) = rd c"
  "rd (put_close d c) = rd c" "rd (put_parse_describe nm sql c) = rd c"
  by (simp_all add: put_message_def put_execute_def put_sync_def put_close_def put_parse_describe_def)

lemma writeBindExecute_frame: "writeBindExecute st vals c = (c', e) \<Longrightarrow> rd c' = rd c"
  by (auto simp: writeBindExecute_def begin_bind_def put_frame split: prod.splits option.splits)

lemma plan_stage_frame: "plan_stage sql seen c = (sg, st, seen', c') \<Longrightarrow> rd c' = rd c"
  by (auto simp: plan_stage_def put_frame Let_def split: prod.splits option.splits)

lemma send_items_frame: "send_items b i seen br c = (c', br', e) \<Longrightarrow> rd c' = rd c \<and> shape br' = shape br"
proof (induction b arbitrary: i seen br c)
  case (Cons it b)
  then show ?case
    by (auto dest!: plan_stage_frame writeBindExecute_frame Cons.IH simp: shape_def split: prod.splits option.splits)
qed simp

lemma fold_close_frame: "rd (fold put_close dead c) = rd c"
  by (induction dead arbitrary: c) (simp_all add: put_frame)

lemma SendBatch_shape:
  assumes "SendBatch x b c = (c', br)" "\<not> br_aborted br"
  shows "shape br = (length b, 0, False, False, False, length b) \<and> rd c' = rd c"
proof -
  have "rd (fst (flush_wire c)) = rd c" for c by (simp add: flush_wire_def split: prod.split)
  then have fl: "flush_wire c = (c1, e) \<Longrightarrow> rd c1 = rd c" for c c1 e by (metis fst_conv)
  show ?thesis using assms
    by (auto simp: SendBatch_def Let_def takePendingClose_def shape_def observe_frame put_frame fold_close_frame
        dest!: send_items_frame fl split: prod.splits option.splits)
qed

text \<open>Statements without arguments are always sent.\<close>

lemma put_room: "room (wr (put_execute c)) = room (wr c)" "room (wr (put_sync c)) = room (wr c)"
  "room (wr (put_close d c)) = room (wr c)" "room (wr (put_parse_describe nm sql c)) = room (wr c)"
  "room (Finish b w) = room w" "room (b_Int16 v w) = room w" "room (write_result_formats fs w) = room w"
  by (simp_all add: put_execute_def put_sync_def put_close_def put_parse_describe_def put_message_def message_def Begin_def
      Finish_def app_def b_CString_def b_Byte_def b_Int16_def b_Int32_def write_result_formats_app Let_def split: prod.split)

lemma fold_close_room: "room (wr (fold put_close dead c)) = room (wr c)"
  by (induction dead arbitrary: c) (simp_all add: put_room)

lemma writeBindExecute_no_args: "\<exists>c'. writeBindExecute st [] c = (c', None) \<and> room (wr c') = room (wr c)"
proof -
  have "encodes (paramOIDs st) [] []" by (simp add: encodes_def)
  then obtain bd w where b: "begin_bind st [] c = (c\<lparr>wr := w\<rparr>, bd, None)"
    "Finish bd (write_result_formats (resultFmts st) w) = app (frame MsgBind (bind_body st [] [])) (wr c)"
    using begin_bind_ok by blast
  have "room w = room (wr c)"
    using arg_cong [OF b(2), of room] by (simp add: put_room app_def)
  then show ?thesis by (simp add: writeBindExecute_def b(1) put_room)
qed

lemma send_items_no_args:
  "\<forall>it\<in>set b. bi_args it = [] \<Longrightarrow> \<exists>c' br'. send_items b i seen br c = (c', br', None) \<and> room (wr c') = room (wr c) \<and>
     br_aborted br' = br_aborted br"
proof (induction b arbitrary: i seen br c)
  case (Cons it b)
  obtain sg st seen' c1 where p: "plan_stage (bi_sql it) seen c = (sg, st, seen', c1)" by (cases "plan_stage (bi_sql it) seen c")
  have r1: "room (wr c1) = room (wr c)"
    using p by (auto simp: plan_stage_def put_room Let_def split: prod.splits option.splits)
  obtain c2 where c2: "writeBindExecute st [] c1 = (c2, None)" "room (wr c2) = room (wr c1)"
    using writeBindExecute_no_args by blast
  from Cons.IH [of "i + 1" seen' "br\<lparr>parsePlan := (parsePlan br)[i := sg]\<rparr>" c2] Cons.prems
  obtain c3 br3 where "send_items b (i + 1) seen' (br\<lparr>parsePlan := (parsePlan br)[i := sg]\<rparr>) c2 = (c3, br3, None)"
    "room (wr c3) = room (wr c2)" "br_aborted br3 = br_aborted br" by auto
  then show ?case using Cons.prems p r1 c2 by simp
qed simp

lemma SendBatch_no_args:
  assumes "\<not> ctx_done x" "\<forall>it\<in>set b. bi_args it = []" "room (wr c) = None"
  shows "\<not> br_aborted (snd (SendBatch x b c))"
proof -
  obtain dead sc where d: "takePendingClose (stmts c) = (dead, sc)" by (cases "takePendingClose (stmts c)")
  let ?c = "fold put_close dead ((observe (OnQueryStart (asc ''pgz.SendBatch'')) c)\<lparr>stmts := sc\<rparr>)"
  let ?br = "\<lparr>br_n = length b, br_idx = 0, br_done = False, br_aborted = False, br_closed = False,
    parsePlan = replicate (length b) no_stage\<rparr>"
  obtain c' br' where s: "send_items b 0 Map.empty ?br ?c = (c', br', None)" "room (wr c') = room (wr ?c)" "br_aborted br' = br_aborted ?br"
    using send_items_no_args [OF assms(2), of 0 Map.empty ?br ?c] by blast
  have "room (wr (put_sync c')) = None" using s(2) assms(3) by (simp add: put_room fold_close_room observe_frame)
  then show ?thesis using s assms(1)
    by (simp add: SendBatch_def attachContext_def Let_def d flush_wire_all)
qed

section \<open>Properties\<close>


definition ex_batch :: Batch where
  "ex_batch = Queue ex_sql [] (Queue (asc ''DELETE'') [] NewBatch)"

definition ex_answers :: "item_answer list" where
  "ex_answers = [([(MsgParseComplete, []), (MsgNoData, []), (MsgBindComplete, [])], asc ''DELETE 3'' @ [0]),
     ([(MsgBindComplete, [])], asc ''SELECT 1'' @ [0])]"

definition ex_batch_client :: Client where
  "ex_batch_client = ex_client (concat (map answer_frames ex_answers) @ frame MsgReadyForQuery [73])"

lemma ex_batch_args: "\<forall>it\<in>set ex_batch. bi_args it = []" "length ex_batch = 2" "ex_batch \<noteq> []"
  by (simp_all add: ex_batch_def Queue_def NewBatch_def)

lemma ex_answers_ok: "\<forall>a\<in>set ex_answers. answer_ok a"
  by (simp add: ex_answers_def answer_ok_def quiet_message_def frame_ok_def)

lemma ex_answers_results:
  "map (\<lambda>a. (answer_result a, None)) ex_answers =
    [(\<lparr>RowsAffected = 3, Tag = asc ''DELETE 3''\<rparr>, None), (\<lparr>RowsAffected = 1, Tag = asc ''SELECT 1''\<rparr>, None)]"
proof -
  have "parseRowsAffected (asc ''DELETE 3'') = 3" "parseRowsAffected (asc ''SELECT 1'') = 1" by code_simp+
  then show ?thesis by (simp add: ex_answers_def answer_result_def)
qed

lemma ex_not_done: "\<not> ctx_done []" "ctx_done [True]"
  by (simp_all add: ctx_done_def ask_def)


text \<open>When the context is already done, \<open>SendBatch\<close> returns results without a plan, and the first \<open>Exec\<close> or
  \<open>Query\<close> on them panics with an index out of range instead of returning an error.\<close>

theorem batch_after_done_context_panics:
  assumes "ctx_done x" "b \<noteq> []" "SendBatch x b c = (c1, br)"
  shows "br_Exec br c2 = (c2, br, no_result, Some EPanic) \<and> br_Query br c2 = (c2, br, Inl EPanic)"
  using assms by (auto simp: SendBatch_def attachContext_def Let_def br_Exec_def br_Query_def)

theorem batch_after_done_context_panics_witness:
  "br_Exec (snd (SendBatch [True] ex_batch (ex_client []))) (ex_client []) =
    (ex_client [], snd (SendBatch [True] ex_batch (ex_client [])), no_result, Some EPanic)"
  using batch_after_done_context_panics [OF ex_not_done(2) ex_batch_args(3) prod.collapse [symmetric], of "ex_client []" "ex_client []"]
  by simp

text \<open>The answer to a Close message, which \<open>SendBatch\<close> puts before the batch for every statement the cache
  has evicted, is unexpected: when the server answers with CloseComplete first, the first \<open>Exec\<close> fails and
  every later one returns \<open>ErrBatchAborted\<close>, though the server runs the whole batch.\<close>

theorem batch_after_eviction_fails:
  assumes "SendBatch x b c = (c1, br)" "\<not> br_aborted br" "1 < length b"
    and "rx (rd c) = frame MsgCloseComplete [] @ rest"
  shows "\<exists>c2 br2. br_Exec br c1 = (c2, br2, no_result, Some (EUnexpected MsgCloseComplete)) \<and>
    (\<exists>br3. br_Exec br2 c2 = (c2, br3, no_result, Some ErrBatchAborted))"
proof -
  have sh: "br_n br = length b" "br_idx br = 0" "\<not> br_closed br" "length (parsePlan br) = length b" and rd: "rd c1 = rd c"
    using SendBatch_shape [OF assms(1,2)] by (auto simp: shape_def)
  let ?br = "br\<lparr>br_idx := 1\<rparr>"
  have turn: "item_exec_turn 0 MsgCloseComplete [] (?br, None) c =
      (c, Inr (?br, no_result, Some (EUnexpected MsgCloseComplete)))" for c
    by (simp add: item_exec_turn_def)
  have rx: "rx (rd c1) = frame MsgCloseComplete [] @ rest" using assms(4) rd by simp
  obtain r where "readItemExec 0 ?br c1 = (c1\<lparr>rd := r\<rparr>, ?br, no_result, Some (EUnexpected MsgCloseComplete))"
    using loop_stop [OF rx ex_small(1), of "item_exec_turn 0" "(?br, None)" "\<lambda>c. c", OF turn] unfolding readItemExec_def by blast
  then have "br_Exec br c1 = (c1\<lparr>rd := r\<rparr>, ?br\<lparr>br_aborted := True\<rparr>, no_result, Some (EUnexpected MsgCloseComplete))"
    using sh assms(2,3) by (auto simp: br_Exec_def Let_def)
  moreover have "br_Exec (?br\<lparr>br_aborted := True\<rparr>) (c1\<lparr>rd := r\<rparr>) =
      (c1\<lparr>rd := r\<rparr>, ?br\<lparr>br_aborted := True, br_idx := 2\<rparr>, no_result, Some ErrBatchAborted)"
    using sh assms(3) by (simp add: br_Exec_def Let_def numeral_2_eq_2)
  ultimately show ?thesis by blast
qed

theorem batch_after_eviction_fails_witness:
  "\<exists>c2 br2. br_Exec (snd (SendBatch [] ex_batch (ex_client (frame MsgCloseComplete []))))
      (fst (SendBatch [] ex_batch (ex_client (frame MsgCloseComplete [])))) =
    (c2, br2, no_result, Some (EUnexpected MsgCloseComplete))"
proof -
  let ?c = "ex_client (frame MsgCloseComplete [])"
  have "room (wr ?c) = None" "rx (rd ?c) = frame MsgCloseComplete [] @ []" "1 < length ex_batch"
    by (simp_all add: ex_client_def ex_batch_args(2))
  then show ?thesis
    using batch_after_eviction_fails [OF prod.collapse [symmetric] SendBatch_no_args [OF ex_not_done(1) ex_batch_args(1)], of ?c "[]"]
    by blast
qed

end
