(* ===== verification/ExecCorrect.thy ===== *)
theory ExecCorrect
  imports PipelineCorrect
begin

text \<open>
  \<open>Exec\<close> against a server that answers as documented, and against one that answers too late; the
  iterator: the rows it delivers and where closing it leaves the connection.
\<close>

section \<open>Row counts\<close>

lemma LastIndexByte_none: "d \<notin> set s \<Longrightarrow> LastIndexByte d s = None"
  by (induction s) auto

lemma LastIndexByte_last: "d \<notin> set t \<Longrightarrow> LastIndexByte d (s @ d # t) = Some (length s)"
  by (induction s) (simp_all add: LastIndexByte_none)

lemma parseRowsAffected_tag:
  assumes "0 \<le> n" "n < 2 ^ 63"
  shows "parseRowsAffected (kw @ 32 # dec_int n) = n"
proof -
  have "(32::byte) \<noteq> dig (int d)" if "d < 10" for d :: nat
  proof -
    have "uint (dig (int d)) = 48 + int d" using that by (intro uint_dig) simp_all
    then show ?thesis by (auto dest: arg_cong [of _ _ uint])
  qed
  then have "32 \<notin> set (dec_int n)"
    using assms(1) nat_digits_less [of 10 _ "nat \<bar>n\<bar>"] by (fastforce simp: dec_int_def dec_nat_def)
  then show ?thesis using Atoi_opt_dec_int [of n] assms by (simp add: parseRowsAffected_def LastIndexByte_last)
qed

section \<open>Exec\<close>

lemma execBind_sends:
  assumes "encodes (paramOIDs st) vals cells" "room (wr c) = None" "writeBuf (wr c) = []"
  shows "execBind st vals c = msg_loop exec_turn (\<lambda>e l c. (c, fst l, Some (EWire e))) (no_result, None)
    (c\<lparr>wr := (wr c)\<lparr>tx := tx (wr c) @ frames [(MsgBind, bind_body (st\<lparr>resultFmts := []\<rparr>) vals cells),
      (MsgExecute, [0, 0, 0, 0, 0]), (MsgSync, [])]\<rparr>\<rparr>)"
proof -
  let ?st = "st\<lparr>resultFmts := []\<rparr>"
  obtain bd w where b: "begin_bind ?st vals c = (c\<lparr>wr := w\<rparr>, bd, None)"
    "Finish bd (write_result_formats (resultFmts ?st) w) = app (frame MsgBind (bind_body ?st vals cells)) (wr c)"
    using begin_bind_ok [of ?st vals cells c] assms(1) by (simp, blast)
  have bind: "begin_bind st vals c = (c\<lparr>wr := w\<rparr>, bd, None)" using b(1) by (simp add: begin_bind_def)
  have fin: "Finish bd (b_Int16 0 w) = app (frame MsgBind (bind_body ?st vals cells)) (wr c)"
    using b(2) by (simp add: write_result_formats_def allBinary_def int16_of_def)
  show ?thesis
    using assms(2,3) by (simp add: execBind_def bind fin Let_def put_execute_sync flush_wire_all app_def writeBuf_empty)
qed

lemma execBind_served:
  assumes "encodes (paramOIDs st) vals cells" "room (wr c) = None" "writeBuf (wr c) = []"
    and rx: "rx (rd c) = frames [(MsgBindComplete, []), (MsgCommandComplete, tag), (MsgReadyForQuery, s)] @ rest"
    and ok: "frame_ok tag" "frame_ok s" "tag \<noteq> []"
  shows "\<exists>r. rx r = rest \<and> execBind st vals c =
    (c\<lparr>wr := (wr c)\<lparr>tx := tx (wr c) @ frames [(MsgBind, bind_body (st\<lparr>resultFmts := []\<rparr>) vals cells),
        (MsgExecute, [0, 0, 0, 0, 0]), (MsgSync, [])]\<rparr>, rd := r\<rparr>,
     \<lparr>RowsAffected = parseRowsAffected (butlast tag), Tag = butlast tag\<rparr>, None)"
proof -
  let ?st = "st\<lparr>resultFmts := []\<rparr>"
  let ?out = "frames [(MsgBind, bind_body ?st vals cells), (MsgExecute, [0, 0, 0, 0, 0]), (MsgSync, [])]"
  let ?f = "\<lambda>e l c. (c, fst l, Some (EWire e))"
  let ?res = "\<lparr>RowsAffected = parseRowsAffected (butlast tag), Tag = butlast tag\<rparr>"
  have "execBind st vals c = msg_loop exec_turn ?f (no_result, None) (c\<lparr>wr := (wr c)\<lparr>tx := tx (wr c) @ ?out\<rparr>\<rparr>)"
    using execBind_sends [OF assms(1-3)] by simp
  moreover let ?c = "c\<lparr>wr := (wr c)\<lparr>tx := tx (wr c) @ ?out\<rparr>\<rparr>"
  have t1: "exec_turn MsgBindComplete [] (no_result, None) c = (c, Inl (no_result, None))" for c by (simp add: exec_turn_def)
  have t2: "exec_turn MsgCommandComplete tag (no_result, None) c = (c, Inl (?res, None))" for c
    using ok(3) by (simp add: exec_turn_def complete_tag_def)
  have t3: "exec_turn MsgReadyForQuery s (?res, None) c = (c, Inr (?res, None))" for c by (simp add: exec_turn_def)
  have rx1: "rx (rd ?c) = frame MsgBindComplete [] @ frame MsgCommandComplete tag @ frame MsgReadyForQuery s @ rest" using rx by simp
  obtain r1 where r1: "rx (rd (?c\<lparr>rd := r1\<rparr>)) = frame MsgCommandComplete tag @ frame MsgReadyForQuery s @ rest"
      "msg_loop exec_turn ?f (no_result, None) ?c = msg_loop exec_turn ?f (no_result, None) (?c\<lparr>rd := r1\<rparr>)"
    using loop_step [OF rx1 ex_small(1), of exec_turn, OF t1, of ?f] by auto
  obtain r2 where r2: "rx (rd (?c\<lparr>rd := r1, rd := r2\<rparr>)) = frame MsgReadyForQuery s @ rest"
      "msg_loop exec_turn ?f (no_result, None) (?c\<lparr>rd := r1\<rparr>) = msg_loop exec_turn ?f (?res, None) (?c\<lparr>rd := r1, rd := r2\<rparr>)"
    using loop_step [OF r1(1) ok(1), of exec_turn, OF t2, of ?f] by auto
  obtain r3 where "rx r3 = rest" "msg_loop exec_turn ?f (?res, None) (?c\<lparr>rd := r1, rd := r2\<rparr>) = (?c\<lparr>rd := r1, rd := r2, rd := r3\<rparr>, ?res, None)"
    using loop_stop [OF r2(1) ok(2), of exec_turn _ "\<lambda>c. c", OF t3, of ?f] by auto
  ultimately show ?thesis using r1(2) r2(2) by auto
qed

section \<open>Closing an iterator\<close>

text \<open>The error a sequence of messages leaves behind.\<close>

fun drained :: "pg_error option \<Rightarrow> (byte \<times> bytes) list \<Rightarrow> pg_error option" where
  "drained e [] = e"
| "drained e ((t, b) # ms) = drained (if t = MsgErrorResponse then Some (Parse b) else e) ms"

lemma drain_reaches_ready:
  assumes "\<forall>(t, b)\<in>set ms. t \<noteq> MsgReadyForQuery \<and> frame_ok b" "frame_ok s"
    and "rx (rd c) = frames (ms @ [(MsgReadyForQuery, s)]) @ rest"
  shows "\<exists>c'. drainUntilReady it c =
      (c', it\<lparr>it_pgErr := drained (it_pgErr it) ms, it_done := True\<rparr>, map_option EPg (drained (it_pgErr it) ms)) \<and>
    rx (rd c') = rest"
  using assms
proof (induction ms arbitrary: it c)
  case Nil
  have rx: "rx (rd c) = frame MsgReadyForQuery s @ rest" using Nil.prems(3) by simp
  have turn: "drain_turn MsgReadyForQuery s it c = (c, Inr (it\<lparr>it_done := True\<rparr>, map_option EPg (it_pgErr it)))" for c
    by (simp add: drain_turn_def)
  obtain r where "rx r = rest" "drainUntilReady it c = (c\<lparr>rd := r\<rparr>, it\<lparr>it_done := True\<rparr>, map_option EPg (it_pgErr it))"
    using loop_stop [OF rx Nil.prems(2), of drain_turn it "\<lambda>c. c", OF turn] unfolding drainUntilReady_def by blast
  then show ?case by simp
next
  case (Cons m ms)
  obtain t b where m: "m = (t, b)" by (cases m)
  have t: "t \<noteq> MsgReadyForQuery" "frame_ok b" using Cons.prems(1) m by auto
  let ?it = "if t = MsgErrorResponse then it\<lparr>it_pgErr := Some (Parse b)\<rparr> else it"
  have rx: "rx (rd c) = frame t b @ frames (ms @ [(MsgReadyForQuery, s)]) @ rest" using Cons.prems(3) m by simp
  have turn: "\<exists>c'. drain_turn t b it c = (c', Inl ?it)" for c using t(1) by (simp add: drain_turn_def)
  obtain r where r: "rx r = frames (ms @ [(MsgReadyForQuery, s)]) @ rest"
      "msg_loop drain_turn drain_failed it c = (case drain_turn t b it (c\<lparr>rd := r\<rparr>) of
         (c', Inr x) \<Rightarrow> (c', x) | (c', Inl l') \<Rightarrow> msg_loop drain_turn drain_failed l' (c'\<lparr>rd := r\<rparr>))"
    using loop_turn [OF rx t(2), of drain_turn drain_failed it] by (elim exE conjE)
  obtain c1 where c1: "drain_turn t b it (c\<lparr>rd := r\<rparr>) = (c1, Inl ?it)" using turn by blast
  have eq: "drainUntilReady it c = drainUntilReady ?it (c1\<lparr>rd := r\<rparr>)" using r(2) by (simp add: drainUntilReady_def c1)
  obtain c' where "drainUntilReady ?it (c1\<lparr>rd := r\<rparr>) = (c', ?it\<lparr>it_pgErr := drained (it_pgErr ?it) ms, it_done := True\<rparr>,
      map_option EPg (drained (it_pgErr ?it) ms))" "rx (rd c') = rest"
    using Cons.IH [of "c1\<lparr>rd := r\<rparr>" ?it] Cons.prems(1,2) r(1) by auto
  then show ?case unfolding eq m by (auto intro!: exI [of _ c'])
qed

lemma SendCancel_frame: "rd (fst (SendCancel c)) = rd c" "wr (fst (SendCancel c)) = wr c"
  by (simp_all add: SendCancel_def Let_def)

section \<open>Rows of an iterator\<close>

text \<open>Calling \<open>NextRaw\<close> \<open>k\<close> times.\<close>

fun next_times :: "nat \<Rightarrow> Iterator \<Rightarrow> Client \<Rightarrow> Client \<times> Iterator \<times> (err + bytes) list" where
  "next_times 0 it c = (c, it, [])"
| "next_times (Suc k) it c =
     (case NextRaw it c of (c, it, x) \<Rightarrow>
       (case next_times k it c of (c, it, xs) \<Rightarrow> (c, it, x # xs)))"

lemma next_row:
  assumes "it_err it = None" "\<not> it_done it" "rx (rd c) = frame MsgDataRow b @ rest" "frame_ok b"
  shows "\<exists>r. rx r = rest \<and> NextRaw it c = (c\<lparr>rd := r\<rparr>, it\<lparr>rowCount := rowCount it + 1\<rparr>, Inr b)"
proof -
  have turn: "next_turn MsgDataRow b it c = (c, Inr (it\<lparr>rowCount := rowCount it + 1\<rparr>, Inr b))" for c
    by (simp add: next_turn_def)
  from loop_stop [OF assms(3,4), of next_turn it "\<lambda>c. c", OF turn] assms(1,2) show ?thesis by (simp add: NextRaw_def)
qed

lemma next_rows:
  "it_err it = None \<Longrightarrow> \<not> it_done it \<Longrightarrow> \<forall>b\<in>set bs. frame_ok b \<Longrightarrow> rx (rd c) = frames (map (Pair MsgDataRow) bs) @ rest \<Longrightarrow>
   \<exists>r. rx r = rest \<and> next_times (length bs) it c = (c\<lparr>rd := r\<rparr>, it\<lparr>rowCount := rowCount it + length bs\<rparr>, map Inr bs)"
proof (induction bs arbitrary: it c)
  case Nil
  then show ?case by (intro exI [of _ "rd c"]) simp
next
  case (Cons b bs)
  obtain r where r: "rx r = frames (map (Pair MsgDataRow) bs) @ rest" "NextRaw it c = (c\<lparr>rd := r\<rparr>, it\<lparr>rowCount := rowCount it + 1\<rparr>, Inr b)"
    using next_row [OF Cons.prems(1,2), of c b "frames (map (Pair MsgDataRow) bs) @ rest"] Cons.prems(3,4) by auto
  obtain r' where "rx r' = rest" "next_times (length bs) (it\<lparr>rowCount := rowCount it + 1\<rparr>) (c\<lparr>rd := r\<rparr>) =
      (c\<lparr>rd := r, rd := r'\<rparr>, it\<lparr>rowCount := rowCount it + 1 + length bs\<rparr>, map Inr bs)"
    using Cons.IH [of "it\<lparr>rowCount := rowCount it + 1\<rparr>" "c\<lparr>rd := r\<rparr>"] Cons.prems r(1) by auto
  then show ?case using r(2) by auto
qed

section \<open>Properties\<close>

lemma recordEnd_wr_stmts: "wr (recordEnd sql n b dur e c) = wr c" "stmts (recordEnd sql n b dur e c) = stmts c"
  by (simp_all add: recordEnd_def observe_def Let_def split: option.split)

lemma since_rest: "since c = (dur, c') \<Longrightarrow> wr c' = wr c \<and> stmts c' = stmts c \<and> rd c' = rd c"
  by (auto simp: since_def Let_def split: prod.splits list.splits)

lemma Exec_no_answer:
  assumes "\<not> ctx_done x" "sc_get sql (stmts c) = Some st" "encodes (paramOIDs st) vals cells"
    and "room (wr c) = None" "writeBuf (wr c) = []" "rx (rd c) = []"
  shows "\<exists>c'. Exec x sql vals c = (c', no_result, Some (EWire NetRead)) \<and> stmts c' = stmts c \<and>
    wr c' = (wr c)\<lparr>tx := tx (wr c) @ frames [(MsgBind, bind_body (st\<lparr>resultFmts := []\<rparr>) vals cells),
      (MsgExecute, [0, 0, 0, 0, 0]), (MsgSync, [])]\<rparr>"
proof -
  let ?c = "observe (OnQueryStart sql) c"
  let ?c1 = "?c\<lparr>wr := (wr c)\<lparr>tx := tx (wr c) @ frames [(MsgBind, bind_body (st\<lparr>resultFmts := []\<rparr>) vals cells),
        (MsgExecute, [0, 0, 0, 0, 0]), (MsgSync, [])]\<rparr>\<rparr>"
  have c: "wr ?c = wr c" "rd ?c = rd c" "stmts ?c = stmts c" by (simp_all add: observe_def)
  have "execBind st vals ?c = (?c1, no_result, Some (EWire NetRead))"
    using execBind_sends [of st vals cells ?c] assms(3-6) by (simp add: c no_messages)
  then have run: "exec_loop 0 y sql vals ?c = (?c1, no_result, Some (EWire NetRead))" for y
    by (subst exec_loop.simps)
       (simp add: execCached_def numeral_2_eq_2 obtain_stmt_def c assms(2) isStaleStmtError_def isRetryableSerialization_def has_code_def)
  then show ?thesis using assms(1)
    by (auto simp: Exec_def Let_def attachContext_def run recordEnd_wr_stmts c dest: since_rest split: prod.split)
qed

lemma Exec_served:
  assumes "\<not> ctx_done x" "sc_get sql (stmts c) = Some st" "encodes (paramOIDs st) vals cells"
    and "room (wr c) = None" "writeBuf (wr c) = []"
    and "rx (rd c) = frames [(MsgBindComplete, []), (MsgCommandComplete, tag), (MsgReadyForQuery, s)] @ rest"
    and "frame_ok tag" "frame_ok s" "tag \<noteq> []"
  shows "\<exists>c'. Exec x sql vals c = (c', \<lparr>RowsAffected = parseRowsAffected (butlast tag), Tag = butlast tag\<rparr>, None) \<and>
    tx (wr c') = tx (wr c) @ frames [(MsgBind, bind_body (st\<lparr>resultFmts := []\<rparr>) vals cells),
      (MsgExecute, [0, 0, 0, 0, 0]), (MsgSync, [])] \<and>
    rx (rd c') = rest \<and> sc_get sql (stmts c') = Some st \<and> writeBuf (wr c') = []"
proof -
  let ?c = "observe (OnQueryStart sql) c"
  let ?res = "\<lparr>RowsAffected = parseRowsAffected (butlast tag), Tag = butlast tag\<rparr>"
  have c: "wr ?c = wr c" "rd ?c = rd c" "stmts ?c = stmts c" by (simp_all add: observe_def)
  obtain r where r: "rx r = rest" "execBind st vals ?c =
    (?c\<lparr>wr := (wr c)\<lparr>tx := tx (wr c) @ frames [(MsgBind, bind_body (st\<lparr>resultFmts := []\<rparr>) vals cells),
        (MsgExecute, [0, 0, 0, 0, 0]), (MsgSync, [])]\<rparr>, rd := r\<rparr>, ?res, None)"
    using execBind_served [of st vals cells ?c tag s rest] assms(3-9) unfolding c by auto
  have run: "exec_loop 0 y sql vals ?c = (?c\<lparr>wr := (wr c)\<lparr>tx := tx (wr c) @ frames [(MsgBind, bind_body (st\<lparr>resultFmts := []\<rparr>) vals cells),
        (MsgExecute, [0, 0, 0, 0, 0]), (MsgSync, [])]\<rparr>, rd := r\<rparr>, ?res, None)" for y
    by (subst exec_loop.simps) (simp add: execCached_def numeral_2_eq_2 obtain_stmt_def c assms(2) r(2))
  then show ?thesis using assms(1,2,5) r(1)
    by (auto simp: Exec_def Let_def attachContext_def run recordEnd_wr_stmts recordEnd_frame c dest: since_rest split: prod.split)
qed

text \<open>C39. \<open>Exec\<close> of a cached statement sends one Bind with the encoded arguments, one Execute and one
  Sync, and when the server answers with BindComplete, a CommandComplete whose tag ends in a row count
  and ReadyForQuery, it returns that tag and exactly that count, has read its answer and nothing more,
  and leaves the statement cached and nothing half-written.\<close>

theorem exec_reports_rows:
  assumes "\<not> ctx_done x" "sc_get sql (stmts c) = Some st" "encodes (paramOIDs st) vals cells"
    and "room (wr c) = None" "writeBuf (wr c) = []" "0 \<le> n" "n < 2 ^ 63"
    and "rx (rd c) = frames [(MsgBindComplete, []), (MsgCommandComplete, kw @ 32 # dec_int n @ [0]), (MsgReadyForQuery, s)] @ rest"
    and "frame_ok (kw @ 32 # dec_int n @ [0])" "frame_ok s"
  shows "\<exists>c'. Exec x sql vals c = (c', \<lparr>RowsAffected = n, Tag = kw @ 32 # dec_int n\<rparr>, None) \<and>
    tx (wr c') = tx (wr c) @ frames [(MsgBind, bind_body (st\<lparr>resultFmts := []\<rparr>) vals cells),
      (MsgExecute, [0, 0, 0, 0, 0]), (MsgSync, [])] \<and>
    rx (rd c') = rest \<and> sc_get sql (stmts c') = Some st \<and> writeBuf (wr c') = []"
proof -
  let ?tag = "kw @ 32 # dec_int n @ [0]"
  have "?tag \<noteq> []" "butlast ?tag = kw @ 32 # dec_int n" by (simp_all add: butlast_append)
  with Exec_served [OF assms(1-5,8-10)] parseRowsAffected_tag [OF assms(6,7), of kw] show ?thesis by simp
qed

theorem exec_reports_rows_witness:
  "\<exists>c'. Exec [] ex_sql [] (ex_client (frames [(MsgBindComplete, []), (MsgCommandComplete, [85] @ 32 # dec_int 42 @ [0]),
      (MsgReadyForQuery, [73])] @ [9])) = (c', \<lparr>RowsAffected = 42, Tag = [85, 32, 52, 50]\<rparr>, None) \<and> rx (rd c') = [9]"
proof -
  let ?c = "ex_client (frames [(MsgBindComplete, []), (MsgCommandComplete, [85] @ 32 # dec_int 42 @ [0]), (MsgReadyForQuery, [73])] @ [9])"
  have x: "\<not> ctx_done []" by (simp add: ctx_done_def ask_def)
  have st: "sc_get ex_sql (stmts ?c) = Some ex_stmt" "room (wr ?c) = None" "writeBuf (wr ?c) = []"
    using ex_ready by (auto simp: ready_def)
  have d: "dec_int 42 = [52, 50]" by code_simp
  have "frame_ok ([85] @ 32 # dec_int 42 @ [0])" "frame_ok [73]" by (simp_all add: frame_ok_def d)
  from exec_reports_rows [OF x st(1) ex_encodes st(2,3) _ _ _ this, of "[9]"]
  show ?thesis by (auto simp: ex_client_def d)
qed

text \<open>C7. A timed-out statement passes its answer on to the next one.  When the context of an \<open>Exec\<close> ends before the
  server has answered, its read fails and \<open>Exec\<close> returns that error, but the client stays in use: nothing
  records that an answer is outstanding.  The answer that then arrives is taken by the next \<open>Exec\<close>, which
  reports the row count and the tag of the statement that failed and leaves its own answer unread.\<close>

theorem late_answer_goes_to_next_statement:
  assumes "\<not> ctx_done x" "sc_get sql (stmts c) = Some st" "encodes (paramOIDs st) vals cells"
    and "\<not> ctx_done x'" "sc_get sql' (stmts c) = Some st'" "encodes (paramOIDs st') vals' cells'"
    and "room (wr c) = None" "writeBuf (wr c) = []" "rx (rd c) = []"
    and "late = frames [(MsgBindComplete, []), (MsgCommandComplete, tag), (MsgReadyForQuery, s)]"
    and "frame_ok tag" "frame_ok s" "tag \<noteq> []"
  shows "\<exists>c1 c2. Exec x sql vals c = (c1, no_result, Some (EWire NetRead)) \<and>
    Exec x' sql' vals' (c1\<lparr>rd := (rd c1)\<lparr>rx := late @ rest\<rparr>\<rparr>) =
      (c2, \<lparr>RowsAffected = parseRowsAffected (butlast tag), Tag = butlast tag\<rparr>, None) \<and>
    rx (rd c2) = rest \<and>
    tx (wr c2) = tx (wr c) @
      frames [(MsgBind, bind_body (st\<lparr>resultFmts := []\<rparr>) vals cells), (MsgExecute, [0, 0, 0, 0, 0]), (MsgSync, [])] @
      frames [(MsgBind, bind_body (st'\<lparr>resultFmts := []\<rparr>) vals' cells'), (MsgExecute, [0, 0, 0, 0, 0]), (MsgSync, [])]"
proof -
  from Exec_no_answer [OF assms(1-3,7-9)] obtain c1 where c1: "Exec x sql vals c = (c1, no_result, Some (EWire NetRead))"
    "stmts c1 = stmts c" "wr c1 = (wr c)\<lparr>tx := tx (wr c) @
      frames [(MsgBind, bind_body (st\<lparr>resultFmts := []\<rparr>) vals cells), (MsgExecute, [0, 0, 0, 0, 0]), (MsgSync, [])]\<rparr>" by blast
  let ?c = "c1\<lparr>rd := (rd c1)\<lparr>rx := late @ rest\<rparr>\<rparr>"
  have "sc_get sql' (stmts ?c) = Some st'" "room (wr ?c) = None" "writeBuf (wr ?c) = []"
    "rx (rd ?c) = frames [(MsgBindComplete, []), (MsgCommandComplete, tag), (MsgReadyForQuery, s)] @ rest"
    using assms c1 by simp_all
  from Exec_served [OF assms(4) this(1) assms(6) this(2-4) assms(11-13)] c1 show ?thesis by fastforce
qed

theorem late_answer_goes_to_next_statement_witness:
  "\<exists>c1 c2. Exec [] ex_sql [] (ex_client []) = (c1, no_result, Some (EWire NetRead)) \<and>
    Exec [] ex_sql [] (c1\<lparr>rd := (rd c1)\<lparr>rx := frames [(MsgBindComplete, []), (MsgCommandComplete, [85, 32, 52, 50, 0]), (MsgReadyForQuery, [73])] @ [7]\<rparr>\<rparr>) =
      (c2, \<lparr>RowsAffected = 42, Tag = [85, 32, 52, 50]\<rparr>, None) \<and> rx (rd c2) = [7]"
proof -
  let ?c = "ex_client []"
  have x: "\<not> ctx_done []" by (simp add: ctx_done_def ask_def)
  have st: "sc_get ex_sql (stmts ?c) = Some ex_stmt" "room (wr ?c) = None" "writeBuf (wr ?c) = []" "rx (rd ?c) = []"
    using ex_ready by (auto simp: ready_def ex_client_def)
  have d: "parseRowsAffected [85, 32, 52, 50] = 42" by code_simp
  have ok: "frame_ok [85, 32, 52, 50, 0]" "frame_ok [73]" by (simp_all add: frame_ok_def)
  from late_answer_goes_to_next_statement [OF x st(1) ex_encodes x st(1) ex_encodes st(2-4) refl ok, of "[7]"]
  show ?thesis by (auto simp: d)
qed

text \<open>The iterator delivers the rows of its query.  Against a server that sends rows and anything but
  ReadyForQuery after them, the first calls of \<open>NextRaw\<close> return exactly the rows in order, and \<open>Close\<close>,
  at whatever row, reads up to the end of this answer and no further; the error it reports is the last
  one the server sent, except that the one the cancel request causes is forgiven.\<close>

theorem iterator_delivers_rows:
  assumes "it_err it = None" "\<not> it_done it" "\<forall>b\<in>set bs. frame_ok b"
    and "\<forall>(t, b)\<in>set ms. t \<noteq> MsgReadyForQuery \<and> frame_ok b" "frame_ok s"
    and "rx (rd c) = frames (map (Pair MsgDataRow) bs @ ms @ [(MsgReadyForQuery, s)]) @ rest"
  shows "\<exists>c1 it1 c2 it2. next_times (length bs) it c = (c1, it1, map Inr bs) \<and>
    iter_Close it1 c1 = (c2, it2,
      (case map_option EPg (drained (it_pgErr it) ms) of None \<Rightarrow> None
       | Some e \<Rightarrow> if pid c \<noteq> 0 \<and> has_code [asc ''57014''] e then None else Some e)) \<and>
    it_done it2 \<and> rowCount it2 = rowCount it + length bs \<and> rx (rd c2) = rest"
proof -
  have rx: "rx (rd c) = frames (map (Pair MsgDataRow) bs) @ frames (ms @ [(MsgReadyForQuery, s)]) @ rest" using assms(6) by simp
  obtain r where r: "rx r = frames (ms @ [(MsgReadyForQuery, s)]) @ rest"
    "next_times (length bs) it c = (c\<lparr>rd := r\<rparr>, it\<lparr>rowCount := rowCount it + length bs\<rparr>, map Inr bs)"
    using next_rows [OF assms(1-3) rx] by blast
  let ?it = "it\<lparr>rowCount := rowCount it + length bs\<rparr>"
  let ?c = "if pid c \<noteq> 0 then fst (SendCancel (c\<lparr>rd := r\<rparr>)) else c\<lparr>rd := r\<rparr>"
  have "rx (rd ?c) = frames (ms @ [(MsgReadyForQuery, s)]) @ rest" using r(1) by (simp add: SendCancel_frame)
  from drain_reaches_ready [OF assms(4,5) this, of ?it] obtain c2 where
    d: "drainUntilReady ?it ?c = (c2, ?it\<lparr>it_pgErr := drained (it_pgErr it) ms, it_done := True\<rparr>, map_option EPg (drained (it_pgErr it) ms))"
    "rx (rd c2) = rest" by auto
  have "iter_Close ?it (c\<lparr>rd := r\<rparr>) = (c2, ?it\<lparr>it_pgErr := drained (it_pgErr it) ms, it_done := True\<rparr>,
      (case map_option EPg (drained (it_pgErr it) ms) of None \<Rightarrow> None
       | Some e \<Rightarrow> if pid c \<noteq> 0 \<and> has_code [asc ''57014''] e then None else Some e))"
    using assms(2) d(1) by (simp add: iter_Close_def Let_def split: option.split)
  then show ?thesis using r(2) d(2) by auto
qed

theorem iterator_delivers_rows_witness:
  "\<exists>c1 it1 c2 it2. next_times 2 (newIterator ex_stmt) (ex_client (frames (map (Pair MsgDataRow) [[7], [8]] @
      [(MsgDataRow, [9]), (MsgCommandComplete, [65, 0])] @ [(MsgReadyForQuery, [73])]) @ [1])) = (c1, it1, [Inr [7], Inr [8]]) \<and>
    iter_Close it1 c1 = (c2, it2, None) \<and> rx (rd c2) = [1]"
proof -
  let ?it = "newIterator ex_stmt" and ?ms = "[(MsgDataRow, [9]), (MsgCommandComplete, [65, 0])]"
  define c where "c = ex_client (frames (map (Pair MsgDataRow) [[7], [8]] @ ?ms @ [(MsgReadyForQuery, [73])]) @ [1])"
  have it: "it_err ?it = None" "\<not> it_done ?it" "it_pgErr ?it = None" by (simp_all add: newIterator_def)
  have rx: "rx (rd c) = frames (map (Pair MsgDataRow) [[7], [8]] @ ?ms @ [(MsgReadyForQuery, [73])]) @ [1]"
    by (simp add: c_def ex_client_def)
  have d: "drained (it_pgErr ?it) ?ms = None" by (simp add: it(3))
  have len: "length [[7], [8 :: byte]] = 2" by simp
  obtain c1 it1 c2 it2 where "next_times 2 ?it c = (c1, it1, map Inr [[7], [8]])" "iter_Close it1 c1 = (c2, it2, None)" "rx (rd c2) = [1]"
    using iterator_delivers_rows [OF it(1,2) _ _ _ rx] unfolding d len by (force simp: frame_ok_def)
  then show ?thesis unfolding c_def by auto
qed

end
