(* ===== verification/ScanTypes.thy ===== *)
theory ScanTypes
  imports Client
begin

text \<open>
  The Go types a result can be scanned into, as src/pgz/scan.go sees them through reflection, and
  the values of these types.  A type is what \<^verbatim>\<open>reflect\<close> shows of it: \<open>GNamed\<close> is a defined type,
  which has the kind of its underlying type but not its identity, and \<open>GScanner n\<close> one whose pointer
  implements \<^verbatim>\<open>sql.Scanner\<close>; types that refer to themselves through a pointer are left out.  Platforms
  with 64-bit \<open>int\<close>.  A value is the memory of its type: integers in the range of their width, floats as
  bit patterns, a time as nanoseconds since the Unix epoch, a pointer as what it points to.
\<close>

section \<open>Types\<close>

datatype ikind = KInt | KInt8 | KInt16 | KInt32 | KInt64 | KUint | KUint8 | KUint16 | KUint32 | KUint64

datatype nullkind = NString | NInt16 | NInt32 | NInt64 | NFloat64 | NBool | NTime | NByte

record field_info =
  fname :: bytes
  ftag :: "bytes option"
  exported :: bool
  anon :: bool

datatype gotype =
    GBool
  | GInt ikind
  | GFloat32
  | GFloat64
  | GString
  | GSlice gotype
  | GArray nat gotype
  | GPtr gotype
  | GTime
  | GNull nullkind
  | GRange
  | GStruct "(field_info \<times> gotype) list"
  | GNamed nat gotype
  | GScanner nat gotype
  | GOther nat

text \<open>\<open>t.Kind()\<close>, \<open>t.Elem()\<close> and \<open>t.Field(i)\<close> look at the underlying type.\<close>

fun under :: "gotype \<Rightarrow> gotype" where
  "under (GNamed n t) = under t"
| "under (GScanner n t) = under t"
| "under t = t"

abbreviation uint8 :: gotype where "uint8 \<equiv> GInt KUint8"

definition byte_slice :: "gotype \<Rightarrow> bool" where
  "byte_slice t \<longleftrightarrow> (case under t of GSlice e \<Rightarrow> under e = uint8 | _ \<Rightarrow> False)"

definition null_value :: "nullkind \<Rightarrow> gotype" where
  "null_value k =
     (case k of NString \<Rightarrow> GString | NInt16 \<Rightarrow> GInt KInt16 | NInt32 \<Rightarrow> GInt KInt32 | NInt64 \<Rightarrow> GInt KInt64
      | NFloat64 \<Rightarrow> GFloat64 | NBool \<Rightarrow> GBool | NTime \<Rightarrow> GTime | NByte \<Rightarrow> uint8)"

definition null_name :: "nullkind \<Rightarrow> bytes" where
  "null_name k =
     (case k of NString \<Rightarrow> asc ''String'' | NInt16 \<Rightarrow> asc ''Int16'' | NInt32 \<Rightarrow> asc ''Int32'' | NInt64 \<Rightarrow> asc ''Int64''
      | NFloat64 \<Rightarrow> asc ''Float64'' | NBool \<Rightarrow> asc ''Bool'' | NTime \<Rightarrow> asc ''Time'' | NByte \<Rightarrow> asc ''Byte'')"

definition plain_field :: "bytes \<Rightarrow> gotype \<Rightarrow> field_info \<times> gotype" where
  "plain_field nm t = (\<lparr>fname = nm, ftag = None, exported = True, anon = False\<rparr>, t)"

text \<open>\<open>RangeBytes\<close>.\<close>

definition RangeBytes :: "(field_info \<times> gotype) list" where
  "RangeBytes =
     [plain_field (asc ''Flags'') uint8, plain_field (asc ''Lower'') (GSlice uint8), plain_field (asc ''Upper'') (GSlice uint8),
      plain_field (asc ''Empty'') GBool, plain_field (asc ''LowerInclusive'') GBool, plain_field (asc ''UpperInclusive'') GBool,
      plain_field (asc ''LowerInfinite'') GBool, plain_field (asc ''UpperInfinite'') GBool]"

text \<open>The fields of a struct; those of \<^verbatim>\<open>time.Time\<close> are all unexported and never touched.\<close>

definition fields_of :: "gotype \<Rightarrow> (field_info \<times> gotype) list" where
  "fields_of t =
     (case under t of
        GStruct fs \<Rightarrow> fs
      | GNull k \<Rightarrow> [plain_field (null_name k) (null_value k), plain_field (asc ''Valid'') GBool]
      | GRange \<Rightarrow> RangeBytes
      | _ \<Rightarrow> [])"

definition is_struct :: "gotype \<Rightarrow> bool" where
  "is_struct t \<longleftrightarrow> (case under t of GStruct _ \<Rightarrow> True | GNull _ \<Rightarrow> True | GRange \<Rightarrow> True | GTime \<Rightarrow> True | _ \<Rightarrow> False)"

text \<open>A size in which the standard library's null types lie above what they wrap.\<close>

fun gt_size :: "gotype \<Rightarrow> nat" where
  "gt_size (GSlice t) = Suc (gt_size t)"
| "gt_size (GArray n t) = Suc (gt_size t)"
| "gt_size (GPtr t) = Suc (gt_size t)"
| "gt_size (GNamed n t) = Suc (gt_size t)"
| "gt_size (GScanner n t) = Suc (gt_size t)"
| "gt_size (GStruct fs) = Suc (sum_list (map gt_size (map snd fs)))"
| "gt_size (GNull k) = 1"
| "gt_size GRange = 3"
| "gt_size t = 0"

lemma gt_size_under: "gt_size (under t) \<le> gt_size t"
  by (induction t rule: under.induct) auto

lemma gt_size_null [simp]: "gt_size (null_value k) = 0"
  by (cases k) (simp_all add: null_value_def)

lemma gt_size_member: "(f, t) \<in> set fs \<Longrightarrow> gt_size t \<le> sum_list (map gt_size (map snd fs))"
  by (induction fs) auto

lemma gt_size_field: "(f, ft) \<in> set (fields_of t) \<Longrightarrow> gt_size ft < gt_size t"
proof -
  assume "(f, ft) \<in> set (fields_of t)"
  then have "gt_size ft < gt_size (under t)"
    by (auto simp: fields_of_def RangeBytes_def plain_field_def less_Suc_eq_le dest!: gt_size_member split: gotype.splits)
  then show ?thesis using gt_size_under [of t] by simp
qed

section \<open>Values\<close>

datatype sval =
    SBool bool
  | SInt int
  | SF32 int
  | SF64 int
  | SString bytes
  | SBytes "bytes option"
  | SSlice "sval list option"
  | SArr "sval list"
  | SPtr "sval option"
  | STime int
  | SStruct "sval list"
  | SOther

definition in_kind :: "ikind \<Rightarrow> int \<Rightarrow> bool" where
  "in_kind k v \<longleftrightarrow>
     (case k of
        KInt8 \<Rightarrow> - (2 ^ 7) \<le> v \<and> v < 2 ^ 7
      | KInt16 \<Rightarrow> - (2 ^ 15) \<le> v \<and> v < 2 ^ 15
      | KInt32 \<Rightarrow> - (2 ^ 31) \<le> v \<and> v < 2 ^ 31
      | KInt64 \<Rightarrow> - (2 ^ 63) \<le> v \<and> v < 2 ^ 63
      | KInt \<Rightarrow> - (2 ^ 63) \<le> v \<and> v < 2 ^ 63
      | KUint8 \<Rightarrow> 0 \<le> v \<and> v < 2 ^ 8
      | KUint16 \<Rightarrow> 0 \<le> v \<and> v < 2 ^ 16
      | KUint32 \<Rightarrow> 0 \<le> v \<and> v < 2 ^ 32
      | KUint64 \<Rightarrow> 0 \<le> v \<and> v < 2 ^ 64
      | KUint \<Rightarrow> 0 \<le> v \<and> v < 2 ^ 64)"

inductive has_type :: "gotype \<Rightarrow> sval \<Rightarrow> bool" where
  "has_type GBool (SBool b)"
| "in_kind k v \<Longrightarrow> has_type (GInt k) (SInt v)"
| "0 \<le> b \<Longrightarrow> b < 2 ^ 32 \<Longrightarrow> has_type GFloat32 (SF32 b)"
| "0 \<le> b \<Longrightarrow> b < 2 ^ 64 \<Longrightarrow> has_type GFloat64 (SF64 b)"
| "has_type GString (SString s)"
| "under e = uint8 \<Longrightarrow> has_type (GSlice e) (SBytes x)"
| "under e \<noteq> uint8 \<Longrightarrow> has_type (GSlice e) (SSlice None)"
| "under e \<noteq> uint8 \<Longrightarrow> list_all (has_type e) vs \<Longrightarrow> has_type (GSlice e) (SSlice (Some vs))"
| "length vs = n \<Longrightarrow> list_all (has_type e) vs \<Longrightarrow> has_type (GArray n e) (SArr vs)"
| "has_type (GPtr e) (SPtr None)"
| "has_type e v \<Longrightarrow> has_type (GPtr e) (SPtr (Some v))"
| "has_type GTime (STime t)"
| "list_all2 has_type [null_value k, GBool] vs \<Longrightarrow> has_type (GNull k) (SStruct vs)"
| "list_all2 has_type (map snd RangeBytes) vs \<Longrightarrow> has_type GRange (SStruct vs)"
| "list_all2 has_type (map snd fs) vs \<Longrightarrow> has_type (GStruct fs) (SStruct vs)"
| "has_type t v \<Longrightarrow> has_type (GNamed n t) v"
| "has_type t v \<Longrightarrow> has_type (GScanner n t) v"
| "has_type (GOther n) SOther"

inductive_simps has_type_simps [simp]:
  "has_type GBool v" "has_type (GInt k) v" "has_type GFloat32 v" "has_type GFloat64 v" "has_type GString v"
  "has_type (GSlice e) v" "has_type (GArray n e) v" "has_type (GPtr e) v" "has_type GTime v" "has_type (GNull k) v"
  "has_type GRange v" "has_type (GStruct fs) v" "has_type (GNamed n t) v" "has_type (GScanner n t) v" "has_type (GOther n) v"

text \<open>\<^verbatim>\<open>time.Time\{\}\<close> is the start of the year 1.\<close>

definition zero_time :: int where "zero_time = - 62135596800000000000"

lemma size_field [termination_simp]: "p \<in> set fs \<Longrightarrow> size (snd p) < Suc (size_list (size_prod (\<lambda>x. 0) size) fs)"
  by (induction fs) auto

definition null_zero :: "nullkind \<Rightarrow> sval" where
  "null_zero k =
     (case k of NString \<Rightarrow> SString [] | NFloat64 \<Rightarrow> SF64 0 | NBool \<Rightarrow> SBool False | NTime \<Rightarrow> STime zero_time | _ \<Rightarrow> SInt 0)"

fun zero :: "gotype \<Rightarrow> sval" where
  "zero GBool = SBool False"
| "zero (GInt k) = SInt 0"
| "zero GFloat32 = SF32 0"
| "zero GFloat64 = SF64 0"
| "zero GString = SString []"
| "zero (GSlice e) = (if under e = uint8 then SBytes None else SSlice None)"
| "zero (GArray n e) = SArr (replicate n (zero e))"
| "zero (GPtr e) = SPtr None"
| "zero GTime = STime zero_time"
| "zero (GNull k) = SStruct [null_zero k, SBool False]"
| "zero GRange = SStruct (SInt 0 # SBytes None # SBytes None # replicate 5 (SBool False))"
| "zero (GStruct fs) = SStruct (map (\<lambda>p. zero (snd p)) fs)"
| "zero (GNamed n t) = zero t"
| "zero (GScanner n t) = zero t"
| "zero (GOther n) = SOther"

lemma has_type_under: "has_type (under t) v \<longleftrightarrow> has_type t v"
  by (induction t rule: under.induct) auto

lemma has_type_null_zero: "has_type (null_value k) (null_zero k)"
  by (cases k) (auto simp: null_value_def null_zero_def in_kind_def)

lemma in_kind_zero: "in_kind k 0"
  by (cases k) (simp_all add: in_kind_def)

lemma has_type_zero: "has_type t (zero t)"
proof (induction t rule: zero.induct)
  case (12 fs)
  then show ?case by (auto simp: list_all2_conv_all_nth)
qed (auto simp: in_kind_zero list_all_iff RangeBytes_def plain_field_def numeral_eq_Suc has_type_null_zero)

text \<open>A struct value holds one value per field.\<close>

lemma has_type_fields:
  "has_type t v \<Longrightarrow> fields_of t \<noteq> [] \<Longrightarrow> \<exists>vs. v = SStruct vs \<and> list_all2 has_type (map snd (fields_of t)) vs"
  unfolding has_type_under [symmetric, of t] fields_of_def
  by (cases "under t") (auto simp: plain_field_def)

lemma fields_has_type:
  "fields_of t \<noteq> [] \<Longrightarrow> list_all2 has_type (map snd (fields_of t)) vs \<Longrightarrow> has_type t (SStruct vs)"
  unfolding has_type_under [symmetric, of t] fields_of_def
  by (cases "under t") (auto simp: plain_field_def)

section \<open>Numbers\<close>

text \<open>A Go conversion to an integer type of kind \<open>k\<close>.\<close>

definition conv_int :: "ikind \<Rightarrow> int \<Rightarrow> int" where
  "conv_int k v =
     (case k of
        KInt8 \<Rightarrow> signed_take_bit 7 v | KInt16 \<Rightarrow> int16_of v | KInt32 \<Rightarrow> int32_of v | KInt64 \<Rightarrow> v | KInt \<Rightarrow> v
      | KUint8 \<Rightarrow> v mod 2 ^ 8 | KUint16 \<Rightarrow> v mod 2 ^ 16 | KUint32 \<Rightarrow> v mod 2 ^ 32 | KUint64 \<Rightarrow> v mod 2 ^ 64 | KUint \<Rightarrow> v mod 2 ^ 64)"

lemma in_kind_conv: "- (2 ^ 63) \<le> v \<Longrightarrow> v < 2 ^ 63 \<Longrightarrow> in_kind k (conv_int k v)"
  using int16_of_range [of v] int32_of_range [of v] signed_take_bit_int_greater_eq_minus_exp [of 7 v] signed_take_bit_int_less_exp [of 7 v]
  by (cases k) (auto simp: in_kind_def conv_int_def)

text \<open>\<^verbatim>\<open>float64(f)\<close> of a \<^verbatim>\<open>float32\<close>, on bit patterns; a signalling NaN becomes quiet.\<close>

fun top_bit :: "nat \<Rightarrow> nat" where
  "top_bit n = (if n < 2 then 0 else Suc (top_bit (n div 2)))"

declare top_bit.simps [simp del]

definition float64_of_float32 :: "int \<Rightarrow> int" where
  "float64_of_float32 b =
     (let s = b div 2 ^ 31 mod 2; e = b div 2 ^ 23 mod 2 ^ 8; m = b mod 2 ^ 23; k = top_bit (nat m) in
      s * 2 ^ 63 +
      (if e = 255 then 2047 * 2 ^ 52 + (if m = 0 then 0 else 2 ^ 51 + m mod 2 ^ 22 * 2 ^ 29)
       else if e = 0 then (if m = 0 then 0 else (int k + 874) * 2 ^ 52 + (m - 2 ^ k) * 2 ^ (52 - k))
       else (e + 896) * 2 ^ 52 + m * 2 ^ 29))"

section \<open>Times\<close>

definition pgEpochUnixSec :: int where "pgEpochUnixSec = 946684800"

text \<open>\<^verbatim>\<open>time.Unix(sec, nsec)\<close>.\<close>

definition pgUsecToTime :: "int \<Rightarrow> int" where
  "pgUsecToTime usec =
     (let sec = pgEpochUnixSec + usec sdiv 1000000; nsec = usec smod 1000000 * 1000 in
      if nsec < 0 then (sec - 1) * 1000000000 + (nsec + 1000000000) else sec * 1000000000 + nsec)"

lemma pgUsecToTime_exact: "pgUsecToTime usec = 1000 * (946684800000000 + usec)"
  using sdiv_mult_smod_eq [of usec 1000000]
  by (simp add: pgUsecToTime_def pgEpochUnixSec_def Let_def algebra_simps)

end
