(* ===== verification/ScanSetters.thy ===== *)
theory ScanSetters
  imports ScanTypes
begin

text \<open>
  src/pgz/scan.go, the setters: how one cell is written to a field.  A setter is a closure in Go; here
  it is the data the closure captures (\<open>base_setter\<close>, \<open>setter\<close>), and \<open>set_base\<close> and \<open>run\<close> are the
  bodies.  The one piece of state a closure has, the field setters a composite picks on the first row,
  is returned updated.  A setter that fails leaves its row undefined in Go; no caller looks at it.
  \<^verbatim>\<open>strings.ToLower\<close> and the \<^verbatim>\<open>Scan\<close> methods of the user's types are parameters (\<open>scan_env\<close>).
  Errors are the constant parts of the messages, and a wrapped error is the error inside.
\<close>

section \<open>Values for database/sql\<close>

datatype dval = DNil | DInt int | DFloat int | DBool bool | DBytes bytes | DString bytes | DTime int

record scan_env =
  lower :: "bytes \<Rightarrow> bytes"
  scanm :: "nat \<Rightarrow> dval \<Rightarrow> sval \<Rightarrow> err + sval"

text \<open>\<^verbatim>\<open>binary.BigEndian\<close> panics on a slice that is too short and ignores what is too long.\<close>

definition big_endian :: "nat \<Rightarrow> bytes \<Rightarrow> int option" where
  "big_endian n raw = (if length raw < n then None else Some (be_get (take n raw)))"

definition scannerDecoderFor :: "OID \<Rightarrow> int \<Rightarrow> bytes \<Rightarrow> dval option" where
  "scannerDecoderFor oid format raw =
     (if format = 1 then
        (if oid = OIDBool then Some (DBool (length raw = 1 \<and> raw ! 0 \<noteq> 0))
         else if oid = OIDInt2 then map_option (\<lambda>v. DInt (int16_of v)) (big_endian 2 raw)
         else if oid \<in> {OIDInt4, OIDOID} then map_option (\<lambda>v. DInt (int32_of v)) (big_endian 4 raw)
         else if oid = OIDInt8 then map_option (\<lambda>v. DInt (int64_of v)) (big_endian 8 raw)
         else if oid = OIDFloat4 then map_option (\<lambda>v. DFloat (float64_of_float32 v)) (big_endian 4 raw)
         else if oid = OIDFloat8 then map_option DFloat (big_endian 8 raw)
         else if oid \<in> {OIDText, OIDVarchar, OIDBPChar, OIDName} then Some (DString raw)
         else if oid \<in> {OIDTimestamp, OIDTimestampTZ} then
           Some (if length raw \<noteq> 8 then DBytes raw else DTime (pgUsecToTime (int64_of (be_get raw))))
         else if oid = OIDDate then
           Some (if length raw \<noteq> 4 then DBytes raw
                 else DTime (pgUsecToTime (int64_of (int32_of (be_get raw) * 86400000000))))
         else if oid = OIDJSONB then
           Some (DBytes (if 0 < length raw \<and> raw ! 0 = 1 then drop 1 raw else raw))
         else Some (DBytes raw))
      else Some (DBytes raw))"

definition DriverValueDecoder :: "OID \<Rightarrow> int \<Rightarrow> bytes \<Rightarrow> dval option" where
  "DriverValueDecoder oid format = scannerDecoderFor oid format"

section \<open>Scalars\<close>

datatype base_setter =
    SetBool
  | SetInt nat ikind
  | SetFloat4 bool
  | SetFloat8
  | SetString
  | SetBytes bool
  | SetUUID16
  | SetUUIDString
  | SetJSONBString
  | SetDate
  | SetTimestamp

definition intSetter :: "gotype \<Rightarrow> nat \<Rightarrow> base_setter option" where
  "intSetter t width = (case under t of GInt k \<Rightarrow> Some (SetInt width k) | _ \<Rightarrow> None)"

definition or_else :: "'e \<Rightarrow> 'a option \<Rightarrow> 'e + 'a" where
  "or_else e x = (case x of None \<Rightarrow> Inl e | Some v \<Rightarrow> Inr v)"

definition pickBinarySetter :: "OID \<Rightarrow> gotype \<Rightarrow> err + base_setter" where
  "pickBinarySetter oid t =
     or_else (EMsg ''no binary setter'')
     (if oid = OIDBool then (if under t = GBool then Some SetBool else None)
      else if oid = OIDInt2 then intSetter t 2
      else if oid \<in> {OIDInt4, OIDOID} then intSetter t 4
      else if oid = OIDInt8 then intSetter t 8
      else if oid = OIDFloat4 then
        (case under t of GFloat32 \<Rightarrow> Some (SetFloat4 False) | GFloat64 \<Rightarrow> Some (SetFloat4 True) | _ \<Rightarrow> None)
      else if oid = OIDFloat8 then (if under t = GFloat64 then Some SetFloat8 else None)
      else if oid \<in> {OIDText, OIDVarchar, OIDBPChar, OIDName} then
        (if under t = GString then Some SetString else if byte_slice t then Some (SetBytes False) else None)
      else if oid = OIDUUID then
        (if under t = GString then Some SetUUIDString
         else case under t of GArray n e \<Rightarrow> if under e = uint8 \<and> n = 16 then Some SetUUID16 else None | _ \<Rightarrow> None)
      else if oid = OIDBytea then (if byte_slice t then Some (SetBytes False) else None)
      else if oid = OIDJSON then
        (if byte_slice t then Some (SetBytes False) else if under t = GString then Some SetString else None)
      else if oid = OIDJSONB then
        (if byte_slice t then Some (SetBytes True) else if under t = GString then Some SetJSONBString else None)
      else if oid = OIDDate then (if t = GTime then Some SetDate else None)
      else if oid \<in> {OIDTimestamp, OIDTimestampTZ} then (if t = GTime then Some SetTimestamp else None)
      else None)"

definition pickTextSetter :: "OID \<Rightarrow> gotype \<Rightarrow> err + base_setter" where
  "pickTextSetter oid t =
     (if under t = GString then Inr SetString
      else if byte_slice t then Inr (SetBytes False)
      else Inl (EMsg ''no text setter''))"

definition uuidString :: "bytes \<Rightarrow> bytes" where
  "uuidString raw =
     (let b = appendHexBytes [] (slice 0 4 raw) @ [ch CHR ''-''];
          b = appendHexBytes b (slice 4 6 raw) @ [ch CHR ''-''];
          b = appendHexBytes b (slice 6 8 raw) @ [ch CHR ''-''];
          b = appendHexBytes b (slice 8 10 raw) @ [ch CHR ''-'']
      in appendHexBytes b (slice 10 16 raw))"

definition strip_version :: "bytes \<Rightarrow> bytes" where
  "strip_version raw = (if 0 < length raw \<and> raw ! 0 = 1 then drop 1 raw else raw)"

text \<open>The signed integer of a cell of 2, 4 or 8 bytes.\<close>

definition wire_int :: "nat \<Rightarrow> bytes \<Rightarrow> int" where
  "wire_int width raw =
     (if width = 2 then int16_of (be_get raw) else if width = 4 then int32_of (be_get raw) else int64_of (be_get raw))"

text \<open>What is written for a cell that is not NULL; \<open>None\<close> leaves the field as it is.\<close>

definition set_raw :: "base_setter \<Rightarrow> bytes \<Rightarrow> err + sval option" where
  "set_raw s raw =
     (case s of
        SetBool \<Rightarrow> Inr (Some (SBool (length raw = 1 \<and> raw ! 0 \<noteq> 0)))
      | SetInt width k \<Rightarrow>
          if length raw \<noteq> width then Inl (EMsg ''pgz: unexpected length'')
          else Inr (Some (SInt (conv_int k (wire_int width raw))))
      | SetFloat4 wide \<Rightarrow>
          if length raw \<noteq> 4 then Inr None
          else Inr (Some (if wide then SF64 (float64_of_float32 (be_get raw)) else SF32 (be_get raw)))
      | SetFloat8 \<Rightarrow> if length raw \<noteq> 8 then Inr None else Inr (Some (SF64 (be_get raw)))
      | SetString \<Rightarrow> Inr (Some (SString raw))
      | SetBytes stripVersion \<Rightarrow> Inr (Some (SBytes (Some (if stripVersion then strip_version raw else raw))))
      | SetUUID16 \<Rightarrow> if length raw \<noteq> 16 then Inr None else Inr (Some (SArr (map (\<lambda>b. SInt (uint b)) raw)))
      | SetUUIDString \<Rightarrow>
          if length raw \<noteq> 16 then Inl (EMsg ''pgz: uuid expected 16 bytes'') else Inr (Some (SString (uuidString raw)))
      | SetJSONBString \<Rightarrow> Inr (Some (SString (strip_version raw)))
      | SetDate \<Rightarrow>
          if length raw \<noteq> 4 then Inr None
          else let days = int32_of (be_get raw) in
            if days = 2 ^ 31 - 1 \<or> days = - (2 ^ 31) then Inr None
            else Inr (Some (STime (pgUsecToTime (int64_of (days * 86400000000)))))
      | SetTimestamp \<Rightarrow>
          if length raw \<noteq> 8 then Inr None
          else let usec = int64_of (be_get raw) in
            if usec = 2 ^ 63 - 1 \<or> usec = - (2 ^ 63) then Inr None else Inr (Some (STime (pgUsecToTime usec))))"

text \<open>What is written for NULL.\<close>

definition set_null :: "base_setter \<Rightarrow> sval option" where
  "set_null s =
     (case s of SetBool \<Rightarrow> Some (SBool False) | SetString \<Rightarrow> Some (SString []) | SetBytes _ \<Rightarrow> Some (SBytes None)
      | SetUUIDString \<Rightarrow> Some (SString []) | SetJSONBString \<Rightarrow> Some (SString []) | _ \<Rightarrow> None)"

definition set_base :: "base_setter \<Rightarrow> bytes option \<Rightarrow> sval \<Rightarrow> err + sval" where
  "set_base s raw old =
     (case raw of
        None \<Rightarrow> Inr (case set_null s of None \<Rightarrow> old | Some v \<Rightarrow> v)
      | Some raw \<Rightarrow>
          (case set_raw s raw of Inl e \<Rightarrow> Inl e | Inr None \<Rightarrow> Inr old | Inr (Some v) \<Rightarrow> Inr v))"

section \<open>Ranges\<close>

definition read_bound :: "bytes \<Rightarrow> (err + bytes \<times> bytes)" where
  "read_bound body =
     (if length body < 4 then Inl (EMsg ''pgz: range header truncated'')
      else let l = int32_of (be_get (take 4 body)); body = drop 4 body in
        if l < 0 \<or> int (length body) < l then Inl (EMsg ''pgz: bad range length'')
        else Inr (take (nat l) body, drop (nat l) body))"

definition set_range :: "bytes option \<Rightarrow> err + sval" where
  "set_range raw =
     (case raw of
        None \<Rightarrow> Inr (zero GRange)
      | Some [] \<Rightarrow> Inl (EMsg ''pgz: range wire body empty'')
      | Some (flags # body) \<Rightarrow>
          let bits = (\<lambda>lo hi. SStruct [SInt (uint flags), SBytes lo, SBytes hi, SBool (bit flags 0), SBool (bit flags 1),
                SBool (bit flags 2), SBool (bit flags 3), SBool (bit flags 4)]) in
          if bit flags 0 then Inr (bits None None)
          else
            (case (if bit flags 3 then Inr (None, body)
                   else case read_bound body of Inl e \<Rightarrow> Inl e | Inr (b, rest) \<Rightarrow> Inr (Some b, rest)) of
               Inl e \<Rightarrow> Inl e
             | Inr (lo, body) \<Rightarrow>
                 if bit flags 4 then Inr (bits lo None)
                 else case read_bound body of Inl e \<Rightarrow> Inl e | Inr (hi, rest) \<Rightarrow> Inr (bits lo (Some hi))))"

section \<open>Picking a setter\<close>

datatype setter =
    SetBase base_setter
  | SetNull setter
  | SetScan nat OID int
  | SetRange
  | SetComposite gotype "(nat \<times> gotype) list" "setter option list"
  | SetArray1 gotype setter
  | SetArray2 gotype setter
  | SetPtr gotype setter

text \<open>The fields a composite is stored into: exported ones without the tag \<open>pgz:"-"\<close>.\<close>

definition goFields :: "gotype \<Rightarrow> (nat \<times> gotype) list" where
  "goFields t =
     map (\<lambda>(i, f, ft). (i, ft)) (filter (\<lambda>(i, f, ft). exported f \<and> ftag f \<noteq> Some (asc ''-'')) (enumerate 0 (fields_of t)))"

definition pickCompositeSetter :: "int \<Rightarrow> gotype \<Rightarrow> setter option" where
  "pickCompositeSetter format t =
     (if format \<noteq> 1 \<or> \<not> is_struct t \<or> t = GTime \<or> t = GRange \<or> (\<exists>k\<in>{NString, NInt16, NInt32, NInt64, NFloat64, NBool, NTime, NByte}. t = GNull k)
      then None
      else if goFields t = [] then None
      else Some (SetComposite t (goFields t) (replicate (length (goFields t)) None)))"

text \<open>The rank of a slice of slices, less one, and its innermost slice.\<close>

lemma size_under: "under t = GSlice e \<Longrightarrow> size e < size t"
  by (induction t rule: under.induct) auto

function nest :: "gotype \<Rightarrow> nat \<times> gotype" where
  "nest t =
     (case under t of
        GSlice e \<Rightarrow>
          (case under e of
             GSlice e' \<Rightarrow> if under e' \<noteq> uint8 then (case nest e of (d, l) \<Rightarrow> (Suc d, l)) else (0, t)
           | _ \<Rightarrow> (0, t))
      | _ \<Rightarrow> (0, t))"
  by pat_completeness auto
termination
  by (relation "measure size") (auto dest: size_under)

declare nest.simps [simp del]

definition slice_elem :: "gotype \<Rightarrow> gotype option" where
  "slice_elem t = (case under t of GSlice e \<Rightarrow> Some e | _ \<Rightarrow> None)"

lemma gt_size_slice: "under t = GSlice e \<Longrightarrow> gt_size e < gt_size t"
  using gt_size_under [of t] by simp

lemma gt_size_ptr: "under t = GPtr e \<Longrightarrow> gt_size e < gt_size t"
  using gt_size_under [of t] by simp

lemma gt_size_nest: "nest t = (d, l) \<Longrightarrow> gt_size l \<le> gt_size t"
proof (induction t arbitrary: d l rule: nest.induct)
  case (1 t)
  show ?case
  proof (cases "\<exists>e e'. under t = GSlice e \<and> under e = GSlice e' \<and> under e' \<noteq> uint8")
    case True
    then obtain e e' where e: "under t = GSlice e" "under e = GSlice e'" "under e' \<noteq> uint8" by blast
    then obtain d' where "nest e = (d', l)" using 1(2) by (auto simp: nest.simps [of t] split: prod.splits)
    then show ?thesis using 1(1) [OF e] gt_size_slice [OF e(1)] by fastforce
  next
    case False
    then show ?thesis using 1(2) by (auto simp: nest.simps [of t] split: gotype.splits if_splits prod.splits)
  qed
qed

function pickSetter :: "OID \<Rightarrow> int \<Rightarrow> gotype \<Rightarrow> err + setter" where
  "pickSetter oid format t =
     (let plain = (case (if format = 1 then pickBinarySetter oid t else pickTextSetter oid t) of
                     Inl e \<Rightarrow> Inl e | Inr b \<Rightarrow> Inr (SetBase b)) in
      case t of
        GNull k \<Rightarrow> (case pickSetter oid format (null_value k) of Inr s \<Rightarrow> Inr (SetNull s) | Inl e \<Rightarrow> plain)
      | GScanner n u \<Rightarrow> Inr (SetScan n oid format)
      | _ \<Rightarrow>
          if format = 1 \<and> IsRange oid \<and> t = GRange then Inr SetRange
          else (case pickCompositeSetter format t of
            Some s \<Rightarrow> Inr s
          | None \<Rightarrow>
              if ArrayElem oid \<noteq> 0 \<and> slice_elem t \<noteq> None \<and> \<not> byte_slice t then
                (if format \<noteq> 1 then Inl (EMsg ''pgz: array scan requires binary format'')
                 else case nest t of (d, leaf) \<Rightarrow>
                   (case slice_elem leaf of
                      None \<Rightarrow> Inl (EMsg ''pgz: array target must be a slice'')
                    | Some scalar \<Rightarrow>
                        if 2 < Suc d then Inl (EMsg ''pgz: multi-dim arrays with Go depth > 2 not supported'')
                        else (case pickSetter (ArrayElem oid) 1 scalar of
                                Inl e \<Rightarrow> Inl e
                              | Inr s \<Rightarrow> Inr (if d = 0 then SetArray1 scalar s else SetArray2 scalar s))))
              else (case under t of
                      GPtr e \<Rightarrow> (case pickSetter oid format e of Inl er \<Rightarrow> Inl er | Inr s \<Rightarrow> Inr (SetPtr e s))
                    | _ \<Rightarrow> plain)))"
  by pat_completeness auto
termination
  by (relation "measure (\<lambda>(oid, format, t). gt_size t)")
    (auto simp: slice_elem_def dest!: gt_size_nest [OF sym] gt_size_slice gt_size_ptr split: gotype.splits)

declare pickSetter.simps [simp del]

section \<open>Running a setter\<close>

text \<open>\<open>readArrayElem\<close>: one element and the rest.\<close>

definition readArrayElem :: "bytes \<Rightarrow> err + bytes option \<times> bytes" where
  "readArrayElem raw =
     (if length raw < 4 then Inl (EMsg ''pgz: array elem header truncated'')
      else let el = int32_of (be_get (take 4 raw)); raw = drop 4 raw in
        if el = - 1 then Inr (None, raw)
        else if el < 0 \<or> int (length raw) < el then Inl (EMsg ''pgz: bad array elem length'')
        else Inr (Some (take (nat el) raw), drop (nat el) raw))"

text \<open>The column of a composite: its type, its value and the rest.\<close>

definition readCompositeField :: "bytes \<Rightarrow> err + OID \<times> bytes option \<times> bytes" where
  "readCompositeField raw =
     (if length raw < 8 then Inl (EMsg ''pgz: composite field header truncated'')
      else let oid = word_of_int (be_get (take 4 raw)); l = int32_of (be_get (slice 4 8 raw)); raw = drop 8 raw in
        if l = - 1 then Inr (oid, None, raw)
        else if l < 0 \<or> int (length raw) < l then Inl (EMsg ''pgz: bad composite field length'')
        else Inr (oid, Some (take (nat l) raw), drop (nat l) raw))"

text \<open>The header of an array: \<open>None\<close> is an array without dimensions.\<close>

definition array1_header :: "bytes \<Rightarrow> err + (nat \<times> bytes) option" where
  "array1_header raw =
     (if length raw < 12 then Inl (EMsg ''pgz: array header truncated'')
      else let ndim = int32_of (be_get (take 4 raw)); raw = drop 12 raw in
        if ndim = 0 then Inr None
        else if ndim \<noteq> 1 then Inl (EMsg ''pgz: expected 1-dim array'')
        else if length raw < 8 then Inl (EMsg ''pgz: array dim header truncated'')
        else let dimLen = int32_of (be_get (take 4 raw)) in
          if dimLen < 0 then Inl (EMsg ''pgz: negative array dim'') else Inr (Some (nat dimLen, drop 8 raw)))"

definition array2_header :: "bytes \<Rightarrow> err + (nat \<times> nat \<times> bytes) option" where
  "array2_header raw =
     (if length raw < 12 then Inl (EMsg ''pgz: array header truncated'')
      else let ndim = int32_of (be_get (take 4 raw)); raw = drop 12 raw in
        if ndim = 0 then Inr None
        else if ndim \<noteq> 2 then Inl (EMsg ''pgz: 2D target requires ndim=2 PG array'')
        else if length raw < 16 then Inl (EMsg ''pgz: 2D array dim headers truncated'')
        else let outerLen = int32_of (be_get (take 4 raw)); innerLen = int32_of (be_get (slice 8 12 raw)) in
          if outerLen < 0 \<or> innerLen < 0 then Inl (EMsg ''pgz: negative 2D dim'')
          else Inr (Some (nat outerLen, nat innerLen, drop 16 raw)))"

text \<open>The elements of a two-dimensional array come row by row.\<close>

definition in_rows :: "nat \<Rightarrow> nat \<Rightarrow> sval list \<Rightarrow> sval list" where
  "in_rows outer inner vs = map (\<lambda>i. SSlice (Some (slice (i * inner) (i * inner + inner) vs))) [0..<outer]"

lemma readArrayElem_shrinks:
  "readArrayElem raw = Inr (x, rest) \<Longrightarrow> length rest < length raw \<and> (case x of None \<Rightarrow> 0 | Some b \<Rightarrow> Suc (length b)) < length raw"
  by (auto simp: readArrayElem_def Let_def split: if_splits)

lemma readCompositeField_shrinks:
  "readCompositeField raw = Inr (oid, x, rest) \<Longrightarrow> length rest < length raw \<and> (case x of None \<Rightarrow> 0 | Some b \<Rightarrow> Suc (length b)) < length raw"
  by (auto simp: readCompositeField_def Let_def split: if_splits)

lemma array1_header_shrinks: "array1_header raw = Inr (Some (k, rest)) \<Longrightarrow> length rest < length raw"
  by (auto simp: array1_header_def Let_def split: if_splits)

lemma array2_header_shrinks: "array2_header raw = Inr (Some (k, l, rest)) \<Longrightarrow> length rest < length raw"
  by (auto simp: array2_header_def Let_def split: if_splits)

function run :: "scan_env \<Rightarrow> setter \<Rightarrow> bytes option \<Rightarrow> sval \<Rightarrow> err + setter \<times> sval"
  and array_loop :: "scan_env \<Rightarrow> gotype \<Rightarrow> setter \<Rightarrow> nat \<Rightarrow> bytes \<Rightarrow> err + setter \<times> sval list"
  and composite_loop ::
    "scan_env \<Rightarrow> (nat \<times> gotype) list \<Rightarrow> nat \<Rightarrow> nat \<Rightarrow> bytes \<Rightarrow> setter option list \<Rightarrow> sval list \<Rightarrow> err + setter option list \<times> sval list"
where
  "run E s raw old =
     (case s of
        SetBase b \<Rightarrow> (case set_base b raw old of Inl e \<Rightarrow> Inl e | Inr v \<Rightarrow> Inr (s, v))
      | SetNull inner \<Rightarrow>
          (case old of
             SStruct [v, b] \<Rightarrow>
               (if raw = None then Inr (s, SStruct [v, SBool False])
                else case run E inner raw v of
                       Inl e \<Rightarrow> Inl e
                     | Inr (inner, v) \<Rightarrow> Inr (SetNull inner, SStruct [v, SBool True]))
           | _ \<Rightarrow> Inl EPanic)
      | SetScan n oid format \<Rightarrow>
          (case (case raw of None \<Rightarrow> Some DNil | Some raw \<Rightarrow> scannerDecoderFor oid format raw) of
             None \<Rightarrow> Inl EPanic
           | Some d \<Rightarrow> (case scanm E n d old of Inl e \<Rightarrow> Inl e | Inr v \<Rightarrow> Inr (s, v)))
      | SetRange \<Rightarrow> (case set_range raw of Inl e \<Rightarrow> Inl e | Inr v \<Rightarrow> Inr (s, v))
      | SetComposite t fs cache \<Rightarrow>
          (case raw of
             None \<Rightarrow> Inr (s, zero t)
           | Some raw \<Rightarrow>
               if length raw < 4 then Inl (EMsg ''pgz: composite header truncated'')
               else let ncols = int32_of (be_get (take 4 raw)) in
                 if ncols < 0 then Inl (EMsg ''pgz: negative composite ncols'')
                 else (case old of
                         SStruct vals \<Rightarrow>
                           (case composite_loop E fs 0 (nat ncols) (drop 4 raw) cache vals of
                              Inl e \<Rightarrow> Inl e
                            | Inr (cache, vals) \<Rightarrow> Inr (SetComposite t fs cache, SStruct vals))
                       | _ \<Rightarrow> Inl EPanic))
      | SetArray1 e inner \<Rightarrow>
          (case raw of
             None \<Rightarrow> Inr (s, SSlice None)
           | Some raw \<Rightarrow>
               (case array1_header raw of
                  Inl er \<Rightarrow> Inl er
                | Inr None \<Rightarrow> Inr (s, SSlice (Some []))
                | Inr (Some (k, rest)) \<Rightarrow>
                    (case array_loop E e inner k rest of
                       Inl er \<Rightarrow> Inl er
                     | Inr (inner, vs) \<Rightarrow> Inr (SetArray1 e inner, SSlice (Some vs)))))
      | SetArray2 e inner \<Rightarrow>
          (case raw of
             None \<Rightarrow> Inr (s, SSlice None)
           | Some raw \<Rightarrow>
               (case array2_header raw of
                  Inl er \<Rightarrow> Inl er
                | Inr None \<Rightarrow> Inr (s, SSlice (Some []))
                | Inr (Some (k, l, rest)) \<Rightarrow>
                    (case array_loop E e inner (k * l) rest of
                       Inl er \<Rightarrow> Inl er
                     | Inr (inner, vs) \<Rightarrow> Inr (SetArray2 e inner, SSlice (Some (in_rows k l vs))))))
      | SetPtr e inner \<Rightarrow>
          (if raw = None then Inr (s, SPtr None)
           else case run E inner raw (zero e) of
                  Inl er \<Rightarrow> Inl er
                | Inr (inner, v) \<Rightarrow> Inr (SetPtr e inner, SPtr (Some v))))"
| "array_loop E e s k raw =
     (case k of
        0 \<Rightarrow> Inr (s, [])
      | Suc k \<Rightarrow>
          (case readArrayElem raw of
             Inl er \<Rightarrow> Inl er
           | Inr (elem, rest) \<Rightarrow>
               (case run E s elem (zero e) of
                  Inl er \<Rightarrow> Inl er
                | Inr (s, v) \<Rightarrow>
                    (case array_loop E e s k rest of
                       Inl er \<Rightarrow> Inl er
                     | Inr (s, vs) \<Rightarrow> Inr (s, v # vs)))))"
| "composite_loop E fs i k raw cache vals =
     (case k of
        0 \<Rightarrow> Inr (cache, vals)
      | Suc k \<Rightarrow>
          (case readCompositeField raw of
             Inl e \<Rightarrow> Inl e
           | Inr (oid, x, rest) \<Rightarrow>
               if length fs \<le> i then composite_loop E fs (Suc i) k rest cache vals
               else
                 (case (case cache ! i of Some s \<Rightarrow> Inr s | None \<Rightarrow> pickSetter oid 1 (snd (fs ! i))) of
                    Inl e \<Rightarrow> Inl e
                  | Inr s \<Rightarrow>
                      (case run E s x (vals ! fst (fs ! i)) of
                         Inl e \<Rightarrow> Inl e
                       | Inr (s, v) \<Rightarrow>
                           composite_loop E fs (Suc i) k rest (cache[i := Some s]) (vals[fst (fs ! i) := v])))))"
  by pat_completeness auto
termination
  by (relation "measures
      [\<lambda>x. case x of Inl (E, s, raw, old) \<Rightarrow> (case raw of None \<Rightarrow> 0 | Some b \<Rightarrow> Suc (length b))
         | Inr (Inl (E, e, s, k, raw)) \<Rightarrow> length raw | Inr (Inr (E, fs, i, k, raw, cache, vals)) \<Rightarrow> length raw,
       \<lambda>x. case x of Inl (E, s, raw, old) \<Rightarrow> size s | _ \<Rightarrow> 0]")
    (auto dest!: readArrayElem_shrinks readCompositeField_shrinks array1_header_shrinks array2_header_shrinks)

declare run.simps [simp del] array_loop.simps [simp del] composite_loop.simps [simp del]

end
