(* ===== verification/Scan.thy ===== *)
theory Scan
  imports ScanSetters Iter
begin

text \<open>
  src/pgz/scan.go, from the struct plan to the queries: which column goes to which field, the row loop
  with its inlined fast path, and \<open>ScanStruct\<close> and \<open>ScanStructBatched\<close>.  The offset of a field is the
  path to it from the outer struct.  The slice of results is a list; the slots of a batch, which the code
  reuses, are kept as they are.  A struct holds itself only through a pointer, so the set of types
  already seen, which the code passes along, never matters.
\<close>

section \<open>Fields\<close>

record fieldRef =
  fr_type :: gotype
  fr_path :: "nat list"

definition isEmbeddedFlatten :: "field_info \<Rightarrow> gotype \<Rightarrow> bool" where
  "isEmbeddedFlatten f t \<longleftrightarrow> ftag f = None \<and> anon f \<and> is_struct t \<and> t \<noteq> GTime"

text \<open>The first pass: the fields declared at this level.\<close>

definition direct_fields ::
  "(bytes \<Rightarrow> bytes) \<Rightarrow> nat list \<Rightarrow> (field_info \<times> gotype) list \<Rightarrow> (bytes \<rightharpoonup> fieldRef) \<Rightarrow> (bytes \<rightharpoonup> fieldRef)"
where
  "direct_fields low base fs out =
     fold (\<lambda>(i, f, ft) out.
        if ftag f = Some (asc ''-'') \<or> isEmbeddedFlatten f ft \<or> \<not> exported f then out
        else let key = (case ftag f of Some tag \<Rightarrow> if tag = [] then fname f else tag | None \<Rightarrow> fname f) in
          out(low key \<mapsto> \<lparr>fr_type = ft, fr_path = base @ [i]\<rparr>))
       (enumerate 0 fs) out"

text \<open>The second pass goes into the embedded structs; what is named already wins.\<close>

function walkStructFields :: "(bytes \<Rightarrow> bytes) \<Rightarrow> gotype \<Rightarrow> nat list \<Rightarrow> (bytes \<rightharpoonup> fieldRef)" where
  "walkStructFields low t base =
     fold (\<lambda>inner out. inner ++ out)
       (map (\<lambda>(i, f, ft). walkStructFields low ft (base @ [i]))
         (filter (\<lambda>(i, f, ft). isEmbeddedFlatten f ft) (enumerate 0 (fields_of t))))
       (direct_fields low base (fields_of t) Map.empty)"
  by pat_completeness auto
termination
  by (relation "measure (\<lambda>(low, t, base). gt_size t)") (auto simp: in_set_enumerate_eq dest!: nth_mem intro!: gt_size_field)

declare walkStructFields.simps [simp del]

section \<open>The struct plan\<close>

datatype inline_op =
    opFallback | opInt2BinInt16 | opInt2BinInt32 | opInt2BinInt64 | opInt4BinInt32 | opInt4BinInt64 | opInt8BinInt64
  | opFloat4BinF32 | opFloat4BinF64 | opFloat8BinF64 | opBoolBin | opStringPass | opByteCopyRaw

definition inlineOpFor :: "OID \<Rightarrow> int \<Rightarrow> gotype \<Rightarrow> inline_op" where
  "inlineOpFor oid format t =
     (if format \<noteq> 1 then opFallback
      else case under t of
        GPtr _ \<Rightarrow> opFallback
      | GSlice e \<Rightarrow>
          if under e \<noteq> uint8 then opFallback
          else if oid \<in> {OIDText, OIDVarchar, OIDBPChar, OIDName, OIDBytea, OIDJSON} then opByteCopyRaw else opFallback
      | GBool \<Rightarrow> if oid = OIDBool then opBoolBin else opFallback
      | GInt k \<Rightarrow>
          if oid = OIDInt2 then
            (case k of KInt16 \<Rightarrow> opInt2BinInt16 | KInt32 \<Rightarrow> opInt2BinInt32 | KInt64 \<Rightarrow> opInt2BinInt64 | KInt \<Rightarrow> opInt2BinInt64
             | _ \<Rightarrow> opFallback)
          else if oid \<in> {OIDInt4, OIDOID} then
            (case k of KInt32 \<Rightarrow> opInt4BinInt32 | KInt64 \<Rightarrow> opInt4BinInt64 | KInt \<Rightarrow> opInt4BinInt64 | _ \<Rightarrow> opFallback)
          else if oid = OIDInt8 then (case k of KInt64 \<Rightarrow> opInt8BinInt64 | KInt \<Rightarrow> opInt8BinInt64 | _ \<Rightarrow> opFallback)
          else opFallback
      | GFloat32 \<Rightarrow> if oid = OIDFloat4 then opFloat4BinF32 else opFallback
      | GFloat64 \<Rightarrow> if oid = OIDFloat4 then opFloat4BinF64 else if oid = OIDFloat8 then opFloat8BinF64 else opFallback
      | GString \<Rightarrow> if oid \<in> {OIDText, OIDVarchar, OIDBPChar, OIDName} then opStringPass else opFallback
      | _ \<Rightarrow> opFallback)"

datatype fieldSetter = SkipColumn | FieldSetter "nat list" setter inline_op

type_synonym structPlan = "fieldSetter list"

fun plan_columns :: "(bytes \<Rightarrow> bytes) \<Rightarrow> (bytes \<rightharpoonup> fieldRef) \<Rightarrow> Column list \<Rightarrow> err + structPlan" where
  "plan_columns low nameIdx [] = Inr []"
| "plan_columns low nameIdx (col # cols) =
     (case (case nameIdx (low (Name col)) of
              None \<Rightarrow> Inr SkipColumn
            | Some info \<Rightarrow>
                (case pickSetter (TypeOID col) (Format col) (fr_type info) of
                   Inl e \<Rightarrow> Inl e
                 | Inr s \<Rightarrow> Inr (FieldSetter (fr_path info) s (inlineOpFor (TypeOID col) (Format col) (fr_type info))))) of
        Inl e \<Rightarrow> Inl e
      | Inr fs \<Rightarrow> (case plan_columns low nameIdx cols of Inl e \<Rightarrow> Inl e | Inr sp \<Rightarrow> Inr (fs # sp)))"

text \<open>A statement without a plan is a nil pointer, which the code follows.\<close>

definition buildStructPlan :: "(bytes \<Rightarrow> bytes) \<Rightarrow> gotype \<Rightarrow> Plan option \<Rightarrow> err + structPlan" where
  "buildStructPlan low t p =
     (case p of None \<Rightarrow> Inl EPanic | Some p \<Rightarrow> plan_columns low (walkStructFields low t []) (Columns p))"

section \<open>Rows\<close>

fun at_path :: "nat list \<Rightarrow> sval \<Rightarrow> sval" where
  "at_path (i # p) (SStruct vs) = at_path p (vs ! i)"
| "at_path _ v = v"

fun put_path :: "nat list \<Rightarrow> sval \<Rightarrow> sval \<Rightarrow> sval" where
  "put_path (i # p) x (SStruct vs) = SStruct (vs[i := put_path p x (vs ! i)])"
| "put_path _ x v = x"

text \<open>The inlined cases; \<open>None\<close> falls through to the setter.\<close>

definition inline_value :: "inline_op \<Rightarrow> bytes \<Rightarrow> sval option" where
  "inline_value op1 raw =
     (let fixed = (\<lambda>n v. if length raw = n then Some v else None) in
      case op1 of
        opFallback \<Rightarrow> None
      | opInt4BinInt32 \<Rightarrow> fixed 4 (SInt (int32_of (be_get raw)))
      | opInt4BinInt64 \<Rightarrow> fixed 4 (SInt (int32_of (be_get raw)))
      | opInt8BinInt64 \<Rightarrow> fixed 8 (SInt (int64_of (be_get raw)))
      | opInt2BinInt16 \<Rightarrow> fixed 2 (SInt (int16_of (be_get raw)))
      | opInt2BinInt32 \<Rightarrow> fixed 2 (SInt (int16_of (be_get raw)))
      | opInt2BinInt64 \<Rightarrow> fixed 2 (SInt (int16_of (be_get raw)))
      | opFloat8BinF64 \<Rightarrow> fixed 8 (SF64 (be_get raw))
      | opFloat4BinF32 \<Rightarrow> fixed 4 (SF32 (be_get raw))
      | opFloat4BinF64 \<Rightarrow> fixed 4 (SF64 (float64_of_float32 (be_get raw)))
      | opBoolBin \<Rightarrow> fixed 1 (SBool (raw ! 0 \<noteq> 0))
      | opStringPass \<Rightarrow> Some (SString raw)
      | opByteCopyRaw \<Rightarrow> Some (SBytes (Some raw)))"

definition scan_cell :: "scan_env \<Rightarrow> fieldSetter \<Rightarrow> bytes option \<Rightarrow> sval \<Rightarrow> err + fieldSetter \<times> sval" where
  "scan_cell E fs raw row =
     (case fs of
        SkipColumn \<Rightarrow> Inr (fs, row)
      | FieldSetter p s op1 \<Rightarrow>
          (case (case raw of None \<Rightarrow> None | Some raw \<Rightarrow> inline_value op1 raw) of
             Some v \<Rightarrow> Inr (fs, put_path p v row)
           | None \<Rightarrow>
               (case run E s raw (at_path p row) of
                  Inl e \<Rightarrow> Inl e
                | Inr (s, v) \<Rightarrow> Inr (FieldSetter p s op1, put_path p v row))))"

text \<open>One column of a DataRow and the rest.\<close>

definition readColumn :: "bytes \<Rightarrow> err + bytes option \<times> bytes" where
  "readColumn body =
     (if length body < 4 then Inl (EMsg ''pgz: short column header'')
      else let l = int32_of (be_get (take 4 body)); body = drop 4 body in
        if l = - 1 then Inr (None, body)
        else if l < 0 \<or> int (length body) < l then Inl (EMsg ''pgz: bad column length'')
        else Inr (Some (take (nat l) body), drop (nat l) body))"

fun scan_cells :: "scan_env \<Rightarrow> structPlan \<Rightarrow> bytes \<Rightarrow> sval \<Rightarrow> err + structPlan \<times> sval" where
  "scan_cells E [] body row = Inr ([], row)"
| "scan_cells E (fs # sp) body row =
     (case readColumn body of
        Inl e \<Rightarrow> Inl e
      | Inr (raw, body) \<Rightarrow>
          (case scan_cell E fs raw row of
             Inl e \<Rightarrow> Inl e
           | Inr (fs, row) \<Rightarrow>
               (case scan_cells E sp body row of Inl e \<Rightarrow> Inl e | Inr (sp, row) \<Rightarrow> Inr (fs # sp, row))))"

definition fillStructRow :: "scan_env \<Rightarrow> structPlan \<Rightarrow> bytes \<Rightarrow> sval \<Rightarrow> err + structPlan \<times> sval" where
  "fillStructRow E sp body row =
     (if length body < 2 then Inl (EMsg ''pgz: short DataRow'')
      else if int16_of (be_get (take 2 body)) \<noteq> int (length sp) then Inl (EMsg ''pgz: column count mismatch'')
      else scan_cells E sp (drop 2 body) row)"

section \<open>ScanStruct\<close>

record scan_locals =
  sl_plan :: structPlan
  sl_rows :: "sval list"
  sl_err :: "pg_error option"

text \<open>A new plan is stored in the statement, which the cache shares, and the struct plan is built anew.\<close>

definition new_struct_plan ::
  "(bytes \<Rightarrow> bytes) \<Rightarrow> gotype \<Rightarrow> preparedStmt \<Rightarrow> bytes \<Rightarrow> Client \<Rightarrow> Client \<times> (err + structPlan)"
where
  "new_struct_plan low t st body c =
     (case ParseRowDescriptionForFormats body (resultFmts st) of
        Inl e \<Rightarrow> (c, Inl (EPlan e))
      | Inr p \<Rightarrow> (c\<lparr>stmts := sc_set_plan (name st) p (stmts c)\<rparr>, buildStructPlan low t (Some p)))"

definition scan_turn ::
  "scan_env \<Rightarrow> gotype \<Rightarrow> preparedStmt \<Rightarrow> byte \<Rightarrow> bytes \<Rightarrow> scan_locals \<Rightarrow> Client \<Rightarrow>
   Client \<times> (scan_locals + (err + sval list))"
where
  "scan_turn E t st ty body l c =
     (if ty = MsgBindComplete then (c, Inl l)
      else if ty = MsgDataRow then
        (case fillStructRow E (sl_plan l) body (zero t) of
           Inl e \<Rightarrow> (c, Inr (Inl e))
         | Inr (sp, row) \<Rightarrow> (c, Inl (l\<lparr>sl_plan := sp, sl_rows := sl_rows l @ [row]\<rparr>)))
      else if ty = MsgCommandComplete \<or> ty = MsgEmptyQueryResponse \<or> ty = MsgPortalSuspended \<or> ty = MsgCloseComplete
      then (c, Inl l)
      else if ty = MsgRowDescription then
        (case new_struct_plan (lower E) t st body c of
           (c, Inl e) \<Rightarrow> (c, Inr (Inl e))
         | (c, Inr sp) \<Rightarrow> (c, Inl (l\<lparr>sl_plan := sp\<rparr>)))
      else if ty = MsgNoticeResponse then (on_notice body c, Inl l)
      else if ty = MsgParameterStatus then (on_parameter body c, Inl l)
      else if ty = MsgErrorResponse then (c, Inl (l\<lparr>sl_err := Some (Parse body)\<rparr>))
      else if ty = MsgReadyForQuery then
        (let c = c\<lparr>lastRows := int (length (sl_rows l))\<rparr> in
         case sl_err l of Some pe \<Rightarrow> (c, Inr (Inl (EPg pe))) | None \<Rightarrow> (c, Inr (Inr (sl_rows l))))
      else (c, Inr (Inl (EUnexpected ty))))"

text \<open>Bind, Execute and Sync, as both scan loops send them.\<close>

definition send_scan :: "preparedStmt \<Rightarrow> goval list \<Rightarrow> Client \<Rightarrow> Client \<times> err option" where
  "send_scan st vals c =
     (case begin_bind st vals c of
        (c, bd, Some e) \<Rightarrow> (c, Some e)
      | (c, bd, None) \<Rightarrow>
          flush_wire (put_sync (put_execute (c\<lparr>wr := Finish bd (write_result_formats (resultFmts st) (wr c))\<rparr>))))"

definition bindExecuteScan ::
  "scan_env \<Rightarrow> gotype \<Rightarrow> preparedStmt \<Rightarrow> goval list \<Rightarrow> structPlan \<Rightarrow> Client \<Rightarrow> Client \<times> (err + sval list)"
where
  "bindExecuteScan E t st vals sp c =
     (case send_scan st vals c of
        (c, Some e) \<Rightarrow> (c, Inl e)
      | (c, None) \<Rightarrow>
          msg_loop (scan_turn E t st) (\<lambda>e l c. (c, Inl (EWire e))) \<lparr>sl_plan = sp, sl_rows = [], sl_err = None\<rparr> c)"

fun scan_loop :: "nat \<Rightarrow> scan_env \<Rightarrow> gotype \<Rightarrow> bytes \<Rightarrow> goval list \<Rightarrow> Client \<Rightarrow> Client \<times> (err + sval list)" where
  "scan_loop 0 E t sql vals c = (c, Inl EPanic)"
| "scan_loop (Suc n) E t sql vals c =
     (case obtain_stmt prepareAndDescribe sql c of
        (c, Inl e) \<Rightarrow> (c, Inl e)
      | (c, Inr (fromCache, st)) \<Rightarrow>
          (case buildStructPlan (lower E) t (plan st) of
             Inl e \<Rightarrow> (c, Inl e)
           | Inr sp \<Rightarrow>
               (case bindExecuteScan E t st vals sp c of
                  (c, Inr rows) \<Rightarrow> (c, Inr rows)
                | (c, Inl e) \<Rightarrow>
                    if n = 1 \<and> fromCache \<and> isStaleStmtError e
                    then scan_loop n E t sql vals (c\<lparr>stmts := sc_invalidate sql (stmts c)\<rparr>)
                    else (c, Inl e))))"

definition ScanStruct :: "scan_env \<Rightarrow> gotype \<Rightarrow> ctx \<Rightarrow> bytes \<Rightarrow> goval list \<Rightarrow> Client \<Rightarrow> Client \<times> (err + sval list)" where
  "ScanStruct E t x sql vals c =
     (case rejectNonSelect sql of
        Some e \<Rightarrow> (c, Inl e)
      | None \<Rightarrow>
          (case attachContext x of
             (_, Some e) \<Rightarrow> (c, Inl e)
           | (_, None) \<Rightarrow>
               if \<not> is_struct t then (c, Inl (EMsg ''pgz: ScanStruct[T] requires T to be a struct''))
               else scan_loop 2 E t sql vals c))"

section \<open>ScanStructBatched\<close>

text \<open>The callback gets a batch and the caller's state and may fail.\<close>

record 'u batch_locals =
  bl_plan :: structPlan
  slots :: "sval list"
  filled :: nat
  totalRows :: nat
  cbErr :: "err option"
  bl_err :: "pg_error option"
  bl_user :: 'u

definition clearBatchSlots :: "gotype \<Rightarrow> nat \<Rightarrow> sval list \<Rightarrow> sval list" where
  "clearBatchSlots t n vs = replicate n (zero t) @ drop n vs"

definition flush_batch ::
  "gotype \<Rightarrow> (sval list \<Rightarrow> 'u \<Rightarrow> 'u \<times> err option) \<Rightarrow> 'u batch_locals \<Rightarrow> 'u batch_locals \<times> err option"
where
  "flush_batch t cb l =
     (if filled l = 0 then (l, None)
      else case cb (take (filled l) (slots l)) (bl_user l) of
             (u, Some e) \<Rightarrow> (l\<lparr>bl_user := u\<rparr>, Some e)
           | (u, None) \<Rightarrow> (l\<lparr>bl_user := u, slots := clearBatchSlots t (filled l) (slots l), filled := 0\<rparr>, None))"

definition batch_turn ::
  "scan_env \<Rightarrow> gotype \<Rightarrow> preparedStmt \<Rightarrow> nat \<Rightarrow> (sval list \<Rightarrow> 'u \<Rightarrow> 'u \<times> err option) \<Rightarrow> byte \<Rightarrow> bytes \<Rightarrow>
   'u batch_locals \<Rightarrow> Client \<Rightarrow> Client \<times> ('u batch_locals + 'u \<times> err option)"
where
  "batch_turn E t st batchSize cb ty body l c =
     (if ty = MsgBindComplete then (c, Inl l)
      else if ty = MsgDataRow then
        (if cbErr l \<noteq> None then (c, Inl l)
         else case fillStructRow E (bl_plan l) body (slots l ! filled l) of
           Inl e \<Rightarrow> (c, Inr (bl_user l, Some e))
         | Inr (sp, row) \<Rightarrow>
             let l = l\<lparr>bl_plan := sp, slots := (slots l)[filled l := row], filled := filled l + 1, totalRows := totalRows l + 1\<rparr> in
             if filled l \<noteq> batchSize then (c, Inl l)
             else (case flush_batch t cb l of
                     (l, None) \<Rightarrow> (c, Inl l)
                   | (l, Some e) \<Rightarrow> (fst (SendCancel c), Inl (l\<lparr>cbErr := Some e\<rparr>))))
      else if ty = MsgCommandComplete \<or> ty = MsgEmptyQueryResponse \<or> ty = MsgPortalSuspended \<or> ty = MsgCloseComplete
      then (c, Inl l)
      else if ty = MsgRowDescription then
        (case new_struct_plan (lower E) t st body c of
           (c, Inl e) \<Rightarrow> (c, Inr (bl_user l, Some e))
         | (c, Inr sp) \<Rightarrow> (c, Inl (l\<lparr>bl_plan := sp\<rparr>)))
      else if ty = MsgNoticeResponse then (on_notice body c, Inl l)
      else if ty = MsgParameterStatus then (on_parameter body c, Inl l)
      else if ty = MsgErrorResponse then (c, Inl (l\<lparr>bl_err := Some (Parse body)\<rparr>))
      else if ty = MsgReadyForQuery then
        (let c = c\<lparr>lastRows := int (totalRows l)\<rparr> in
         case cbErr l of
           Some e \<Rightarrow> (c, Inr (bl_user l, Some e))
         | None \<Rightarrow>
             (case bl_err l of
                Some pe \<Rightarrow> (c, Inr (bl_user l, Some (EPg pe)))
              | None \<Rightarrow> (case flush_batch t cb l of (l, e) \<Rightarrow> (c, Inr (bl_user l, e)))))
      else (c, Inr (bl_user l, Some (EUnexpected ty))))"

definition bindExecuteScanBatched ::
  "scan_env \<Rightarrow> gotype \<Rightarrow> preparedStmt \<Rightarrow> goval list \<Rightarrow> structPlan \<Rightarrow> nat \<Rightarrow> (sval list \<Rightarrow> 'u \<Rightarrow> 'u \<times> err option) \<Rightarrow> 'u \<Rightarrow>
   Client \<Rightarrow> Client \<times> 'u \<times> err option"
where
  "bindExecuteScanBatched E t st vals sp batchSize cb u c =
     (case send_scan st vals c of
        (c, Some e) \<Rightarrow> (c, u, Some e)
      | (c, None) \<Rightarrow>
          msg_loop (batch_turn E t st batchSize cb) (\<lambda>e l c. (c, bl_user l, Some (EWire e)))
            \<lparr>bl_plan = sp, slots = replicate batchSize (zero t), filled = 0, totalRows = 0, cbErr = None, bl_err = None, bl_user = u\<rparr> c)"

fun batched_loop ::
  "nat \<Rightarrow> scan_env \<Rightarrow> gotype \<Rightarrow> nat \<Rightarrow> (sval list \<Rightarrow> 'u \<Rightarrow> 'u \<times> err option) \<Rightarrow> bytes \<Rightarrow> goval list \<Rightarrow> 'u \<Rightarrow> Client \<Rightarrow>
   Client \<times> 'u \<times> err option"
where
  "batched_loop 0 E t bs cb sql vals u c = (c, u, None)"
| "batched_loop (Suc n) E t bs cb sql vals u c =
     (case obtain_stmt prepareAndDescribe sql c of
        (c, Inl e) \<Rightarrow> (c, u, Some e)
      | (c, Inr (fromCache, st)) \<Rightarrow>
          (case buildStructPlan (lower E) t (plan st) of
             Inl e \<Rightarrow> (c, u, Some e)
           | Inr sp \<Rightarrow>
               (case bindExecuteScanBatched E t st vals sp bs cb u c of
                  (c, u, None) \<Rightarrow> (c, u, None)
                | (c, u, Some e) \<Rightarrow>
                    if n = 1 \<and> fromCache \<and> isStaleStmtError e
                    then batched_loop n E t bs cb sql vals u (c\<lparr>stmts := sc_invalidate sql (stmts c)\<rparr>)
                    else (c, u, Some e))))"

definition ScanStructBatched ::
  "scan_env \<Rightarrow> gotype \<Rightarrow> ctx \<Rightarrow> int \<Rightarrow> (sval list \<Rightarrow> 'u \<Rightarrow> 'u \<times> err option) option \<Rightarrow> bytes \<Rightarrow> goval list \<Rightarrow> 'u \<Rightarrow> Client \<Rightarrow>
   Client \<times> 'u \<times> err option"
where
  "ScanStructBatched E t x batchSize cb sql vals u c =
     (if batchSize \<le> 0 then (c, u, Some (EMsg ''pgz: ScanStructBatched requires batchSize > 0''))
      else case cb of
        None \<Rightarrow> (c, u, Some (EMsg ''pgz: ScanStructBatched requires a non-nil callback''))
      | Some cb \<Rightarrow>
          (case rejectNonSelect sql of
             Some e \<Rightarrow> (c, u, Some e)
           | None \<Rightarrow>
               (case attachContext x of
                  (_, Some e) \<Rightarrow> (c, u, Some e)
                | (_, None) \<Rightarrow>
                    if \<not> is_struct t then (c, u, Some (EMsg ''pgz: ScanStructBatched[T] requires T to be a struct''))
                    else batched_loop 2 E t (nat batchSize) cb sql vals u c)))"

end
