(* ===== verification/ScanTyped.thy ===== *)
theory ScanTyped
  imports Scan
begin

text \<open>
  Memory safety of scanning.  The code writes through untyped pointers: every setter must write a value
  of the type of its field.  \<open>setter_ok\<close> says which type a setter writes, \<open>pickSetter\<close> only picks setters
  for the type it was asked for, running one keeps the type, and so every row handed to the caller is
  a value of the row type.
\<close>

section \<open>Setters and types\<close>

fun base_ok :: "base_setter \<Rightarrow> gotype \<Rightarrow> bool" where
  "base_ok SetBool t \<longleftrightarrow> under t = GBool"
| "base_ok (SetInt width k) t \<longleftrightarrow> under t = GInt k"
| "base_ok (SetFloat4 wide) t \<longleftrightarrow> under t = (if wide then GFloat64 else GFloat32)"
| "base_ok SetFloat8 t \<longleftrightarrow> under t = GFloat64"
| "base_ok SetString t \<longleftrightarrow> under t = GString"
| "base_ok (SetBytes v) t \<longleftrightarrow> byte_slice t"
| "base_ok SetUUID16 t \<longleftrightarrow> (\<exists>e. under t = GArray 16 e \<and> under e = uint8)"
| "base_ok SetUUIDString t \<longleftrightarrow> under t = GString"
| "base_ok SetJSONBString t \<longleftrightarrow> under t = GString"
| "base_ok SetDate t \<longleftrightarrow> t = GTime"
| "base_ok SetTimestamp t \<longleftrightarrow> t = GTime"

inductive setter_ok :: "setter \<Rightarrow> gotype \<Rightarrow> bool" where
  "base_ok b t \<Longrightarrow> setter_ok (SetBase b) t"
| "setter_ok s (null_value k) \<Longrightarrow> setter_ok (SetNull s) (GNull k)"
| "setter_ok (SetScan n oid format) (GScanner n t)"
| "setter_ok SetRange GRange"
| "fields_of t \<noteq> [] \<Longrightarrow> fs = goFields t \<Longrightarrow> list_all2 (\<lambda>s f. \<forall>x. s = Some x \<longrightarrow> setter_ok x (snd f)) cache fs \<Longrightarrow>
   setter_ok (SetComposite t fs cache) t"
| "under t = GSlice e \<Longrightarrow> under e \<noteq> uint8 \<Longrightarrow> setter_ok s e \<Longrightarrow> setter_ok (SetArray1 e s) t"
| "under t = GSlice t' \<Longrightarrow> under t' = GSlice e \<Longrightarrow> under e \<noteq> uint8 \<Longrightarrow> setter_ok s e \<Longrightarrow> setter_ok (SetArray2 e s) t"
| "under t = GPtr e \<Longrightarrow> setter_ok s e \<Longrightarrow> setter_ok (SetPtr e s) t"

inductive_cases setter_ok_elims [elim!]:
  "setter_ok (SetBase b) t" "setter_ok (SetNull s) t" "setter_ok (SetScan n oid format) t" "setter_ok SetRange t"
  "setter_ok (SetComposite u fs cache) t" "setter_ok (SetArray1 e s) t" "setter_ok (SetArray2 e s) t" "setter_ok (SetPtr e s) t"

text \<open>A \<open>Scan\<close> method leaves a value of its receiver's type.\<close>

definition scans_typed :: "scan_env \<Rightarrow> bool" where
  "scans_typed E \<longleftrightarrow>
     (\<forall>n d v v' t. scanm E n d v = Inr v' \<longrightarrow> has_type (GScanner n t) v \<longrightarrow> has_type (GScanner n t) v')"

section \<open>Picking\<close>

lemma pickBinarySetter_ok: "pickBinarySetter oid t = Inr b \<Longrightarrow> base_ok b t"
  by (auto simp: pickBinarySetter_def or_else_def intSetter_def split: if_splits option.splits gotype.splits)

lemma pickTextSetter_ok: "pickTextSetter oid t = Inr b \<Longrightarrow> base_ok b t"
  by (auto simp: pickTextSetter_def split: if_splits)

lemma pickCompositeSetter_ok: "pickCompositeSetter format t = Some s \<Longrightarrow> setter_ok s t"
  by (auto simp: pickCompositeSetter_def goFields_def list_all2_conv_all_nth split: if_splits intro!: setter_ok.intros)

lemma nest_slices:
  assumes "nest t = (d, leaf)" "under leaf = GSlice e" "slice_elem t \<noteq> None" "\<not> byte_slice t"
  shows "under e \<noteq> uint8 \<and> (d = 0 \<longrightarrow> leaf = t) \<and> (d = 1 \<longrightarrow> under t = GSlice leaf)"
  using assms
proof (induction t arbitrary: d rule: nest.induct)
  case (1 t)
  obtain f where f: "under t = GSlice f" "under f \<noteq> uint8"
    using 1(4,5) by (auto simp: slice_elem_def byte_slice_def split: gotype.splits)
  show ?case
  proof (cases "\<exists>e'. under f = GSlice e' \<and> under e' \<noteq> uint8")
    case True
    then obtain e' where e': "under f = GSlice e'" "under e' \<noteq> uint8" by blast
    then obtain d' where d': "nest f = (d', leaf)" "d = Suc d'" using 1(2) f(1) by (auto simp: nest.simps [of t] split: prod.splits)
    have "under e \<noteq> uint8 \<and> (d' = 0 \<longrightarrow> leaf = f)"
      using 1(1) [OF f(1) e' d'(1) 1(3)] e' by (auto simp: slice_elem_def byte_slice_def)
    then show ?thesis using d'(2) f(1) by auto
  next
    case False
    then have "d = 0 \<and> leaf = t" using 1(2) f(1) by (auto simp: nest.simps [of t] split: gotype.splits if_splits)
    then show ?thesis using f 1(3) by simp
  qed
qed

text \<open>The dispatch of \<open>pickSetter\<close> outside null types and scanners.\<close>

definition plain_setter :: "OID \<Rightarrow> int \<Rightarrow> gotype \<Rightarrow> err + setter" where
  "plain_setter oid format t =
     (case (if format = 1 then pickBinarySetter oid t else pickTextSetter oid t) of
        Inl e \<Rightarrow> Inl e | Inr b \<Rightarrow> Inr (SetBase b))"

definition is_scanner :: "gotype \<Rightarrow> bool" where
  "is_scanner t \<longleftrightarrow> (case t of GScanner _ _ \<Rightarrow> True | _ \<Rightarrow> False)"

definition is_null :: "gotype \<Rightarrow> bool" where
  "is_null t \<longleftrightarrow> (case t of GNull _ \<Rightarrow> True | _ \<Rightarrow> False)"

lemma plain_setter_ok: "plain_setter oid format t = Inr s \<Longrightarrow> setter_ok s t"
  by (auto simp: plain_setter_def split: sum.splits if_splits intro!: setter_ok.intros dest: pickBinarySetter_ok pickTextSetter_ok)

lemma pickSetter_null:
  "pickSetter oid format (GNull k) =
     (case pickSetter oid format (null_value k) of Inr s \<Rightarrow> Inr (SetNull s) | Inl e \<Rightarrow> plain_setter oid format (GNull k))"
  by (subst pickSetter.simps) (simp only: plain_setter_def Let_def gotype.case)

lemma pickSetter_scanner: "pickSetter oid format (GScanner n u) = Inr (SetScan n oid format)"
  by (subst pickSetter.simps) simp

lemma pickSetter_other:
  assumes "\<not> is_scanner t" "\<not> is_null t"
  shows "pickSetter oid format t =
     (if format = 1 \<and> IsRange oid \<and> t = GRange then Inr SetRange
      else case pickCompositeSetter format t of
        Some s \<Rightarrow> Inr s
      | None \<Rightarrow>
          if ArrayElem oid \<noteq> 0 \<and> slice_elem t \<noteq> None \<and> \<not> byte_slice t then
            (if format \<noteq> 1 then Inl (EMsg ''pgz: array scan requires binary format'')
             else case nest t of (d, leaf) \<Rightarrow>
               (case slice_elem leaf of
                  None \<Rightarrow> Inl (EMsg ''pgz: array target must be a slice'')
                | Some scalar \<Rightarrow>
                    if 2 < Suc d then Inl (EMsg ''pgz: multi-dim arrays with Go depth > 2 not supported'')
                    else (case pickSetter (ArrayElem oid) 1 scalar of
                            Inl e \<Rightarrow> Inl e
                          | Inr s \<Rightarrow> Inr (if d = 0 then SetArray1 scalar s else SetArray2 scalar s))))
          else (case under t of
                  GPtr e \<Rightarrow> (case pickSetter oid format e of Inl er \<Rightarrow> Inl er | Inr s \<Rightarrow> Inr (SetPtr e s))
                | _ \<Rightarrow> plain_setter oid format t))"
  using assms
  by (subst pickSetter.simps) (cases t; simp only: is_scanner_def is_null_def gotype.case Let_def plain_setter_def refl not_True_eq_False)

lemma pickSetter_ok: "pickSetter oid format t = Inr s \<Longrightarrow> setter_ok s t"
proof (induction "gt_size t" arbitrary: oid format t s rule: less_induct)
  case less
  consider (null) k where "t = GNull k" | (scan) n u where "t = GScanner n u" | (other) "\<not> is_scanner t" "\<not> is_null t"
    by (cases t) (auto simp: is_scanner_def is_null_def)
  then show ?case
  proof cases
    case null
    then show ?thesis
      using less.prems less.hyps [of "null_value k"]
      by (auto simp: pickSetter_null split: sum.splits intro: setter_ok.intros plain_setter_ok)
  next
    case scan
    then show ?thesis using less.prems by (auto simp: pickSetter_scanner intro: setter_ok.intros)
  next
    case other
    note eq = pickSetter_other [OF other, of oid format]
    consider (range) "s = SetRange" "t = GRange" | (composite) "pickCompositeSetter format t = Some s"
      | (array) d leaf e s' where "slice_elem t \<noteq> None" "\<not> byte_slice t" "nest t = (d, leaf)" "under leaf = GSlice e" "d \<le> 1"
          "pickSetter (ArrayElem oid) 1 e = Inr s'" "s = (if d = 0 then SetArray1 e s' else SetArray2 e s')"
      | (ptr) e s' where "under t = GPtr e" "pickSetter oid format e = Inr s'" "s = SetPtr e s'"
      | (plain) "plain_setter oid format t = Inr s"
    proof (cases "format = 1 \<and> IsRange oid \<and> t = GRange")
      case True
      then show ?thesis using less.prems range eq by simp
    next
      case range: False
      show ?thesis
      proof (cases "pickCompositeSetter format t")
        case (Some s)
        then show ?thesis using less.prems composite eq range by simp
      next
        case composite: None
        show ?thesis
        proof (cases "ArrayElem oid \<noteq> 0 \<and> slice_elem t \<noteq> None \<and> \<not> byte_slice t")
          case True
          obtain d leaf where n: "nest t = (d, leaf)" by fastforce
          show ?thesis
          proof (cases "slice_elem leaf")
            case None
            then show ?thesis using less.prems eq range composite True n by (simp split: if_splits)
          next
            case (Some e)
            then have "under leaf = GSlice e" by (simp add: slice_elem_def split: gotype.splits)
            moreover obtain s' where "pickSetter (ArrayElem oid) 1 e = Inr s'" "d \<le> 1" "s = (if d = 0 then SetArray1 e s' else SetArray2 e s')"
              using less.prems eq range composite True n Some by (simp split: if_splits sum.splits)
            ultimately show ?thesis using array True n by blast
          qed
        next
          case False
          have "s = s \<and> (case under t of
                  GPtr e \<Rightarrow> (case pickSetter oid format e of Inl er \<Rightarrow> Inl er | Inr s \<Rightarrow> Inr (SetPtr e s))
                | _ \<Rightarrow> plain_setter oid format t) = Inr s"
            using less.prems unfolding eq if_not_P [OF range] composite option.case if_not_P [OF False] by (rule conjI [OF refl])
          then show ?thesis using ptr plain by (cases "under t") (auto split: sum.splits)
        qed
      qed
    qed
    then show ?thesis
    proof cases
      case array
      then have sc: "under e \<noteq> uint8" "d = 0 \<longrightarrow> leaf = t" "d = 1 \<longrightarrow> under t = GSlice leaf"
        using nest_slices [OF array(3,4,1,2)] by auto
      have "gt_size e < gt_size t" using gt_size_nest [OF array(3)] gt_size_slice [OF array(4)] by simp
      then have "setter_ok s' e" using less.hyps array(6) by blast
      then show ?thesis using array(4,5,7) sc by (cases "d = 0") (auto intro: setter_ok.intros)
    next
      case ptr
      then show ?thesis using less.hyps [OF gt_size_ptr [OF ptr(1)] ptr(2)] by (auto intro: setter_ok.intros)
    qed (auto intro: setter_ok.intros pickCompositeSetter_ok plain_setter_ok)
  qed
qed

section \<open>Scalars\<close>

lemma top_bit_bounds: "0 < n \<Longrightarrow> 2 ^ top_bit n \<le> n \<and> n < 2 * 2 ^ top_bit n"
proof (induction n rule: top_bit.induct)
  case (1 n)
  show ?case
  proof (cases "n < 2")
    case True
    then show ?thesis using 1(2) by (simp add: top_bit.simps [of n])
  next
    case False
    then have "2 ^ top_bit (n div 2) \<le> n div 2 \<and> n div 2 < 2 * 2 ^ top_bit (n div 2)" using 1(1) by simp
    then show ?thesis using False by (simp add: top_bit.simps [of n]) linarith
  qed
qed

lemma float64_of_float32_range: "0 \<le> float64_of_float32 b \<and> float64_of_float32 b < 2 ^ 64"
proof -
  define s e m where d: "s = b div 2 ^ 31 mod 2" "e = b div 2 ^ 23 mod 2 ^ 8" "m = b mod 2 ^ 23"
  define k where k: "k = top_bit (nat m)"
  have r: "0 \<le> s" "s \<le> 1" "0 \<le> e" "e < 256" "0 \<le> m" "m < 2 ^ 23" unfolding d by simp_all
  define x where "x = (if e = 255 then 2047 * 2 ^ 52 + (if m = 0 then 0 else 2 ^ 51 + m mod 2 ^ 22 * 2 ^ 29)
       else if e = 0 then (if m = 0 then 0 else (int k + 874) * 2 ^ 52 + (m - 2 ^ k) * 2 ^ (52 - k))
       else (e + 896) * 2 ^ 52 + m * 2 ^ 29)"
  have "0 \<le> x \<and> x < 2 ^ 63"
  proof (cases "e = 0 \<and> m \<noteq> 0")
    case True
    then have "2 ^ k \<le> nat m \<and> nat m < 2 * 2 ^ k" unfolding k using r by (intro top_bit_bounds) simp
    then have mk: "2 ^ k \<le> m" "m < 2 * 2 ^ k" using r by (auto simp: nat_le_iff nat_less_iff le_nat_iff)
    have "(2 :: int) ^ k < 2 ^ 23" using mk r by linarith
    then have k23: "k < 23" by (rule power_less_imp_less_exp [rotated]) simp
    have "(m - 2 ^ k) * 2 ^ (52 - k) < 2 ^ k * 2 ^ (52 - k)" using mk by (intro mult_strict_right_mono) auto
    also have "(2 :: int) ^ k * 2 ^ (52 - k) = 2 ^ 52" using k23 by (simp flip: power_add)
    finally have "(m - 2 ^ k) * 2 ^ (52 - k) < 2 ^ 52" .
    moreover have "0 \<le> (m - 2 ^ k) * 2 ^ (52 - k)" using mk by simp
    ultimately show ?thesis using True k23 by (simp add: x_def)
  next
    case False
    have "m mod 2 ^ 22 < 2 ^ 22" "0 \<le> m mod 2 ^ 22" by simp_all
    then show ?thesis using False r by (auto simp: x_def)
  qed
  moreover have "float64_of_float32 b = s * 2 ^ 63 + x"
    by (simp only: float64_of_float32_def Let_def x_def d k)
  ultimately show ?thesis using r by (cases "s = 0") auto
qed

lemma wire_int_range: "- (2 ^ 63) \<le> wire_int w raw" "wire_int w raw < 2 ^ 63"
  using int16_of_range [of "be_get raw"] int32_of_range [of "be_get raw"] int64_of_range [of "be_get raw"]
  by (auto simp: wire_int_def)

lemma be_get_4: "length raw = 4 \<Longrightarrow> be_get raw < 2 ^ 32" and be_get_8: "length raw = 8 \<Longrightarrow> be_get raw < 2 ^ 64"
  using be_get_less [of raw] by simp_all

lemma has_type_bytes: "byte_slice t \<Longrightarrow> has_type (under t) (SBytes x)"
  by (auto simp: byte_slice_def split: gotype.splits)

lemma has_type_byte: "under e = uint8 \<Longrightarrow> has_type e (SInt (uint (b :: byte)))"
  using uint_lt2p [of b] unfolding has_type_under [symmetric, of e] by (simp add: in_kind_def)

lemma set_raw_typed: "base_ok b t \<Longrightarrow> set_raw b raw = Inr (Some v) \<Longrightarrow> has_type t v"
  unfolding has_type_under [symmetric, of t]
  using in_kind_conv [OF wire_int_range] float64_of_float32_range [of "be_get raw"] be_get_4 [of raw] be_get_8 [of raw]
  by (cases b) (auto simp: set_raw_def Let_def list_all_iff has_type_byte has_type_bytes split: if_splits)

lemma set_null_typed: "base_ok b t \<Longrightarrow> set_null b = Some v \<Longrightarrow> has_type t v"
  unfolding has_type_under [symmetric, of t]
  by (cases b) (auto simp: set_null_def has_type_bytes)

lemma set_base_typed: "base_ok b t \<Longrightarrow> has_type t old \<Longrightarrow> set_base b raw old = Inr v \<Longrightarrow> has_type t v"
  by (auto simp: set_base_def set_raw_typed set_null_typed split: option.splits sum.splits)

lemma set_range_typed: "set_range raw = Inr v \<Longrightarrow> has_type GRange v"
proof -
  have f: "in_kind KUint8 (uint b)" for b :: byte using uint_lt2p [of b] by (simp add: in_kind_def)
  show "set_range raw = Inr v \<Longrightarrow> ?thesis"
    using has_type_zero [of GRange] f
    by (auto simp: set_range_def RangeBytes_def plain_field_def Let_def split: option.splits list.splits if_splits sum.splits prod.splits)
qed

section \<open>Running\<close>

lemma goFields_at: "f \<in> set (goFields t) \<Longrightarrow> fst f < length (fields_of t) \<and> snd f = snd (fields_of t ! fst f)"
  by (auto simp: goFields_def in_set_enumerate_eq)

definition cache_ok :: "setter option list \<Rightarrow> (nat \<times> gotype) list \<Rightarrow> bool" where
  "cache_ok cache fs \<longleftrightarrow> list_all2 (\<lambda>s f. \<forall>x. s = Some x \<longrightarrow> setter_ok x (snd f)) cache fs"

definition fields_ok :: "(nat \<times> gotype) list \<Rightarrow> gotype list \<Rightarrow> bool" where
  "fields_ok fs ts \<longleftrightarrow> (\<forall>f\<in>set fs. fst f < length ts \<and> ts ! fst f = snd f)"

lemma setter_ok_composite: "setter_ok (SetComposite u fs cache) t \<longleftrightarrow> u = t \<and> fields_of t \<noteq> [] \<and> fs = goFields t \<and> cache_ok cache fs"
  by (auto simp: cache_ok_def intro: setter_ok.intros)

lemma fields_ok_goFields: "fields_ok (goFields t) (map snd (fields_of t))"
  by (auto simp: fields_ok_def dest!: goFields_at)

lemmas run_eqs =
  run.simps [of E "SetBase b" raw old for E b raw old, unfolded setter.case]
  run.simps [of E "SetNull s" raw old for E s raw old, unfolded setter.case]
  run.simps [of E "SetScan n oid format" raw old for E n oid format raw old, unfolded setter.case]
  run.simps [of E SetRange raw old for E raw old, unfolded setter.case]
  run.simps [of E "SetComposite t fs cache" raw old for E t fs cache raw old, unfolded setter.case]
  run.simps [of E "SetArray1 t s" raw old for E t s raw old, unfolded setter.case]
  run.simps [of E "SetArray2 t s" raw old for E t s raw old, unfolded setter.case]
  run.simps [of E "SetPtr t s" raw old for E t s raw old, unfolded setter.case]

lemma run_typed:
  assumes "scans_typed E"
  shows "run E s raw old = Inr (s', v) \<Longrightarrow> setter_ok s t \<Longrightarrow> has_type t old \<Longrightarrow> setter_ok s' t \<and> has_type t v"
    and "array_loop E e s k r = Inr (s', vs) \<Longrightarrow> setter_ok s e \<Longrightarrow> setter_ok s' e \<and> list_all (has_type e) vs"
    and "composite_loop E fs i k r cache vals = Inr (cache', vals') \<Longrightarrow> cache_ok cache fs \<Longrightarrow> fields_ok fs ts \<Longrightarrow>
      list_all2 has_type ts vals \<Longrightarrow> cache_ok cache' fs \<and> list_all2 has_type ts vals'"
  using assms
proof (induction E s raw old and E e s k r and E fs i k r cache vals arbitrary: s' v t and s' vs and cache' vals' ts
    rule: run_array_loop_composite_loop.induct)
  case (1 E s raw old)
  show ?case
  proof (cases s)
    case (SetBase b)
    then show ?thesis using 1 by (auto simp: run_eqs split: sum.splits dest: set_base_typed intro: setter_ok.intros)
  next
    case (SetNull inner)
    obtain k where t: "t = GNull k" "setter_ok inner (null_value k)" using 1 SetNull by auto
    obtain x b where old: "old = SStruct [x, SBool b]" "has_type (null_value k) x"
      using 1 t(1) by (auto simp: list_all2_Cons1)
    show ?thesis
    proof (cases raw)
      case None
      then show ?thesis using 1 SetNull t old by (auto simp: run_eqs intro: setter_ok.intros)
    next
      case (Some r)
      then obtain s1 v1 where r: "run E inner raw x = Inr (s1, v1)" "s' = SetNull s1" "v = SStruct [v1, SBool True]"
        using 1 SetNull old by (auto simp: run_eqs split: sum.splits)
      then have "setter_ok s1 (null_value k) \<and> has_type (null_value k) v1"
        using 1(1) [OF SetNull, of _ _ "[SBool b]"] Some old t 1 by auto
      then show ?thesis using t r by (auto intro: setter_ok.intros)
    qed
  next
    case (SetScan n oid format)
    then obtain u where "t = GScanner n u" using 1 by auto
    then show ?thesis using 1 SetScan
      by (auto simp: run_eqs scans_typed_def split: option.splits sum.splits intro: setter_ok.intros)
  next
    case SetRange
    then show ?thesis using 1 by (auto simp: run_eqs split: sum.splits dest: set_range_typed simp del: has_type_simps intro: setter_ok.intros)
  next
    case (SetComposite u fs cache)
    then have ok: "u = t" "fields_of t \<noteq> []" "fs = goFields t" "cache_ok cache fs" using 1 by (auto simp: setter_ok_composite)
    obtain vals where old: "old = SStruct vals" "list_all2 has_type (map snd (fields_of t)) vals"
      using has_type_fields [of t old] 1 ok(2) by auto
    show ?thesis
    proof (cases raw)
      case None
      then show ?thesis using 1 SetComposite ok has_type_zero [of t] by (auto simp: run_eqs)
    next
      case (Some r)
      have "length r < 4 \<or> int32_of (be_get (take 4 r)) < 0 \<Longrightarrow> \<exists>e. run E s raw old = Inl e"
        using SetComposite Some by (auto simp: run_eqs Let_def)
      then have pos: "\<not> length r < 4" "\<not> int32_of (be_get (take 4 r)) < 0" using 1(6) by auto
      have eq: "run E s raw old = (case composite_loop E fs 0 (nat (int32_of (be_get (take 4 r)))) (drop 4 r) cache vals of
          Inl e \<Rightarrow> Inl e | Inr (cache, vals) \<Rightarrow> Inr (SetComposite u fs cache, SStruct vals))"
        using pos by (simp only: SetComposite Some old run_eqs option.case sval.case Let_def if_False)
      then obtain cache1 vals1 where r:
          "composite_loop E fs 0 (nat (int32_of (be_get (take 4 r)))) (drop 4 r) cache vals = Inr (cache1, vals1)"
          "s' = SetComposite t fs cache1" "v = SStruct vals1"
        using 1(6) ok(1) by (simp split: sum.splits prod.splits)
      have "fields_ok fs (map snd (fields_of t))" using ok(3) fields_ok_goFields by auto
      then have "cache_ok cache1 fs \<and> list_all2 has_type (map snd (fields_of t)) vals1"
        using 1(2) [OF SetComposite Some pos(1) refl pos(2) old(1) r(1) ok(4) _ old(2) 1(9)] by blast
      then show ?thesis using r ok fields_has_type [OF ok(2)] by (auto simp: setter_ok_composite)
    qed
  next
    case (SetArray1 e inner)
    then have e: "under t = GSlice e" "under e \<noteq> uint8" "setter_ok inner e" using 1 by auto
    have ty: "has_type t (SSlice x) \<longleftrightarrow> has_type (GSlice e) (SSlice x)" for x using has_type_under [of t] e(1) by metis
    have keep: "setter_ok (SetArray1 e s1) t" if "setter_ok s1 e" for s1 using e that by (auto intro: setter_ok.intros)
    show ?thesis
      using 1(6,8,9) 1(3) [OF SetArray1] SetArray1 e keep
      by (fastforce simp: run_eqs ty split: option.splits sum.splits)
  next
    case (SetArray2 e inner)
    then obtain u where e: "under t = GSlice u" "under u = GSlice e" "under e \<noteq> uint8" "setter_ok inner e" using 1 by auto
    have u: "under u \<noteq> uint8" using e by simp
    have ty: "has_type t (SSlice x) \<longleftrightarrow> has_type (GSlice u) (SSlice x)" for x using has_type_under [of t] e(1) by metis
    have ty': "has_type u (SSlice x) \<longleftrightarrow> has_type (GSlice e) (SSlice x)" for x using has_type_under [of u] e(2) by metis
    have keep: "setter_ok (SetArray2 e s1) t" if "setter_ok s1 e" for s1 using e that by (auto intro: setter_ok.intros)
    have rows: "list_all (has_type u) (in_rows k l vs)" if "list_all (has_type e) vs" for k l vs
      using that e(3) by (auto simp: in_rows_def list_all_iff ty' slice_def dest!: in_set_takeD in_set_dropD)
    show ?thesis
      using 1(6,8,9) 1(4) [OF SetArray2] SetArray2 e keep u rows
      by (fastforce simp: run_eqs ty split: option.splits sum.splits)
  next
    case (SetPtr e inner)
    then have e: "under t = GPtr e" "setter_ok inner e" using 1 by auto
    have ty: "has_type t (SPtr x) \<longleftrightarrow> has_type (GPtr e) (SPtr x)" for x using has_type_under [of t] e(1) by metis
    show ?thesis
      using 1(6,8,9) 1(5) [OF SetPtr] SetPtr e has_type_zero [of e]
      by (fastforce simp: run_eqs ty intro: setter_ok.intros split: if_splits sum.splits)
  qed
next
  case (2 E e s k r)
  show ?case
  proof (cases k)
    case 0
    then show ?thesis using 2 by (simp add: array_loop.simps [of E e s])
  next
    case (Suc k')
    then obtain x rest s1 v1 vs1 where r: "readArrayElem r = Inr (x, rest)" "run E s x (zero e) = Inr (s1, v1)"
        "array_loop E e s1 k' rest = Inr (s', vs1)" "vs = v1 # vs1"
      using 2(3) by (auto simp: array_loop.simps [of E e s] split: sum.splits)
    have "setter_ok s1 e \<and> has_type e v1" using 2(1) [OF Suc r(1) refl r(2)] 2(4,5) has_type_zero by blast
    then show ?thesis using 2(2) [OF Suc r(1) refl r(2) refl r(3)] 2(5) r(4) by simp
  qed
next
  case (3 E fs i k r cache vals)
  show ?case
  proof (cases k)
    case 0
    then show ?thesis using 3 by (simp add: composite_loop.simps [of E fs])
  next
    case (Suc k')
    obtain oid x rest where f: "readCompositeField r = Inr (oid, x, rest)"
      using 3(4) Suc by (auto simp: composite_loop.simps [of E fs] split: sum.splits)
    show ?thesis
    proof (cases "length fs \<le> i")
      case True
      then show ?thesis using 3 Suc f by (simp add: composite_loop.simps [of E fs])
    next
      case False
      let ?pick = "case cache ! i of Some s \<Rightarrow> Inr s | None \<Rightarrow> pickSetter oid 1 (snd (fs ! i))"
      obtain s s1 v1 where r: "?pick = Inr s" "run E s x (vals ! fst (fs ! i)) = Inr (s1, v1)"
        "composite_loop E fs (Suc i) k' rest (cache[i := Some s1]) (vals[fst (fs ! i) := v1]) = Inr (cache', vals')"
        using 3(4) Suc f False by (auto simp: composite_loop.simps [of E fs] split: sum.splits)
      have fi: "fst (fs ! i) < length ts" "ts ! fst (fs ! i) = snd (fs ! i)" using 3(6) False by (auto simp: fields_ok_def)
      have s: "setter_ok s (snd (fs ! i))"
        using r(1) 3(5) False by (auto simp: cache_ok_def list_all2_conv_all_nth intro: pickSetter_ok split: option.splits)
      have old: "has_type (snd (fs ! i)) (vals ! fst (fs ! i))" using 3(7) fi by (auto simp: list_all2_conv_all_nth)
      have new: "setter_ok s1 (snd (fs ! i)) \<and> has_type (snd (fs ! i)) v1"
        using 3(2) [OF Suc f refl refl False r(1) r(2) s old] 3(8) by simp
      have "cache_ok (cache[i := Some s1]) fs" using new 3(5) False by (auto simp: cache_ok_def list_all2_conv_all_nth nth_list_update split: if_splits)
      moreover have "list_all2 has_type ts (vals[fst (fs ! i) := v1])"
        using new 3(7) fi by (auto simp: list_all2_conv_all_nth nth_list_update)
      ultimately show ?thesis using 3(3) [OF Suc f refl refl False r(1) r(2) refl r(3)] 3(6,8) by blast
    qed
  qed
qed

section \<open>Fields and rows\<close>

text \<open>The type at a path.\<close>

fun type_at :: "gotype \<Rightarrow> nat list \<Rightarrow> gotype option" where
  "type_at t [] = Some t"
| "type_at t (i # p) = (if i < length (fields_of t) then type_at (snd (fields_of t ! i)) p else None)"

lemma type_at_append: "type_at t p = Some u \<Longrightarrow> type_at t (p @ q) = type_at u q"
  by (induction t p rule: type_at.induct) (auto split: if_splits)

lemma at_put_path_typed:
  assumes "type_at t p = Some u" "has_type t row"
  shows "has_type u (at_path p row) \<and> (has_type u v \<longrightarrow> has_type t (put_path p v row))"
  using assms
proof (induction t p arbitrary: row rule: type_at.induct)
  case (2 t i p)
  then have i: "i < length (fields_of t)" "type_at (snd (fields_of t ! i)) p = Some u" by (auto split: if_splits)
  have ne: "fields_of t \<noteq> []" using i(1) by auto
  obtain vs where vs: "row = SStruct vs" "list_all2 has_type (map snd (fields_of t)) vs" using has_type_fields 2(3) ne by blast
  then have "has_type (snd (fields_of t ! i)) (vs ! i)" using i(1) by (auto simp: list_all2_conv_all_nth)
  note IH = 2(1) [OF i this]
  have "list_all2 has_type (map snd (fields_of t)) (vs[i := put_path p v (vs ! i)])" if "has_type u v"
    using vs(2) IH that i(1) by (auto simp: list_all2_conv_all_nth nth_list_update)
  then show ?case using IH vs(1) fields_has_type [OF ne] by auto
qed auto

definition ref_ok :: "gotype \<Rightarrow> nat list \<Rightarrow> (bytes \<rightharpoonup> fieldRef) \<Rightarrow> bool" where
  "ref_ok t base m \<longleftrightarrow> (\<forall>k r. m k = Some r \<longrightarrow> (\<exists>p. fr_path r = base @ p \<and> type_at t p = Some (fr_type r)))"

lemma direct_fields_ref_ok:
  assumes "ref_ok t base out"
  shows "ref_ok t base (direct_fields low base (fields_of t) out)"
proof -
  let ?f = "\<lambda>(i, f, ft) out.
        if ftag f = Some (asc ''-'') \<or> isEmbeddedFlatten f ft \<or> \<not> exported f then out
        else let key = (case ftag f of Some tag \<Rightarrow> if tag = [] then fname f else tag | None \<Rightarrow> fname f) in
          out(low key \<mapsto> \<lparr>fr_type = ft, fr_path = base @ [i]\<rparr>)"
  have "ref_ok t base (fold ?f xs out)" if "set xs \<subseteq> set (enumerate 0 (fields_of t))" "ref_ok t base out" for xs out
    using that
  proof (induction xs arbitrary: out)
    case (Cons x xs)
    obtain i f ft where x: "x = (i, f, ft)" by (cases x)
    then have i: "i < length (fields_of t)" "fields_of t ! i = (f, ft)" using Cons.prems(1) by (auto simp: in_set_enumerate_eq)
    then have "type_at t [i] = Some ft" by simp
    then have "ref_ok t base (?f x out)" using Cons.prems(2) x by (auto simp: ref_ok_def Let_def)
    then show ?case using Cons by (simp add: case_prod_beta)
  qed simp
  then show ?thesis using assms by (simp add: direct_fields_def)
qed

lemma walkStructFields_ref_ok: "ref_ok t base (walkStructFields low t base)"
proof (induction low t base rule: walkStructFields.induct)
  case (1 low t base)
  let ?xs = "filter (\<lambda>(i, f, ft). isEmbeddedFlatten f ft) (enumerate 0 (fields_of t))"
  have inner: "ref_ok t base (walkStructFields low ft (base @ [i]))" if "(i, f, ft) \<in> set ?xs" for i f ft
  proof -
    have i: "i < length (fields_of t)" "fields_of t ! i = (f, ft)" using that by (auto simp: in_set_enumerate_eq)
    have "ref_ok ft (base @ [i]) (walkStructFields low ft (base @ [i]))" using 1 that by blast
    then show ?thesis using i by (force simp: ref_ok_def)
  qed
  have merge: "ref_ok t base (inner ++ out)" if "ref_ok t base inner" "ref_ok t base out" for inner out
    using that by (auto simp: ref_ok_def map_add_Some_iff)
  have "ref_ok t base (fold (\<lambda>inner out. inner ++ out) ms out)" if "\<forall>m\<in>set ms. ref_ok t base m" "ref_ok t base out" for ms out
    using that by (induction ms arbitrary: out) (auto intro: merge)
  then show ?case
    using inner direct_fields_ref_ok [of t base Map.empty low] by (subst walkStructFields.simps) (auto simp: ref_ok_def [of _ _ Map.empty])
qed

text \<open>An inlined case writes a value of the type it was chosen for.\<close>

lemma inline_typed: "inline_value (inlineOpFor oid format t) raw = Some v \<Longrightarrow> has_type t v"
  unfolding has_type_under [symmetric, of t]
  using float64_of_float32_range [of "be_get raw"] be_get_4 [of raw] be_get_8 [of raw]
    int16_of_range [of "be_get raw"] int32_of_range [of "be_get raw"] int64_of_range [of "be_get raw"]
  by (cases "under t")
     (auto simp: inlineOpFor_def inline_value_def Let_def in_kind_def split: if_splits ikind.splits)

definition column_ok :: "gotype \<Rightarrow> fieldSetter \<Rightarrow> bool" where
  "column_ok t fs \<longleftrightarrow>
     (case fs of
        SkipColumn \<Rightarrow> True
      | FieldSetter p s op1 \<Rightarrow>
          (\<exists>u. type_at t p = Some u \<and> setter_ok s u \<and> (\<forall>raw v. inline_value op1 raw = Some v \<longrightarrow> has_type u v)))"

lemma plan_columns_ok:
  "plan_columns low (walkStructFields low t []) cols = Inr sp \<Longrightarrow> list_all (column_ok t) sp"
proof (induction cols arbitrary: sp)
  case (Cons col cols)
  obtain fs sp' where sp: "sp = fs # sp'" "plan_columns low (walkStructFields low t []) cols = Inr sp'"
    "(case walkStructFields low t [] (low (Name col)) of
              None \<Rightarrow> Inr SkipColumn
            | Some info \<Rightarrow>
                (case pickSetter (TypeOID col) (Format col) (fr_type info) of
                   Inl e \<Rightarrow> Inl e
                 | Inr s \<Rightarrow> Inr (FieldSetter (fr_path info) s (inlineOpFor (TypeOID col) (Format col) (fr_type info))))) = Inr fs"
    using Cons.prems by (auto split: sum.splits)
  have "column_ok t fs"
    using sp(3) walkStructFields_ref_ok [of t "[]" low]
    by (auto simp: column_ok_def ref_ok_def split: option.splits sum.splits intro: pickSetter_ok inline_typed)
  then show ?case using Cons.IH sp by simp
qed simp

lemma buildStructPlan_ok: "buildStructPlan low t p = Inr sp \<Longrightarrow> list_all (column_ok t) sp"
  by (auto simp: buildStructPlan_def plan_columns_ok split: option.splits)

lemma scan_cell_typed:
  assumes "scans_typed E" "column_ok t fs" "has_type t row" "scan_cell E fs raw row = Inr (fs', row')"
  shows "column_ok t fs' \<and> has_type t row'"
proof (cases fs)
  case (FieldSetter p s op1)
  obtain u where u: "type_at t p = Some u" "setter_ok s u" "\<forall>raw v. inline_value op1 raw = Some v \<longrightarrow> has_type u v"
    using assms(2) FieldSetter by (auto simp: column_ok_def)
  note path = at_put_path_typed [OF u(1) assms(3)]
  show ?thesis
  proof (cases "case raw of None \<Rightarrow> None | Some raw \<Rightarrow> inline_value op1 raw")
    case (Some v)
    then have "has_type u v" using u(3) by (auto split: option.splits)
    then show ?thesis using assms(2,4) FieldSetter Some path by (auto simp: scan_cell_def)
  next
    case None
    then obtain s' v where r: "run E s raw (at_path p row) = Inr (s', v)" "fs' = FieldSetter p s' op1" "row' = put_path p v row"
      using assms(4) FieldSetter by (auto simp: scan_cell_def split: sum.splits)
    then show ?thesis using run_typed(1) [OF assms(1) r(1) u(2)] path u by (auto simp: column_ok_def)
  qed
qed (use assms in \<open>auto simp: scan_cell_def\<close>)

lemma scan_cells_typed:
  "scans_typed E \<Longrightarrow> list_all (column_ok t) sp \<Longrightarrow> has_type t row \<Longrightarrow> scan_cells E sp body row = Inr (sp', row') \<Longrightarrow>
   list_all (column_ok t) sp' \<and> has_type t row'"
proof (induction sp arbitrary: body row sp' row')
  case (Cons fs sp)
  obtain raw body1 fs1 row1 sp1 where r: "scan_cell E fs raw row = Inr (fs1, row1)" "scan_cells E sp body1 row1 = Inr (sp1, row')" "sp' = fs1 # sp1"
    using Cons.prems(4) by (auto split: sum.splits)
  have 1: "list_all (column_ok t) sp" "column_ok t fs1 \<and> has_type t row1"
    using scan_cell_typed [OF Cons.prems(1) _ Cons.prems(3) r(1)] Cons.prems(2) by simp_all
  then have "list_all (column_ok t) sp1 \<and> has_type t row'" using Cons.IH [OF Cons.prems(1) 1(1) _ r(2)] by simp
  then show ?case using 1 r(3) by simp
qed simp

lemma fillStructRow_typed:
  assumes "scans_typed E" "list_all (column_ok t) sp" "has_type t row" "fillStructRow E sp body row = Inr (sp', row')"
  shows "list_all (column_ok t) sp' \<and> has_type t row'"
proof -
  have "scan_cells E sp (drop 2 body) row = Inr (sp', row')" using assms(4) by (simp add: fillStructRow_def split: if_splits)
  then show ?thesis by (rule scan_cells_typed [OF assms(1-3)])
qed

end
