(* ===== verification/ScanCorrect.thy ===== *)
theory ScanCorrect
  imports ScanTyped ExecCorrect BinaryArrays
begin

text \<open>
  The scan loops, typed: whatever the server sends, rows and batches hold values of the row type.  The
  inlined fast path is the setter it replaces, except for types with a \<open>Scan\<close> method; \<open>scan_all\<close> is what
  a sequence of rows scans to.
\<close>

section \<open>Typed results\<close>

lemma new_struct_plan_ok: "new_struct_plan low t st body c = (c', Inr sp) \<Longrightarrow> list_all (column_ok t) sp"
  by (auto simp: new_struct_plan_def dest: buildStructPlan_ok split: sum.splits)

lemma scan_turn_typed:
  assumes "scans_typed E" "list_all (column_ok t) (sl_plan l)" "list_all (has_type t) (sl_rows l)"
    and "scan_turn E t st ty body l c = (c', x)"
  shows "case x of Inl l' \<Rightarrow> list_all (column_ok t) (sl_plan l') \<and> list_all (has_type t) (sl_rows l')
    | Inr (Inl e) \<Rightarrow> True | Inr (Inr rows) \<Rightarrow> list_all (has_type t) rows"
proof (cases "ty = MsgDataRow")
  case True
  note row = fillStructRow_typed [OF assms(1,2) has_type_zero, of body]
  show ?thesis
  proof (cases "fillStructRow E (sl_plan l) body (zero t)")
    case (Inl e)
    then show ?thesis using assms(4) True by (auto simp: scan_turn_def)
  next
    case (Inr y)
    obtain sp row where y: "y = (sp, row)" by (cases y)
    then show ?thesis using row [of sp row] Inr assms(3,4) True by (auto simp: scan_turn_def)
  qed
next
  case False
  then show ?thesis using assms(2-4) new_struct_plan_ok
    by (auto simp: scan_turn_def Let_def split: if_splits sum.splits prod.splits option.splits)
qed

lemma bindExecuteScan_typed:
  assumes "scans_typed E" "list_all (column_ok t) sp" "bindExecuteScan E t st vals sp c = (c', Inr rows)"
  shows "list_all (has_type t) rows"
proof -
  let ?l = "\<lparr>sl_plan = sp, sl_rows = [], sl_err = None\<rparr>" and ?f = "\<lambda>e l c. (c, Inl (EWire e))"
  obtain c1 where loop: "msg_loop (scan_turn E t st) ?f ?l c1 = (c', Inr rows)"
    using assms(3) by (auto simp: bindExecuteScan_def split: prod.splits option.splits)
  have "case msg_loop (scan_turn E t st) ?f ?l c1 of (c', x) \<Rightarrow> (case x of Inl e \<Rightarrow> True | Inr rows \<Rightarrow> list_all (has_type t) rows)"
  proof (rule msg_loop_rule [where Q = "\<lambda>(l :: scan_locals) c. list_all (column_ok t) (sl_plan l) \<and> list_all (has_type t) (sl_rows l)"])
    fix ty body c r and l :: scan_locals
    assume Q: "list_all (column_ok t) (sl_plan l) \<and> list_all (has_type t) (sl_rows l)"
    obtain c2 x where x: "scan_turn E t st ty body l (c\<lparr>rd := r\<rparr>) = (c2, x)" by fastforce
    show "case scan_turn E t st ty body l (c\<lparr>rd := r\<rparr>) of
        (c', Inl l') \<Rightarrow> list_all (column_ok t) (sl_plan l') \<and> list_all (has_type t) (sl_rows l')
      | (c', Inr x) \<Rightarrow> (case x of Inl e \<Rightarrow> True | Inr rows \<Rightarrow> list_all (has_type t) rows)"
      using scan_turn_typed [OF assms(1) _ _ x] Q unfolding x by (auto split: sum.splits)
  qed (use assms(2) in auto)
  then show ?thesis using loop by simp
qed

lemma scan_loop_typed: "scans_typed E \<Longrightarrow> scan_loop n E t sql vals c = (c', Inr rows) \<Longrightarrow> list_all (has_type t) rows"
proof (induction n arbitrary: c)
  case (Suc n)
  then show ?case
    by (auto split: prod.splits sum.splits if_splits dest!: buildStructPlan_ok dest: bindExecuteScan_typed)
qed simp

section \<open>Typed batches\<close>

definition batch_inv :: "gotype \<Rightarrow> nat \<Rightarrow> ('u \<Rightarrow> bool) \<Rightarrow> 'u batch_locals \<Rightarrow> bool" where
  "batch_inv t bs P l \<longleftrightarrow>
     list_all (column_ok t) (bl_plan l) \<and> length (slots l) = bs \<and> list_all (has_type t) (slots l) \<and>
     filled l \<le> bs \<and> (cbErr l = None \<longrightarrow> filled l < bs) \<and> P (bl_user l)"

text \<open>What the callback may rely on.\<close>

definition cb_keeps :: "gotype \<Rightarrow> nat \<Rightarrow> ('u \<Rightarrow> bool) \<Rightarrow> (sval list \<Rightarrow> 'u \<Rightarrow> 'u \<times> err option) \<Rightarrow> bool" where
  "cb_keeps t bs P cb \<longleftrightarrow>
     (\<forall>b u. b \<noteq> [] \<longrightarrow> length b \<le> bs \<longrightarrow> list_all (has_type t) b \<longrightarrow> P u \<longrightarrow> P (fst (cb b u)))"

lemma flush_batch_typed:
  assumes "cb_keeps t bs P cb" "length (slots l) = bs" "list_all (has_type t) (slots l)" "filled l \<le> bs" "P (bl_user l)"
    and "flush_batch t cb l = (l', e)" "0 < bs"
  shows "P (bl_user l') \<and> length (slots l') = bs \<and> list_all (has_type t) (slots l') \<and> filled l' \<le> bs \<and>
    bl_plan l' = bl_plan l \<and> cbErr l' = cbErr l \<and> (e = None \<longrightarrow> filled l' = 0)"
proof (cases "filled l = 0")
  case False
  let ?b = "take (filled l) (slots l)"
  obtain u e' where cb: "cb ?b (bl_user l) = (u, e')" by fastforce
  have "?b \<noteq> []" "length ?b \<le> bs" "list_all (has_type t) ?b" using False assms(2-4,7) by (auto simp: list_all_iff dest: in_set_takeD)
  then have "P u" using assms(1,5) cb by (auto simp: cb_keeps_def dest!: spec [of _ ?b] spec [of _ "bl_user l"])
  moreover have "list_all (has_type t) (clearBatchSlots t (filled l) (slots l))"
    using assms(3) has_type_zero by (auto simp: clearBatchSlots_def list_all_iff dest: in_set_dropD)
  ultimately show ?thesis using assms(2-4,6) False cb
    by (cases e') (auto simp: flush_batch_def clearBatchSlots_def)
qed (use assms in \<open>auto simp: flush_batch_def\<close>)

lemma batch_turn_typed:
  assumes "scans_typed E" "cb_keeps t bs P cb" "0 < bs" "batch_inv t bs P l"
    and "batch_turn E t st bs cb ty body l c = (c', x)"
  shows "case x of Inl l' \<Rightarrow> batch_inv t bs P l' | Inr (u, e) \<Rightarrow> P u"
proof -
  note inv = assms(4) [unfolded batch_inv_def]
  consider (row) "ty = MsgDataRow" "cbErr l = None" | (ready) "ty = MsgReadyForQuery" | (desc) "ty = MsgRowDescription"
    | (other) "ty \<noteq> MsgDataRow \<or> cbErr l \<noteq> None" "ty \<noteq> MsgReadyForQuery" "ty \<noteq> MsgRowDescription" by blast
  then show ?thesis
  proof cases
    case row
    let ?fill = "fillStructRow E (bl_plan l) body (slots l ! filled l)"
    have old: "has_type t (slots l ! filled l)" using inv row(2) by (simp add: list_all_length)
    show ?thesis
    proof (cases ?fill)
      case (Inl e)
      then show ?thesis using assms(5) row inv by (auto simp: batch_turn_def)
    next
      case (Inr y)
      obtain sp rw where y: "y = (sp, rw)" by (cases y)
      let ?l = "l\<lparr>bl_plan := sp, slots := (slots l)[filled l := rw], filled := filled l + 1, totalRows := totalRows l + 1\<rparr>"
      have ok: "list_all (column_ok t) sp \<and> has_type t rw"
        using fillStructRow_typed [OF assms(1) _ old] inv Inr y by blast
      then have sl: "length (slots ?l) = bs" "list_all (has_type t) (slots ?l)" "filled ?l \<le> bs" "P (bl_user ?l)"
        using inv row(2) by (auto simp: list_all_length nth_list_update)
      show ?thesis
      proof (cases "filled ?l = bs")
        case False
        then have "x = Inl ?l" using assms(5) row Inr y by (simp add: batch_turn_def Let_def)
        then show ?thesis using sl ok row(2) False by (simp add: batch_inv_def)
      next
        case True
        obtain l1 e where fl: "flush_batch t cb ?l = (l1, e)" by fastforce
        have "x = Inl (case e of None \<Rightarrow> l1 | Some e \<Rightarrow> l1\<lparr>cbErr := Some e\<rparr>)"
          using assms(5) row Inr y True fl by (auto simp: batch_turn_def Let_def split: option.splits)
        then show ?thesis using flush_batch_typed [OF assms(2) sl fl assms(3)] ok row(2) assms(3)
          by (auto simp: batch_inv_def split: option.splits)
      qed
    qed
  next
    case ready
    obtain l1 e where fl: "flush_batch t cb l = (l1, e)" by fastforce
    then have "P (bl_user l1)" using flush_batch_typed [OF assms(2) _ _ _ _ fl assms(3)] inv by blast
    then show ?thesis using assms(5) ready inv fl
      by (auto simp: batch_turn_def Let_def split: option.splits)
  next
    case desc
    then show ?thesis using assms(5) inv new_struct_plan_ok
      by (auto simp: batch_turn_def batch_inv_def split: sum.splits prod.splits)
  next
    case other
    then show ?thesis using assms(4,5) inv by (auto simp: batch_turn_def batch_inv_def split: if_splits)
  qed
qed

lemma bindExecuteScanBatched_typed:
  assumes "scans_typed E" "cb_keeps t bs P cb" "0 < bs" "list_all (column_ok t) sp" "P u"
    and "bindExecuteScanBatched E t st vals sp bs cb u c = (c', u', e)"
  shows "P u'"
proof -
  let ?l = "\<lparr>bl_plan = sp, slots = replicate bs (zero t), filled = 0, totalRows = 0, cbErr = None, bl_err = None, bl_user = u\<rparr>"
    and ?f = "\<lambda>e l c. (c, bl_user l, Some (EWire e))"
  have loop: "case msg_loop (batch_turn E t st bs cb) ?f ?l c1 of (c', x) \<Rightarrow> P (fst x)" for c1
  proof (rule msg_loop_rule [where Q = "\<lambda>l c. batch_inv t bs P l"])
    show "batch_inv t bs P ?l" using assms(3-5) has_type_zero by (simp add: batch_inv_def list_all_iff)
    fix ty body l c r
    assume Q: "batch_inv t bs P l"
    obtain c2 x where x: "batch_turn E t st bs cb ty body l (c\<lparr>rd := r\<rparr>) = (c2, x)" by fastforce
    show "case batch_turn E t st bs cb ty body l (c\<lparr>rd := r\<rparr>) of
        (c', Inl l') \<Rightarrow> batch_inv t bs P l' | (c', Inr x) \<Rightarrow> P (fst x)"
      using batch_turn_typed [OF assms(1-3) Q x] unfolding x by (auto split: sum.splits)
  qed (auto simp: batch_inv_def)
  show ?thesis
    using assms(5,6) loop by (fastforce simp: bindExecuteScanBatched_def split: prod.splits option.splits)
qed

lemma batched_loop_typed:
  assumes "scans_typed E" "cb_keeps t bs P cb" "0 < bs"
  shows "P u \<Longrightarrow> batched_loop n E t bs cb sql vals u c = (c', u', e) \<Longrightarrow> P u'"
proof (induction n arbitrary: u c)
  case (Suc n)
  obtain c1 y where o: "obtain_stmt prepareAndDescribe sql c = (c1, y)" by fastforce
  show ?case
  proof (cases y)
    case (Inl e)
    then show ?thesis using Suc.prems o by simp
  next
    case (Inr z)
    obtain fc st where z: "z = (fc, st)" by (cases z)
    show ?thesis
    proof (cases "buildStructPlan (lower E) t (plan st)")
      case (Inl e)
      then show ?thesis using Suc.prems o \<open>y = Inr z\<close> z by simp
    next
      case sp: (Inr sp)
      obtain c2 u2 e2 where b: "bindExecuteScanBatched E t st vals sp bs cb u c1 = (c2, u2, e2)" by (metis prod_cases3)
      have "P u2" using bindExecuteScanBatched_typed [OF assms buildStructPlan_ok [OF sp] Suc.prems(1) b] .
      then show ?thesis using Suc o Inr z sp b by (auto split: option.splits if_splits)
    qed
  qed
qed simp

section \<open>The fast path\<close>

text \<open>A struct plan without the inlined cases is the reference.\<close>

definition plain_column :: "fieldSetter \<Rightarrow> fieldSetter" where
  "plain_column fs = (case fs of SkipColumn \<Rightarrow> SkipColumn | FieldSetter p s op1 \<Rightarrow> FieldSetter p s opFallback)"

text \<open>An inlined case does what its setter does.\<close>

definition inline_agrees :: "fieldSetter \<Rightarrow> bool" where
  "inline_agrees fs \<longleftrightarrow>
     (case fs of
        SkipColumn \<Rightarrow> True
      | FieldSetter p s op1 \<Rightarrow>
          op1 = opFallback \<or> (\<exists>b. s = SetBase b \<and> (\<forall>raw v. inline_value op1 raw = Some v \<longrightarrow> set_raw b raw = Inr (Some v))))"

lemma composite_not_scalar:
  "pickCompositeSetter format t \<noteq> None \<Longrightarrow> is_struct t"
  by (auto simp: pickCompositeSetter_def split: if_splits)

lemma pick_scalar:
  assumes "\<not> is_scanner t" "\<not> is_struct t" "under t \<noteq> GPtr e" "\<And>e. under t \<noteq> GPtr e" "slice_elem t = None \<or> byte_slice t"
  shows "pickSetter oid format t = plain_setter oid format t"
proof -
  have "\<not> is_null t" using assms(2) by (cases t) (auto simp: is_null_def is_struct_def)
  moreover have "t \<noteq> GRange" "pickCompositeSetter format t = None"
    using assms(2) composite_not_scalar [of format t] by (cases "pickCompositeSetter format t"; auto simp: is_struct_def)+
  ultimately show ?thesis
    using pickSetter_other [OF assms(1), of oid format] assms(4,5) by (auto split: gotype.splits)
qed

lemma int_idem: "int16_of (int16_of v) = int16_of v" "int32_of (int16_of v) = int16_of v" "int32_of (int32_of v) = int32_of v"
  using int16_of_range [of v] int32_of_range [of v] by (auto intro!: int16_of_id int32_of_id)

lemma inlineOp_agrees:
  assumes "\<not> is_scanner t" "pickSetter oid format t = Inr s"
  shows "inline_agrees (FieldSetter p s (inlineOpFor oid format t))"
proof (cases "inlineOpFor oid format t = opFallback")
  case False
  then have f: "format = 1" and ns: "\<not> is_struct t" "\<And>e. under t \<noteq> GPtr e" "slice_elem t = None \<or> byte_slice t"
    by (auto simp: inlineOpFor_def is_struct_def slice_elem_def byte_slice_def split: gotype.splits if_splits)
  then have "plain_setter oid 1 t = Inr s" using pick_scalar [OF assms(1) ns(1) ns(2) ns(2,3)] assms(2) by simp
  then obtain b where b: "s = SetBase b" "pickBinarySetter oid t = Inr b" by (auto simp: plain_setter_def split: sum.splits)
  have "inline_value (inlineOpFor oid 1 t) raw = Some v \<Longrightarrow> set_raw b raw = Inr (Some v)" for raw v
    using b(2) False f
    by (cases "under t")
       (auto simp: inlineOpFor_def inline_value_def pickBinarySetter_def or_else_def intSetter_def byte_slice_def set_raw_def
          wire_int_def conv_int_def int_idem split: if_splits ikind.splits)
  then show ?thesis using b(1) f by (simp add: inline_agrees_def)
qed (simp add: inline_agrees_def)

lemma run_inlined: "set_raw b raw = Inr (Some v) \<Longrightarrow> run E (SetBase b) (Some raw) old = Inr (SetBase b, v)"
  by (simp add: run_eqs set_base_def)

lemma scan_cell_plain:
  assumes "inline_agrees fs"
  shows "scan_cell E (plain_column fs) raw row = map_sum (\<lambda>e. e) (apfst plain_column) (scan_cell E fs raw row)"
    and "scan_cell E fs raw row = Inr (fs', row') \<Longrightarrow> inline_agrees fs'"
proof -
  have "scan_cell E (plain_column fs) raw row = map_sum (\<lambda>e. e) (apfst plain_column) (scan_cell E fs raw row) \<and>
    (scan_cell E fs raw row = Inr (fs', row') \<longrightarrow> inline_agrees fs')"
  proof (cases fs)
    case (FieldSetter p s op1)
    show ?thesis
    proof (cases "\<exists>r v. raw = Some r \<and> inline_value op1 r = Some v")
      case True
      then obtain r v where v: "raw = Some r" "inline_value op1 r = Some v" by blast
      then obtain b where "s = SetBase b" "set_raw b r = Inr (Some v)"
        using assms FieldSetter by (auto simp: inline_agrees_def inline_value_def)
      then show ?thesis using v FieldSetter assms
        by (auto simp: scan_cell_def plain_column_def inline_value_def [of opFallback] run_inlined)
    next
      case False
      then have n: "(case raw of None \<Rightarrow> None | Some raw \<Rightarrow> inline_value op1 raw) = None"
        "(case raw of None \<Rightarrow> None | Some raw \<Rightarrow> inline_value opFallback raw) = None"
        by (auto simp: inline_value_def [of opFallback] split: option.split)
      have keep: "run E (SetBase b) raw old = Inr (s', v) \<Longrightarrow> s' = SetBase b" for b old s' v
        by (auto simp: run_eqs split: sum.splits)
      then show ?thesis using FieldSetter n assms
        by (auto simp: scan_cell_def plain_column_def inline_agrees_def dest: keep split: sum.splits)
    qed
  qed (auto simp: scan_cell_def plain_column_def inline_agrees_def)
  then show "scan_cell E (plain_column fs) raw row = map_sum (\<lambda>e. e) (apfst plain_column) (scan_cell E fs raw row)"
    "scan_cell E fs raw row = Inr (fs', row') \<Longrightarrow> inline_agrees fs'" by blast+
qed

lemma scan_cells_plain:
  "list_all inline_agrees sp \<Longrightarrow>
     scan_cells E (map plain_column sp) body row = map_sum (\<lambda>e. e) (apfst (map plain_column)) (scan_cells E sp body row) \<and>
     (\<forall>sp' row'. scan_cells E sp body row = Inr (sp', row') \<longrightarrow> list_all inline_agrees sp')"
proof (induction sp arbitrary: body row)
  case (Cons fs sp)
  have fs: "inline_agrees fs" using Cons.prems by simp
  show ?case
  proof (cases "readColumn body")
    case (Inr y)
    obtain raw body1 where y: "y = (raw, body1)" by (cases y)
    show ?thesis
    proof (cases "scan_cell E fs raw row")
      case (Inl e)
      then show ?thesis using Inr y scan_cell_plain(1) [OF fs, of E raw row] by simp
    next
      case z: (Inr z)
      obtain fs1 row1 where "z = (fs1, row1)" by (cases z)
      then have c: "scan_cell E fs raw row = Inr (fs1, row1)" using z by simp
      have IH: "scan_cells E (map plain_column sp) body1 row1 = map_sum (\<lambda>e. e) (apfst (map plain_column)) (scan_cells E sp body1 row1)"
        "\<forall>sp' row'. scan_cells E sp body1 row1 = Inr (sp', row') \<longrightarrow> list_all inline_agrees sp'"
        using Cons.IH [of body1 row1] Cons.prems by simp_all
      show ?thesis using Inr y c scan_cell_plain [OF fs, of E raw row] IH
        by (cases "scan_cells E sp body1 row1") auto
    qed
  qed simp
qed simp

lemma fillStructRow_plain:
  assumes "list_all inline_agrees sp"
  shows "fillStructRow E (map plain_column sp) body row = map_sum (\<lambda>e. e) (apfst (map plain_column)) (fillStructRow E sp body row)"
    and "fillStructRow E sp body row = Inr (sp', row') \<Longrightarrow> list_all inline_agrees sp'"
  using scan_cells_plain [OF assms, of E "drop 2 body" row] by (auto simp: fillStructRow_def split: if_splits)

text \<open>The rows of a whole result.\<close>

fun scan_all :: "scan_env \<Rightarrow> gotype \<Rightarrow> structPlan \<Rightarrow> bytes list \<Rightarrow> err + sval list" where
  "scan_all E t sp [] = Inr []"
| "scan_all E t sp (b # bs) =
     (case fillStructRow E sp b (zero t) of
        Inl e \<Rightarrow> Inl e
      | Inr (sp, row) \<Rightarrow> (case scan_all E t sp bs of Inl e \<Rightarrow> Inl e | Inr rows \<Rightarrow> Inr (row # rows)))"

lemma scan_all_plain: "list_all inline_agrees sp \<Longrightarrow> scan_all E t (map plain_column sp) bodies = scan_all E t sp bodies"
proof (induction bodies arbitrary: sp)
  case (Cons b bs)
  show ?case
  proof (cases "fillStructRow E sp b (zero t)")
    case (Inl e)
    then show ?thesis using fillStructRow_plain(1) [OF Cons.prems, of E b "zero t"] by simp
  next
    case (Inr y)
    obtain sp1 row where "y = (sp1, row)" by (cases y)
    then have f: "fillStructRow E sp b (zero t) = Inr (sp1, row)" using Inr by simp
    then show ?thesis
      using fillStructRow_plain(1) [OF Cons.prems, of E b "zero t"] Cons.IH [OF fillStructRow_plain(2) [OF Cons.prems f]] by simp
  qed
qed simp

lemma plan_columns_agree:
  assumes "\<forall>k r. m k = Some r \<longrightarrow> \<not> is_scanner (fr_type r)"
  shows "plan_columns low m cols = Inr sp \<Longrightarrow> list_all inline_agrees sp"
proof (induction cols arbitrary: sp)
  case (Cons col cols)
  show ?case
  proof (cases "m (low (Name col))")
    case None
    then show ?thesis using Cons by (auto simp: inline_agrees_def [of SkipColumn] split: sum.splits)
  next
    case (Some info)
    then obtain s sp1 where "pickSetter (TypeOID col) (Format col) (fr_type info) = Inr s" "plan_columns low m cols = Inr sp1"
      "sp = FieldSetter (fr_path info) s (inlineOpFor (TypeOID col) (Format col) (fr_type info)) # sp1"
      using Cons.prems by (auto split: sum.splits)
    then show ?thesis using Cons.IH assms Some inlineOp_agrees by auto
  qed
qed simp

end
