(* ===== verification/ScanServe.thy ===== *)
theory ScanServe
  imports ScanCorrect
begin

text \<open>
  Scans against a server that answers as documented: what \<open>ScanStruct\<close> returns, that batches are the same
  rows cut into pieces, and the properties of the scanning component.
\<close>

section \<open>The unbatched scan\<close>

lemma send_scan_served:
  assumes "encodes (paramOIDs st) vals cells" "room (wr c) = None" "writeBuf (wr c) = []"
  shows "send_scan st vals c = (c\<lparr>wr := after_send st vals cells (wr c)\<rparr>, None)"
proof -
  obtain bd w where b: "begin_bind st vals c = (c\<lparr>wr := w\<rparr>, bd, None)"
    "Finish bd (write_result_formats (resultFmts st) w) = app (frame MsgBind (bind_body st vals cells)) (wr c)"
    using begin_bind_ok [OF assms(1)] by blast
  show ?thesis using assms(2,3)
    by (cases "wr c") (simp add: send_scan_def b put_execute_sync flush_wire_all after_send_def query_messages_def app_def)
qed

lemma scan_rows_served:
  assumes "rx (rd c) = frames (map (Pair MsgDataRow) bodies @ [(MsgCommandComplete, tag), (MsgReadyForQuery, status)]) @ rest"
    and "\<forall>b\<in>set bodies. frame_ok b" "frame_ok tag" "frame_ok status" "sl_err l = None"
    and "scan_all E t (sl_plan l) bodies = Inr rows"
  shows "\<exists>r. rx r = rest \<and> msg_loop (scan_turn E t st) (\<lambda>e l c. (c, Inl (EWire e))) l c =
    (c\<lparr>rd := r, lastRows := int (length (sl_rows l @ rows))\<rparr>, Inr (sl_rows l @ rows))"
  using assms
proof (induction bodies arbitrary: l c rows)
  case Nil
  let ?f = "\<lambda>e l c. (c, Inl (EWire e))"
  have rx: "rx (rd c) = frame MsgCommandComplete tag @ frame MsgReadyForQuery status @ rest" using Nil.prems(1) by simp
  have t1: "scan_turn E t st MsgCommandComplete tag l c = (c, Inl l)" for c by (simp add: scan_turn_def)
  have t2: "scan_turn E t st MsgReadyForQuery status l c = (c\<lparr>lastRows := int (length (sl_rows l))\<rparr>, Inr (Inr (sl_rows l)))" for c
    using Nil.prems(5) by (simp add: scan_turn_def Let_def)
  obtain r where r: "rx r = frame MsgReadyForQuery status @ rest"
      "msg_loop (scan_turn E t st) ?f l c = msg_loop (scan_turn E t st) ?f l (c\<lparr>rd := r\<rparr>)"
    using loop_step [OF rx Nil.prems(3), of "scan_turn E t st", OF t1, of ?f] by blast
  have rx2: "rx (rd (c\<lparr>rd := r\<rparr>)) = frame MsgReadyForQuery status @ rest" using r(1) by simp
  obtain r2 where "rx r2 = rest" "msg_loop (scan_turn E t st) ?f l (c\<lparr>rd := r\<rparr>) =
      (c\<lparr>rd := r2, lastRows := int (length (sl_rows l))\<rparr>, Inr (sl_rows l))"
    using loop_turn [OF rx2 Nil.prems(4), of "scan_turn E t st" ?f l] unfolding t2 by auto
  then show ?case using r(2) Nil.prems(6) by auto
next
  case (Cons b bs)
  let ?f = "\<lambda>e l c. (c, Inl (EWire e))"
  obtain sp row rows1 where f: "fillStructRow E (sl_plan l) b (zero t) = Inr (sp, row)" "scan_all E t sp bs = Inr rows1" "rows = row # rows1"
    using Cons.prems(6) by (auto split: sum.splits)
  let ?l = "l\<lparr>sl_plan := sp, sl_rows := sl_rows l @ [row]\<rparr>"
  let ?more = "frames (map (Pair MsgDataRow) bs @ [(MsgCommandComplete, tag), (MsgReadyForQuery, status)]) @ rest"
  have rx: "rx (rd c) = frame MsgDataRow b @ ?more" using Cons.prems(1) by simp
  have ok: "frame_ok b" using Cons.prems(2) by simp
  have turn: "scan_turn E t st MsgDataRow b l c = (c, Inl ?l)" for c using f(1) by (simp add: scan_turn_def)
  obtain r where r: "rx r = ?more" "msg_loop (scan_turn E t st) ?f l c = msg_loop (scan_turn E t st) ?f ?l (c\<lparr>rd := r\<rparr>)"
    using loop_step [OF rx ok, of "scan_turn E t st", OF turn, of ?f] by blast
  obtain r2 where "rx r2 = rest" "msg_loop (scan_turn E t st) ?f ?l (c\<lparr>rd := r\<rparr>) =
      (c\<lparr>rd := r2, lastRows := int (length (sl_rows ?l @ rows1))\<rparr>, Inr (sl_rows ?l @ rows1))"
    using Cons.IH [of "c\<lparr>rd := r\<rparr>" ?l rows1] r(1) Cons.prems(2-5) f(2) by auto
  then show ?case using r(2) f(3) by auto
qed

lemma bindExecuteScan_served:
  assumes "encodes (paramOIDs st) vals cells" "room (wr c) = None" "writeBuf (wr c) = []"
    and "rx (rd c) = frames (answer [(MsgBindComplete, [])] bodies tag status) @ rest"
    and "\<forall>b\<in>set bodies. frame_ok b" "frame_ok tag" "frame_ok status" "scan_all E t sp bodies = Inr rows"
  shows "\<exists>r. rx r = rest \<and> bindExecuteScan E t st vals sp c =
    (c\<lparr>wr := after_send st vals cells (wr c), rd := r, lastRows := int (length rows)\<rparr>, Inr rows)"
proof -
  let ?c = "c\<lparr>wr := after_send st vals cells (wr c)\<rparr>" and ?f = "\<lambda>e l c. (c, Inl (EWire e))"
  let ?l = "\<lparr>sl_plan = sp, sl_rows = [], sl_err = None\<rparr>"
  let ?more = "frames (map (Pair MsgDataRow) bodies @ [(MsgCommandComplete, tag), (MsgReadyForQuery, status)]) @ rest"
  have rx: "rx (rd ?c) = frame MsgBindComplete [] @ ?more" using assms(4) by (simp add: answer_def)
  have turn: "scan_turn E t st MsgBindComplete [] ?l c = (c, Inl ?l)" for c by (simp add: scan_turn_def)
  obtain r where r: "rx r = ?more" "msg_loop (scan_turn E t st) ?f ?l ?c = msg_loop (scan_turn E t st) ?f ?l (?c\<lparr>rd := r\<rparr>)"
    using loop_step [OF rx ex_small(1), of "scan_turn E t st", OF turn, of ?f] by blast
  show ?thesis
    using scan_rows_served [of "?c\<lparr>rd := r\<rparr>" bodies tag status rest ?l E t rows st] r assms(5-8)
    by (auto simp: bindExecuteScan_def send_scan_served [OF assms(1-3)])
qed

section \<open>The batched scan\<close>

fun batches :: "nat \<Rightarrow> 'a list \<Rightarrow> 'a list list" where
  "batches n [] = []"
| "batches n (x # xs) = take (Suc n) (x # xs) # batches n (drop n xs)"

lemma batches_small: "xs \<noteq> [] \<Longrightarrow> length xs \<le> Suc n \<Longrightarrow> batches n xs = [xs]"
  by (cases xs) auto

lemma batches_full: "length xs = Suc n \<Longrightarrow> batches n (xs @ ys) = xs # batches n ys"
  by (cases xs) auto

text \<open>A batch in the making: the rows so far, and zero slots after them.\<close>

definition pending :: "gotype \<Rightarrow> nat \<Rightarrow> sval list \<Rightarrow> structPlan \<Rightarrow> 'u \<Rightarrow> 'u batch_locals \<Rightarrow> bool" where
  "pending t n rs sp u l \<longleftrightarrow>
     bl_plan l = sp \<and> slots l = rs @ replicate (n - length rs) (zero t) \<and> filled l = length rs \<and> length rs < n \<and>
     cbErr l = None \<and> bl_err l = None \<and> bl_user l = u"

lemma flush_pending:
  assumes "\<And>b u. snd (cb b u) = None" "slots l = rs @ replicate k (zero t)" "filled l = length rs" "rs \<noteq> []"
  shows "flush_batch t cb l = (l\<lparr>bl_user := fst (cb rs (bl_user l)), slots := replicate (length rs + k) (zero t), filled := 0\<rparr>, None)"
proof -
  obtain u where cb: "cb rs (bl_user l) = (u, None)" using assms(1) [of rs "bl_user l"] by (cases "cb rs (bl_user l)") auto
  show ?thesis using assms(2-4) cb by (simp add: flush_batch_def clearBatchSlots_def replicate_add)
qed

lemma batch_row:
  assumes "\<And>b u. snd (cb b u) = None" "pending t (Suc n) rs sp u l" "fillStructRow E sp body (zero t) = Inr (sp', row)"
  shows "\<exists>l'. (\<forall>c. batch_turn E t st (Suc n) cb MsgDataRow body l c = (c, Inl l')) \<and> totalRows l' = totalRows l + 1 \<and>
    (if length rs = n then pending t (Suc n) [] sp' (fst (cb (rs @ [row]) u)) l' else pending t (Suc n) (rs @ [row]) sp' u l')"
proof -
  have p: "bl_plan l = sp" "slots l = rs @ zero t # replicate (n - length rs) (zero t)" "filled l = length rs" "length rs \<le> n"
    "cbErr l = None" "bl_err l = None" "bl_user l = u"
    using assms(2) by (auto simp: pending_def Suc_diff_le)
  let ?l = "l\<lparr>bl_plan := sp', slots := (slots l)[filled l := row], filled := filled l + 1, totalRows := totalRows l + 1\<rparr>"
  have sl: "slots ?l = (rs @ [row]) @ replicate (n - length rs) (zero t)" "filled ?l = length (rs @ [row])" "rs @ [row] \<noteq> []"
    using p by auto
  have old: "slots l ! filled l = zero t" using p by simp
  show ?thesis
  proof (cases "length rs = n")
    case True
    then show ?thesis using p assms(3) old flush_pending [of cb ?l "rs @ [row]", OF assms(1) sl]
      by (auto simp: batch_turn_def Let_def pending_def)
  next
    case False
    then show ?thesis using p assms(3) old sl by (auto simp: batch_turn_def Let_def pending_def)
  qed
qed

lemma batch_rows_served:
  assumes cb: "\<And>b u. snd (cb b u) = None"
    and "rx (rd c) = frames (map (Pair MsgDataRow) bodies @ [(MsgCommandComplete, tag), (MsgReadyForQuery, status)]) @ rest"
    and "\<forall>b\<in>set bodies. frame_ok b" "frame_ok tag" "frame_ok status" "pending t (Suc n) rs sp u l"
    and "scan_all E t sp bodies = Inr rows"
  shows "\<exists>r. rx r = rest \<and> msg_loop (batch_turn E t st (Suc n) cb) (\<lambda>e l c. (c, bl_user l, Some (EWire e))) l c =
    (c\<lparr>rd := r, lastRows := int (totalRows l + length rows)\<rparr>, fold (\<lambda>b u. fst (cb b u)) (batches n (rs @ rows)) u, None)"
  using assms(2-)
proof (induction bodies arbitrary: l c rows rs sp u)
  case Nil
  let ?h = "batch_turn E t st (Suc n) cb" and ?f = "\<lambda>e l c. (c, bl_user l, Some (EWire e))"
  have p: "slots l = rs @ replicate (Suc n - length rs) (zero t)" "filled l = length rs" "length rs \<le> n"
    "cbErr l = None" "bl_err l = None" "bl_user l = u"
    using Nil.prems(5) by (auto simp: pending_def)
  have rx: "rx (rd c) = frame MsgCommandComplete tag @ frame MsgReadyForQuery status @ rest" using Nil.prems(1) by simp
  have t1: "?h MsgCommandComplete tag l c = (c, Inl l)" for c by (simp add: batch_turn_def)
  have t2: "?h MsgReadyForQuery status l c =
      (c\<lparr>lastRows := int (totalRows l)\<rparr>, Inr (fold (\<lambda>b u. fst (cb b u)) (batches n rs) u, None))" for c
  proof (cases "rs = []")
    case True
    then show ?thesis using p by (simp add: batch_turn_def Let_def flush_batch_def)
  next
    case False
    then show ?thesis using p flush_pending [of cb l rs, OF cb p(1,2)] batches_small [of rs n]
      by (simp add: batch_turn_def Let_def)
  qed
  obtain r where r: "rx r = frame MsgReadyForQuery status @ rest" "msg_loop ?h ?f l c = msg_loop ?h ?f l (c\<lparr>rd := r\<rparr>)"
    using loop_step [OF rx Nil.prems(3), of ?h, OF t1, of ?f] by blast
  have rx2: "rx (rd (c\<lparr>rd := r\<rparr>)) = frame MsgReadyForQuery status @ rest" using r(1) by simp
  obtain r2 where "rx r2 = rest" "msg_loop ?h ?f l (c\<lparr>rd := r\<rparr>) =
      (c\<lparr>rd := r2, lastRows := int (totalRows l)\<rparr>, fold (\<lambda>b u. fst (cb b u)) (batches n rs) u, None)"
    using loop_turn [OF rx2 Nil.prems(4), of ?h ?f l] unfolding t2 by auto
  then show ?case using r(2) Nil.prems(6) by auto
next
  case (Cons b bs)
  let ?h = "batch_turn E t st (Suc n) cb" and ?f = "\<lambda>e l c. (c, bl_user l, Some (EWire e))"
  obtain sp1 row rows1 where f: "fillStructRow E sp b (zero t) = Inr (sp1, row)" "scan_all E t sp1 bs = Inr rows1" "rows = row # rows1"
    using Cons.prems(6) by (auto split: sum.splits)
  let ?more = "frames (map (Pair MsgDataRow) bs @ [(MsgCommandComplete, tag), (MsgReadyForQuery, status)]) @ rest"
  have rx: "rx (rd c) = frame MsgDataRow b @ ?more" using Cons.prems(1) by simp
  have ok: "frame_ok b" using Cons.prems(2) by simp
  obtain l1 where l1: "\<And>c. ?h MsgDataRow b l c = (c, Inl l1)" "totalRows l1 = totalRows l + 1"
    "if length rs = n then pending t (Suc n) [] sp1 (fst (cb (rs @ [row]) u)) l1 else pending t (Suc n) (rs @ [row]) sp1 u l1"
    using batch_row [of cb t n rs sp u l E b sp1 row st, OF cb Cons.prems(5) f(1)] by blast
  obtain r where r: "rx r = ?more" "msg_loop ?h ?f l c = msg_loop ?h ?f l1 (c\<lparr>rd := r\<rparr>)"
    using loop_step [OF rx ok, of ?h, OF l1(1), of ?f] by blast
  define rs1 u1 where d: "rs1 = (if length rs = n then [] else rs @ [row])" "u1 = (if length rs = n then fst (cb (rs @ [row]) u) else u)"
  have p1: "pending t (Suc n) rs1 sp1 u1 l1" using l1(3) by (simp add: d split: if_splits)
  have b: "fold (\<lambda>b u. fst (cb b u)) (batches n (rs1 @ rows1)) u1 = fold (\<lambda>b u. fst (cb b u)) (batches n (rs @ rows)) u"
    using batches_full [of "rs @ [row]" n rows1] by (simp add: d f(3))
  obtain r2 where "rx r2 = rest" "msg_loop ?h ?f l1 (c\<lparr>rd := r\<rparr>) =
      (c\<lparr>rd := r2, lastRows := int (totalRows l1 + length rows1)\<rparr>, fold (\<lambda>b u. fst (cb b u)) (batches n (rs1 @ rows1)) u1, None)"
    using Cons.IH [OF _ _ Cons.prems(3,4) p1 f(2), of "c\<lparr>rd := r\<rparr>"] r(1) Cons.prems(2) by auto
  then show ?case using r(2) f(3) l1(2) b by auto
qed

lemma bindExecuteScanBatched_served:
  assumes "encodes (paramOIDs st) vals cells" "room (wr c) = None" "writeBuf (wr c) = []"
    and "rx (rd c) = frames (answer [(MsgBindComplete, [])] bodies tag status) @ rest"
    and "\<forall>b\<in>set bodies. frame_ok b" "frame_ok tag" "frame_ok status" "scan_all E t sp bodies = Inr rows"
    and "\<And>b u. snd (cb b u) = None"
  shows "\<exists>r. rx r = rest \<and> bindExecuteScanBatched E t st vals sp (Suc n) cb u c =
    (c\<lparr>wr := after_send st vals cells (wr c), rd := r, lastRows := int (length rows)\<rparr>,
     fold (\<lambda>b u. fst (cb b u)) (batches n rows) u, None)"
proof -
  let ?c = "c\<lparr>wr := after_send st vals cells (wr c)\<rparr>" and ?f = "\<lambda>e l c. (c, bl_user l, Some (EWire e))"
  let ?h = "batch_turn E t st (Suc n) cb"
  let ?l = "\<lparr>bl_plan = sp, slots = replicate (Suc n) (zero t), filled = 0, totalRows = 0, cbErr = None, bl_err = None, bl_user = u\<rparr>"
  let ?more = "frames (map (Pair MsgDataRow) bodies @ [(MsgCommandComplete, tag), (MsgReadyForQuery, status)]) @ rest"
  have rx: "rx (rd ?c) = frame MsgBindComplete [] @ ?more" using assms(4) by (simp add: answer_def)
  have turn: "?h MsgBindComplete [] ?l c = (c, Inl ?l)" for c by (simp add: batch_turn_def)
  obtain r where r: "rx r = ?more" "msg_loop ?h ?f ?l ?c = msg_loop ?h ?f ?l (?c\<lparr>rd := r\<rparr>)"
    using loop_step [OF rx ex_small(1), of ?h, OF turn, of ?f] by blast
  have "pending t (Suc n) [] sp u ?l" by (simp add: pending_def)
  from batch_rows_served [of cb "?c\<lparr>rd := r\<rparr>" bodies tag status rest t n "[]" sp u ?l E rows st, OF assms(9) _ assms(5-7) this assms(8)]
  show ?thesis using r by (auto simp: bindExecuteScanBatched_def send_scan_served [OF assms(1-3)])
qed

section \<open>Arrays\<close>

text \<open>A setter that is the same after each of the cells \<open>xs\<close> and writes \<open>f x\<close> over a zero value.\<close>

definition steady :: "scan_env \<Rightarrow> setter \<Rightarrow> gotype \<Rightarrow> (bytes option \<Rightarrow> sval) \<Rightarrow> bytes option list \<Rightarrow> bool" where
  "steady E s e f xs \<longleftrightarrow> (\<forall>x\<in>set xs. run E s x (zero e) = Inr (s, f x)) \<and> (\<forall>b. Some b \<in> set xs \<longrightarrow> length b < 2 ^ 31)"

lemma readArrayElem_send:
  assumes "\<forall>b. x = Some b \<longrightarrow> length b < 2 ^ 31"
  shows "readArrayElem (elem_send x @ rest) = Inr (x, rest)"
proof (cases x)
  case None
  have "int32_of (be_get (be_put 4 (- 1))) = - 1" by (simp add: be_simps int32_of_mod [of "- 1", simplified] int32_of_id)
  then show ?thesis using None by (simp add: readArrayElem_def elem_send_def)
next
  case (Some b)
  then have "int32_of (be_get (be_put 4 (int (length b)))) = int (length b)"
    using assms by (simp add: be_get_put int32_of_mod [simplified] int32_of_id)
  then show ?thesis using Some by (simp add: readArrayElem_def elem_send_def)
qed

lemma array_loop_send:
  "steady E s e f xs \<Longrightarrow> array_loop E e s (length xs) (concat (map elem_send xs) @ rest) = Inr (s, map f xs)"
proof (induction xs)
  case (Cons x xs)
  then have IH: "array_loop E e s (length xs) (concat (map elem_send xs) @ rest) = Inr (s, map f xs)" by (simp add: steady_def)
  have "readArrayElem (elem_send x @ concat (map elem_send xs) @ rest) = Inr (x, concat (map elem_send xs) @ rest)"
    using Cons.prems by (intro readArrayElem_send) (auto simp: steady_def)
  then show ?case using IH Cons.prems by (subst array_loop.simps) (simp add: steady_def)
qed (simp add: array_loop.simps [of _ _ _ 0])

lemma in_rows_chunks: "length vs = k * l \<Longrightarrow> in_rows k l vs = map (\<lambda>r. SSlice (Some r)) (chunks l k vs)"
proof (induction k arbitrary: vs)
  case (Suc k)
  have "slice (i * l + l) (i * l + l + l) vs = slice (i * l) (i * l + l) (drop l vs)" for i
    by (simp add: slice_def add.commute)
  then have "in_rows (Suc k) l vs = SSlice (Some (take l vs)) # in_rows k l (drop l vs)"
    by (simp add: in_rows_def upt_conv_Cons map_Suc_upt [symmetric] slice_def [of 0] add.commute del: upt_Suc)
  then show ?case using Suc by simp
qed (simp add: in_rows_def)

lemma array_headers_send:
  assumes "n < 2 ^ 31" "m < 2 ^ 31"
  shows "array1_header (array_send flags elem [(n, lb)] xs) = Inr (Some (n, concat (map elem_send xs)))"
    and "array2_header (array_send flags elem [(n, lb), (m, lb')] xs) = Inr (Some (n, m, concat (map elem_send xs)))"
proof -
  have i: "int32_of (be_get (be_put 4 (int k))) = int k" if "k < 2 ^ 31" for k
    using that by (simp add: be_get_put int32_of_mod [simplified] int32_of_id)
  have i1: "int32_of (be_get (be_put 4 1)) = 1" "int32_of (be_get (be_put 4 2)) = 2" using i [of 1] i [of 2] by simp_all
  show "array1_header (array_send flags elem [(n, lb)] xs) = Inr (Some (n, concat (map elem_send xs)))"
    using i [OF assms(1)] i1 by (simp add: array1_header_def array_send_def Let_def)
  show "array2_header (array_send flags elem [(n, lb), (m, lb')] xs) = Inr (Some (n, m, concat (map elem_send xs)))"
    using i [OF assms(1)] i [OF assms(2)] i1 by (simp add: array2_header_def array_send_def Let_def slice_def)
qed

lemma run_array_send:
  assumes "steady E s e f xs"
  shows "length xs < 2 ^ 31 \<Longrightarrow>
      run E (SetArray1 e s) (Some (array_send flags elem [(length xs, lb)] xs)) old = Inr (SetArray1 e s, SSlice (Some (map f xs)))"
    and "length xs = n * m \<Longrightarrow> n < 2 ^ 31 \<Longrightarrow> m < 2 ^ 31 \<Longrightarrow>
      run E (SetArray2 e s) (Some (array_send flags elem [(n, lb), (m, lb')] xs)) old =
        Inr (SetArray2 e s, SSlice (Some (map (\<lambda>r. SSlice (Some r)) (chunks m n (map f xs)))))"
  using array_loop_send [OF assms, of "[]"]
  by (simp_all add: run_eqs array_headers_send in_rows_chunks)

lemma pick_int8_arrays:
  fixes e :: gotype
  defines "e \<equiv> GPtr (GInt KInt64)"
  shows "pickSetter OIDInt8Array 1 (GSlice e) = Inr (SetArray1 e (SetPtr (GInt KInt64) (SetBase (SetInt 8 KInt64))))"
    and "pickSetter OIDInt8Array 1 (GSlice (GSlice e)) = Inr (SetArray2 e (SetPtr (GInt KInt64) (SetBase (SetInt 8 KInt64))))"
proof -
  have b: "pickSetter OIDInt8 1 (GInt KInt64) = Inr (SetBase (SetInt 8 KInt64))"
    by (subst pickSetter.simps)
       (simp add: pickCompositeSetter_def is_struct_def ArrayElem_def pickBinarySetter_def or_else_def intSetter_def)
  have p: "pickSetter OIDInt8 1 e = Inr (SetPtr (GInt KInt64) (SetBase (SetInt 8 KInt64)))"
    unfolding e_def by (subst pickSetter.simps) (simp add: pickCompositeSetter_def is_struct_def ArrayElem_def b)
  have n: "nest (GSlice e) = (0, GSlice e)" "nest (GSlice (GSlice e)) = (1, GSlice e)"
    unfolding e_def by (subst nest.simps, simp, subst nest.simps, simp, subst nest.simps, simp)
  have a: "ArrayElem OIDInt8Array = OIDInt8" by (simp add: ArrayElem_def)
  show "pickSetter OIDInt8Array 1 (GSlice e) = Inr (SetArray1 e (SetPtr (GInt KInt64) (SetBase (SetInt 8 KInt64))))"
    using p by (subst pickSetter.simps) (simp add: pickCompositeSetter_def is_struct_def a slice_elem_def byte_slice_def n [unfolded e_def] e_def)
  show "pickSetter OIDInt8Array 1 (GSlice (GSlice e)) = Inr (SetArray2 e (SetPtr (GInt KInt64) (SetBase (SetInt 8 KInt64))))"
    using p by (subst pickSetter.simps) (simp add: pickCompositeSetter_def is_struct_def a slice_elem_def byte_slice_def n [unfolded e_def] e_def)
qed

section \<open>Properties\<close>



text \<open>C10. Batches are the rows.  For a cached statement and a server that answers as documented, \<open>ScanStruct\<close>
  returns the rows sent, \<open>ScanStructBatched\<close> with a callback that does not fail calls it on exactly these
  rows, cut into pieces of \<open>batchSize\<close> with a shorter last one, in order, with no value of an earlier batch
  left in a slot, and both leave the connection at the next answer.\<close>

theorem batches_are_the_rows:
  assumes "rejectNonSelect sql = None" "\<not> ctx_done x" "ready sql st p c" "encodes (paramOIDs st) vals cells" "is_struct t"
    and "buildStructPlan (lower E) t (Some p) = Inr sp" "0 < batchSize" "\<forall>b u. snd (cb b u) = None"
    and "rx (rd c) = frames (answer [(MsgBindComplete, [])] bodies tag status) @ rest"
    and "\<forall>b\<in>set bodies. frame_ok b" "frame_ok tag" "frame_ok status" "scan_all E t sp bodies = Inr rows"
  shows "\<exists>c1 c2. ScanStruct E t x sql vals c = (c1, Inr rows) \<and>
    ScanStructBatched E t x batchSize (Some cb) sql vals u c =
      (c2, fold (\<lambda>b u. fst (cb b u)) (batches (nat batchSize - 1) rows) u, None) \<and>
    rx (rd c1) = rest \<and> rx (rd c2) = rest \<and> lastRows c1 = int (length rows) \<and> lastRows c2 = int (length rows)"
proof -
  have st: "sc_get sql (stmts c) = Some st" "plan st = Some p" "room (wr c) = None" "writeBuf (wr c) = []"
    using assms(3) by (auto simp: ready_def)
  obtain n where n: "nat batchSize = Suc n" using assms(7) by (cases "nat batchSize") auto
  obtain r1 where 1: "rx r1 = rest" "bindExecuteScan E t st vals sp c =
    (c\<lparr>wr := after_send st vals cells (wr c), rd := r1, lastRows := int (length rows)\<rparr>, Inr rows)"
    using bindExecuteScan_served [OF assms(4) st(3,4) assms(9-13)] by blast
  obtain r2 where 2: "rx r2 = rest" "bindExecuteScanBatched E t st vals sp (Suc n) cb u c =
    (c\<lparr>wr := after_send st vals cells (wr c), rd := r2, lastRows := int (length rows)\<rparr>,
     fold (\<lambda>b u. fst (cb b u)) (batches n rows) u, None)"
    using bindExecuteScanBatched_served [where cb = cb and u = u, OF assms(4) st(3,4) assms(9-13)] assms(8) by blast
  have ob: "obtain_stmt prepareAndDescribe sql c = (c, Inr (True, st))" by (simp add: obtain_stmt_def st(1))
  show ?thesis using assms(1,2,5,6,7) 1 2 n st(2)
    by (simp add: ScanStruct_def ScanStructBatched_def attachContext_def ob numeral_2_eq_2)
qed

text \<open>C12. Arrays keep their shape and their NULLs: an \<open>int8[]\<close> the server sends scans into \<^verbatim>\<open>[]*int64\<close>
  as the list of its elements, and a two-dimensional one into \<^verbatim>\<open>[][]*int64\<close> as its rows.\<close>

theorem arrays_scan_exactly:
  assumes "\<forall>v. Some v \<in> set ks \<longrightarrow> - (2 ^ 63) \<le> v \<and> v < 2 ^ 63" "length ks < 2 ^ 31"
    and "length ks = n * m" "n < 2 ^ 31" "m < 2 ^ 31"
  shows "\<exists>s1 s2. pickSetter OIDInt8Array 1 (GSlice (GPtr (GInt KInt64))) = Inr s1 \<and>
    run E s1 (Some (array_send flags 20 [(length ks, lb)] (map (map_option (be_put 8)) ks))) old1 =
      Inr (s1, SSlice (Some (map (\<lambda>k. SPtr (map_option SInt k)) ks))) \<and>
    pickSetter OIDInt8Array 1 (GSlice (GSlice (GPtr (GInt KInt64)))) = Inr s2 \<and>
    run E s2 (Some (array_send flags 20 [(n, lb), (m, lb')] (map (map_option (be_put 8)) ks))) old2 =
      Inr (s2, SSlice (Some (map (\<lambda>r. SSlice (Some r)) (chunks m n (map (\<lambda>k. SPtr (map_option SInt k)) ks)))))"
proof -
  let ?e = "GPtr (GInt KInt64)" and ?s = "SetPtr (GInt KInt64) (SetBase (SetInt 8 KInt64))"
  let ?f = "\<lambda>x. SPtr (map_option (\<lambda>b. SInt (int64_of (be_get b))) x)"
  let ?xs = "map (map_option (be_put 8)) ks"
  have "run E ?s x (zero ?e) = Inr (?s, ?f x)" if "x \<in> set ?xs" for x
    using that by (auto simp: run_eqs set_base_def set_raw_def wire_int_def conv_int_def)
  moreover have "length b < 2 ^ 31" if "Some b \<in> set ?xs" for b using that by (auto simp: map_option_case split: option.splits)
  ultimately have st: "steady E ?s ?e ?f ?xs" by (simp add: steady_def)
  have "int64_of (be_get (be_put 8 v)) = v" if "Some v \<in> set ks" for v
    using assms(1) that int64_of_mod [of v] by (simp add: be_get_put int64_of_id)
  then have vals: "map ?f ?xs = map (\<lambda>k. SPtr (map_option SInt k)) ks"
    by (auto simp: option.map_comp comp_def intro!: map_option_cong)
  have len: "length ?xs = length ks" by simp
  show ?thesis
    using run_array_send(1) [OF st, unfolded vals len, OF assms(2)] run_array_send(2) [OF st, unfolded vals len, OF assms(3-5)]
      pick_int8_arrays by blast
qed

theorem arrays_scan_exactly_witness:
  "\<exists>s. pickSetter OIDInt8Array 1 (GSlice (GSlice (GPtr (GInt KInt64)))) = Inr s \<and>
    run \<lparr>lower = id, scanm = \<lambda>n d v. Inr v\<rparr> s (Some (array_send 1 20 [(2, 1), (1, 1)] [Some (be_put 8 7), None])) (SSlice None) =
      Inr (s, SSlice (Some [SSlice (Some [SPtr (Some (SInt 7))]), SSlice (Some [SPtr None])]))"
proof -
  let ?E = "\<lparr>lower = id, scanm = \<lambda>n d v. Inr v\<rparr> :: scan_env"
  have c: "map (\<lambda>r. SSlice (Some r)) (chunks 1 2 (map (\<lambda>k. SPtr (map_option SInt k)) [Some 7, None])) =
      [SSlice (Some [SPtr (Some (SInt 7))]), SSlice (Some [SPtr None])]"
    "map (map_option (be_put 8)) [Some 7, None] = [Some (be_put 8 7), None]"
    by (simp_all add: numeral_2_eq_2)
  obtain s2 where "pickSetter OIDInt8Array 1 (GSlice (GSlice (GPtr (GInt KInt64)))) = Inr s2"
    "run ?E s2 (Some (array_send 1 20 [(2, 1), (1, 1)] (map (map_option (be_put 8)) [Some 7, None]))) (SSlice None) =
      Inr (s2, SSlice (Some (map (\<lambda>r. SSlice (Some r)) (chunks 1 2 (map (\<lambda>k. SPtr (map_option SInt k)) [Some 7, None])))))"
    using arrays_scan_exactly [where ks = "[Some 7, None]" and n = 2 and m = 1 and E = ?E and flags = 1 and lb = 1 and lb' = 1
        and ?old1.0 = "SSlice None" and ?old2.0 = "SSlice None"] by fastforce
  then show ?thesis unfolding c by blast
qed

text \<open>The fast path passes by the user's \<open>Scan\<close> method.  For a field of a defined integer type whose
  pointer implements \<^verbatim>\<open>sql.Scanner\<close>, on an \<open>int4\<close> column in binary format, the value on the wire is
  stored without calling \<open>Scan\<close>, even when \<open>Scan\<close> would refuse it; only NULL reaches it.\<close>

theorem scan_method_bypassed:
  assumes "exported f" "ftag f = None" "TypeOID col = OIDInt4" "Format col = 1" "lower E (Name col) = lower E (fname f)"
    and "Columns p = [col]"
  shows "\<exists>sp. buildStructPlan (lower E) (GStruct [(f, GScanner n (GInt KInt32))]) (Some p) = Inr sp \<and>
    fillStructRow E sp (datarow_send [Some (be_put 4 v)]) (SStruct [SInt 0]) = Inr (sp, SStruct [SInt (int32_of v)]) \<and>
    fillStructRow E sp (datarow_send [None]) (SStruct [SInt 0]) =
      (case scanm E n DNil (SInt 0) of Inl e \<Rightarrow> Inl e | Inr v \<Rightarrow> Inr (sp, SStruct [v]))"
proof -
  let ?t = "GStruct [(f, GScanner n (GInt KInt32))]" and ?g = "GScanner n (GInt KInt32)"
  let ?sp = "[FieldSetter [0] (SetScan n OIDInt4 1) opInt4BinInt32]"
  have emb: "\<not> isEmbeddedFlatten f ?g" by (simp add: isEmbeddedFlatten_def is_struct_def)
  have "walkStructFields (lower E) ?t [] = [lower E (fname f) \<mapsto> \<lparr>fr_type = ?g, fr_path = [0]\<rparr>]"
    by (subst walkStructFields.simps) (simp add: fields_of_def direct_fields_def emb assms(1,2))
  moreover have "inlineOpFor OIDInt4 1 ?g = opInt4BinInt32" by (simp add: inlineOpFor_def)
  ultimately have 1: "buildStructPlan (lower E) ?t (Some p) = Inr ?sp"
    using assms(3-6) by (simp add: buildStructPlan_def pickSetter_scanner)
  have n: "int16_of (be_get (be_put 2 1)) = 1" by (simp add: be_get_put int16_of_id)
  have "readColumn (elem_send (Some (be_put 4 v)) @ []) = Inr (Some (be_put 4 v), [])" "readColumn (elem_send None @ []) = Inr (None, [])"
    using readArrayElem_send [of "Some (be_put 4 v)" "[]"] readArrayElem_send [of None "[]"]
    by (auto simp: readColumn_def readArrayElem_def Let_def split: if_splits)
  moreover have "int32_of (be_get (be_put 4 v)) = int32_of v" using int32_of_mod [of v] by (simp add: be_get_put)
  ultimately show ?thesis
    by (intro exI [of _ ?sp]) (auto simp: 1 fillStructRow_def datarow_send_def n scan_cell_def inline_value_def run_eqs split: sum.split)
qed

text \<open>A number that does not fit its field is stored modulo its width, without an error: scanning an
  \<open>int8\<close> column into a field of a narrower integer type keeps the low bits.\<close>

theorem narrow_field_wraps:
  assumes "- (2 ^ 63) \<le> v" "v < 2 ^ 63"
  shows "pickSetter OIDInt8 1 (GInt k) = Inr (SetBase (SetInt 8 k)) \<and>
    run E (SetBase (SetInt 8 k)) (Some (be_put 8 v)) old = Inr (SetBase (SetInt 8 k), SInt (conv_int k v))"
proof -
  have "pickSetter OIDInt8 1 (GInt k) = Inr (SetBase (SetInt 8 k))"
    by (subst pickSetter.simps)
       (simp add: pickCompositeSetter_def is_struct_def ArrayElem_def pickBinarySetter_def or_else_def intSetter_def)
  moreover have "int64_of (be_get (be_put 8 v)) = v" using assms int64_of_mod [of v] by (simp add: be_get_put int64_of_id)
  ultimately show ?thesis by (simp add: run_eqs set_base_def set_raw_def wire_int_def)
qed

text \<open>A row type with one scanner field, for the witness.\<close>

definition ex_field :: field_info where
  "ex_field = \<lparr>fname = asc ''N'', ftag = None, exported = True, anon = False\<rparr>"

definition ex_scan_env :: scan_env where
  "ex_scan_env = \<lparr>lower = map (\<lambda>b. if 65 \<le> b \<and> b \<le> 90 then b + 32 else b), scanm = \<lambda>n d v. Inl (EMsg ''refused'')\<rparr>"

lemma ex_plan_column: "\<exists>col. Columns ex_plan = [col] \<and> TypeOID col = OIDInt4 \<and> Format col = 1 \<and> Name col = asc ''n''"
  by (simp add: ex_plan_def ex_plan0_def ApplyFormatsEx_def apply_format_def Let_def split: option.split)

theorem narrow_field_wraps_witness:
  "run ex_scan_env (SetBase (SetInt 8 KInt16)) (Some (be_put 8 65537)) (SInt 0) = Inr (SetBase (SetInt 8 KInt16), SInt 1)"
proof -
  have "conv_int KInt16 65537 = 1" by code_simp
  then show ?thesis using narrow_field_wraps [of 65537 KInt16 ex_scan_env "SInt 0"] by simp
qed

theorem scan_method_bypassed_witness:
  "\<exists>sp. buildStructPlan (lower ex_scan_env) (GStruct [(ex_field, GScanner 1 (GInt KInt32))]) (Some ex_plan) = Inr sp \<and>
    fillStructRow ex_scan_env sp (datarow_send [Some (be_put 4 7)]) (SStruct [SInt 0]) = Inr (sp, SStruct [SInt 7]) \<and>
    fillStructRow ex_scan_env sp (datarow_send [None]) (SStruct [SInt 0]) = Inl (EMsg ''refused'')"
proof -
  obtain col where col: "Columns ex_plan = [col]" "TypeOID col = OIDInt4" "Format col = 1" "Name col = asc ''n''" using ex_plan_column by blast
  have low: "lower ex_scan_env (Name col) = lower ex_scan_env (fname ex_field)"
    by (simp add: col(4) ex_scan_env_def ex_field_def ascii_simps)
  have f: "exported ex_field" "ftag ex_field = None" by (simp_all add: ex_field_def)
  have 7: "int32_of 7 = 7" by (simp add: int32_of_id)
  show ?thesis
    using scan_method_bypassed [OF f col(2,3) low col(1), of 1 7] by (simp add: ex_scan_env_def 7)
qed

text \<open>A row type with one plain field and its plan.\<close>

definition ex_type :: gotype where "ex_type = GStruct [(ex_field, GInt KInt64)]"

definition ex_columns :: structPlan where "ex_columns = [FieldSetter [0] (SetBase (SetInt 4 KInt64)) opInt4BinInt64]"

lemma ex_lower: "lower ex_scan_env (asc ''n'') = asc ''n''" "lower ex_scan_env (fname ex_field) = asc ''n''"
  by (simp_all add: ex_scan_env_def ex_field_def ascii_simps)

lemma ex_fields: "walkStructFields (lower ex_scan_env) ex_type [] = [asc ''n'' \<mapsto> \<lparr>fr_type = GInt KInt64, fr_path = [0]\<rparr>]"
proof -
  have emb: "\<not> isEmbeddedFlatten ex_field (GInt KInt64)" by (simp add: isEmbeddedFlatten_def is_struct_def)
  have f: "exported ex_field" "ftag ex_field = None" by (simp_all add: ex_field_def)
  show ?thesis unfolding ex_type_def
    by (subst walkStructFields.simps) (simp add: fields_of_def direct_fields_def emb f ex_lower)
qed

lemma ex_struct_plan: "buildStructPlan (lower ex_scan_env) ex_type (Some ex_plan) = Inr ex_columns"
proof -
  have pk: "pickSetter OIDInt4 1 (GInt KInt64) = Inr (SetBase (SetInt 4 KInt64))"
    by (subst pickSetter.simps)
       (simp add: pickCompositeSetter_def is_struct_def ArrayElem_def pickBinarySetter_def or_else_def intSetter_def)
  obtain col where col: "Columns ex_plan = [col]" "TypeOID col = OIDInt4" "Format col = 1" "Name col = asc ''n''" using ex_plan_column by blast
  show ?thesis by (simp add: buildStructPlan_def ex_fields col ex_lower pk ex_columns_def inlineOpFor_def)
qed

lemma ex_fill: "fillStructRow ex_scan_env ex_columns (ex_row b) (zero ex_type) = Inr (ex_columns, SStruct [SInt (uint b)])"
proof -
  have b: "uint b < 2 ^ 31" "0 \<le> uint b" using uint_lt2p [of b] by simp_all
  then have "int32_of (be_get [0, 0, 0, b]) = uint b"
    using int32_of_id [of "uint b"] order_trans [of "- (2 ^ 31)" 0 "uint b"] by simp
  moreover have "readColumn (elem_send (Some [0, 0, 0, b]) @ []) = Inr (Some [0, 0, 0, b], [])"
    using readArrayElem_send [of "Some [0, 0, 0, b]" "[]"] by (auto simp: readColumn_def readArrayElem_def Let_def split: if_splits)
  moreover have "int16_of (be_get (be_put 2 1)) = 1" by (simp add: be_get_put int16_of_id)
  ultimately show ?thesis
    by (simp add: fillStructRow_def ex_row_def datarow_send_def ex_columns_def scan_cell_def inline_value_def ex_type_def)
qed


text \<open>A callback that collects the batches.\<close>

definition collect :: "sval list \<Rightarrow> sval list list \<Rightarrow> sval list list \<times> err option" where
  "collect b bs = (bs @ [b], None)"

theorem batches_are_the_rows_witness:
  "\<exists>c1 c2. ScanStruct ex_scan_env ex_type [] ex_sql [] (ex_client (frames (answer [(MsgBindComplete, [])] (map ex_row [7, 8, 9]) [] []) @ [1])) =
      (c1, Inr [SStruct [SInt 7], SStruct [SInt 8], SStruct [SInt 9]]) \<and>
    ScanStructBatched ex_scan_env ex_type [] 2 (Some collect) ex_sql [] []
      (ex_client (frames (answer [(MsgBindComplete, [])] (map ex_row [7, 8, 9]) [] []) @ [1])) =
      (c2, [[SStruct [SInt 7], SStruct [SInt 8]], [SStruct [SInt 9]]], None)"
proof -
  define c where "c = ex_client (frames (answer [(MsgBindComplete, [])] (map ex_row [7, 8, 9]) [] []) @ [1])"
  have x: "\<not> ctx_done []" by (simp add: ctx_done_def ask_def)
  have cb: "\<forall>b u. snd (collect b u) = None" by (simp add: collect_def)
  have rx: "rx (rd c) = frames (answer [(MsgBindComplete, [])] (map ex_row [7, 8, 9]) [] []) @ [1]" by (simp add: c_def ex_client_def)
  have ok: "\<forall>b\<in>set (map ex_row [7, 8, 9]). frame_ok b" using ex_rows_sent [of "[7, 8, 9]"] unfolding rows_sent_def by blast
  have st: "is_struct ex_type" by (simp add: is_struct_def ex_type_def)
  have rows: "scan_all ex_scan_env ex_type ex_columns (map ex_row [7, 8, 9]) = Inr [SStruct [SInt 7], SStruct [SInt 8], SStruct [SInt 9]]"
    by (simp add: ex_fill)
  have f: "frame_ok []" by (simp add: frame_ok_def)
  have b: "fold (\<lambda>b u. fst (collect b u)) (batches (nat 2 - 1) [SStruct [SInt 7], SStruct [SInt 8], SStruct [SInt 9]]) [] =
      [[SStruct [SInt 7], SStruct [SInt 8]], [SStruct [SInt 9]]]"
    by (simp add: collect_def)
  have "(0 :: int) < 2" by simp
  from batches_are_the_rows [OF ex_select x _ ex_encodes st ex_struct_plan this cb rx ok f f rows, of "[]"]
  show ?thesis using ex_ready unfolding b c_def by blast
qed


end
