(* ===== verification/Stdlib.thy ===== *)
theory Stdlib
  imports Scan Exec Iter
begin

text \<open>
  src/pgz/stdlib/stdlib.go: the driver for \<^verbatim>\<open>database/sql\<close>.  A connection (\<open>Conn\<close> in the code, \<open>SqlConn\<close>
  here) points to its client, and so do the rows of a query, which outlive \<open>Close\<close>; here the client stays
  in the record and \<open>nilClient\<close> says that the pointer is nil.  \<open>driver.ErrBadConn\<close> is an error of its own (no other package of the driver
  returns it).  A \<open>driver.Value\<close> that goes in is a \<open>goval\<close>, one that comes out a \<open>dval\<close>.  The interface
  of \<^verbatim>\<open>database/sql\<close> is the arguments and results of the operations; what it does with them is not part
  of this repository.
\<close>

section \<open>Connections\<close>

datatype derr = ErrBadConn | DErr err

record SqlConn =
  theClient :: Client
  nilClient :: bool
  bad :: bool
  inTx :: bool

record NamedValue =
  nvName :: bytes
  nvOrdinal :: int
  nvValue :: goval

record TxOptions =
  Isolation :: int
  ReadOnly :: bool

definition new_SqlConn :: "Client \<Rightarrow> SqlConn" where
  "new_SqlConn cl = \<lparr>theClient = cl, nilClient = False, bad = False, inTx = False\<rparr>"

text \<open>\<open>connector.Connect\<close>, where \<open>dial\<close> is \<open>Open\<close> in the environment it meets, and \<open>Driver.Open\<close>, where \<open>u\<close> is what \<^verbatim>\<open>url.Parse\<close> returns.\<close>

definition Connect :: "(config \<Rightarrow> err + Client) \<Rightarrow> config \<Rightarrow> derr + SqlConn" where
  "Connect dial cf = (case dial cf of Inl e \<Rightarrow> Inl (DErr e) | Inr cl \<Rightarrow> Inr (new_SqlConn cl))"

definition Driver_OpenConnector :: "dsn_url option \<Rightarrow> derr + config" where
  "Driver_OpenConnector u = (case u of None \<Rightarrow> Inl (DErr (EMsg ''parse'')) | Some u \<Rightarrow> Inr (ParseDSN u))"

definition Driver_Open :: "(config \<Rightarrow> err + Client) \<Rightarrow> dsn_url option \<Rightarrow> derr + SqlConn" where
  "Driver_Open dial u = (case Driver_OpenConnector u of Inl e \<Rightarrow> Inl e | Inr cf \<Rightarrow> Connect dial cf)"

definition unusable :: "SqlConn \<Rightarrow> bool" where
  "unusable c \<longleftrightarrow> bad c \<or> nilClient c"

definition IsValid :: "SqlConn \<Rightarrow> bool" where
  "IsValid c \<longleftrightarrow> \<not> nilClient c \<and> \<not> bad c"

text \<open>\<open>Close\<close>; \<open>e\<close> is what closing the socket returns.\<close>

definition Conn_Close :: "err option \<Rightarrow> SqlConn \<Rightarrow> SqlConn \<times> derr option" where
  "Conn_Close e c = (if nilClient c then (c, None) else (c\<lparr>nilClient := True\<rparr>, map_option DErr e))"

definition markBad :: "err \<Rightarrow> SqlConn \<Rightarrow> SqlConn" where
  "markBad e c = (case e of EPg _ \<Rightarrow> c | ECtx \<Rightarrow> c | _ \<Rightarrow> c\<lparr>bad := True\<rparr>)"

definition Conn_Ping :: "ctx \<Rightarrow> SqlConn \<Rightarrow> SqlConn \<times> derr option" where
  "Conn_Ping x c =
     (if nilClient c then (c, Some ErrBadConn)
      else case Ping x (theClient c) of (cl, e) \<Rightarrow> (c\<lparr>theClient := cl\<rparr>, map_option DErr e))"

section \<open>Arguments\<close>

fun namedToAny :: "NamedValue list \<Rightarrow> err + goval list" where
  "namedToAny [] = Inr []"
| "namedToAny (a # as) =
     (if nvName a \<noteq> [] then Inl (EMsg ''pgz/stdlib: named parameters not supported; use positional $1..$N'')
      else case namedToAny as of Inl e \<Rightarrow> Inl e | Inr vs \<Rightarrow> Inr (nvValue a # vs))"

definition valuesToNamed :: "goval list \<Rightarrow> NamedValue list" where
  "valuesToNamed vs = map (\<lambda>(i, v). \<lparr>nvName = [], nvOrdinal = int i + 1, nvValue = v\<rparr>) (enumerate 0 vs)"

section \<open>Exec\<close>

text \<open>\<open>execResult\<close> holds the row count.\<close>

definition Conn_ExecContext :: "ctx \<Rightarrow> bytes \<Rightarrow> NamedValue list \<Rightarrow> SqlConn \<Rightarrow> SqlConn \<times> (derr + int)" where
  "Conn_ExecContext x query args c =
     (if bad c \<or> nilClient c then (c, Inl ErrBadConn)
      else case namedToAny args of
        Inl e \<Rightarrow> (c, Inl (DErr e))
      | Inr vals \<Rightarrow>
          (case Exec x query vals (theClient c) of
             (cl, res, Some e) \<Rightarrow> (markBad e (c\<lparr>theClient := cl\<rparr>), Inl (DErr e))
           | (cl, res, None) \<Rightarrow> (c\<lparr>theClient := cl\<rparr>, Inr (RowsAffected res))))"

definition result_LastInsertId :: "int \<Rightarrow> int \<times> derr option" where
  "result_LastInsertId r =
     (0, Some (DErr (EMsg ''pgz/stdlib: LastInsertId not supported; use INSERT ... RETURNING id with QueryRow'')))"

definition result_RowsAffected :: "int \<Rightarrow> int \<times> derr option" where
  "result_RowsAffected r = (r, None)"

section \<open>Rows\<close>

datatype next_op =
    opNextFallback | opNextInt2 | opNextInt4 | opNextInt8 | opNextFloat4 | opNextFloat8 | opNextBool | opNextText
  | opNextJSONB | opNextJSON | opNextBytea

definition opForNext :: "OID \<Rightarrow> int \<Rightarrow> next_op" where
  "opForNext oid format =
     (if format \<noteq> 1 then opNextFallback
      else if oid = OIDBool then opNextBool
      else if oid = OIDInt2 then opNextInt2
      else if oid = OIDInt4 \<or> oid = OIDOID then opNextInt4
      else if oid = OIDInt8 then opNextInt8
      else if oid = OIDFloat4 then opNextFloat4
      else if oid = OIDFloat8 then opNextFloat8
      else if oid \<in> {OIDText, OIDVarchar, OIDBPChar, OIDName} then opNextText
      else if oid = OIDJSONB then opNextJSONB
      else if oid = OIDJSON then opNextJSON
      else if oid = OIDBytea then opNextBytea
      else opNextFallback)"

record pgRows =
  r_it :: Iterator
  r_plan :: Plan
  r_decoders :: "(bytes \<Rightarrow> dval option) list"
  r_ops :: "next_op list"
  r_names :: "bytes list"

definition newRows :: "Iterator \<Rightarrow> Client \<Rightarrow> Client \<times> (err + pgRows)" where
  "newRows it cl =
     (case PlanOf it of
        None \<Rightarrow> (case iter_Close it cl of (cl, _, _) \<Rightarrow> (cl, Inl (EMsg ''pgz/stdlib: no plan resolved for query'')))
      | Some p \<Rightarrow>
          (cl, Inr \<lparr>r_it = it, r_plan = p, r_decoders = map (\<lambda>col. DriverValueDecoder (TypeOID col) (Format col)) (Columns p),
                    r_ops = map (\<lambda>col. opForNext (TypeOID col) (Format col)) (Columns p), r_names = map Name (Columns p)\<rparr>))"

definition rows_Columns :: "pgRows \<Rightarrow> bytes list" where
  "rows_Columns r = r_names r"

definition rows_Close :: "pgRows \<Rightarrow> Client \<Rightarrow> Client \<times> pgRows \<times> err option" where
  "rows_Close r cl = (case iter_Close (r_it r) cl of (cl, it, e) \<Rightarrow> (cl, r\<lparr>r_it := it\<rparr>, e))"

definition Conn_QueryContext :: "ctx \<Rightarrow> bytes \<Rightarrow> NamedValue list \<Rightarrow> SqlConn \<Rightarrow> SqlConn \<times> (derr + pgRows)" where
  "Conn_QueryContext x query args c =
     (if bad c \<or> nilClient c then (c, Inl ErrBadConn)
      else case namedToAny args of
        Inl e \<Rightarrow> (c, Inl (DErr e))
      | Inr vals \<Rightarrow>
          (case RawQueryAny x query vals (theClient c) of
             (cl, Inl e) \<Rightarrow> (markBad e (c\<lparr>theClient := cl\<rparr>), Inl (DErr e))
           | (cl, Inr it) \<Rightarrow>
               (case newRows it cl of
                  (cl, Inl e) \<Rightarrow> (c\<lparr>theClient := cl\<rparr>, Inl (DErr e))
                | (cl, Inr r) \<Rightarrow> (c\<lparr>theClient := cl\<rparr>, Inr r))))"

text \<open>The cases of the switch; \<open>None\<close> falls through to the decoder.\<close>

definition next_inline :: "next_op \<Rightarrow> bytes \<Rightarrow> dval option" where
  "next_inline op1 raw =
     (let fixed = (\<lambda>n v. if length raw = n then Some v else None) in
      case op1 of
        opNextInt4 \<Rightarrow> fixed 4 (DInt (int32_of (be_get raw)))
      | opNextInt8 \<Rightarrow> fixed 8 (DInt (int64_of (be_get raw)))
      | opNextInt2 \<Rightarrow> fixed 2 (DInt (int16_of (be_get raw)))
      | opNextBool \<Rightarrow> fixed 1 (DBool (raw ! 0 \<noteq> 0))
      | opNextFloat8 \<Rightarrow> fixed 8 (DFloat (be_get raw))
      | opNextFloat4 \<Rightarrow> fixed 4 (DFloat (float64_of_float32 (be_get raw)))
      | opNextText \<Rightarrow> Some (DString raw)
      | opNextJSONB \<Rightarrow> if 0 < length raw \<and> raw ! 0 = 1 then Some (DBytes (drop 1 raw)) else None
      | opNextJSON \<Rightarrow> Some (DBytes raw)
      | opNextBytea \<Rightarrow> Some (DBytes raw)
      | opNextFallback \<Rightarrow> None)"

definition next_value :: "next_op \<Rightarrow> (bytes \<Rightarrow> dval option) \<Rightarrow> bytes \<Rightarrow> dval option" where
  "next_value op1 decode raw = (case next_inline op1 raw of Some v \<Rightarrow> Some v | None \<Rightarrow> decode raw)"

text \<open>
  The loop over the columns, from column \<open>i\<close> on; what was written before an error stays in \<open>dest\<close>.  Both
  a decoder and an assignment beyond \<open>dest\<close> may panic.
\<close>

definition set_dest :: "nat \<Rightarrow> dval \<Rightarrow> dval list \<Rightarrow> dval list option" where
  "set_dest i v dest = (if i < length dest then Some (dest[i := v]) else None)"

fun next_columns :: "(next_op \<times> (bytes \<Rightarrow> dval option)) list \<Rightarrow> nat \<Rightarrow> bytes \<Rightarrow> dval list \<Rightarrow> dval list \<times> err option" where
  "next_columns [] i body dest = (dest, None)"
| "next_columns ((op1, decode) # cols) i body dest =
     (if length body < 4 then (dest, Some (EMsg ''pgz/stdlib: short column header''))
      else let l = int32_of (be_get (take 4 body)); body = drop 4 body in
        if l = - 1 then
          (case set_dest i DNil dest of None \<Rightarrow> (dest, Some EPanic) | Some dest \<Rightarrow> next_columns cols (i + 1) body dest)
        else if l < 0 \<or> int (length body) < l then (dest, Some (EMsg ''pgz/stdlib: bad column length''))
        else (case next_value op1 decode (take (nat l) body) of
                None \<Rightarrow> (dest, Some EPanic)
              | Some v \<Rightarrow>
                  (case set_dest i v dest of
                     None \<Rightarrow> (dest, Some EPanic)
                   | Some dest \<Rightarrow> next_columns cols (i + 1) (drop (nat l) body) dest)))"

definition rows_Next :: "pgRows \<Rightarrow> dval list \<Rightarrow> Client \<Rightarrow> Client \<times> pgRows \<times> dval list \<times> err option" where
  "rows_Next r dest cl =
     (case NextRaw (r_it r) cl of
        (cl, it, Inl e) \<Rightarrow> (cl, r\<lparr>r_it := it\<rparr>, dest, Some e)
      | (cl, it, Inr body) \<Rightarrow>
          let r = r\<lparr>r_it := it\<rparr> in
          if length body < 2 then (cl, r, dest, Some (EMsg ''pgz/stdlib: short DataRow''))
          else if int16_of (be_get (take 2 body)) \<noteq> int (length (r_decoders r))
          then (cl, r, dest, Some (EMsg ''pgz/stdlib: column count mismatch''))
          else (case next_columns (zip (r_ops r) (r_decoders r)) 0 (drop 2 body) dest of
                  (dest, e) \<Rightarrow> (cl, r, dest, e)))"

section \<open>Transactions\<close>

definition LevelDefault :: int where "LevelDefault = 0"
definition LevelReadUncommitted :: int where "LevelReadUncommitted = 1"
definition LevelReadCommitted :: int where "LevelReadCommitted = 2"
definition LevelRepeatableRead :: int where "LevelRepeatableRead = 4"
definition LevelSerializable :: int where "LevelSerializable = 6"

definition buildBeginStmt :: "TxOptions \<Rightarrow> bytes" where
  "buildBeginStmt opts =
     (let lvl = Isolation opts; base = asc ''BEGIN'';
          base = (if lvl = LevelDefault then base
                  else if lvl = LevelReadUncommitted then base @ asc '' ISOLATION LEVEL READ UNCOMMITTED''
                  else if lvl = LevelReadCommitted then base @ asc '' ISOLATION LEVEL READ COMMITTED''
                  else if lvl = LevelRepeatableRead then base @ asc '' ISOLATION LEVEL REPEATABLE READ''
                  else if lvl = LevelSerializable then base @ asc '' ISOLATION LEVEL SERIALIZABLE''
                  else base)
      in if ReadOnly opts then (if base = asc ''BEGIN'' then base @ asc '' READ ONLY'' else base @ asc '' READ ONLY'') else base)"

text \<open>A transaction points to its connection until it is finished.\<close>

datatype pgzTx = TxOpen | TxFinished

definition BeginTx :: "ctx \<Rightarrow> TxOptions \<Rightarrow> SqlConn \<Rightarrow> SqlConn \<times> (derr + pgzTx)" where
  "BeginTx x opts c =
     (if bad c \<or> nilClient c then (c, Inl ErrBadConn)
      else if inTx c then (c, Inl (DErr (EMsg ''pgz/stdlib: nested transaction not supported'')))
      else (case Exec x (buildBeginStmt opts) [] (theClient c) of
              (cl, res, Some e) \<Rightarrow> (markBad e (c\<lparr>theClient := cl\<rparr>), Inl (DErr e))
            | (cl, res, None) \<Rightarrow> (c\<lparr>theClient := cl, inTx := True\<rparr>, Inr TxOpen)))"

definition Begin_legacy :: "SqlConn \<Rightarrow> SqlConn \<times> (derr + pgzTx)" where
  "Begin_legacy = BeginTx [] \<lparr>Isolation = LevelDefault, ReadOnly = False\<rparr>"

definition tx_finish :: "bytes \<Rightarrow> pgzTx \<Rightarrow> SqlConn \<Rightarrow> SqlConn \<times> pgzTx \<times> derr option" where
  "tx_finish stmt t c =
     (if t = TxFinished then (c, t, Some (DErr (EMsg ''pgz/stdlib: tx already finished'')))
      else if \<not> inTx c then (c, TxFinished, None)
      else let c = c\<lparr>inTx := False\<rparr> in
        if bad c \<or> nilClient c then (c, TxFinished, Some ErrBadConn)
        else (case Exec [] stmt [] (theClient c) of
                (cl, res, Some e) \<Rightarrow> (markBad e (c\<lparr>theClient := cl\<rparr>), TxFinished, Some (DErr e))
              | (cl, res, None) \<Rightarrow> (c\<lparr>theClient := cl\<rparr>, TxFinished, None)))"

definition Commit :: "pgzTx \<Rightarrow> SqlConn \<Rightarrow> SqlConn \<times> pgzTx \<times> derr option" where
  "Commit = tx_finish (asc ''COMMIT'')"

definition Rollback :: "pgzTx \<Rightarrow> SqlConn \<Rightarrow> SqlConn \<times> pgzTx \<times> derr option" where
  "Rollback = tx_finish (asc ''ROLLBACK'')"

section \<open>Statements\<close>

record Stmt =
  stQuery :: bytes
  stNumInput :: int

definition PrepareContext :: "ctx \<Rightarrow> bytes \<Rightarrow> SqlConn \<Rightarrow> SqlConn \<times> (derr + Stmt)" where
  "PrepareContext x query c = (c, Inr \<lparr>stQuery = query, stNumInput = - 1\<rparr>)"

definition Prepare :: "bytes \<Rightarrow> SqlConn \<Rightarrow> SqlConn \<times> (derr + Stmt)" where
  "Prepare query = PrepareContext [] query"

definition Stmt_Close :: "Stmt \<Rightarrow> derr option" where
  "Stmt_Close s = None"

definition NumInput :: "Stmt \<Rightarrow> int" where
  "NumInput s = stNumInput s"

definition Stmt_ExecContext :: "ctx \<Rightarrow> Stmt \<Rightarrow> NamedValue list \<Rightarrow> SqlConn \<Rightarrow> SqlConn \<times> (derr + int)" where
  "Stmt_ExecContext x s args c =
     (if bad c \<or> nilClient c then (c, Inl ErrBadConn)
      else case namedToAny args of
        Inl e \<Rightarrow> (c, Inl (DErr e))
      | Inr vals \<Rightarrow>
          (case Exec x (stQuery s) vals (theClient c) of
             (cl, res, Some e) \<Rightarrow> (markBad e (c\<lparr>theClient := cl\<rparr>), Inl (DErr e))
           | (cl, res, None) \<Rightarrow> (c\<lparr>theClient := cl\<rparr>, Inr (RowsAffected res))))"

definition Stmt_Exec :: "Stmt \<Rightarrow> goval list \<Rightarrow> SqlConn \<Rightarrow> SqlConn \<times> (derr + int)" where
  "Stmt_Exec s vs = Stmt_ExecContext [] s (valuesToNamed vs)"

definition Stmt_QueryContext :: "ctx \<Rightarrow> Stmt \<Rightarrow> NamedValue list \<Rightarrow> SqlConn \<Rightarrow> SqlConn \<times> (derr + pgRows)" where
  "Stmt_QueryContext x s args c =
     (if bad c \<or> nilClient c then (c, Inl ErrBadConn)
      else case namedToAny args of
        Inl e \<Rightarrow> (c, Inl (DErr e))
      | Inr vals \<Rightarrow>
          (case RawQueryAny x (stQuery s) vals (theClient c) of
             (cl, Inl e) \<Rightarrow> (markBad e (c\<lparr>theClient := cl\<rparr>), Inl (DErr e))
           | (cl, Inr it) \<Rightarrow>
               (case newRows it cl of
                  (cl, Inl e) \<Rightarrow> (c\<lparr>theClient := cl\<rparr>, Inl (DErr e))
                | (cl, Inr r) \<Rightarrow> (c\<lparr>theClient := cl\<rparr>, Inr r))))"

definition Stmt_Query :: "Stmt \<Rightarrow> goval list \<Rightarrow> SqlConn \<Rightarrow> SqlConn \<times> (derr + pgRows)" where
  "Stmt_Query s vs = Stmt_QueryContext [] s (valuesToNamed vs)"

end
