(* ===== verification/StdlibCorrect.thy ===== *)
theory StdlibCorrect
  imports Stdlib ScanServe
begin

text \<open>
  The \<^verbatim>\<open>database/sql\<close> driver: what \<^verbatim>\<open>driver.ErrBadConn\<close> promises, the rows a query delivers, and the end of
  a transaction.
\<close>

section \<open>Guarded operations\<close>

text \<open>
  The contract that the operations of a connection and of its statements share.  An unusable connection
  answers \<open>ErrBadConn\<close> and is left as it is, no other one gives that answer, and a connection goes bad
  only with an error after which the state of the wire is unknown.
\<close>

fun recoverable :: "err \<Rightarrow> bool" where
  "recoverable (EPg _) = True"
| "recoverable ECtx = True"
| "recoverable _ = False"

locale guarded_op =
  fixes opn :: "SqlConn \<Rightarrow> SqlConn \<times> (derr + 'a)"
  assumes refuses: "unusable c \<Longrightarrow> opn c = (c, Inl ErrBadConn)"
    and sentinel: "opn c = (c', Inl ErrBadConn) \<Longrightarrow> unusable c"
    and keeps_open: "opn c = (c', r) \<Longrightarrow> nilClient c' = nilClient c"
    and marks: "opn c = (c', r) \<Longrightarrow> bad c' \<Longrightarrow> \<not> unusable c \<Longrightarrow> \<exists>e. r = Inl (DErr e) \<and> \<not> recoverable e"
begin

lemma untouched: "opn c = (c', Inl ErrBadConn) \<Longrightarrow> c' = c \<and> unusable c"
  using sentinel [of c c'] refuses [of c] by simp

lemma frozen: "unusable c \<Longrightarrow> fst (opn c) = c"
  by (simp add: refuses)

lemma evicted: "unusable (fst (opn c)) \<Longrightarrow> \<not> unusable c \<Longrightarrow> \<exists>e. snd (opn c) = Inl (DErr e) \<and> \<not> recoverable e"
  using keeps_open [of c] marks [of c] by (cases "opn c") (auto simp: unusable_def)

end

lemma markBad_simps [simp]:
  "nilClient (markBad e c) = nilClient c" "theClient (markBad e c) = theClient c" "inTx (markBad e c) = inTx c"
  "bad (markBad e c) \<longleftrightarrow> bad c \<or> \<not> recoverable e"
  by (cases e; simp add: markBad_def)+

interpretation begin_tx: guarded_op "BeginTx x opts"
  by unfold_locales (auto simp: BeginTx_def unusable_def split: prod.splits option.splits if_splits)

interpretation conn_exec: guarded_op "Conn_ExecContext x q args"
  by unfold_locales (auto simp: Conn_ExecContext_def unusable_def split: prod.splits option.splits sum.splits if_splits)

interpretation conn_query: guarded_op "Conn_QueryContext x q args"
  by unfold_locales (auto simp: Conn_QueryContext_def unusable_def split: prod.splits option.splits sum.splits if_splits)

interpretation stmt_exec: guarded_op "Stmt_ExecContext x s args"
  by unfold_locales (auto simp: Stmt_ExecContext_def unusable_def split: prod.splits option.splits sum.splits if_splits)

interpretation stmt_query: guarded_op "Stmt_QueryContext x s args"
  by unfold_locales (auto simp: Stmt_QueryContext_def unusable_def split: prod.splits option.splits sum.splits if_splits)

text \<open>The operations of a connection, its statements and its transactions, and the error each returns.\<close>

datatype conn_op =
    DoBegin ctx TxOptions
  | DoExec ctx bytes "NamedValue list"
  | DoQuery ctx bytes "NamedValue list"
  | DoStmtExec ctx Stmt "NamedValue list"
  | DoStmtQuery ctx Stmt "NamedValue list"
  | DoCommit pgzTx
  | DoRollback pgzTx
  | DoPing ctx
  | DoClose "err option"

definition err_of :: "'c \<times> (derr + 'a) \<Rightarrow> 'c \<times> derr option" where
  "err_of r = (fst r, case snd r of Inl e \<Rightarrow> Some e | Inr _ \<Rightarrow> None)"

fun conn_run :: "conn_op \<Rightarrow> SqlConn \<Rightarrow> SqlConn \<times> derr option" where
  "conn_run (DoBegin x opts) c = err_of (BeginTx x opts c)"
| "conn_run (DoExec x q args) c = err_of (Conn_ExecContext x q args c)"
| "conn_run (DoQuery x q args) c = err_of (Conn_QueryContext x q args c)"
| "conn_run (DoStmtExec x s args) c = err_of (Stmt_ExecContext x s args c)"
| "conn_run (DoStmtQuery x s args) c = err_of (Stmt_QueryContext x s args c)"
| "conn_run (DoCommit t) c = (case Commit t c of (c, t, e) \<Rightarrow> (c, e))"
| "conn_run (DoRollback t) c = (case Rollback t c of (c, t, e) \<Rightarrow> (c, e))"
| "conn_run (DoPing x) c = Conn_Ping x c"
| "conn_run (DoClose e) c = Conn_Close e c"

lemma finish_guarded:
  assumes "tx_finish stmt t c = (c', t', e)"
  shows "unusable c \<Longrightarrow> theClient c' = theClient c \<and> unusable c'"
    and "e = Some ErrBadConn \<Longrightarrow> unusable c"
    and "\<not> unusable c \<Longrightarrow> unusable c' \<Longrightarrow> \<exists>d. e = Some (DErr d) \<and> \<not> recoverable d"
  using assms by (auto simp: tx_finish_def Let_def unusable_def split: if_splits prod.splits option.splits)

lemma err_of_bad: "snd (err_of r) = Some ErrBadConn \<longleftrightarrow> (\<exists>c. r = (c, Inl ErrBadConn))"
  by (cases r) (auto simp: err_of_def split: sum.splits)

lemma err_of_err: "snd r = Inl e \<Longrightarrow> snd (err_of r) = Some e"
  by (simp add: err_of_def)

lemma fst_err_of [simp]: "fst (err_of r) = fst r"
  by (simp add: err_of_def)

lemmas ops_frozen = begin_tx.frozen conn_exec.frozen conn_query.frozen stmt_exec.frozen stmt_query.frozen
lemmas ops_untouched = begin_tx.untouched conn_exec.untouched conn_query.untouched stmt_exec.untouched stmt_query.untouched
lemmas ops_evicted = begin_tx.evicted conn_exec.evicted conn_query.evicted stmt_exec.evicted stmt_query.evicted

lemma conn_run_frozen:
  assumes "unusable c" "\<And>x. opn \<noteq> DoPing x"
  shows "theClient (fst (conn_run opn c)) = theClient c \<and> unusable (fst (conn_run opn c))"
proof (cases opn)
  case (DoCommit t)
  then show ?thesis using assms(1)
    by (cases "tx_finish (asc ''COMMIT'') t c") (auto simp: Commit_def dest: finish_guarded(1))
next
  case (DoRollback t)
  then show ?thesis using assms(1)
    by (cases "tx_finish (asc ''ROLLBACK'') t c") (auto simp: Rollback_def dest: finish_guarded(1))
qed (use assms in \<open>auto simp: ops_frozen Conn_Close_def unusable_def\<close>)

lemma conn_run_sentinel:
  assumes "snd (conn_run opn c) = Some ErrBadConn"
  shows "theClient (fst (conn_run opn c)) = theClient c \<and> unusable c"
proof (cases opn)
  case (DoCommit t)
  then show ?thesis using assms
    by (cases "tx_finish (asc ''COMMIT'') t c") (auto simp: Commit_def dest: finish_guarded)
next
  case (DoRollback t)
  then show ?thesis using assms
    by (cases "tx_finish (asc ''ROLLBACK'') t c") (auto simp: Rollback_def dest: finish_guarded)
qed (use assms in \<open>auto simp: err_of_bad Conn_Ping_def Conn_Close_def unusable_def dest: ops_untouched split: if_splits prod.splits option.splits\<close>)

lemma Conn_Ping_unusable: "unusable (fst (Conn_Ping x c)) = unusable c"
  by (auto simp: Conn_Ping_def unusable_def split: prod.splits)

lemma conn_run_evicted:
  assumes "\<not> unusable c" "unusable (fst (conn_run opn c))" "\<And>e. opn \<noteq> DoClose e"
  shows "\<exists>e. snd (conn_run opn c) = Some (DErr e) \<and> \<not> recoverable e"
proof (cases opn)
  case (DoCommit t)
  then show ?thesis using assms(1,2)
    by (cases "tx_finish (asc ''COMMIT'') t c") (auto simp: Commit_def dest: finish_guarded(3))
next
  case (DoRollback t)
  then show ?thesis using assms(1,2)
    by (cases "tx_finish (asc ''ROLLBACK'') t c") (auto simp: Rollback_def dest: finish_guarded(3))
qed (use assms in \<open>auto simp: Conn_Ping_unusable err_of_def dest!: ops_evicted\<close>)

lemma conn_run_inert:
  "unusable c \<Longrightarrow> list_all (\<lambda>opn. \<forall>x. opn \<noteq> DoPing x) ops \<Longrightarrow>
   unusable (fold (\<lambda>opn c. fst (conn_run opn c)) ops c) \<and> theClient (fold (\<lambda>opn c. fst (conn_run opn c)) ops c) = theClient c"
proof (induction ops arbitrary: c)
  case (Cons opn ops)
  then have "theClient (fst (conn_run opn c)) = theClient c" "unusable (fst (conn_run opn c))"
    using conn_run_frozen [of c opn] by simp_all
  then show ?case using Cons by simp
qed simp

section \<open>One row\<close>

text \<open>The value a cell has, and the values of a row; \<open>None\<close> where the decoder panics.\<close>

definition cell_value :: "Column \<Rightarrow> bytes option \<Rightarrow> dval option" where
  "cell_value col x = (case x of None \<Rightarrow> Some DNil | Some raw \<Rightarrow> DriverValueDecoder (TypeOID col) (Format col) raw)"

definition row_decodes :: "Column list \<Rightarrow> bytes option list \<Rightarrow> dval list \<Rightarrow> bool" where
  "row_decodes cols row ds \<longleftrightarrow> length row = length cols \<and> cells_ok row \<and> map2 cell_value cols row = map Some ds"

lemma next_value_eq: "next_value (opForNext oid format) (DriverValueDecoder oid format) raw = DriverValueDecoder oid format raw"
proof (cases "format = 1")
  case True
  have "oid = OIDBool \<or> oid = OIDInt2 \<or> oid = OIDInt4 \<or> oid = OIDOID \<or> oid = OIDInt8 \<or> oid = OIDFloat4 \<or> oid = OIDFloat8 \<or>
      oid \<in> {OIDText, OIDVarchar, OIDBPChar, OIDName} \<or> oid = OIDJSONB \<or> oid = OIDJSON \<or> oid = OIDBytea \<or>
      opForNext oid format = opNextFallback"
    by (simp add: opForNext_def)
  with True show ?thesis
    by (elim disjE) (auto simp: opForNext_def next_value_def next_inline_def DriverValueDecoder_def scannerDecoderFor_def big_endian_def)
qed (simp add: opForNext_def next_value_def next_inline_def)

definition row_readers :: "Column list \<Rightarrow> (next_op \<times> (bytes \<Rightarrow> dval option)) list" where
  "row_readers cols = map (\<lambda>col. (opForNext (TypeOID col) (Format col), DriverValueDecoder (TypeOID col) (Format col))) cols"

lemma next_columns_send:
  "row_decodes cols row ds \<Longrightarrow> i + length cols \<le> length dest \<Longrightarrow>
   next_columns (row_readers cols) i (concat (map elem_send row) @ rest) dest =
     (take i dest @ ds @ drop (i + length cols) dest, None)"
proof (induction cols arbitrary: row ds i dest)
  case Nil
  then show ?case by (auto simp: row_decodes_def row_readers_def)
next
  case (Cons col cols)
  obtain x row' where row: "row = x # row'" using Cons.prems(1) by (cases row) (auto simp: row_decodes_def)
  obtain d ds' where ds: "ds = d # ds'" "cell_value col x = Some d" "row_decodes cols row' ds'"
    using Cons.prems(1) row by (cases ds) (auto simp: row_decodes_def cells_ok_def)
  let ?more = "concat (map elem_send row') @ rest"
  have i: "i < length dest" "i + 1 + length cols \<le> length (dest[i := d])" using Cons.prems(2) by simp_all
  have IH: "next_columns (row_readers cols) (i + 1) ?more (dest[i := d]) =
      (take (i + 1) (dest[i := d]) @ ds' @ drop (i + 1 + length cols) (dest[i := d]), None)"
    by (rule Cons.IH [OF ds(3) i(2)])
  have t: "take (i + 1) (dest[i := d]) = take i dest @ [d]" "drop (i + 1 + length cols) (dest[i := d]) = drop (i + 1 + length cols) dest"
    using i(1) by (simp_all add: take_Suc_conv_app_nth)
  have n: "next_value (opForNext (TypeOID col) (Format col)) (DriverValueDecoder (TypeOID col) (Format col)) b = Some d" if "x = Some b" for b
    using ds(2) that by (simp add: cell_value_def next_value_eq)
  have len: "length b < 2 ^ 31" if "x = Some b" for b using Cons.prems(1) row that by (simp add: row_decodes_def cells_ok_def)
  have "next_columns (row_readers (col # cols)) i (elem_send x @ ?more) dest =
      next_columns (row_readers cols) (i + 1) ?more (dest[i := d])"
  proof (cases x)
    case None
    have "int32_of (be_get (be_put 4 (- 1))) = - 1" using int32_of_mod [of "- 1"] by (simp add: be_get_put int32_of_id)
    then show ?thesis using None ds(2) i(1) by (simp add: row_readers_def elem_send_def set_dest_def cell_value_def)
  next
    case (Some b)
    then show ?thesis using n [OF Some] int32_of_length [OF len [OF Some]] i(1)
      by (simp add: row_readers_def elem_send_def set_dest_def Let_def)
  qed
  then show ?case unfolding row ds(1) using IH t by simp
qed

section \<open>The rows of a query\<close>

lemma RawQueryAny_served:
  assumes "\<not> ctx_done x" "sc_get sql (stmts c) = Some st" "encodes (paramOIDs st) vals cells"
    and "room (wr c) = None" "writeBuf (wr c) = []" "rx (rd c) = frame MsgBindComplete [] @ rest"
  shows "\<exists>r. rx r = rest \<and>
    RawQueryAny x sql vals c = (c\<lparr>wr := after_send st vals cells (wr c), rd := r\<rparr>, Inr ((newIterator st)\<lparr>bound := True\<rparr>))"
proof -
  let ?c = "c\<lparr>wr := after_send st vals cells (wr c)\<rparr>" and ?it = "newIterator st" and ?f = "\<lambda>e it c. (c, it, Some (EWire e))"
  obtain bd w where b: "begin_bind st vals c = (c\<lparr>wr := w\<rparr>, bd, None)"
    "Finish bd (write_result_formats (resultFmts st) w) = app (frame MsgBind (bind_body st vals cells)) (wr c)"
    using begin_bind_ok [OF assms(3)] by blast
  have start: "startRawExecute st vals c = msg_loop bind_turn ?f ?it ?c" using assms(4,5)
    by (cases "wr c") (simp add: startRawExecute_def b put_execute_sync flush_wire_all after_send_def query_messages_def app_def)
  have turn: "bind_turn MsgBindComplete [] ?it c = (c, Inr (?it\<lparr>bound := True\<rparr>, None))" for c by (simp add: bind_turn_def)
  have rx: "rx (rd ?c) = frame MsgBindComplete [] @ rest" using assms(6) by simp
  obtain r where "rx r = rest" "msg_loop bind_turn ?f ?it ?c = (?c\<lparr>rd := r\<rparr>, ?it\<lparr>bound := True\<rparr>, None)"
    using loop_stop [OF rx ex_small(1), of bind_turn ?it "\<lambda>c. c", OF turn] by blast
  then show ?thesis using assms(1,2) by (auto simp: RawQueryAny_def attachContext_def numeral_2_eq_2 obtain_stmt_def start)
qed

text \<open>Calling \<open>Next\<close> \<open>k\<close> times with the same destination, and what each call leaves there and returns.\<close>

fun rows_times :: "nat \<Rightarrow> pgRows \<Rightarrow> dval list \<Rightarrow> Client \<Rightarrow> Client \<times> pgRows \<times> (dval list \<times> err option) list" where
  "rows_times 0 r dest cl = (cl, r, [])"
| "rows_times (Suc k) r dest cl =
     (case rows_Next r dest cl of
        (cl, r, dest, e) \<Rightarrow> (case rows_times k r dest cl of (cl, r, out) \<Rightarrow> (cl, r, (dest, e) # out)))"

definition rows_for :: "Column list \<Rightarrow> pgRows \<Rightarrow> bool" where
  "rows_for cols r \<longleftrightarrow> r_ops r = map (\<lambda>col. opForNext (TypeOID col) (Format col)) cols \<and>
     r_decoders r = map (\<lambda>col. DriverValueDecoder (TypeOID col) (Format col)) cols \<and> length cols < 2 ^ 15 \<and>
     it_err (r_it r) = None \<and> it_pgErr (r_it r) = None \<and> \<not> it_done (r_it r)"

lemma rows_Next_row:
  assumes "rows_for cols r" "row_decodes cols row ds" "length dest = length cols" "frame_ok (datarow_send row)"
    and "rx (rd cl) = frame MsgDataRow (datarow_send row) @ rest"
  shows "\<exists>rd' r'. rx rd' = rest \<and> rows_for cols r' \<and> rows_Next r dest cl = (cl\<lparr>rd := rd'\<rparr>, r', ds, None)"
proof -
  have it: "it_err (r_it r) = None" "\<not> it_done (r_it r)" using assms(1) by (simp_all add: rows_for_def)
  obtain rd' where rd': "rx rd' = rest" "NextRaw (r_it r) cl = (cl\<lparr>rd := rd'\<rparr>, (r_it r)\<lparr>rowCount := rowCount (r_it r) + 1\<rparr>, Inr (datarow_send row))"
    using next_row [OF it assms(5,4)] by blast
  have n: "length row = length cols" using assms(2) by (simp add: row_decodes_def)
  have cols: "length (r_decoders r) = length cols" "zip (r_ops r) (r_decoders r) = row_readers cols"
    using assms(1) by (simp_all add: rows_for_def row_readers_def zip_map_map map2_map_map) (simp add: zip_same_conv_map comp_def)
  have l: "int16_of (be_get (be_put 2 (int (length row)))) = int (length cols)"
    using assms(1) n by (simp add: rows_for_def be_get_put int16_of_mod [simplified] int16_of_id)
  have v: "next_columns (row_readers cols) 0 (concat (map elem_send row)) dest = (ds, None)"
    using next_columns_send [OF assms(2), of 0 dest "[]"] assms(3) by simp
  let ?r = "r\<lparr>r_it := (r_it r)\<lparr>rowCount := rowCount (r_it r) + 1\<rparr>\<rparr>"
  have "rows_for cols ?r" using assms(1) by (simp add: rows_for_def)
  moreover have "rows_Next r dest cl = (cl\<lparr>rd := rd'\<rparr>, ?r, ds, None)"
    using rd'(2) l v by (simp add: rows_Next_def Let_def datarow_send_def cols)
  ultimately show ?thesis using rd'(1) by blast
qed

lemma rows_Next_end:
  assumes "rows_for cols r" "frame_ok tag" "frame_ok status"
    and "rx (rd cl) = frames [(MsgCommandComplete, tag), (MsgReadyForQuery, status)] @ rest"
  shows "\<exists>cl' r'. rx (rd cl') = rest \<and> it_done (r_it r') \<and> rows_Next r dest cl = (cl', r', dest, Some EEOF)"
proof -
  let ?it = "r_it r" and ?f = "\<lambda>e it c. (c, it\<lparr>it_err := Some (EWire e)\<rparr>, Inl (EWire e))"
  have it: "it_err ?it = None" "it_pgErr ?it = None" "\<not> it_done ?it" using assms(1) by (simp_all add: rows_for_def)
  have rx: "rx (rd cl) = frame MsgCommandComplete tag @ frame MsgReadyForQuery status @ rest" using assms(4) by simp
  have t1: "next_turn MsgCommandComplete tag ?it c = (c, Inl ?it)" for c by (simp add: next_turn_def)
  obtain r1 where r1: "rx r1 = frame MsgReadyForQuery status @ rest" "msg_loop next_turn ?f ?it cl = msg_loop next_turn ?f ?it (cl\<lparr>rd := r1\<rparr>)"
    using loop_step [OF rx assms(2), of next_turn, OF t1, of ?f] by blast
  have t2: "next_turn MsgReadyForQuery status ?it c = (c\<lparr>lastRows := int (rowCount ?it)\<rparr>, Inr (?it\<lparr>it_done := True\<rparr>, Inl EEOF))" for c
    using it by (simp add: next_turn_def Let_def)
  have rx2: "rx (rd (cl\<lparr>rd := r1\<rparr>)) = frame MsgReadyForQuery status @ rest" using r1(1) by simp
  obtain r2 where "rx r2 = rest" "msg_loop next_turn ?f ?it (cl\<lparr>rd := r1\<rparr>) =
      (cl\<lparr>rd := r2, lastRows := int (rowCount ?it)\<rparr>, ?it\<lparr>it_done := True\<rparr>, Inl EEOF)"
    using loop_turn [OF rx2 assms(3), of next_turn ?f ?it] unfolding t2 by auto
  with r1(2) it show ?thesis
    by (intro exI [of _ "cl\<lparr>rd := r2, lastRows := int (rowCount ?it)\<rparr>"] exI [of _ "r\<lparr>r_it := ?it\<lparr>it_done := True\<rparr>\<rparr>"])
       (simp add: rows_Next_def NextRaw_def)
qed

lemma rows_times_served:
  assumes "rows_for cols r" "list_all2 (row_decodes cols) rows dss" "length dest = length cols"
    and "\<forall>row\<in>set rows. frame_ok (datarow_send row)" "frame_ok tag" "frame_ok status"
    and "rx (rd cl) = frames (map (Pair MsgDataRow) (map datarow_send rows) @ [(MsgCommandComplete, tag), (MsgReadyForQuery, status)]) @ rest"
  shows "\<exists>cl' r'. rx (rd cl') = rest \<and> it_done (r_it r') \<and>
    rows_times (Suc (length rows)) r dest cl = (cl', r', map (\<lambda>ds. (ds, None)) dss @ [(last (dest # dss), Some EEOF)])"
  using assms
proof (induction rows arbitrary: r dss dest cl)
  case Nil
  then show ?case using rows_Next_end [of cols r tag status cl rest dest] by auto
next
  case (Cons row rows)
  let ?more = "frames (map (Pair MsgDataRow) (map datarow_send rows) @ [(MsgCommandComplete, tag), (MsgReadyForQuery, status)]) @ rest"
  obtain ds dss' where ds: "dss = ds # dss'" "row_decodes cols row ds" "list_all2 (row_decodes cols) rows dss'"
    using Cons.prems(2) by (auto simp: list_all2_Cons1)
  have len: "length ds = length cols" using ds(2) by (auto simp: row_decodes_def dest: arg_cong [of _ _ length])
  obtain rd1 r1 where r1: "rx rd1 = ?more" "rows_for cols r1" "rows_Next r dest cl = (cl\<lparr>rd := rd1\<rparr>, r1, ds, None)"
    using rows_Next_row [OF Cons.prems(1) ds(2) Cons.prems(3), of cl ?more] Cons.prems(4,7) by auto
  obtain cl' r' where "rx (rd cl') = rest" "it_done (r_it r')"
    "rows_times (Suc (length rows)) r1 ds (cl\<lparr>rd := rd1\<rparr>) = (cl', r', map (\<lambda>ds. (ds, None)) dss' @ [(last (ds # dss'), Some EEOF)])"
    using Cons.IH [OF r1(2) ds(3) len _ Cons.prems(5,6), of "cl\<lparr>rd := rd1\<rparr>"] Cons.prems(4) r1(1) by auto
  then show ?case using r1(3) by (subst rows_times.simps) (simp add: ds(1))
qed

section \<open>Properties\<close>

text \<open>C13. \<open>db.Query\<close> through \<^verbatim>\<open>database/sql\<close> delivers the rows of the server.  On a valid connection, for a cached
  statement and a server that answers as documented, \<open>QueryContext\<close> sends one Bind, Execute and Sync with
  the encoded arguments; the calls of \<open>Next\<close>, inlined cases included, leave the values of the generic
  decoder in the destination, row by row and NULL as nil, the call after the last row returns
  \<^verbatim>\<open>io.EOF\<close>, the answer is read to its end and no further, and \<open>Close\<close> then does nothing.\<close>

theorem database_sql_rows:
  assumes "IsValid c" "\<not> ctx_done x" "namedToAny args = Inr vals"
    and "sc_get q (stmts (theClient c)) = Some st" "plan st = Some p" "length (Columns p) < 2 ^ 15"
    and "encodes (paramOIDs st) vals cells" "room (wr (theClient c)) = None" "writeBuf (wr (theClient c)) = []"
    and "list_all2 (row_decodes (Columns p)) rows dss" "length dest = length (Columns p)"
    and "\<forall>row\<in>set rows. frame_ok (datarow_send row)" "frame_ok tag" "frame_ok status"
    and "rx (rd (theClient c)) = frames (answer [(MsgBindComplete, [])] (map datarow_send rows) tag status) @ rest"
  shows "\<exists>c' r cl r'. Conn_QueryContext x q args c = (c', Inr r) \<and> IsValid c' \<and> rows_Columns r = map Name (Columns p) \<and>
    tx (wr (theClient c')) = tx (wr (theClient c)) @ frames (query_messages st vals cells) \<and>
    rows_times (Suc (length rows)) r dest (theClient c') =
      (cl, r', map (\<lambda>ds. (ds, None)) dss @ [(last (dest # dss), Some EEOF)]) \<and>
    rx (rd cl) = rest \<and> rows_Close r' cl = (cl, r', None)"
proof -
  let ?cl = "theClient c" and ?it = "(newIterator st)\<lparr>bound := True\<rparr>" and ?cols = "Columns p"
  let ?more = "frames (map (Pair MsgDataRow) (map datarow_send rows) @ [(MsgCommandComplete, tag), (MsgReadyForQuery, status)]) @ rest"
  have "rx (rd ?cl) = frame MsgBindComplete [] @ ?more" using assms(15) by (simp add: answer_def)
  from RawQueryAny_served [OF assms(2,4,7-9) this] obtain rd' where rd': "rx rd' = ?more"
    "RawQueryAny x q vals ?cl = (?cl\<lparr>wr := after_send st vals cells (wr ?cl), rd := rd'\<rparr>, Inr ?it)" by blast
  let ?cl' = "?cl\<lparr>wr := after_send st vals cells (wr ?cl), rd := rd'\<rparr>"
  obtain r where r: "newRows ?it ?cl' = (?cl', Inr r)" "rows_for ?cols r" "rows_Columns r = map Name ?cols"
    using assms(5,6) by (simp add: newRows_def PlanOf_def newIterator_def rows_for_def rows_Columns_def)
  have rx: "rx (rd ?cl') = ?more" using rd'(1) by simp
  obtain cl r' where out: "rx (rd cl) = rest" "it_done (r_it r')" "rows_times (Suc (length rows)) r dest ?cl' =
      (cl, r', map (\<lambda>ds. (ds, None)) dss @ [(last (dest # dss), Some EEOF)])"
    using rows_times_served [OF r(2) assms(10-14) rx] by blast
  have "Conn_QueryContext x q args c = (c\<lparr>theClient := ?cl'\<rparr>, Inr r)"
    using assms(1,3) by (simp add: Conn_QueryContext_def IsValid_def rd'(2) r(1))
  moreover have "rows_Close r' cl = (cl, r', None)" using out(2) by (simp add: rows_Close_def iter_Close_def)
  ultimately show ?thesis using assms(1) r(3) out(1,3)
    by (intro exI [of _ "c\<lparr>theClient := ?cl'\<rparr>"] exI [of _ r] exI [of _ cl] exI [of _ r'])
       (simp add: IsValid_def after_send_def del: rows_times.simps)
qed

theorem database_sql_rows_witness:
  "\<exists>c' r cl r'. Conn_QueryContext [] ex_sql []
      (new_SqlConn (ex_client (frames (answer [(MsgBindComplete, [])] (map datarow_send [[Some (be_put 4 7)], [None]]) [0] [73]) @ [5]))) =
      (c', Inr r) \<and> rows_Columns r = [asc ''n''] \<and>
    rows_times 3 r [DNil] (theClient c') = (cl, r', [([DInt 7], None), ([DNil], None), ([DNil], Some EEOF)]) \<and> rx (rd cl) = [5]"
proof -
  let ?rows = "[[Some (be_put 4 7)], [None]]"
  define c where "c = new_SqlConn (ex_client (frames (answer [(MsgBindComplete, [])] (map datarow_send ?rows) [0] [73]) @ [5]))"
  obtain col where col: "Columns ex_plan = [col]" "TypeOID col = OIDInt4" "Format col = 1" "Name col = asc ''n''"
    using ex_plan_column by blast
  have v: "IsValid c" "namedToAny [] = Inr []" "\<not> ctx_done []" by (simp_all add: c_def new_SqlConn_def IsValid_def ctx_done_def ask_def)
  have st: "sc_get ex_sql (stmts (theClient c)) = Some ex_stmt" "plan ex_stmt = Some ex_plan" "room (wr (theClient c)) = None" "writeBuf (wr (theClient c)) = []"
    using ex_ready by (simp_all add: ready_def c_def new_SqlConn_def)
  have i: "int32_of 7 = 7" by (simp add: int32_of_id)
  have d: "list_all2 (row_decodes (Columns ex_plan)) ?rows [[DInt 7], [DNil]]"
    using i by (simp add: col row_decodes_def cells_ok_def cell_value_def DriverValueDecoder_def scannerDecoderFor_def big_endian_def be_get_put)
  have rx: "rx (rd (theClient c)) = frames (answer [(MsgBindComplete, [])] (map datarow_send ?rows) [0] [73]) @ [5]"
    by (simp add: c_def new_SqlConn_def ex_client_def)
  have len: "length (Columns ex_plan) < 2 ^ 15" "length [DNil] = length (Columns ex_plan)" "Suc (length ?rows) = 3" by (simp_all add: col)
  have ok: "\<forall>row\<in>set ?rows. frame_ok (datarow_send row)" "frame_ok [0]" "frame_ok [73]"
    by (simp_all add: frame_ok_def datarow_send_def elem_send_def)
  from database_sql_rows [OF v(1,3,2) st(1,2) len(1) ex_encodes st(3,4) d len(2) ok rx] show ?thesis
    unfolding len(3) c_def [symmetric] by (fastforce simp: col)
qed

text \<open>C15. A failed commit is reported as a success.  PostgreSQL answers \<^verbatim>\<open>COMMIT\<close> in a transaction that has
  failed with a rollback, which only the command tag tells: no error, the tag \<^verbatim>\<open>ROLLBACK\<close>.  \<open>Commit\<close> does not
  look at the tag and returns nil, the connection stays valid and out of the transaction, and the
  caller takes what was rolled back for committed.\<close>

theorem failed_commit_reports_success:
  assumes "IsValid c" "inTx c" "sc_get (asc ''COMMIT'') (stmts (theClient c)) = Some st" "paramOIDs st = []"
    and "room (wr (theClient c)) = None" "writeBuf (wr (theClient c)) = []" "frame_ok s"
    and "rx (rd (theClient c)) = frames [(MsgBindComplete, []), (MsgCommandComplete, asc ''ROLLBACK'' @ [0]), (MsgReadyForQuery, s)] @ rest"
  shows "\<exists>c'. Commit TxOpen c = (c', TxFinished, None) \<and> IsValid c' \<and> \<not> inTx c' \<and> rx (rd (theClient c')) = rest \<and>
    tx (wr (theClient c')) = tx (wr (theClient c)) @ frames [(MsgBind, bind_body (st\<lparr>resultFmts := []\<rparr>) [] []), (MsgExecute, [0, 0, 0, 0, 0]), (MsgSync, [])]"
proof -
  let ?tag = "asc ''ROLLBACK'' @ [0]"
  have x: "\<not> ctx_done []" by (simp add: ctx_done_def ask_def)
  have e: "encodes (paramOIDs st) [] []" by (simp add: assms(4) encodes_def)
  have t: "frame_ok ?tag" "?tag \<noteq> []" by (simp_all add: frame_ok_def asc_def)
  from Exec_served [OF x assms(3) e assms(5,6,8) t(1) assms(7) t(2)] obtain cl where
    "Exec [] (asc ''COMMIT'') [] (theClient c) = (cl, \<lparr>RowsAffected = parseRowsAffected (butlast ?tag), Tag = butlast ?tag\<rparr>, None)"
    "rx (rd cl) = rest" "tx (wr cl) = tx (wr (theClient c)) @
      frames [(MsgBind, bind_body (st\<lparr>resultFmts := []\<rparr>) [] []), (MsgExecute, [0, 0, 0, 0, 0]), (MsgSync, [])]" by blast
  then show ?thesis using assms(1,2)
    by (intro exI [of _ "c\<lparr>inTx := False, theClient := cl\<rparr>"]) (simp add: Commit_def tx_finish_def IsValid_def Let_def)
qed

text \<open>A connection in a transaction whose server rolls it back.\<close>

definition ex_failed_tx :: SqlConn where
  "ex_failed_tx =
     (let cl = ex_client (frames [(MsgBindComplete, []), (MsgCommandComplete, asc ''ROLLBACK'' @ [0]), (MsgReadyForQuery, [73])])
      in (new_SqlConn (cl\<lparr>stmts := (stmts cl)\<lparr>byKey := [(asc ''COMMIT'', ex_stmt)]\<rparr>\<rparr>))\<lparr>inTx := True\<rparr>)"

theorem failed_commit_reports_success_witness:
  "\<exists>c'. Commit TxOpen ex_failed_tx = (c', TxFinished, None) \<and> IsValid c' \<and> \<not> inTx c'"
proof -
  have c: "IsValid ex_failed_tx" "inTx ex_failed_tx" "room (wr (theClient ex_failed_tx)) = None" "writeBuf (wr (theClient ex_failed_tx)) = []"
    by (simp_all add: ex_failed_tx_def new_SqlConn_def IsValid_def Let_def ex_client_def)
  have st: "sc_get (asc ''COMMIT'') (stmts (theClient ex_failed_tx)) = Some ex_stmt"
    by (simp add: ex_failed_tx_def new_SqlConn_def Let_def sc_get_def)
  have p: "paramOIDs ex_stmt = []" using ex_encodes by (simp add: ex_stmt_def)
  have rx: "rx (rd (theClient ex_failed_tx)) =
      frames [(MsgBindComplete, []), (MsgCommandComplete, asc ''ROLLBACK'' @ [0]), (MsgReadyForQuery, [73])] @ []"
    by (simp add: ex_failed_tx_def new_SqlConn_def Let_def ex_client_def)
  have "frame_ok [73]" by (simp add: frame_ok_def)
  from failed_commit_reports_success [OF c(1,2) st p c(3,4) this rx] show ?thesis by blast
qed



end
