(* ===== verification/Otel.thy ===== *)
theory Otel
  imports Client
begin

text \<open>
  src/pgz/otel/otel.go: the observer that reports queries to OpenTelemetry.  That library is third-party
  code: what the observer does is the list of the calls it makes, and what it is answered (whether a
  span records, whether an instrument can be registered) is the record \<open>otel_env\<close>, with
  \<^verbatim>\<open>strings.ToUpper\<close>.  A span is the number of spans started before it; without a
  tracer provider the spans are those of a tracer that never records.  An error stands for its text, and
  a duration is in nanoseconds.
\<close>

section \<open>Calls\<close>

datatype otel_value = OString bytes | OInt int

datatype otel_call =
    StartSpan nat bytes
  | SpanAttr nat bytes otel_value
  | SpanStatus nat err
  | SpanRecordError nat err
  | SpanEvent nat bytes "(bytes \<times> otel_value) list"
  | SpanEnd nat
  | RecordDuration int "(bytes \<times> otel_value) list"
  | AddRows int "(bytes \<times> otel_value) list"
  | AddErrors "(bytes \<times> otel_value) list"
  | AddSlow

record otel_env =
  recording :: "nat \<Rightarrow> bool"
  registers :: "bytes \<Rightarrow> bool"
  upper :: "bytes \<Rightarrow> bytes"

section \<open>Options\<close>

record otel_options =
  recordSQL :: bool
  sqlAttrKey :: bytes
  sqlMaxLen :: int
  spanNameFromSQL :: bool

definition WithRecordSQL :: "bool \<Rightarrow> otel_options \<Rightarrow> otel_options" where
  "WithRecordSQL b o1 = o1\<lparr>recordSQL := b\<rparr>"

definition WithSQLMaxLen :: "int \<Rightarrow> otel_options \<Rightarrow> otel_options" where
  "WithSQLMaxLen n o1 = o1\<lparr>sqlMaxLen := n\<rparr>"

definition WithSQLAttributeKey :: "bytes \<Rightarrow> otel_options \<Rightarrow> otel_options" where
  "WithSQLAttributeKey k o1 = o1\<lparr>sqlAttrKey := k\<rparr>"

section \<open>The observer\<close>

text \<open>\<open>ob_start\<close> is the one slot for the query that is running, and holds its span.\<close>

record Observer =
  ob_meter :: bool
  ob_slow :: bool
  ob_opts :: otel_options
  ob_start :: "nat option"
  ob_spans :: nat
  ob_calls :: "otel_call list"

definition New_Observer :: "otel_env \<Rightarrow> bool \<Rightarrow> (otel_options \<Rightarrow> otel_options) list \<Rightarrow> err + Observer" where
  "New_Observer E meter fns =
     (let opts = fold (\<lambda>f. f) fns \<lparr>recordSQL = True, sqlAttrKey = asc ''db.statement'', sqlMaxLen = 1024, spanNameFromSQL = False\<rparr>;
          ob = \<lparr>ob_meter = meter, ob_slow = False, ob_opts = opts, ob_start = None, ob_spans = 0, ob_calls = []\<rparr> in
      if \<not> meter then Inr ob
      else if \<not> registers E (asc ''pgz.query.duration'') then Inl (EMsg ''pgz.query.duration'')
      else if \<not> registers E (asc ''pgz.query.rows'') then Inl (EMsg ''pgz.query.rows'')
      else if \<not> registers E (asc ''pgz.query.errors'') then Inl (EMsg ''pgz.query.errors'')
      else Inr ob)"

definition call :: "otel_call list \<Rightarrow> Observer \<Rightarrow> Observer" where
  "call cs ob = ob\<lparr>ob_calls := ob_calls ob @ cs\<rparr>"

definition blank :: "byte \<Rightarrow> bool" where
  "blank b \<longleftrightarrow> b = 32 \<or> b = 9 \<or> b = 10 \<or> b = 13"

definition firstToken :: "otel_env \<Rightarrow> bytes \<Rightarrow> bytes" where
  "firstToken E s = upper E (takeWhile (\<lambda>b. \<not> blank b) (dropWhile blank s))"

definition otel_OnQueryStart :: "otel_env \<Rightarrow> bytes \<Rightarrow> Observer \<Rightarrow> Observer" where
  "otel_OnQueryStart E sql ob =
     (let opts = ob_opts ob; i = ob_spans ob;
          nm = (if spanNameFromSQL opts then firstToken E sql else asc ''pgz.query'');
          ob = call [StartSpan i nm] (ob\<lparr>ob_spans := i + 1\<rparr>);
          stmt = (if 0 < sqlMaxLen opts \<and> sqlMaxLen opts < int (length sql) then take (nat (sqlMaxLen opts)) sql else sql);
          ob = (if recordSQL opts \<and> recording E i then call [SpanAttr i (sqlAttrKey opts) (OString stmt)] ob else ob)
      in ob\<lparr>ob_start := Some i\<rparr>)"

definition span_outcome :: "nat \<Rightarrow> QueryEvent \<Rightarrow> otel_call list" where
  "span_outcome i ev =
     (case evErr ev of None \<Rightarrow> [] | Some e \<Rightarrow> [SpanStatus i e, SpanRecordError i e]) @
     (if 0 < evRows ev then [SpanAttr i (asc ''pgz.rows'') (OInt (evRows ev))] else []) @
     (if 0 < evBytes ev then [SpanAttr i (asc ''pgz.bytes'') (OInt (evBytes ev))] else []) @
     (if evSQLState ev \<noteq> [] then [SpanAttr i (asc ''db.sqlstate'') (OString (evSQLState ev))] else []) @
     (if 0 < evRetries ev then [SpanAttr i (asc ''pgz.retries'') (OInt (evRetries ev))] else [])"

definition metrics :: "QueryEvent \<Rightarrow> otel_call list" where
  "metrics ev =
     (let attrs = (if evSQLState ev \<noteq> [] then [(asc ''db.sqlstate'', OString (evSQLState ev))] else []) in
      [RecordDuration (evDuration ev) attrs] @
      (if 0 < evRows ev then [AddRows (evRows ev) attrs] else []) @
      (if evErr ev \<noteq> None then [AddErrors attrs] else []))"

definition otel_OnQueryEnd :: "QueryEvent \<Rightarrow> Observer \<Rightarrow> Observer" where
  "otel_OnQueryEnd ev ob =
     (let ob = (case ob_start ob of
                  None \<Rightarrow> ob
                | Some i \<Rightarrow> (call (span_outcome i ev @ [SpanEnd i]) ob)\<lparr>ob_start := None\<rparr>)
      in if \<not> ob_meter ob then ob else call (metrics ev) ob)"

definition otel_OnNotice :: "pg_error option \<Rightarrow> Observer \<Rightarrow> Observer" where
  "otel_OnNotice n ob =
     (case n of
        None \<Rightarrow> ob
      | Some n \<Rightarrow>
          (case ob_start ob of
             None \<Rightarrow> ob
           | Some i \<Rightarrow> call [SpanEvent i (asc ''pgz.notice'')
               [(asc ''severity'', OString (Severity n)), (asc ''code'', OString (Code n)), (asc ''message'', OString (Message n))]] ob))"

definition otel_OnQuerySlow :: "otel_env \<Rightarrow> Observer \<Rightarrow> Observer" where
  "otel_OnQuerySlow E ob =
     (if \<not> ob_meter ob then ob
      else let ob = (if \<not> ob_slow ob \<and> registers E (asc ''pgz.query.slow'') then ob\<lparr>ob_slow := True\<rparr> else ob) in
        if ob_slow ob then call [AddSlow] ob else ob)"

text \<open>The events of a client, as \<open>observe\<close> hands them over.\<close>

fun on_event :: "otel_env \<Rightarrow> obs_event \<Rightarrow> Observer \<Rightarrow> Observer" where
  "on_event E (OnQueryStart sql) ob = otel_OnQueryStart E sql ob"
| "on_event E (OnQueryEnd ev) ob = otel_OnQueryEnd ev ob"
| "on_event E (OnNotice n) ob = otel_OnNotice (Some n) ob"
| "on_event E (OnQuerySlow ev) ob = otel_OnQuerySlow E ob"

section \<open>Spans\<close>

text \<open>The spans that were ended, in order, and the outcome that was put on each.\<close>

fun ended :: "otel_call list \<Rightarrow> nat list" where
  "ended [] = []"
| "ended (SpanEnd i # cs) = i # ended cs"
| "ended (c # cs) = ended cs"

fun failures :: "otel_call list \<Rightarrow> (nat \<times> err) list" where
  "failures [] = []"
| "failures (SpanStatus i e # cs) = (i, e) # failures cs"
| "failures (c # cs) = failures cs"

lemma ended_append [simp]: "ended (xs @ ys) = ended xs @ ended ys"
  by (induction xs rule: ended.induct) auto

lemma failures_append [simp]: "failures (xs @ ys) = failures xs @ failures ys"
  by (induction xs rule: failures.induct) auto

lemma span_outcome_spans: "ended (span_outcome i ev) = []"
  "failures (span_outcome i ev) = (case evErr ev of None \<Rightarrow> [] | Some e \<Rightarrow> [(i, e)])"
  by (simp_all add: span_outcome_def split: option.split)

lemma metrics_spans: "ended (metrics ev) = []" "failures (metrics ev) = []"
  by (simp_all add: metrics_def Let_def)

text \<open>What each event does to the slot, the number of spans, the ended spans and the failures.\<close>

definition span_state :: "Observer \<Rightarrow> nat option \<times> nat \<times> nat list \<times> (nat \<times> err) list" where
  "span_state ob = (ob_start ob, ob_spans ob, ended (ob_calls ob), failures (ob_calls ob))"

lemma span_state_start:
  "span_state ob = (s, n, en, fs) \<Longrightarrow> span_state (on_event E (OnQueryStart sql) ob) = (Some n, n + 1, en, fs)"
  by (simp add: span_state_def otel_OnQueryStart_def call_def Let_def)

lemma span_state_end:
  "span_state ob = (Some i, n, en, fs) \<Longrightarrow>
   span_state (on_event E (OnQueryEnd ev) ob) = (None, n, en @ [i], fs @ (case evErr ev of None \<Rightarrow> [] | Some e \<Rightarrow> [(i, e)]))"
  by (auto simp: span_state_def otel_OnQueryEnd_def call_def Let_def span_outcome_spans metrics_spans)

lemma span_state_end_nothing:
  "span_state ob = (None, n, en, fs) \<Longrightarrow> span_state (on_event E (OnQueryEnd ev) ob) = (None, n, en, fs)"
  by (auto simp: span_state_def otel_OnQueryEnd_def call_def Let_def metrics_spans)

lemma span_state_other: "span_state (on_event E (OnNotice n) ob) = span_state ob" "span_state (on_event E (OnQuerySlow ev) ob) = span_state ob"
  by (auto simp: span_state_def otel_OnNotice_def otel_OnQuerySlow_def call_def Let_def split: option.split)

text \<open>The events of one query: its start, notices, its end, and perhaps the slow-query event.\<close>

definition query_events :: "bytes \<times> pg_error list \<times> QueryEvent \<times> bool \<Rightarrow> obs_event list" where
  "query_events q = (case q of (sql, ns, ev, slow) \<Rightarrow>
     OnQueryStart sql # map OnNotice ns @ OnQueryEnd ev # (if slow then [OnQuerySlow ev] else []))"

definition query_failure :: "nat \<Rightarrow> bytes \<times> pg_error list \<times> QueryEvent \<times> bool \<Rightarrow> (nat \<times> err) list" where
  "query_failure i q = (case q of (sql, ns, ev, slow) \<Rightarrow> case evErr ev of None \<Rightarrow> [] | Some e \<Rightarrow> [(i, e)])"

lemma span_state_notices: "span_state (fold (on_event E) (map OnNotice ns) ob) = span_state ob"
  by (induction ns arbitrary: ob) (simp_all add: span_state_other del: on_event.simps)

lemma span_state_query:
  assumes "span_state ob = (None, n, en, fs)"
  shows "span_state (fold (on_event E) (query_events q) ob) = (None, n + 1, en @ [n], fs @ query_failure n q)"
proof -
  obtain sql ns ev slow where q: "q = (sql, ns, ev, slow)" by (cases q)
  let ?ob = "fold (on_event E) (map OnNotice ns) (on_event E (OnQueryStart sql) ob)"
  have "span_state ?ob = (Some n, n + 1, en, fs)" using span_state_start [OF assms] by (simp only: span_state_notices)
  from span_state_end [OF this, of E ev] show ?thesis
    by (simp add: q query_events_def query_failure_def span_state_other del: on_event.simps)
qed

lemma span_state_queries:
  "span_state ob = (None, n, en, fs) \<Longrightarrow>
   span_state (fold (on_event E) (concat (map query_events qs)) ob) =
     (None, n + length qs, en @ [n..<n + length qs], fs @ concat (map (\<lambda>(i, q). query_failure i q) (enumerate n qs)))"
proof (induction qs arbitrary: ob n en fs)
  case (Cons q qs)
  have "[n..<n + length (q # qs)] = n # [n + 1..<n + 1 + length qs]" using upt_conv_Cons [of n "n + length (q # qs)"] by simp
  then show ?case using Cons.IH [OF span_state_query [OF Cons.prems, of E q]] by simp
qed simp

section \<open>Properties\<close>

text \<open>C40. One observer for a pool mixes up the queries of its connections.  As long as the queries it is told
  about follow one another, the observer starts one span for each, ends it, and puts each failure on the
  span of its query.  But its only slot is shared by all the connections of a pool, which the comment denies:
  when a second query starts before the first has ended, the first span is never ended, and the outcome
  of the first query is put on the span of the second.\<close>

theorem shared_observer_mixes_spans:
  assumes "New_Observer E meter fns = Inr ob"
  shows "span_state (fold (on_event E) (concat (map query_events qs)) ob) =
      (None, length qs, [0..<length qs], concat (map (\<lambda>(i, q). query_failure i q) (enumerate 0 qs))) \<and>
    span_state (fold (on_event E) [OnQueryStart sql1, OnQueryStart sql2, OnQueryEnd ev1, OnQueryEnd ev2] ob) =
      (None, 2, [1], case evErr ev1 of None \<Rightarrow> [] | Some e \<Rightarrow> [(1, e)])"
proof -
  have ob: "span_state ob = (None, 0, [], [])"
    using assms by (auto simp: New_Observer_def span_state_def Let_def split: if_splits)
  have "span_state (on_event E (OnQueryStart sql2) (on_event E (OnQueryStart sql1) ob)) = (Some 1, 2, [], [])"
    using span_state_start [OF span_state_start [OF ob], of E sql2 E sql1] by (simp del: on_event.simps)
  from span_state_end_nothing [OF span_state_end [OF this, of E ev1], of E ev2] span_state_queries [OF ob, of E qs]
  show ?thesis by (simp del: on_event.simps)
qed

theorem shared_observer_mixes_spans_witness:
  "\<exists>ob. New_Observer \<lparr>recording = \<lambda>_. True, registers = \<lambda>_. True, upper = id\<rparr> True [WithSQLMaxLen 10] = Inr ob \<and>
    span_state (fold (on_event \<lparr>recording = \<lambda>_. True, registers = \<lambda>_. True, upper = id\<rparr>)
      [OnQueryStart [1], OnQueryStart [2],
       OnQueryEnd \<lparr>evSQL = [1], evRows = 0, evBytes = 0, evDuration = 5, evErr = Some ECtx, evSQLState = [], evRetries = 0\<rparr>,
       OnQueryEnd \<lparr>evSQL = [2], evRows = 1, evBytes = 9, evDuration = 7, evErr = None, evSQLState = [], evRetries = 0\<rparr>] ob) =
      (None, 2, [1], [(1, ECtx)])"
proof -
  let ?E = "\<lparr>recording = \<lambda>_. True, registers = \<lambda>_. True, upper = id\<rparr> :: otel_env"
  obtain ob where ob: "New_Observer ?E True [WithSQLMaxLen 10] = Inr ob" by (simp add: New_Observer_def Let_def)
  from shared_observer_mixes_spans [OF ob] ob show ?thesis by (simp del: fold_simps)
qed

end
