(* ===== verification/OpenCorrect.thy ===== *)
theory OpenCorrect
  imports Client
begin

text \<open>
  Opening a connection: the TLS negotiation and what it keeps from the network, the startup exchange with
  SCRAM authentication, from the bytes of the server to a client that is ready, and what the client may
  not conclude about the server at the end of it.
\<close>

section \<open>Sending\<close>

lemma send_message_ok:
  assumes "appends f p" "room (wr c) = None" "writeBuf (wr c) = []"
  shows "send_message t f c = (c\<lparr>wr := (wr c)\<lparr>tx := tx (wr c) @ frame t p\<rparr>\<rparr>, None)"
proof -
  have "put_message t f c = c\<lparr>wr := app (frame t p) (wr c)\<rparr>" by (simp add: put_message_def message_frame [OF assms(1)])
  then show ?thesis using assms(2,3) by (cases "wr c") (simp add: send_message_def flush_wire_all app_def)
qed

text \<open>A message without a type byte.\<close>

definition packet :: "bytes \<Rightarrow> bytes" where
  "packet p = be_put 4 (int (length p) + 4) @ p"

lemma packet_sent:
  assumes "appends f p" "writeBuf w = []" "room w = None" "BeginNoType w = (b, w')"
  shows "Flush (Finish b (f w')) = (w\<lparr>tx := tx w @ packet p\<rparr>, None)"
proof -
  have b: "b = \<lparr>noType = True, startOff = 0\<rparr>" "w' = app [0, 0, 0, 0] w" using assms(2,4) by (simp_all add: BeginNoType_def)
  have f: "f w' = app ([0, 0, 0, 0] @ p) w" using assms(1) by (simp add: appends_def b)
  have "be_put 4 v \<noteq> []" for v using length_be_put [of 4 v] by (metis length_0_conv zero_neq_numeral)
  then show ?thesis using assms(2,3) f b(1)
    by (cases w) (simp add: Finish_def patch_def packet_def app_def Flush_def WriteRaw_def Let_def add.commute)
qed

text \<open>A turn that goes on and leaves the reader alone, and one that returns.\<close>

lemma loop_go:
  assumes "rx (rd c) = frame t body @ rest" "frame_ok body"
    and "\<And>r. h t body l (c\<lparr>rd := r\<rparr>) = (d\<lparr>rd := r\<rparr>, Inl l')"
  shows "\<exists>r. rx r = rest \<and> msg_loop h f l c = msg_loop h f l' (d\<lparr>rd := r\<rparr>)"
  using loop_turn [OF assms(1,2), of h f l] by (simp add: assms(3))

section \<open>The startup packet\<close>

definition startup_body :: "config \<Rightarrow> bytes" where
  "startup_body cf =
     (let kv = (\<lambda>(k, v). k @ [0] @ v @ [0]) in
      be_put 4 ProtocolVersion3 @ kv (asc ''user'', cUser cf) @
      (if cDatabase cf \<noteq> [] then kv (asc ''database'', cDatabase cf) else []) @
      kv (asc ''application_name'', cApplicationName cf) @ kv (asc ''client_encoding'', asc ''UTF8'') @
      concat (map kv (RuntimeParams cf)) @ [0])"

lemma kv_CString_app: "kv_CString k v w = app (k @ [0] @ v @ [0]) w"
  by (simp add: kv_CString_def b_CString_def)

lemma fold_kv: "fold (\<lambda>(k, v). kv_CString k v) kvs w = app (concat (map (\<lambda>(k, v). k @ [0] @ v @ [0]) kvs)) w"
  by (induction kvs arbitrary: w) (auto simp: kv_CString_app)

lemma startup_params_appends: "appends (startup_params cf) (startup_body cf)"
  by (auto simp: appends_def startup_params_def startup_body_def Let_def kv_CString_app fold_kv b_Int32_def b_Byte_def)

section \<open>TLS\<close>

definition ssl_request :: bytes where
  "ssl_request = packet (be_put 4 sslRequestCode)"

lemma b_Int32_appends: "appends (b_Int32 v) (be_put 4 v)"
  by (simp add: appends_def b_Int32_def)

text \<open>What the negotiation sends is the SSLRequest or, on a connection that breaks, a part of it.\<close>

lemma Flush_prefix: "writeBuf w = p \<Longrightarrow> Flush w = (w', e) \<Longrightarrow> \<exists>sent unsent. tx w' = tx w @ sent \<and> p = sent @ unsent"
  by (auto simp: Flush_def WriteRaw_def split: if_splits option.splits prod.splits) (metis append_take_drop_id)

lemma ssl_request_built: "writeBuf w = [] \<Longrightarrow> BeginNoType w = (b, w') \<Longrightarrow>
    writeBuf (Finish b (b_Int32 sslRequestCode w')) = ssl_request \<and> tx (Finish b (b_Int32 sslRequestCode w')) = tx w"
  by (auto simp: BeginNoType_def Finish_def patch_def ssl_request_def packet_def b_Int32_def Let_def)

lemma negotiate_sends:
  assumes "writeBuf (wr c) = []"
  shows "\<exists>sent unsent. tx (wr (fst (maybeNegotiateTLS tls got1 got2 c))) = tx (wr c) @ sent \<and> ssl_request = sent @ unsent"
proof -
  obtain b w where bw: "BeginNoType (wr c) = (b, w)" by fastforce
  obtain w' e where f: "Flush (Finish b (b_Int32 sslRequestCode w)) = (w', e)" by fastforce
  have "\<exists>sent unsent. tx w' = tx (wr c) @ sent \<and> ssl_request = sent @ unsent"
    using Flush_prefix [OF _ f] ssl_request_built [OF assms bw] by simp
  then show ?thesis
    by (auto simp: maybeNegotiateTLS_def bw flush_wire_def f ReadByte_def Let_def
        split: option.splits prod.splits sum.splits list.splits if_splits intro: exI [of _ "[]"])
qed

definition fresh_client :: "Client \<Rightarrow> bool" where
  "fresh_client c \<longleftrightarrow> writeBuf (wr c) = [] \<and> room (wr c) = None"

lemma negotiate_disabled: "cSSLMode (cfg c) = SSLDisable \<Longrightarrow> maybeNegotiateTLS tls got1 got2 c = (c, None)"
  by (simp add: maybeNegotiateTLS_def buildTLS_def)

lemma buildTLS_enabled: "cSSLMode cf \<noteq> SSLDisable \<Longrightarrow> \<exists>t. buildTLS cf = Some t"
  by (cases "TLSConfig cf") (auto simp: buildTLS_def Let_def)

text \<open>The server answers \<open>S\<close>.\<close>

lemma negotiate_S:
  assumes "cSSLMode (cfg c) \<noteq> SSLDisable" "rx (rd c) = ch CHR ''S'' # junk" "BeginNoType (wr c) = (b, w)"
    and "Flush (Finish b (b_Int32 sslRequestCode w)) = (w', e)"
  shows "maybeNegotiateTLS tls got1 got2 c =
    (case e of
       Some e \<Rightarrow> (c\<lparr>wr := w'\<rparr>, Some (EWire e))
     | None \<Rightarrow>
         (case tls of
            None \<Rightarrow> (c\<lparr>wr := w', rd := (rd c)\<lparr>rx := junk\<rparr>\<rparr>, Some (EMsg ''pgz: TLS handshake''))
          | Some bs \<Rightarrow> (c\<lparr>wr := w', rd := (rd c)\<lparr>rx := bs\<rparr>\<rparr>, None)))"
proof -
  obtain t where "buildTLS (cfg c) = Some t" using buildTLS_enabled [OF assms(1)] by blast
  then show ?thesis using assms(2-4)
    by (cases e; cases tls) (simp_all add: maybeNegotiateTLS_def flush_wire_def ReadByte_def)
qed

lemma negotiate_accepted:
  assumes "fresh_client c" "cSSLMode (cfg c) \<noteq> SSLDisable" "rx (rd c) = ch CHR ''S'' # junk"
  shows "maybeNegotiateTLS (Some bs) got1 got2 c =
    (c\<lparr>wr := (wr c)\<lparr>tx := tx (wr c) @ ssl_request\<rparr>, rd := (rd c)\<lparr>rx := bs\<rparr>\<rparr>, None)"
proof -
  obtain b w where bw: "BeginNoType (wr c) = (b, w)" by fastforce
  have "Flush (Finish b (b_Int32 sslRequestCode w)) = ((wr c)\<lparr>tx := tx (wr c) @ ssl_request\<rparr>, None)"
    using packet_sent [OF b_Int32_appends _ _ bw] assms(1) by (simp add: fresh_client_def ssl_request_def)
  from negotiate_S [OF assms(2,3) bw this] show ?thesis by simp
qed

text \<open>Without a completed handshake, only a mode that does not demand TLS gets any further.\<close>

lemma negotiate_demanded:
  assumes "cSSLMode (cfg c) \<in> {SSLRequire, SSLVerifyCA, SSLVerifyFull}" "maybeNegotiateTLS tls got1 got2 c = (c', None)"
  obtains bs junk where "tls = Some bs" "rx (rd c) = ch CHR ''S'' # junk" "rx (rd c') = bs"
proof -
  obtain b w where bw: "BeginNoType (wr c) = (b, w)" by fastforce
  obtain t where t: "buildTLS (cfg c) = Some t" using buildTLS_enabled [of "cfg c"] assms(1) by auto
  obtain c1 e where f: "flush_wire (c\<lparr>wr := Finish b (b_Int32 sslRequestCode w)\<rparr>) = (c1, e)" by fastforce
  have c1: "rd c1 = rd c" "cfg c1 = cfg c" using f by (auto simp: flush_wire_def split: prod.splits)
  have "e = None" using assms(2) by (cases e) (auto simp: maybeNegotiateTLS_def t bw f)
  then show ?thesis using assms that
    by (cases "rx (rd c)") (auto simp: maybeNegotiateTLS_def t bw f c1 ReadByte_def Let_def split: if_splits option.splits prod.splits sum.splits)
qed

section \<open>The turns of the startup loop\<close>

definition auth_body :: "int \<Rightarrow> bytes \<Rightarrow> bytes" where
  "auth_body code p = be_put 4 code @ p"

definition sasl_initial :: "bytes \<Rightarrow> bytes" where
  "sasl_initial first = MechSCRAMSHA256 @ [0] @ be_put 4 (int32_of (int (length first))) @ first"

definition sent :: "byte \<Rightarrow> bytes \<Rightarrow> Client \<Rightarrow> Client" where
  "sent t p c = c\<lparr>wr := (wr c)\<lparr>tx := tx (wr c) @ frame t p\<rparr>\<rparr>"

lemma sent_simps [simp]:
  "rd (sent t p c) = rd c" "cfg (sent t p c) = cfg c" "scram (sent t p c) = scram c" "params (sent t p c) = params c"
  "tx (wr (sent t p c)) = tx (wr c) @ frame t p" "fresh_client (sent t p c) = fresh_client c" "sent t p (c\<lparr>rd := r\<rparr>) = (sent t p c)\<lparr>rd := r\<rparr>"
  by (simp_all add: sent_def fresh_client_def)

lemma sent_scram [simp]: "sent t p (c\<lparr>rd := r, scram := x\<rparr>) = (sent t p (c\<lparr>scram := x\<rparr>))\<lparr>rd := r\<rparr>"
  by (cases c) (simp add: sent_def)

lemma fresh_client_upd [simp]:
  "fresh_client (c\<lparr>rd := r\<rparr>) = fresh_client c" "fresh_client (c\<lparr>scram := s\<rparr>) = fresh_client c"
  by (simp_all add: fresh_client_def)

lemma send_message_sent: "appends f p \<Longrightarrow> fresh_client c \<Longrightarrow> send_message t f c = (sent t p c, None)"
  by (simp add: send_message_ok sent_def fresh_client_def)

lemma auth_body_code:
  "0 \<le> k \<Longrightarrow> k < 2 ^ 31 \<Longrightarrow> int32_of (be_get (take 4 (auth_body k p))) = k"
  "drop 4 (auth_body k p) = p" "\<not> length (auth_body k p) < 4"
  using int32_of_length [of "nat k"] by (simp_all add: auth_body_def)

lemma turn_sasl:
  assumes "MechSCRAMSHA256 \<in> set (splitNulList mechs)" "fresh_client c"
  shows "startup_turn md5 H MsgAuthentication (auth_body AuthSASL mechs) (Some n # ns) (c\<lparr>rd := r\<rparr>) =
    ((sent MsgPassword (sasl_initial (asc ''n,,n=,r='' @ b64enc n)) (c\<lparr>scram := Some (scram_started (cPassword (cfg c)) n)\<rparr>))\<lparr>rd := r\<rparr>, Inl ns)"
proof -
  obtain s0 where s0: "NewSCRAM (Some n) (cPassword (cfg c)) = Inr s0" by (simp add: NewSCRAM_def)
  have a: "appends (\<lambda>w. b_Bytes first (b_Int32 (int32_of (int (length first))) (b_CString MechSCRAMSHA256 w))) (sasl_initial first)" for first
    by (simp add: appends_def sasl_initial_def b_Bytes_def b_Int32_def b_CString_def)
  show ?thesis using assms send_message_sent [OF a, of "c\<lparr>rd := r, scram := Some (scram_started (cPassword (cfg c)) n)\<rparr>"]
    by (simp add: startup_turn_def handleAuth_def auth_body_code PickMechanism_def Let_def ask_def s0 ClientFirst_started [OF s0])
qed

lemma turn_continue:
  assumes "scram c = Some s1" "ClientFinal H sf s1 = (s2, Inr final)" "fresh_client c"
  shows "startup_turn md5 H MsgAuthentication (auth_body AuthSASLContinue sf) ns (c\<lparr>rd := r\<rparr>) =
    ((sent MsgPassword final (c\<lparr>scram := Some s2\<rparr>))\<lparr>rd := r\<rparr>, Inl ns)"
proof -
  have a: "appends (b_Bytes final) final" by (simp add: appends_def b_Bytes_def)
  show ?thesis using assms send_message_sent [OF a, of "c\<lparr>rd := r, scram := Some s2\<rparr>"]
    by (simp add: startup_turn_def handleAuth_def auth_body_code Let_def)
qed

lemma turn_final:
  "scram c = Some s \<Longrightarrow> Verify sfinal s = None \<Longrightarrow>
   startup_turn md5 H MsgAuthentication (auth_body AuthSASLFinal sfinal) ns (c\<lparr>rd := r\<rparr>) = (c\<lparr>rd := r\<rparr>, Inl ns)"
  by (simp add: startup_turn_def handleAuth_def auth_body_code Let_def)

lemma turn_ok: "startup_turn md5 H MsgAuthentication (auth_body AuthOK p) ns (c\<lparr>rd := r\<rparr>) = (c\<lparr>rd := r\<rparr>, Inl ns)"
  by (simp add: startup_turn_def handleAuth_def auth_body_code Let_def)

lemma turn_ready: "startup_turn md5 H MsgReadyForQuery s ns (c\<lparr>rd := r\<rparr>) = (c\<lparr>rd := r\<rparr>, Inr None)"
  by (simp add: startup_turn_def)

lemma turn_key:
  assumes "- (2 ^ 31) \<le> p" "p < 2 ^ 31" "- (2 ^ 31) \<le> k" "k < 2 ^ 31"
  shows "startup_turn md5 H MsgBackendKeyData (be_put 4 p @ be_put 4 k) ns (c\<lparr>rd := r\<rparr>) =
    (c\<lparr>pid := p, skey := k\<rparr>\<lparr>rd := r\<rparr>, Inl ns)"
  using assms int32_of_mod [of p] int32_of_mod [of k] by (simp add: startup_turn_def slice_def be_get_put int32_of_id)

definition param_body :: "bytes \<times> bytes \<Rightarrow> bytes" where
  "param_body kv = fst kv @ [0] @ snd kv @ [0]"

lemma turn_parameter:
  assumes "0 \<notin> set k" "0 \<notin> set v"
  shows "startup_turn md5 H MsgParameterStatus (param_body (k, v)) ns (c\<lparr>rd := r\<rparr>) =
    (c\<lparr>params := (params c)(k \<mapsto> v)\<rparr>\<lparr>rd := r\<rparr>, Inl ns)"
proof -
  have "splitParameter (k @ 0 # v @ [0]) = (k, v)" using assms by (simp add: splitParameter_def indexZero_cstring Let_def)
  then show ?thesis by (simp add: startup_turn_def on_parameter_def param_body_def)
qed

section \<open>The startup exchange\<close>

abbreviation startup_loop ::
  "(bytes \<Rightarrow> bytes) \<Rightarrow> (bytes \<Rightarrow> bytes) \<Rightarrow> bytes option list \<Rightarrow> Client \<Rightarrow> Client \<times> err option"
where
  "startup_loop md5 H \<equiv> msg_loop (startup_turn md5 H) (\<lambda>e l c. (c, Some (EWire e)))"

lemma startup_sends:
  assumes "fresh_client c"
  shows "startup md5 H nonces c =
    startup_loop md5 H nonces (c\<lparr>wr := (wr c)\<lparr>tx := tx (wr c) @ packet (startup_body (cfg c))\<rparr>\<rparr>)"
proof -
  obtain b w where bw: "BeginNoType (wr c) = (b, w)" by fastforce
  have "flush_wire (c\<lparr>wr := Finish b (startup_params (cfg c) w)\<rparr>) = (c\<lparr>wr := (wr c)\<lparr>tx := tx (wr c) @ packet (startup_body (cfg c))\<rparr>\<rparr>, None)"
    using packet_sent [OF startup_params_appends _ _ bw] assms by (simp add: flush_wire_def fresh_client_def)
  then show ?thesis by (simp add: startup_def bw)
qed

text \<open>The server asks for SCRAM and answers the client's first message; the client has its proof out.\<close>

lemma startup_scram:
  assumes "fresh_client c" "MechSCRAMSHA256 \<in> set (splitNulList mechs)"
    and "ClientFinal H sf (scram_started (cPassword (cfg c)) n) = (s2, Inr final)"
    and "frame_ok (auth_body AuthSASL mechs)" "frame_ok (auth_body AuthSASLContinue sf)"
    and "rx (rd c) = frames [(MsgAuthentication, auth_body AuthSASL mechs), (MsgAuthentication, auth_body AuthSASLContinue sf)] @ rest"
  shows "\<exists>r. rx r = rest \<and> startup_loop md5 H (Some n # ns) c = startup_loop md5 H ns
    ((sent MsgPassword final (sent MsgPassword (sasl_initial (asc ''n,,n=,r='' @ b64enc n)) c))\<lparr>scram := Some s2, rd := r\<rparr>)"
proof -
  let ?f = "\<lambda>e l c. (c, Some (EWire e))" and ?h = "startup_turn md5 H"
  let ?d = "sent MsgPassword (sasl_initial (asc ''n,,n=,r='' @ b64enc n)) (c\<lparr>scram := Some (scram_started (cPassword (cfg c)) n)\<rparr>)"
  have rx: "rx (rd c) = frame MsgAuthentication (auth_body AuthSASL mechs) @ frame MsgAuthentication (auth_body AuthSASLContinue sf) @ rest"
    using assms(6) by simp
  obtain r1 where r1: "rx r1 = frame MsgAuthentication (auth_body AuthSASLContinue sf) @ rest"
      "msg_loop ?h ?f (Some n # ns) c = msg_loop ?h ?f ns (?d\<lparr>rd := r1\<rparr>)"
    using loop_go [OF rx assms(4), of ?h "Some n # ns" ?d ns ?f, OF turn_sasl [OF assms(2,1)]] by blast
  let ?e = "sent MsgPassword final ((?d\<lparr>rd := r1\<rparr>)\<lparr>scram := Some s2\<rparr>)"
  have d: "scram (?d\<lparr>rd := r1\<rparr>) = Some (scram_started (cPassword (cfg c)) n)" "fresh_client (?d\<lparr>rd := r1\<rparr>)"
    using assms(1) by simp_all
  have rx2: "rx (rd (?d\<lparr>rd := r1\<rparr>)) = frame MsgAuthentication (auth_body AuthSASLContinue sf) @ rest" using r1(1) by simp
  obtain r2 where "rx r2 = rest" "msg_loop ?h ?f ns (?d\<lparr>rd := r1\<rparr>) = msg_loop ?h ?f ns (?e\<lparr>rd := r2\<rparr>)"
    using loop_go [OF rx2 assms(5), of ?h ns ?e ns ?f, OF turn_continue [OF d(1) assms(3) d(2)]] by blast
  moreover have "?e\<lparr>rd := r2\<rparr> =
      (sent MsgPassword final (sent MsgPassword (sasl_initial (asc ''n,,n=,r='' @ b64enc n)) c))\<lparr>scram := Some s2, rd := r2\<rparr>"
    by (cases c) (simp add: sent_def)
  ultimately show ?thesis using r1(2) by auto
qed

text \<open>What the server sends once it is satisfied: settings, the key of the backend, ready.\<close>

lemma startup_settings:
  assumes "\<forall>(k, v)\<in>set ps. 0 \<notin> set k \<and> 0 \<notin> set v \<and> frame_ok (param_body (k, v))"
    and "rx (rd c) = frames (map (\<lambda>kv. (MsgParameterStatus, param_body kv)) ps) @ rest"
  shows "\<exists>r. rx r = rest \<and> startup_loop md5 H ns c = startup_loop md5 H ns (c\<lparr>params := params c ++ map_of (rev ps), rd := r\<rparr>)"
  using assms
proof (induction ps arbitrary: c)
  case Nil
  then show ?case by (intro exI [of _ "rd c"]) simp
next
  case (Cons kv ps)
  let ?f = "\<lambda>e l c. (c, Some (EWire e))" and ?h = "startup_turn md5 H"
  obtain k v where kv: "kv = (k, v)" by (cases kv)
  have ok: "0 \<notin> set k" "0 \<notin> set v" "frame_ok (param_body (k, v))" using Cons.prems(1) kv by auto
  let ?more = "frames (map (\<lambda>kv. (MsgParameterStatus, param_body kv)) ps) @ rest" and ?d = "c\<lparr>params := (params c)(k \<mapsto> v)\<rparr>"
  have rx: "rx (rd c) = frame MsgParameterStatus (param_body (k, v)) @ ?more" using Cons.prems(2) kv by simp
  obtain r where r: "rx r = ?more" "msg_loop ?h ?f ns c = msg_loop ?h ?f ns (?d\<lparr>rd := r\<rparr>)"
    using loop_go [OF rx ok(3), of ?h ns ?d ns ?f, OF turn_parameter [OF ok(1,2)]] by blast
  have oks: "\<forall>(k, v)\<in>set ps. 0 \<notin> set k \<and> 0 \<notin> set v \<and> frame_ok (param_body (k, v))" using Cons.prems(1) by simp
  have rx1: "rx (rd (?d\<lparr>rd := r\<rparr>)) = ?more" using r(1) by simp
  have m: "(params c)(k \<mapsto> v) ++ map_of (rev ps) = params c ++ map_of (rev (kv # ps))"
    by (simp add: kv map_add_def fun_eq_iff split: option.split)
  obtain r' where "rx r' = rest" "msg_loop ?h ?f ns (?d\<lparr>rd := r\<rparr>) =
      msg_loop ?h ?f ns (?d\<lparr>rd := r, params := params (?d\<lparr>rd := r\<rparr>) ++ map_of (rev ps), rd := r'\<rparr>)"
    using Cons.IH [of "?d\<lparr>rd := r\<rparr>", OF oks rx1] by blast
  moreover have "?d\<lparr>rd := r, params := params (?d\<lparr>rd := r\<rparr>) ++ map_of (rev ps), rd := r'\<rparr> =
      c\<lparr>params := params c ++ map_of (rev (kv # ps)), rd := r'\<rparr>"
    unfolding m [symmetric] by (cases c) simp
  ultimately show ?case using r(2) by auto
qed

definition settled :: "(bytes \<times> bytes) list \<Rightarrow> int \<Rightarrow> int \<Rightarrow> bytes \<Rightarrow> (byte \<times> bytes) list" where
  "settled ps p k s = map (\<lambda>kv. (MsgParameterStatus, param_body kv)) ps @ [(MsgBackendKeyData, be_put 4 p @ be_put 4 k), (MsgReadyForQuery, s)]"

definition settled_ok :: "(bytes \<times> bytes) list \<Rightarrow> int \<Rightarrow> int \<Rightarrow> bytes \<Rightarrow> bool" where
  "settled_ok ps p k s \<longleftrightarrow> (\<forall>(k, v)\<in>set ps. 0 \<notin> set k \<and> 0 \<notin> set v \<and> frame_ok (param_body (k, v))) \<and> frame_ok s \<and>
     - (2 ^ 31) \<le> p \<and> p < 2 ^ 31 \<and> - (2 ^ 31) \<le> k \<and> k < 2 ^ 31"

lemma startup_settles:
  assumes "settled_ok ps p k s" "rx (rd c) = frames (settled ps p k s) @ rest"
  shows "\<exists>r. rx r = rest \<and> startup_loop md5 H ns c = (c\<lparr>params := params c ++ map_of (rev ps), pid := p, skey := k, rd := r\<rparr>, None)"
proof -
  let ?f = "\<lambda>e l c. (c, Some (EWire e))" and ?h = "startup_turn md5 H"
  have ok: "\<forall>(k, v)\<in>set ps. 0 \<notin> set k \<and> 0 \<notin> set v \<and> frame_ok (param_body (k, v))" "frame_ok s"
    "- (2 ^ 31) \<le> p" "p < 2 ^ 31" "- (2 ^ 31) \<le> k" "k < 2 ^ 31" using assms(1) by (auto simp: settled_ok_def)
  have fk: "frame_ok (be_put 4 p @ be_put 4 k)" by (simp add: frame_ok_def)
  have "rx (rd c) = frames (map (\<lambda>kv. (MsgParameterStatus, param_body kv)) ps) @
      frames [(MsgBackendKeyData, be_put 4 p @ be_put 4 k), (MsgReadyForQuery, s)] @ rest"
    using assms(2) by (simp add: settled_def)
  from startup_settings [OF ok(1) this, of md5 H ns] obtain r1 where r1:
      "rx r1 = frame MsgBackendKeyData (be_put 4 p @ be_put 4 k) @ frame MsgReadyForQuery s @ rest"
      "msg_loop ?h ?f ns c = msg_loop ?h ?f ns (c\<lparr>params := params c ++ map_of (rev ps), rd := r1\<rparr>)" by auto
  let ?c1 = "c\<lparr>params := params c ++ map_of (rev ps), rd := r1\<rparr>"
  have rx1: "rx (rd ?c1) = frame MsgBackendKeyData (be_put 4 p @ be_put 4 k) @ frame MsgReadyForQuery s @ rest" using r1(1) by simp
  obtain r2 where r2: "rx r2 = frame MsgReadyForQuery s @ rest"
      "msg_loop ?h ?f ns ?c1 = msg_loop ?h ?f ns (?c1\<lparr>pid := p, skey := k\<rparr>\<lparr>rd := r2\<rparr>)"
    using loop_go [OF rx1 fk, of ?h ns "?c1\<lparr>pid := p, skey := k\<rparr>" ns ?f, OF turn_key [OF ok(3-6)]] by blast
  have rx2: "rx (rd (?c1\<lparr>pid := p, skey := k\<rparr>\<lparr>rd := r2\<rparr>)) = frame MsgReadyForQuery s @ rest" using r2(1) by simp
  obtain r3 where "rx r3 = rest" "msg_loop ?h ?f ns (?c1\<lparr>pid := p, skey := k\<rparr>\<lparr>rd := r2\<rparr>) = ((?c1\<lparr>pid := p, skey := k\<rparr>\<lparr>rd := r2\<rparr>)\<lparr>rd := r3\<rparr>, None)"
    using loop_stop [OF rx2 ok(2), of ?h ns "\<lambda>c. c", OF turn_ready, of ?f] by blast
  then show ?thesis using r1(2) r2(2) by (intro exI [of _ r3]) (cases c, simp)
qed

text \<open>AuthenticationOk, and before it the server's signature.\<close>

lemma startup_welcomed:
  assumes "settled_ok ps p k s" "rx (rd c) = frames ((MsgAuthentication, auth_body AuthOK []) # settled ps p k s) @ rest"
  shows "\<exists>r. rx r = rest \<and> startup_loop md5 H ns c = (c\<lparr>params := params c ++ map_of (rev ps), pid := p, skey := k, rd := r\<rparr>, None)"
proof -
  have ok: "frame_ok (auth_body AuthOK [])" by (simp add: frame_ok_def auth_body_def)
  have rx: "rx (rd c) = frame MsgAuthentication (auth_body AuthOK []) @ frames (settled ps p k s) @ rest" using assms(2) by simp
  obtain r where r: "rx r = frames (settled ps p k s) @ rest" "startup_loop md5 H ns c = startup_loop md5 H ns (c\<lparr>rd := r\<rparr>)"
    using loop_go [OF rx ok, of "startup_turn md5 H" ns c ns "\<lambda>e l c. (c, Some (EWire e))", OF turn_ok] by blast
  then show ?thesis using startup_settles [OF assms(1), of "c\<lparr>rd := r\<rparr>" rest md5 H ns] by auto
qed

lemma startup_verified:
  assumes "settled_ok ps p k s" "scram c = Some sc" "Verify sfin sc = None" "frame_ok (auth_body AuthSASLFinal sfin)"
    and "rx (rd c) = frames ((MsgAuthentication, auth_body AuthSASLFinal sfin) # (MsgAuthentication, auth_body AuthOK []) # settled ps p k s) @ rest"
  shows "\<exists>r. rx r = rest \<and> startup_loop md5 H ns c = (c\<lparr>params := params c ++ map_of (rev ps), pid := p, skey := k, rd := r\<rparr>, None)"
proof -
  have rx: "rx (rd c) = frame MsgAuthentication (auth_body AuthSASLFinal sfin) @
      frames ((MsgAuthentication, auth_body AuthOK []) # settled ps p k s) @ rest" using assms(5) by simp
  obtain r where r: "rx r = frames ((MsgAuthentication, auth_body AuthOK []) # settled ps p k s) @ rest"
      "startup_loop md5 H ns c = startup_loop md5 H ns (c\<lparr>rd := r\<rparr>)"
    using loop_go [OF rx assms(4), of "startup_turn md5 H" ns c ns "\<lambda>e l c. (c, Some (EWire e))", OF turn_final [OF assms(2,3)]] by blast
  then show ?thesis using startup_welcomed [OF assms(1), of "c\<lparr>rd := r\<rparr>" rest md5 H ns] by auto
qed

section \<open>Open\<close>

definition dialed :: "int list \<Rightarrow> bool list \<Rightarrow> nat list \<Rightarrow> bytes \<Rightarrow> nat option \<Rightarrow> config \<Rightarrow> Client" where
  "dialed durs dls pks bs r cf =
     (case NewSized bs r (WireReadBufferSize (applyDefaults cf)) of (reader, writer) \<Rightarrow>
       \<lparr>cfg = applyDefaults cf, rd = reader, wr = writer, params = Map.empty, pid = 0, skey = 0,
        stmts = newStmtCache (StmtCacheSize (applyDefaults cf)) pks, scram = None, observer = None,
        cnt = \<lparr>cQueries = 0, cErrors = 0, cRows = 0, cBytes = 0\<rparr>, lastRows = 0, lastRetries = 0,
        durations = durs, dials = dls, cancels = []\<rparr>)"

lemma Open_dialed:
  "Open durs dls pks md5 H nonces tls got1 got2 bs r cf =
     (case maybeNegotiateTLS tls got1 got2 (dialed durs dls pks bs r cf) of
        (c, Some e) \<Rightarrow> Inl e
      | (c, None) \<Rightarrow> (case startup md5 H nonces c of (c, Some e) \<Rightarrow> Inl e | (c, None) \<Rightarrow> Inr c))"
  by (simp add: Open_def dialed_def Let_def)

lemma dialed_simps [simp]:
  "rx (rd (dialed durs dls pks bs r cf)) = bs" "cfg (dialed durs dls pks bs r cf) = applyDefaults cf"
  "params (dialed durs dls pks bs r cf) = Map.empty" "tx (wr (dialed durs dls pks bs r cf)) = []"
  "fresh_client (dialed durs dls pks bs None cf)" "writeBuf (wr (dialed durs dls pks bs r cf)) = []"
  by (simp_all add: dialed_def NewSized_def fresh_client_def)

lemma negotiate_injected:
  assumes "cSSLMode cf \<noteq> SSLDisable"
    and o: "\<And>junk. outcome junk = maybeNegotiateTLS tls got1 got2 (dialed durs dls pks (ch CHR ''S'' # junk) r cf)"
  shows "snd (outcome junk1) = snd (outcome junk2) \<and> (snd (outcome junk1) = None \<longrightarrow> fst (outcome junk1) = fst (outcome junk2))"
proof -
  let ?c = "\<lambda>junk. dialed durs dls pks (ch CHR ''S'' # junk) r cf"
  have c: "cSSLMode (cfg (?c junk)) \<noteq> SSLDisable" "rx (rd (?c junk)) = ch CHR ''S'' # junk" "wr (?c junk) = wr (?c junk2)" for junk
    using assms(1) by (simp_all add: applyDefaults_keeps dialed_def NewSized_def)
  obtain b w where bw2: "BeginNoType (wr (?c junk2)) = (b, w)" by fastforce
  have bw: "BeginNoType (wr (?c junk)) = (b, w)" for junk using bw2 by (simp only: c(3) [of junk])
  obtain w' e where f: "Flush (Finish b (b_Int32 sslRequestCode w)) = (w', e)" by fastforce
  show ?thesis unfolding o negotiate_S [OF c(1,2) bw f] by (auto simp: dialed_def NewSized_def split: option.split)
qed

text \<open>The bytes \<open>bs\<close> of the server reach the client: without TLS, or through a completed handshake.\<close>

definition delivered :: "config \<Rightarrow> bytes option \<Rightarrow> bytes \<Rightarrow> bytes \<Rightarrow> bool" where
  "delivered cf tls plain bs \<longleftrightarrow>
     (if cSSLMode cf = SSLDisable then plain = bs else (\<exists>junk. plain = ch CHR ''S'' # junk) \<and> tls = Some bs)"

definition hello :: "config \<Rightarrow> bytes" where
  "hello cf = (if cSSLMode cf = SSLDisable then [] else ssl_request) @ packet (startup_body (applyDefaults cf))"

lemma Open_delivered:
  assumes "delivered cf tls plain bs"
  shows "\<exists>c. fresh_client c \<and> rx (rd c) = bs \<and> cfg c = applyDefaults cf \<and> params c = Map.empty \<and> tx (wr c) = hello cf \<and>
    Open durs dls pks md5 H nonces tls got1 got2 plain None cf =
      (case startup_loop md5 H nonces c of (c, Some e) \<Rightarrow> Inl e | (c, None) \<Rightarrow> Inr c)"
proof -
  let ?c0 = "dialed durs dls pks plain None cf"
  obtain c1 where c1: "maybeNegotiateTLS tls got1 got2 ?c0 = (c1, None)" "fresh_client c1" "rx (rd c1) = bs"
    "cfg c1 = applyDefaults cf" "params c1 = Map.empty" "tx (wr c1) = (if cSSLMode cf = SSLDisable then [] else ssl_request)"
  proof (cases "cSSLMode cf = SSLDisable")
    case True
    then show ?thesis using assms that [of ?c0] by (simp add: delivered_def negotiate_disabled applyDefaults_keeps)
  next
    case False
    then obtain junk where "plain = ch CHR ''S'' # junk" "tls = Some bs" using assms by (auto simp: delivered_def)
    then show ?thesis
      using False negotiate_accepted [of ?c0 junk bs got1 got2]
        that [of "?c0\<lparr>wr := (wr ?c0)\<lparr>tx := tx (wr ?c0) @ ssl_request\<rparr>, rd := (rd ?c0)\<lparr>rx := bs\<rparr>\<rparr>"]
      by (simp add: applyDefaults_keeps fresh_client_def dialed_def NewSized_def)
  qed
  let ?c2 = "c1\<lparr>wr := (wr c1)\<lparr>tx := tx (wr c1) @ packet (startup_body (cfg c1))\<rparr>\<rparr>"
  have "fresh_client ?c2" using c1(2) by (simp add: fresh_client_def)
  with c1(3-6) startup_sends [OF c1(2), of md5 H nonces] show ?thesis
    by (intro exI [of _ ?c2]) (simp add: Open_dialed c1(1) hello_def)
qed

section \<open>Properties\<close>

text \<open>C4. \<open>Open\<close> completes.  Over plain TCP or through TLS, as the configuration says, against a server that asks for
  SCRAM-SHA-256, follows RFC 5802 and sends its settings, \<open>Open\<close> returns a client: it has sent the
  startup packet, its nonce and a proof that the server accepts, nothing else; it knows the
  settings and the backend key the server sent, has read exactly the server's answer, and has
  nothing left to write.\<close>

theorem open_completes:
  assumes H: "\<And>x. length (H x) = 32" and srv: "44 \<notin> set sn" "n \<noteq> []" "salt \<noteq> []" "0 < iter" "iter < 2 ^ 63"
    and sf: "sf = server_first n sn salt iter" and salted: "salted = rfc_Hi H (cPassword cf) salt (nat (iter - 1))"
    and mech: "MechSCRAMSHA256 \<in> set (splitNulList mechs)"
    and final: "sfin = asc ''v='' @ b64enc (ServerSignature H salted (auth_message n sn sf))"
    and ok: "frame_ok (auth_body AuthSASL mechs)" "frame_ok (auth_body AuthSASLContinue sf)" "frame_ok (auth_body AuthSASLFinal sfin)"
      "settled_ok ps p k s"
    and bs: "bs = frames ([(MsgAuthentication, auth_body AuthSASL mechs), (MsgAuthentication, auth_body AuthSASLContinue sf),
        (MsgAuthentication, auth_body AuthSASLFinal sfin), (MsgAuthentication, auth_body AuthOK [])] @ settled ps p k s) @ rest"
    and "delivered cf tls plain bs"
  shows "\<exists>c proof. Open durs dls pks md5 H (Some n # ns) tls got1 got2 plain None cf = Inr c \<and>
    tx (wr c) = hello cf @ frame MsgPassword (sasl_initial (asc ''n,,n=,r='' @ b64enc n)) @
      frame MsgPassword (asc ''c=biws,r='' @ b64enc n @ sn @ asc '',p='' @ b64enc proof) \<and>
    server_accepts H salted (auth_message n sn sf) proof \<and>
    params c = map_of (rev ps) \<and> pid c = p \<and> skey c = k \<and> rx (rd c) = rest \<and> fresh_client c"
proof -
  let ?proof = "ClientProof H salted (auth_message n sn sf)"
  let ?m = "asc ''c=biws,r='' @ b64enc n @ sn @ asc '',p='' @ b64enc ?proof"
  let ?s2 = "(scram_started (cPassword cf) n)\<lparr>serverFirst := sf, serverSig := ServerSignature H salted (auth_message n sn sf)\<rparr>"
  obtain c1 where c1: "fresh_client c1" "rx (rd c1) = bs" "cfg c1 = applyDefaults cf" "params c1 = Map.empty" "tx (wr c1) = hello cf"
    "Open durs dls pks md5 H (Some n # ns) tls got1 got2 plain None cf =
      (case startup_loop md5 H (Some n # ns) c1 of (c, Some e) \<Rightarrow> Inl e | (c, None) \<Rightarrow> Inr c)"
    using Open_delivered [OF assms(16)] by blast
  have cfin: "ClientFinal H sf (scram_started (cPassword (cfg c1)) n) = (?s2, Inr ?m)"
    using ClientFinal_rfc [OF H srv sf salted] by (simp add: c1(3) applyDefaults_keeps)
  let ?more = "frame MsgAuthentication (auth_body AuthSASLFinal sfin) @ frame MsgAuthentication (auth_body AuthOK []) @
      frames (settled ps p k s) @ rest"
  have rx1: "rx (rd c1) = frames [(MsgAuthentication, auth_body AuthSASL mechs), (MsgAuthentication, auth_body AuthSASLContinue sf)] @ ?more"
    by (simp add: c1(2) bs)
  let ?d = "(sent MsgPassword ?m (sent MsgPassword (sasl_initial (asc ''n,,n=,r='' @ b64enc n)) c1))\<lparr>scram := Some ?s2\<rparr>"
  obtain r1 where r1: "rx r1 = ?more" "startup_loop md5 H (Some n # ns) c1 = startup_loop md5 H ns (?d\<lparr>rd := r1\<rparr>)"
    using startup_scram [OF c1(1) mech cfin ok(1,2) rx1] by blast
  have d: "scram (?d\<lparr>rd := r1\<rparr>) = Some ?s2" "Verify sfin ?s2 = None" by (simp_all add: final Verify_signature)
  have rx2: "rx (rd (?d\<lparr>rd := r1\<rparr>)) = frames ((MsgAuthentication, auth_body AuthSASLFinal sfin) #
      (MsgAuthentication, auth_body AuthOK []) # settled ps p k s) @ rest" using r1(1) by simp
  obtain r2 where "rx r2 = rest" "startup_loop md5 H ns (?d\<lparr>rd := r1\<rparr>) =
      (?d\<lparr>rd := r1, params := params (?d\<lparr>rd := r1\<rparr>) ++ map_of (rev ps), pid := p, skey := k, rd := r2\<rparr>, None)"
    using startup_verified [OF ok(4) d ok(3) rx2] by blast
  then show ?thesis using r1(2) c1(1,4-6) server_accepts_ClientProof [OF H]
    by (intro exI [of _ "?d\<lparr>rd := r1, params := params (?d\<lparr>rd := r1\<rparr>) ++ map_of (rev ps), pid := p, skey := k, rd := r2\<rparr>"]
        exI [of _ ?proof]) (simp add: fresh_client_def sent_def)
qed

text \<open>A server for the witnesses: a toy hash with 32 byte digests, one setting.\<close>

definition ex_H :: "bytes \<Rightarrow> bytes" where "ex_H x = replicate 32 (of_nat (length x))"
definition ex_nonce :: bytes where "ex_nonce = replicate 18 7"
definition ex_server_first :: bytes where "ex_server_first = server_first ex_nonce [65] [1, 2] 2"
definition ex_mechs :: bytes where "ex_mechs = MechSCRAMSHA256 @ [0, 0]"
definition ex_salted :: bytes where "ex_salted = rfc_Hi ex_H [112] [1, 2] 1"
definition ex_server_final :: bytes where
  "ex_server_final = asc ''v='' @ b64enc (ServerSignature ex_H ex_salted (auth_message ex_nonce [65] ex_server_first))"
definition ex_tls_config :: config where "ex_tls_config = zeroConfig\<lparr>cSSLMode := SSLRequire, cPassword := [112]\<rparr>"
definition ex_settings :: "(bytes \<times> bytes) list" where "ex_settings = [([118], [49, 54])]"

lemma length_b64enc: "length (b64enc s) \<le> 4 * length s"
  by (induction s rule: b64enc.induct) simp_all

lemma splitNul_loop_mech: "0 \<notin> set m \<Longrightarrow> cur @ m \<noteq> [] \<Longrightarrow> splitNul_loop cur (m @ [0, 0]) = [cur @ m]"
  by (induction m arbitrary: cur) auto

lemma ex_server:
  "length (ex_H x) = 32" "MechSCRAMSHA256 \<in> set (splitNulList ex_mechs)" "ex_nonce \<noteq> []"
  "frame_ok (auth_body AuthSASL ex_mechs)" "frame_ok (auth_body AuthSASLContinue ex_server_first)"
  "frame_ok (auth_body AuthSASLFinal ex_server_final)" "settled_ok ex_settings 7 9 [73]"
proof -
  have H: "length (ex_H x) = 32" for x by (simp add: ex_H_def)
  then show "length (ex_H x) = 32" .
  have m: "0 \<notin> set MechSCRAMSHA256" "[] @ MechSCRAMSHA256 \<noteq> []" by (simp_all add: MechSCRAMSHA256_def ascii_simps)
  from splitNul_loop_mech [OF this] show "MechSCRAMSHA256 \<in> set (splitNulList ex_mechs)" by (simp add: splitNulList_def ex_mechs_def)
  show "ex_nonce \<noteq> []" by (simp add: ex_nonce_def)
  show "frame_ok (auth_body AuthSASL ex_mechs)" by (simp add: frame_ok_def auth_body_def ex_mechs_def MechSCRAMSHA256_def asc_def)
  have d: "dec_int 2 = [50]" by code_simp
  show "frame_ok (auth_body AuthSASLContinue ex_server_first)"
    using length_b64enc [of ex_nonce] by (simp add: frame_ok_def auth_body_def ex_server_first_def server_first_def asc_def d) (simp add: ex_nonce_def)
  have "length (b64enc (ServerSignature ex_H ex_salted m)) \<le> 128" for m
    using length_b64enc [of "ServerSignature ex_H ex_salted m"] length_hmac [of ex_H, OF H] by (simp add: ServerSignature_def)
  then have "4 + (2 + length (b64enc (ServerSignature ex_H ex_salted m))) \<le> 134" for m using add_left_mono [of _ 128 6] by simp
  then show "frame_ok (auth_body AuthSASLFinal ex_server_final)"
    by (simp add: frame_ok_def auth_body_def ex_server_final_def asc_def order.trans [of _ 134])
  show "settled_ok ex_settings 7 9 [73]" by (simp add: settled_ok_def ex_settings_def frame_ok_def param_body_def)
qed

theorem open_completes_witness:
  "\<exists>c. Open [] [] [] id ex_H [Some ex_nonce]
      (Some (frames ([(MsgAuthentication, auth_body AuthSASL ex_mechs), (MsgAuthentication, auth_body AuthSASLContinue ex_server_first),
        (MsgAuthentication, auth_body AuthSASLFinal ex_server_final), (MsgAuthentication, auth_body AuthOK [])] @ settled ex_settings 7 9 [73]) @ []))
      0 0 [83, 1, 2] None ex_tls_config = Inr c \<and> pid c = 7 \<and> skey c = 9 \<and> ParameterStatus [118] c = [49, 54]"
proof -
  have salted: "ex_salted = rfc_Hi ex_H (cPassword ex_tls_config) [1, 2] (nat (2 - 1))" by (simp add: ex_salted_def ex_tls_config_def)
  have d: "delivered ex_tls_config (Some bs) [83, 1, 2] bs" for bs by (simp add: delivered_def ex_tls_config_def)
  obtain c where "Open [] [] [] id ex_H [Some ex_nonce]
      (Some (frames ([(MsgAuthentication, auth_body AuthSASL ex_mechs), (MsgAuthentication, auth_body AuthSASLContinue ex_server_first),
        (MsgAuthentication, auth_body AuthSASLFinal ex_server_final), (MsgAuthentication, auth_body AuthOK [])] @ settled ex_settings 7 9 [73]) @ []))
      0 0 [83, 1, 2] None ex_tls_config = Inr c" "params c = map_of (rev ex_settings)" "pid c = 7" "skey c = 9"
    using open_completes [OF ex_server(1) _ ex_server(3) _ _ _ ex_server_first_def salted ex_server(2) ex_server_final_def ex_server(4-7) refl d, where ns = "[]"]
    by fastforce
  then show ?thesis by (simp add: ParameterStatus_def ex_settings_def)
qed

text \<open>C17. Nothing but the request for TLS goes over the wire in the clear when TLS is demanded.  With \<open>sslmode\<close> require, verify-ca
  or verify-full, \<open>Open\<close> succeeds only after the server answered \<open>S\<close> and the handshake completed; whatever
  happens, what was sent before that is a part of the SSLRequest, which says nothing about the user; and
  bytes somebody put on the plain connection behind the \<open>S\<close> change nothing.\<close>

theorem required_tls_is_used:
  assumes "cSSLMode cf \<in> {SSLRequire, SSLVerifyCA, SSLVerifyFull}"
  shows "(\<forall>c. Open durs dls pks md5 H nonces tls got1 got2 plain r cf = Inr c \<longrightarrow> (\<exists>bs junk. tls = Some bs \<and> plain = ch CHR ''S'' # junk)) \<and>
    (\<exists>unsent. ssl_request = tx (wr (fst (maybeNegotiateTLS tls got1 got2 (dialed durs dls pks plain r cf)))) @ unsent) \<and>
    Open durs dls pks md5 H nonces tls got1 got2 (ch CHR ''S'' # junk1) r cf = Open durs dls pks md5 H nonces tls got1 got2 (ch CHR ''S'' # junk2) r cf"
proof (intro conjI allI impI)
  let ?c = "dialed durs dls pks plain r cf"
  have mode: "cSSLMode (cfg ?c) \<in> {SSLRequire, SSLVerifyCA, SSLVerifyFull}" using assms by (simp add: applyDefaults_keeps)
  show "\<exists>bs junk. tls = Some bs \<and> plain = ch CHR ''S'' # junk" if "Open durs dls pks md5 H nonces tls got1 got2 plain r cf = Inr c" for c
  proof -
    obtain c' where "maybeNegotiateTLS tls got1 got2 ?c = (c', None)"
      using \<open>Open durs dls pks md5 H nonces tls got1 got2 plain r cf = Inr c\<close> by (auto simp: Open_dialed split: prod.splits option.splits)
    from negotiate_demanded [OF mode this] show ?thesis by (metis dialed_simps(1))
  qed
  show "\<exists>unsent. ssl_request = tx (wr (fst (maybeNegotiateTLS tls got1 got2 ?c))) @ unsent"
    using negotiate_sends [of ?c tls got1 got2] by simp
  let ?n = "\<lambda>junk. maybeNegotiateTLS tls got1 got2 (dialed durs dls pks (ch CHR ''S'' # junk) r cf)"
  have "cSSLMode cf \<noteq> SSLDisable" using assms by auto
  then have "snd (?n junk1) = snd (?n junk2) \<and> (snd (?n junk1) = None \<longrightarrow> fst (?n junk1) = fst (?n junk2))"
    by (rule negotiate_injected) (rule refl)
  then show "Open durs dls pks md5 H nonces tls got1 got2 (ch CHR ''S'' # junk1) r cf = Open durs dls pks md5 H nonces tls got1 got2 (ch CHR ''S'' # junk2) r cf"
    by (auto simp: Open_dialed split: prod.splits option.splits)
qed

theorem required_tls_is_used_witness:
  "Open [] [] [] id ex_H [Some ex_nonce] (Some []) 0 0 (ch CHR ''S'' # [1, 2]) None ex_tls_config =
   Open [] [] [] id ex_H [Some ex_nonce] (Some []) 0 0 (ch CHR ''S'' # []) None ex_tls_config \<and>
   (\<exists>e. Open [] [] [] id ex_H [Some ex_nonce] (Some []) 0 0 [ch CHR ''N''] None ex_tls_config = Inl e)"
proof -
  have "cSSLMode ex_tls_config \<in> {SSLRequire, SSLVerifyCA, SSLVerifyFull}" by (simp add: ex_tls_config_def)
  from required_tls_is_used [OF this, of "[]" "[]" "[]" id ex_H "[Some ex_nonce]" "Some []" 0 0 "[ch CHR ''N'']" None "[1, 2]" "[]"]
  show ?thesis by (cases "Open [] [] [] id ex_H [Some ex_nonce] (Some []) 0 0 [ch CHR ''N''] None ex_tls_config") auto
qed

text \<open>C18. The server need not know the password.  A server that asks for SCRAM, answers the client's nonce with any salt,
  and then skips its signature and says AuthenticationOk is accepted, over TLS or not: the same bytes are
  accepted by a client with any password, so they cannot prove anything about it.  SCRAM's mutual
  authentication is there (see \<open>scram_exchange\<close>) but its last step is not enforced.\<close>

theorem unverified_server_accepted:
  assumes "\<And>x. length (H x) = 32" "44 \<notin> set sn" "n \<noteq> []" "salt \<noteq> []" "0 < iter" "iter < 2 ^ 63" "sf = server_first n sn salt iter"
    and mech: "MechSCRAMSHA256 \<in> set (splitNulList mechs)"
    and ok: "frame_ok (auth_body AuthSASL mechs)" "frame_ok (auth_body AuthSASLContinue sf)" "settled_ok ps p k s"
    and bs: "bs = frames ([(MsgAuthentication, auth_body AuthSASL mechs), (MsgAuthentication, auth_body AuthSASLContinue sf),
        (MsgAuthentication, auth_body AuthOK [])] @ settled ps p k s) @ rest"
    and del: "delivered cf tls plain bs"
  shows "\<exists>c. Open durs dls pks md5 H (Some n # ns) tls got1 got2 plain None (cf\<lparr>cPassword := pw\<rparr>) = Inr c \<and>
    fresh_client c \<and> pid c = p \<and> rx (rd c) = rest"
proof -
  let ?cf = "cf\<lparr>cPassword := pw\<rparr>"
  have "delivered ?cf tls plain bs" using del by (simp add: delivered_def)
  from Open_delivered [OF this] obtain c1 where c1: "fresh_client c1" "rx (rd c1) = bs" "cfg c1 = applyDefaults ?cf"
    "Open durs dls pks md5 H (Some n # ns) tls got1 got2 plain None ?cf =
      (case startup_loop md5 H (Some n # ns) c1 of (c, Some e) \<Rightarrow> Inl e | (c, None) \<Rightarrow> Inr c)" by blast
  obtain s2 final where fin: "ClientFinal H sf (scram_started (cPassword (cfg c1)) n) = (s2, Inr final)"
    using ClientFinal_rfc [where H = H, OF assms(1-7) refl] by blast
  let ?d = "(sent MsgPassword final (sent MsgPassword (sasl_initial (asc ''n,,n=,r='' @ b64enc n)) c1))\<lparr>scram := Some s2\<rparr>"
  let ?more = "frames ((MsgAuthentication, auth_body AuthOK []) # settled ps p k s) @ rest"
  have rx1: "rx (rd c1) = frames [(MsgAuthentication, auth_body AuthSASL mechs), (MsgAuthentication, auth_body AuthSASLContinue sf)] @ ?more"
    by (simp add: c1(2) bs)
  obtain r1 where r1: "rx r1 = ?more" "startup_loop md5 H (Some n # ns) c1 = startup_loop md5 H ns (?d\<lparr>rd := r1\<rparr>)"
    using startup_scram [OF c1(1) mech fin ok(1,2) rx1] by blast
  have rx2: "rx (rd (?d\<lparr>rd := r1\<rparr>)) = ?more" using r1(1) by simp
  obtain r2 where "rx r2 = rest" "startup_loop md5 H ns (?d\<lparr>rd := r1\<rparr>) =
      (?d\<lparr>rd := r1, params := params (?d\<lparr>rd := r1\<rparr>) ++ map_of (rev ps), pid := p, skey := k, rd := r2\<rparr>, None)"
    using startup_welcomed [OF ok(3) rx2] by blast
  then show ?thesis using r1(2) c1(1,4) by (auto simp: fresh_client_def sent_def)
qed

theorem unverified_server_accepted_witness:
  "\<exists>c. Open [] [] [] id ex_H [Some ex_nonce] None 0 0
      (frames ([(MsgAuthentication, auth_body AuthSASL ex_mechs), (MsgAuthentication, auth_body AuthSASLContinue ex_server_first),
        (MsgAuthentication, auth_body AuthOK [])] @ settled ex_settings 7 9 [73]) @ [])
      None (zeroConfig\<lparr>cPassword := [115, 101]\<rparr>) = Inr c \<and> pid c = 7"
proof -
  have d: "delivered zeroConfig None bs bs" for bs by (simp add: delivered_def zeroConfig_def)
  show ?thesis
    using unverified_server_accepted [OF ex_server(1) _ ex_server(3) _ _ _ ex_server_first_def ex_server(2) ex_server(4,5,7) refl d, where ns = "[]"]
    by fastforce
qed

end
