(* ===== verification/Ctx.thy ===== *)
theory Ctx
  imports Client
begin

text \<open>
  src/pgz/ctx.go: the watchers that turn the end of a context into a cancel request and a read deadline in
  the past.  A client's operations attach a watcher when they start and detach it when they are done; the
  watcher is a goroutine that waits in a \<open>select\<close> for its context or for its stop channel.  The map
  \<open>ctxStates\<close> holds at most one watcher for a client; here it is the field \<open>slot\<close>.  A watcher is numbered by
  how many were started before it.  The sequential theories see of all this only the error of
  \<open>attachContext\<close> and reads that fail.
\<close>

section \<open>State\<close>

text \<open>A context passed to an operation: nil, one that never ends (no \<open>Done\<close> channel), or the one numbered \<open>k\<close>.\<close>

datatype go_ctx = NilCtx | Background | Ctx nat

text \<open>Where a watcher is: in the \<open>select\<close>, in \<open>SendCancel\<close>, before \<open>SetDeadline\<close>, or returned (\<open>wg.Done\<close>).\<close>

datatype wphase = Selecting | Cancelling | Poisoning | Exited

record watcher =
  phase :: wphase
  stopped :: bool
  watches :: nat

text \<open>
  \<open>pastDeadline\<close>: reads of the connection fail at once.  \<open>endedCtxs\<close>: the contexts that are done.  \<open>running\<close>: how many
  operations the caller has started and not finished; \<open>waiting\<close>: the watcher it waits for in
  \<open>detachContext\<close>.  \<open>stray\<close> counts the cancel requests sent while no operation was running.
\<close>

record ctxState =
  watchers :: "watcher list"
  slot :: "nat option"
  pastDeadline :: bool
  endedCtxs :: "nat list"
  running :: nat
  waiting :: "nat option"
  stray :: nat

definition init_ctxState :: ctxState where
  "init_ctxState = \<lparr>watchers = [], slot = None, pastDeadline = False, endedCtxs = [], running = 0, waiting = None, stray = 0\<rparr>"

definition set_phase :: "nat \<Rightarrow> wphase \<Rightarrow> ctxState \<Rightarrow> ctxState" where
  "set_phase i p s = s\<lparr>watchers := (watchers s)[i := (watchers s ! i)\<lparr>phase := p\<rparr>]\<rparr>"

section \<open>attachContext and detachContext\<close>

definition attach :: "go_ctx \<Rightarrow> ctxState \<Rightarrow> err + ctxState" where
  "attach x s =
     (case x of
        NilCtx \<Rightarrow> Inr s
      | Background \<Rightarrow> Inr s
      | Ctx k \<Rightarrow>
          if k \<in> set (endedCtxs s) then Inl ECtx
          else Inr (s\<lparr>watchers := watchers s @ [\<lparr>phase = Selecting, stopped = False, watches = k\<rparr>],
                      slot := Some (length (watchers s))\<rparr>))"

text \<open>\<open>LoadAndDelete\<close> and \<open>close(st.stop)\<close>; then \<open>wg.Wait\<close>, and the deadline is cleared.\<close>

definition detach_start :: "ctxState \<Rightarrow> ctxState" where
  "detach_start s =
     (case slot s of
        None \<Rightarrow> s
      | Some i \<Rightarrow> s\<lparr>slot := None, watchers := (watchers s)[i := (watchers s ! i)\<lparr>stopped := True\<rparr>], waiting := Some i\<rparr>)"

definition detach_finish :: "ctxState \<Rightarrow> ctxState" where
  "detach_finish s = s\<lparr>waiting := None, pastDeadline := False\<rparr>"

section \<open>Steps\<close>

datatype ctx_event =
    EvStart go_ctx
  | EvFinish
  | EvWaited
  | EvEnded nat
  | EvSelect nat bool
  | EvCancel nat bool
  | EvDeadline nat

text \<open>
  An operation starts and finishes; a context ends; watcher \<open>i\<close> takes a ready case of its \<open>select\<close> (either one when both
  are: Go picks at random), comes back from \<open>SendCancel\<close>, which may have failed, and sets the deadline.
\<close>

inductive cstep :: "ctxState \<Rightarrow> ctx_event \<Rightarrow> ctxState \<Rightarrow> bool" where
  start: "waiting s = None \<Longrightarrow> attach x s = Inr s' \<Longrightarrow> cstep s (EvStart x) (s'\<lparr>running := running s + 1\<rparr>)"
| refused: "waiting s = None \<Longrightarrow> attach x s = Inl e \<Longrightarrow> cstep s (EvStart x) s"
| finish: "waiting s = None \<Longrightarrow> 0 < running s \<Longrightarrow> cstep s EvFinish ((detach_start s)\<lparr>running := running s - 1\<rparr>)"
| waited: "waiting s = Some i \<Longrightarrow> phase (watchers s ! i) = Exited \<Longrightarrow> cstep s EvWaited (detach_finish s)"
| ended: "cstep s (EvEnded k) (s\<lparr>endedCtxs := k # endedCtxs s\<rparr>)"
| select_done: "i < length (watchers s) \<Longrightarrow> phase (watchers s ! i) = Selecting \<Longrightarrow> watches (watchers s ! i) \<in> set (endedCtxs s) \<Longrightarrow>
    cstep s (EvSelect i True) (set_phase i Cancelling s)"
| select_stop: "i < length (watchers s) \<Longrightarrow> phase (watchers s ! i) = Selecting \<Longrightarrow> stopped (watchers s ! i) \<Longrightarrow>
    cstep s (EvSelect i False) (set_phase i Exited s)"
| cancel: "i < length (watchers s) \<Longrightarrow> phase (watchers s ! i) = Cancelling \<Longrightarrow>
    cstep s (EvCancel i ok) ((set_phase i Poisoning s)\<lparr>stray := stray s + (if ok \<and> running s = 0 \<and> waiting s = None then 1 else 0)\<rparr>)"
| deadline: "i < length (watchers s) \<Longrightarrow> phase (watchers s ! i) = Poisoning \<Longrightarrow>
    cstep s (EvDeadline i) ((set_phase i Exited s)\<lparr>pastDeadline := True\<rparr>)"

inductive_cases cstep_cases: "cstep s e s'"

text \<open>A caller that starts an operation only when the one before is finished, as \<open>Client\<close> demands.\<close>

inductive reach :: "ctxState \<Rightarrow> bool" where
  init: "reach init_ctxState"
| step: "reach s \<Longrightarrow> cstep s e s' \<Longrightarrow> (\<forall>x. e = EvStart x \<longrightarrow> running s = 0) \<Longrightarrow> reach s'"

text \<open>The step relation as a function of the event, and runs of any caller.\<close>

definition cnext :: "ctx_event \<Rightarrow> ctxState \<Rightarrow> ctxState option" where
  "cnext e s =
     (case e of
        EvStart x \<Rightarrow> if waiting s \<noteq> None then None else (case attach x s of Inl e \<Rightarrow> Some s | Inr s' \<Rightarrow> Some (s'\<lparr>running := running s + 1\<rparr>))
      | EvFinish \<Rightarrow> if waiting s \<noteq> None \<or> running s = 0 then None else Some ((detach_start s)\<lparr>running := running s - 1\<rparr>)
      | EvWaited \<Rightarrow> (case waiting s of None \<Rightarrow> None | Some i \<Rightarrow> if phase (watchers s ! i) = Exited then Some (detach_finish s) else None)
      | EvEnded k \<Rightarrow> Some (s\<lparr>endedCtxs := k # endedCtxs s\<rparr>)
      | EvSelect i d \<Rightarrow>
          if i < length (watchers s) \<and> phase (watchers s ! i) = Selecting \<and>
             (if d then watches (watchers s ! i) \<in> set (endedCtxs s) else stopped (watchers s ! i))
          then Some (set_phase i (if d then Cancelling else Exited) s) else None
      | EvCancel i ok \<Rightarrow>
          if i < length (watchers s) \<and> phase (watchers s ! i) = Cancelling
          then Some ((set_phase i Poisoning s)\<lparr>stray := stray s + (if ok \<and> running s = 0 \<and> waiting s = None then 1 else 0)\<rparr>) else None
      | EvDeadline i \<Rightarrow>
          if i < length (watchers s) \<and> phase (watchers s ! i) = Poisoning then Some ((set_phase i Exited s)\<lparr>pastDeadline := True\<rparr>) else None)"

lemma cstep_iff: "cstep s e s' \<longleftrightarrow> cnext e s = Some s'"
  by (cases e) (auto simp: cnext_def cstep.simps [of s] split: option.splits sum.splits)

fun crun :: "ctx_event list \<Rightarrow> ctxState \<Rightarrow> ctxState option" where
  "crun [] s = Some s"
| "crun (e # es) s = Option.bind (cnext e s) (crun es)"

section \<open>Invariant\<close>

text \<open>At most one watcher is alive: the one in the slot, or the one that is waited for.\<close>

definition ctx_inv :: "ctxState \<Rightarrow> bool" where
  "ctx_inv s \<longleftrightarrow>
     (\<forall>i < length (watchers s). phase (watchers s ! i) \<noteq> Exited \<longrightarrow> slot s = Some i \<or> waiting s = Some i) \<and>
     (case slot s of None \<Rightarrow> True | Some i \<Rightarrow> i < length (watchers s) \<and> running s = 1 \<and> waiting s = None) \<and>
     (case waiting s of None \<Rightarrow> True | Some i \<Rightarrow> i < length (watchers s) \<and> stopped (watchers s ! i) \<and> running s = 0 \<and> slot s = None) \<and>
     (pastDeadline s \<longrightarrow> slot s \<noteq> None \<or> waiting s \<noteq> None) \<and> running s \<le> 1 \<and> stray s = 0"

definition at_rest :: "ctxState \<Rightarrow> bool" where
  "at_rest s \<longleftrightarrow> running s = 0 \<and> waiting s = None"

lemma ctx_inv_init: "ctx_inv init_ctxState"
  by (simp add: ctx_inv_def init_ctxState_def)

lemma set_phase_simps [simp]:
  "slot (set_phase i p s) = slot s" "waiting (set_phase i p s) = waiting s" "running (set_phase i p s) = running s"
  "pastDeadline (set_phase i p s) = pastDeadline s" "stray (set_phase i p s) = stray s" "endedCtxs (set_phase i p s) = endedCtxs s"
  "length (watchers (set_phase i p s)) = length (watchers s)"
  by (simp_all add: set_phase_def)

lemma set_phase_nth:
  "i < length (watchers s) \<Longrightarrow> watchers (set_phase i p s) ! j = (if j = i then (watchers s ! i)\<lparr>phase := p\<rparr> else watchers s ! j)"
  by (simp add: set_phase_def)

lemma alive: "ctx_inv s \<Longrightarrow> i < length (watchers s) \<Longrightarrow> phase (watchers s ! i) \<noteq> Exited \<Longrightarrow> slot s = Some i \<or> waiting s = Some i"
  by (simp add: ctx_inv_def)

lemma inv_slot: "ctx_inv s \<Longrightarrow> slot s = Some i \<Longrightarrow> i < length (watchers s) \<and> running s = 1 \<and> waiting s = None"
  by (simp add: ctx_inv_def)

lemma inv_waiting:
  "ctx_inv s \<Longrightarrow> waiting s = Some i \<Longrightarrow> i < length (watchers s) \<and> stopped (watchers s ! i) \<and> running s = 0 \<and> slot s = None"
  by (simp add: ctx_inv_def)

lemma alive_busy: "ctx_inv s \<Longrightarrow> slot s = Some i \<or> waiting s = Some i \<Longrightarrow> \<not> at_rest s"
  using inv_slot [of s i] by (elim disjE) (simp_all add: at_rest_def)

lemma at_rest_inv:
  assumes "ctx_inv s" "at_rest s"
  shows "slot s = None" "\<not> pastDeadline s" "stray s = 0" "\<And>i. i < length (watchers s) \<Longrightarrow> phase (watchers s ! i) = Exited"
proof -
  show s: "slot s = None" using alive_busy [OF assms(1)] assms(2) by (cases "slot s") auto
  then show "\<not> pastDeadline s" "stray s = 0" using assms by (simp_all add: ctx_inv_def at_rest_def)
  show "phase (watchers s ! i) = Exited" if "i < length (watchers s)" for i
    using alive [OF assms(1) that] s assms(2) by (auto simp: at_rest_def)
qed

lemma ctx_inv_set_phase:
  assumes "ctx_inv s" "i < length (watchers s)" "phase (watchers s ! i) \<noteq> Exited"
  shows "ctx_inv (set_phase i p s)"
proof -
  have "slot s = Some j \<or> waiting s = Some j" if "j < length (watchers s)" "phase (watchers (set_phase i p s) ! j) \<noteq> Exited" for j
    using alive [OF assms] alive [OF assms(1) that(1)] that(2) by (cases "j = i") (simp_all add: set_phase_nth [OF assms(2)])
  moreover have "stopped (watchers (set_phase i p s) ! j) = stopped (watchers s ! j)" for j
    by (simp add: set_phase_nth [OF assms(2)])
  ultimately show ?thesis using assms(1) unfolding ctx_inv_def by (simp cong: option.case_cong)
qed

lemma ctx_inv_attach:
  assumes "ctx_inv s" "at_rest s" "attach x s = Inr s'"
  shows "ctx_inv (s'\<lparr>running := running s + 1\<rparr>)"
proof (cases "s' = s")
  case True
  then show ?thesis using assms(2) at_rest_inv [OF assms(1,2)] by (simp add: ctx_inv_def at_rest_def)
next
  case False
  then obtain k where "s' = s\<lparr>watchers := watchers s @ [\<lparr>phase = Selecting, stopped = False, watches = k\<rparr>], slot := Some (length (watchers s))\<rparr>"
    using assms(3) by (auto simp: attach_def split: go_ctx.splits if_splits)
  then show ?thesis using assms(2) at_rest_inv [OF assms(1,2)] by (simp add: ctx_inv_def at_rest_def nth_append less_Suc_eq)
qed

lemma ctx_inv_detach:
  assumes "ctx_inv s" "waiting s = None" "0 < running s"
  shows "ctx_inv ((detach_start s)\<lparr>running := running s - 1\<rparr>)"
proof (cases "slot s")
  case None
  then show ?thesis using assms by (simp add: ctx_inv_def detach_start_def)
next
  case (Some i)
  have i: "i < length (watchers s)" "running s = 1" "stray s = 0" using inv_slot [OF assms(1) Some] assms(1) by (simp_all add: ctx_inv_def)
  have "j = i" if "j < length (watchers s)" "phase (watchers s ! j) \<noteq> Exited" for j
    using alive [OF assms(1) that] Some assms(2) by simp
  then show ?thesis using i Some by (auto simp: ctx_inv_def detach_start_def nth_list_update)
qed

lemma ctx_inv_step:
  assumes "ctx_inv s" "cstep s e s'" "\<forall>x. e = EvStart x \<longrightarrow> running s = 0"
  shows "ctx_inv s'"
  using assms(2)
proof (cases rule: cstep.cases)
  case (start x s1)
  then have "at_rest s" using assms(3) by (simp add: at_rest_def)
  from ctx_inv_attach [OF assms(1) this start(4)] show ?thesis using start(2) by simp
next
  case refused
  then show ?thesis using assms(1) by simp
next
  case finish
  then show ?thesis using ctx_inv_detach [OF assms(1)] by simp
next
  case (waited i)
  have "phase (watchers s ! j) = Exited" if "j < length (watchers s)" for j
    using alive [OF assms(1) that] inv_waiting [OF assms(1) waited(3)] waited(3,4) by auto
  then show ?thesis using waited inv_waiting [OF assms(1) waited(3)] assms(1) by (simp add: ctx_inv_def detach_finish_def)
next
  case (ended k)
  then show ?thesis using assms(1) unfolding ctx_inv_def by (simp cong: option.case_cong)
next
  case (select_done i)
  then show ?thesis using ctx_inv_set_phase [OF assms(1)] by simp
next
  case (select_stop i)
  then show ?thesis using ctx_inv_set_phase [OF assms(1)] by simp
next
  case (cancel i ok)
  have "\<not> at_rest s" using alive_busy [OF assms(1) alive [OF assms(1) cancel(3)]] cancel(4) by simp
  then show ?thesis using ctx_inv_set_phase [OF assms(1) cancel(3), of Poisoning] cancel(2,4) unfolding ctx_inv_def at_rest_def by (simp cong: option.case_cong)
next
  case (deadline i)
  have "slot s \<noteq> None \<or> waiting s \<noteq> None" using alive [OF assms(1) deadline(3)] deadline(4) by auto
  then show ?thesis using ctx_inv_set_phase [OF assms(1) deadline(3), of Exited] deadline(2,4) unfolding ctx_inv_def by (simp cong: option.case_cong)
qed

lemma reach_inv: "reach s \<Longrightarrow> ctx_inv s"
  by (induction rule: reach.induct) (auto intro: ctx_inv_init ctx_inv_step)

lemma rest_events:
  assumes "ctx_inv s" "at_rest s" "cstep s e s'"
  shows "(\<exists>x. e = EvStart x) \<or> (\<exists>k. e = EvEnded k)"
  using assms(3)
  by (cases rule: cstep.cases) (use at_rest_inv(4) [OF assms(1,2)] assms(2) in \<open>simp_all add: at_rest_def\<close>)

text \<open>A watcher that was told to stop returns in at most three steps.\<close>

fun phase_rank :: "wphase \<Rightarrow> nat" where
  "phase_rank Selecting = 3"
| "phase_rank Cancelling = 2"
| "phase_rank Poisoning = 1"
| "phase_rank Exited = 0"

definition rank :: "ctxState \<Rightarrow> nat" where
  "rank s = sum_list (map (\<lambda>w. phase_rank (phase w)) (watchers s))"

definition watcher_event :: "ctx_event \<Rightarrow> bool" where
  "watcher_event e \<longleftrightarrow> (\<exists>i b. e = EvSelect i b) \<or> (\<exists>i ok. e = EvCancel i ok) \<or> (\<exists>i. e = EvDeadline i)"

lemma sum_list_update_less: "i < length xs \<Longrightarrow> f y < f (xs ! i) \<Longrightarrow> sum_list (map f (xs[i := y])) < (sum_list (map f xs) :: nat)"
proof (induction xs arbitrary: i)
  case (Cons x xs)
  then show ?case by (cases i) auto
qed simp

lemma watcher_event_rank: "cstep s e s' \<Longrightarrow> watcher_event e \<Longrightarrow> rank s' < rank s"
  by (erule cstep_cases)
     (auto simp: watcher_event_def rank_def set_phase_def intro: sum_list_update_less [of _ _ "\<lambda>w. phase_rank (phase w)"])

lemma waiting_enabled:
  assumes "ctx_inv s" "waiting s = Some i"
  shows "\<exists>e s'. cstep s e s' \<and> (watcher_event e \<or> e = EvWaited)"
proof -
  have i: "i < length (watchers s)" "stopped (watchers s ! i)" using inv_waiting [OF assms] by simp_all
  show ?thesis
  proof (cases "phase (watchers s ! i)")
    case Selecting
    then show ?thesis using select_stop [OF i(1) _ i(2)] unfolding watcher_event_def by blast
  next
    case Cancelling
    then show ?thesis using cancel [OF i(1), of True] unfolding watcher_event_def by blast
  next
    case Poisoning
    then show ?thesis using deadline [OF i(1)] unfolding watcher_event_def by blast
  next
    case Exited
    then show ?thesis using waited [OF assms(2)] by blast
  qed
qed

text \<open>
  The demand on the caller is needed: an operation started inside another one (in the loop over the rows of
  an iterator, say) takes the place of the first watcher in \<open>ctxStates\<close>.  Nobody stops that watcher, and when
  its context ends later, a cancel request goes out for whatever runs then and the deadline stays.
\<close>

lemma nested_operation_leaves_watcher:
  "case crun [EvStart (Ctx 0), EvStart (Ctx 1), EvFinish, EvSelect 1 False, EvWaited, EvFinish, EvEnded 0, EvSelect 0 True,
     EvCancel 0 True, EvDeadline 0] init_ctxState of None \<Rightarrow> False | Some s \<Rightarrow> at_rest s \<and> pastDeadline s \<and> stray s = 1"
  by (simp add: cnext_def attach_def detach_start_def detach_finish_def set_phase_def init_ctxState_def at_rest_def)

section \<open>Properties\<close>



end
