(* ===== verification/Demo.thy ===== *)
theory Demo
  imports QueryServe OpenCorrect
begin

text \<open>
  src/cmd/: the demo \<^verbatim>\<open>pgz_demo\<close>, and of the benchmark \<^verbatim>\<open>pgz_bench\<close> everything but the table it
  prints, whose figures are floats.  What the flag package delivers, the environment variable, the URL parser and the
  dialer are arguments.  A run of a program is its standard output, its standard error and its exit code;
  \<^verbatim>\<open>os.Exit\<close> skips the deferred \<open>Close\<close>, whose effect (the connection is gone) is the same as that of the exit.
\<close>

section \<open>What a program leaves behind\<close>

record process =
  stdout :: sink
  stderr :: bytes
  exitCode :: nat

definition fatal :: "bytes \<Rightarrow> sink \<Rightarrow> process" where
  "fatal msg out = \<lparr>stdout = out, stderr = msg @ [10], exitCode = 1\<rparr>"

definition finished :: "sink \<Rightarrow> process" where
  "finished out = \<lparr>stdout = out, stderr = [], exitCode = 0\<rparr>"

text \<open>\<^verbatim>\<open>os.Stdout.Write(p)\<close> and \<^verbatim>\<open>fmt.Println()\<close> with their errors dropped.\<close>

definition print :: "bytes \<Rightarrow> sink \<Rightarrow> sink" where
  "print p out = fst (sink_write p out)"

text \<open>The connection the dialer hands to \<open>Open\<close>, with the oracles of the new client.\<close>

record connection =
  k_durations :: "int list"
  k_dials :: "bool list"
  k_picks :: "nat list"
  k_nonces :: "bytes option list"
  k_tls :: "bytes option"
  k_got1 :: nat
  k_got2 :: nat
  k_in :: bytes
  k_room :: "nat option"

definition open_on ::
  "(bytes \<Rightarrow> bytes) \<Rightarrow> (bytes \<Rightarrow> bytes) \<Rightarrow> (config \<Rightarrow> err + connection) \<Rightarrow> config \<Rightarrow> err + Client"
where
  "open_on md5 H dial cf =
     (case dial (applyDefaults cf) of
        Inl e \<Rightarrow> Inl e
      | Inr k \<Rightarrow> Open (k_durations k) (k_dials k) (k_picks k) md5 H (k_nonces k) (k_tls k) (k_got1 k) (k_got2 k) (k_in k) (k_room k) cf)"

section \<open>pgz_demo\<close>

fun written_to :: "outWriter \<Rightarrow> sink \<Rightarrow> sink" where
  "written_to (FlushW f) out = fw_w f"
| "written_to (BufW b) out = out"

definition demo_query :: "(err \<Rightarrow> bytes) \<Rightarrow> bytes \<Rightarrow> bytes \<Rightarrow> bool list \<Rightarrow> sink \<Rightarrow> Client \<Rightarrow> process" where
  "demo_query text mode sql ticks out c =
     (if mode = asc ''array'' then
        (case QueryJSON [] sql [] c of
           (c, Inl e) \<Rightarrow> fatal (asc ''query: '' @ text e) out
         | (c, Inr buf) \<Rightarrow> finished (print [10] (print buf out)))
      else if mode = asc ''ndjson'' then
        (case StreamNDJSON [] ticks out sql [] c of
           (c, w, Some e) \<Rightarrow> fatal (asc ''stream: '' @ text e) (written_to w out)
         | (c, w, None) \<Rightarrow> finished (written_to w out))
      else if mode = asc ''columnar'' then
        (case StreamColumnar [] ticks out sql [] c of
           (c, w, Some e) \<Rightarrow> fatal (asc ''stream: '' @ text e) (written_to w out)
         | (c, w, None) \<Rightarrow> finished (print [10] (written_to w out)))
      else fatal (asc ''unknown mode: '' @ mode) out)"

text \<open>\<open>parse\<close> is \<^verbatim>\<open>url.Parse\<close> (or its error text), \<open>opn\<close> is \<open>open_on\<close> some network, \<open>text\<close> is \<^verbatim>\<open>err.Error()\<close>.\<close>

definition pgz_demo ::
  "(err \<Rightarrow> bytes) \<Rightarrow> (bytes \<Rightarrow> bytes + dsn_url) \<Rightarrow> (config \<Rightarrow> err + Client) \<Rightarrow> bytes \<Rightarrow> bytes \<Rightarrow> bytes list \<Rightarrow> bool list \<Rightarrow> sink \<Rightarrow> process"
where
  "pgz_demo text parse opn mode dsn args ticks out =
     (if dsn = [] then fatal (asc ''PGZ_DSN not set'') out
      else case args of
             [] \<Rightarrow> fatal (asc ''usage: pgz_demo [flags] <SQL>'') out
           | sql # _ \<Rightarrow>
               (case parse dsn of
                  Inl msg \<Rightarrow> fatal (asc ''dsn: '' @ msg) out
                | Inr u \<Rightarrow>
                    (case opn (ParseDSN u) of
                       Inl e \<Rightarrow> fatal (asc ''open: '' @ text e) out
                     | Inr c \<Rightarrow> demo_query text mode sql ticks out c)))"

section \<open>pgz_bench\<close>

record countingWriter =
  cw_n :: int

definition cw_Write :: "bytes \<Rightarrow> countingWriter \<Rightarrow> countingWriter \<times> nat \<times> out_error option" where
  "cw_Write p w = (w\<lparr>cw_n := int64_of (cw_n w + int (length p))\<rparr>, length p, None)"

text \<open>A \<open>countingWriter\<close> behind the interface \<^verbatim>\<open>io.Writer\<close>: a sink that takes everything, of which it keeps the length.\<close>

definition counts :: "countingWriter \<Rightarrow> sink \<Rightarrow> bool" where
  "counts w s \<longleftrightarrow> cw_n w = int64_of (int (length (got s))) \<and> accepts s = None"

definition new_sink :: sink where
  "new_sink = \<lparr>got = [], accepts = None\<rparr>"

definition streamCount :: "bool list \<Rightarrow> bytes \<Rightarrow> Client \<Rightarrow> Client \<times> (err + int)" where
  "streamCount ticks sql c =
     (case StreamNDJSON [] ticks new_sink sql [] c of
        (c, w, Some e) \<Rightarrow> (c, Inl e)
      | (c, w, None) \<Rightarrow> (c, Inr (int64_of (int (length (got (written_to w new_sink)))))))"

text \<open>The scenarios.  \<^verbatim>\<open>%d\<close> is the number of rows in decimal; a quote is written by its code.\<close>

definition sq :: string where "sq = [CHR 0x27]"

definition line_break :: string where "line_break = [CHR 0x0A, CHR 0x09, CHR 0x09, CHR 0x09, CHR 0x09]"

definition series :: "string \<Rightarrow> int \<Rightarrow> bytes" where
  "series select rows = asc (select @ ''FROM generate_series(1, '') @ dec_int rows @ asc '') g''"

definition scenarios :: "int \<Rightarrow> (bytes \<times> bytes) list" where
  "scenarios rows =
     [(asc ''narrow_int'', series ''SELECT g AS id '' rows),
      (asc ''narrow_text'', series (''SELECT '' @ sq @ ''row-'' @ sq @ '' || g AS name '') rows),
      (asc ''mixed_5col'',
       series (''SELECT g AS id, '' @ sq @ ''name-'' @ sq @ ''||g AS name, (g::float8/3.0) AS score,'' @ line_break @
         ''(g % 2 = 0) AS flag, ('' @ sq @ ''{\"k\":'' @ sq @ ''||g||'' @ sq @ ''}'' @ sq @ '')::jsonb AS meta'' @ line_break) rows),
      (asc ''wide_jsonb'',
       series (''SELECT g, ('' @ sq @ ''{\"a\":1,\"b\":[1,2,3],\"c\":\"x\"}'' @ sq @ '')::jsonb AS j'' @ line_break) rows)]"

text \<open>The repetitions of one scenario; \<open>ns\<close> are the measured times.  The result is the total time and the total size.\<close>

fun bench_repeat :: "nat \<Rightarrow> bytes \<Rightarrow> int list \<Rightarrow> bool list list \<Rightarrow> int \<Rightarrow> int \<Rightarrow> Client \<Rightarrow> Client \<times> int list \<times> bool list list \<times> (err + int \<times> int)" where
  "bench_repeat 0 sql ns ticks totalNs totalBytes c = (c, ns, ticks, Inr (totalNs, totalBytes))"
| "bench_repeat (Suc k) sql ns ticks totalNs totalBytes c =
     (case streamCount (ask [] ticks) sql c of
        (c, Inl e) \<Rightarrow> (c, ns, tl ticks, Inl e)
      | (c, Inr n) \<Rightarrow>
          bench_repeat k sql (tl ns) (tl ticks) (int64_of (totalNs + ask 0 ns)) (int64_of (totalBytes + n)) c)"

text \<open>\<open>row\<close> formats the averages of a scenario.\<close>

fun bench_scenarios ::
  "(err \<Rightarrow> bytes) \<Rightarrow> (bytes \<Rightarrow> int \<Rightarrow> int \<Rightarrow> bytes) \<Rightarrow> nat \<Rightarrow> (bytes \<times> bytes) list \<Rightarrow> int list \<Rightarrow> bool list list \<Rightarrow> sink \<Rightarrow> Client \<Rightarrow> process"
where
  "bench_scenarios text row repeat [] ns ticks out c = finished out"
| "bench_scenarios text row repeat ((title, sql) # scs) ns ticks out c =
     (case bench_repeat repeat sql ns ticks 0 0 c of
        (c, ns, ticks, Inl e) \<Rightarrow> fatal (title @ asc '': '' @ text e) out
      | (c, ns, ticks, Inr (totalNs, totalBytes)) \<Rightarrow>
          bench_scenarios text row repeat scs ns ticks (print (row title totalNs totalBytes) out) c)"

definition left :: "nat \<Rightarrow> string \<Rightarrow> bytes" where
  "left n s = asc s @ replicate (n - length s) 32"

definition right :: "nat \<Rightarrow> string \<Rightarrow> bytes" where
  "right n s = replicate (n - length s) 32 @ asc s"

definition bench_header :: bytes where
  "bench_header = left 14 ''scenario'' @ [32] @ right 10 ''rows'' @ [32] @ right 10 ''ms/op'' @ [32] @ right 12 ''rows/s'' @
     [32] @ right 12 ''MB/s'' @ [10]"

definition pgz_bench ::
  "(err \<Rightarrow> bytes) \<Rightarrow> (bytes \<Rightarrow> bytes + dsn_url) \<Rightarrow> (config \<Rightarrow> err + Client) \<Rightarrow> (bytes \<Rightarrow> int \<Rightarrow> int \<Rightarrow> bytes) \<Rightarrow> int \<Rightarrow> int \<Rightarrow> bytes \<Rightarrow>
   int list \<Rightarrow> bool list list \<Rightarrow> sink \<Rightarrow> process"
where
  "pgz_bench text parse opn row rows repeat dsn ns ticks out =
     (if dsn = [] then fatal (asc ''PGZ_DSN not set'') out
      else case parse dsn of
             Inl msg \<Rightarrow> fatal msg out
           | Inr u \<Rightarrow>
               (case opn (ParseDSN u) of
                  Inl e \<Rightarrow> fatal (asc ''open: '' @ text e) out
                | Inr c \<Rightarrow> bench_scenarios text row (nat repeat) (scenarios rows) ns ticks (print bench_header out) c))"

section \<open>What the demos show\<close>

text \<open>The writer of the benchmark counts what a sink would have got.\<close>

lemma int64_of_add: "int64_of (int64_of a + b) = int64_of (a + b)"
proof -
  have "int64_of (x + y) = int64_of (int64_of x + int64_of y)" for x y
    unfolding int64_of_def by (rule signed_take_bit_add [symmetric])
  moreover have "int64_of (int64_of a) = int64_of a" using int64_of_range [of a] by (intro int64_of_id) auto
  ultimately show ?thesis by metis
qed

lemma counts_write:
  assumes "counts w s" "cw_Write p w = (w', n, e)" "sink_write p s = (s', e')"
  shows "counts w' s' \<and> e' = e \<and> n = length p"
  using assms by (auto simp: counts_def cw_Write_def sink_write_def int64_of_add)

text \<open>A new client has no statements cached.\<close>

lemma flush_wire_stmts: "flush_wire c = (c', e) \<Longrightarrow> stmts c' = stmts c"
  by (auto simp: flush_wire_def split: prod.splits)

lemma send_message_stmts: "send_message t f c = (c', e) \<Longrightarrow> stmts c' = stmts c"
  by (auto simp: send_message_def put_message_def dest: flush_wire_stmts)

lemma handleAuth_stmts: "handleAuth md5 H body ns c = (c', ns', e) \<Longrightarrow> stmts c' = stmts c"
  by (auto simp: handleAuth_def Let_def dest!: send_message_stmts split: if_splits prod.splits sum.splits option.splits)

lemma startup_turn_stmts: "startup_turn md5 H t body ns c = (c', y) \<Longrightarrow> stmts c' = stmts c"
  by (auto simp: startup_turn_def on_parameter_def on_notice_def observe_def dest!: handleAuth_stmts split: if_splits prod.splits option.splits)

lemma startup_stmts: "startup md5 H ns c = (c', e) \<Longrightarrow> stmts c' = stmts c"
proof -
  have "case msg_loop (startup_turn md5 H) (\<lambda>e l c. (c, Some (EWire e))) ns c of (c', x) \<Rightarrow> stmts c' = stmts c" for c
    by (rule msg_loop_rule [where Q = "\<lambda>l c'. stmts c' = stmts c"])
       (auto dest: startup_turn_stmts split: prod.splits sum.splits)
  then show "startup md5 H ns c = (c', e) \<Longrightarrow> stmts c' = stmts c"
    by (fastforce simp: startup_def dest!: flush_wire_stmts split: prod.splits option.splits)
qed

lemma negotiate_stmts: "maybeNegotiateTLS tls got1 got2 c = (c', e) \<Longrightarrow> stmts c' = stmts c"
  by (auto simp: maybeNegotiateTLS_def Let_def dest!: flush_wire_stmts split: option.splits prod.splits sum.splits if_splits)

lemma Open_plans_ok: "Open durs dls pks md5 H ns tls got1 got2 bs r cf = Inr c \<Longrightarrow> plans_ok (stmts c)"
  by (auto simp: Open_def Let_def plans_ok_def newStmtCache_def dest!: negotiate_stmts startup_stmts split: prod.splits option.splits)

text \<open>
  In mode array the demo succeeds only with one JSON document and a line break on its output, whatever the
  server does; when it fails, nothing is on its output.
\<close>

definition array_outcome :: "process \<Rightarrow> bool" where
  "array_outcome p \<longleftrightarrow>
     (if exitCode p = 0
      then \<exists>js prs. got (stdout p) = js @ [10] \<and> whole_doc ModeArray prs js \<and> ((\<forall>(p, b) \<in> set prs. documented p b) \<longrightarrow> json_value js)
      else got (stdout p) = [] \<and> stderr p \<noteq> [])"

lemma fatal_outcome: "array_outcome (fatal msg new_sink)"
  by (simp add: array_outcome_def fatal_def new_sink_def)

lemma demo_query_outcome:
  assumes "plans_ok (stmts c)"
  shows "array_outcome (demo_query text (asc ''array'') sql ticks new_sink c)"
proof (cases "QueryJSON [] sql [] c")
  case (Pair c' y)
  show ?thesis
  proof (cases y)
    case (Inl e)
    then show ?thesis using Pair by (simp add: demo_query_def fatal_outcome)
  next
    case (Inr js)
    then obtain prs where "whole_doc ModeArray prs js" using Pair QueryJSON_document [OF assms, of "[]" sql "[]" c' js] by blast
    then show ?thesis using Pair Inr whole_doc_json(1) [of ModeArray prs js]
      by (auto simp: demo_query_def finished_def print_def sink_write_def new_sink_def array_outcome_def)
  qed
qed

lemma pgz_demo_prints_json: "array_outcome (pgz_demo text parse (open_on md5 H dial) (asc ''array'') dsn args ticks new_sink)"
  by (auto simp: pgz_demo_def open_on_def fatal_outcome intro!: demo_query_outcome dest: Open_plans_ok split: list.split sum.splits)

end
