(* ===== verification/Spec2Isabelle.thy ===== *)
theory Spec2Isabelle
  imports RowsCorrect Protocol Wire PgErr Output Stmts Args Config Auth Client Query QueryOutput QueryServe Exec Iter
    PoolProps CopyCorrect PipelineCorrect ExecCorrect ScanServe StdlibCorrect Otel OpenCorrect Ctx Demo
begin

text \<open>
  Verification library for pgz, a PostgreSQL driver in Go that turns result sets straight into JSON,
  without building rows in between.

  \<^bold>\<open>The program.\<close>  A \<open>Client\<close> (src/pgz) owns one connection (src/internal/wire).  A query looks up or
  prepares its statement in the statement cache, encodes its arguments into a Bind message, and follows
  the server's messages in a loop; what becomes of a row depends on who asked.  The query engine hands it
  to a row writer (src/internal/rows), which appends one encoded cell after the other
  (src/internal/types, src/internal/jsonwriter) to an output writer; \<open>Exec\<close> only wants the command tag; the
  scanner writes cells into Go structs; the iterator returns the raw row; COPY has its own binary format;
  a batch sends many statements at once and reads the answers later.  The pool lends clients to
  goroutines.  The \<^verbatim>\<open>database/sql\<close> driver and the OpenTelemetry observer sit on top.

  \<^bold>\<open>Theories and code.\<close>  Prelude has the byte strings, big-endian integers and fixed-width conversions that
  all share, Json the grammar of JSON the encoders are measured against.

  \<^descr> Encoding values: JsonWriter (internal/jsonwriter, both escapers), TextTypes, BinaryTypes
    (internal/types), FloatFmt (the part of strconv they use), Calendar (\<open>splitTime\<close>), Protocol
    (internal/protocol).  BinaryCorrect and BinaryArrays prove what is printed.
  \<^descr> Rows: Rows and RowsCorrect (internal/rows), from RowDescription to the row writers and headers.
  \<^descr> Connection: Wire (internal/wire), PgErr (internal/pgerr), Args (pgz/args.go), Config (pgz/config.go),
    Auth (internal/auth), Stmts (pgz/stmtcache.go), Output (pgz/stream.go, internal/bufferpool), Client
    (pgz/conn.go, observer.go, errors.go) with OpenCorrect, Ctx (pgz/ctx.go).
  \<^descr> Queries: Query (pgz/query.go) with QueryOutput and QueryServe; Exec (pgz/exec.go), Iter (pgz/iter.go) with
    ExecCorrect; Pipeline (pgz/pipeline.go) with PipelineCorrect; CopyIn, CopyOut (pgz/copy.go, copy_to.go)
    with CopyCorrect.
  \<^descr> Scanning (pgz/scan.go): ScanTypes (Go types and values), ScanSetters (decoders and setters), Scan (struct
    plans, row loop, both scans), ScanTyped, ScanCorrect, ScanServe.
  \<^descr> On top: Pool with PoolSafe and PoolProps (pgz/pool/pool.go), Stdlib with StdlibCorrect
    (pgz/stdlib/stdlib.go), Otel (pgz/otel/otel.go), Demo (cmd/pgz_demo, cmd/pgz_bench).

  Definitions carry the names of the functions they model; a suffix or a prefix sets methods of different
  types apart (\<open>iter_Close\<close>, \<open>Conn_ExecContext\<close>).  A \<open>_turn\<close> is one turn of the body of a message loop.

  \<^bold>\<open>How the code is modelled.\<close>  State is passed explicitly: every operation of a client maps a \<open>Client\<close> to a
  \<open>Client\<close> and a result.  Errors are values of a sum or an option (\<open>err\<close> in Client), panics among them
  (\<open>EPanic\<close>); the text of an error is its constant part, and an error wrapped in another is the error inside.
  Slices are lists, pointers that may be nil options, integers are \<open>int\<close> with the Go conversions written
  out where a width matters, floats are bit patterns, times nanoseconds since the Unix epoch.  What Go
  does not determine or what comes from outside is an argument or a list of answers in the state: the bytes
  the server sends (any bytes), how many bytes the network takes, the clock, the answers of a context,
  the entry a map iteration meets first, random nonces, whether a dial succeeds.  Hash functions,
  \<^verbatim>\<open>strings.ToLower\<close>, user \<open>Scan\<close> methods and the answers of OpenTelemetry are parameters.  Callbacks are
  functions (\<open>ScanStructBatched\<close>), lists of what they do (\<open>CopyFromBinary\<close>) or trees of their calls
  (\<open>CopyToBinary\<close>).  The pool is a step relation: each critical section is a function, a goroutine an item of a
  multiset, and a run any interleaving of their steps.  So are the goroutines that watch contexts (Ctx), which
  the operations themselves see as a cancelled context at the start and as reads that fail.

  \<^bold>\<open>Interfaces.\<close>  The locales are the interfaces inside the program, each interpreted for every provider:
  \<open>json_encoder\<close> (what the row writer relies on, for the 26 encoders), \<open>row_writer\<close> (the three modes),
  \<open>out_writer\<close> (the two output paths and their union), \<open>stmt_store\<close> (the statement cache), \<open>preparer\<close> (what the
  query loop needs of a prepare) and \<open>guarded_op\<close> (the contract of \<^verbatim>\<open>database/sql\<close> operations).

  \<^bold>\<open>What is shown.\<close>  For the encoders: every one appends exactly one JSON value, and numbers, times,
  numerics and arrays print the value on the wire; the two escapers agree.  For the rows: a row is
  written exactly when it is complete, then as one JSON object or array.  For the connection: messages
  round-trip through writer and reader, message loops end (each successful read consumes input), no
  statement name is lost by the cache, SCRAM completes exactly with a genuine server, \<open>Open\<close> completes and
  sends nothing in the clear where TLS is demanded, a context that ends leaves nothing behind its operation.  For queries: whatever
  the server sends and whatever is retried, the output is a prefix of one document; against a server
  that answers as documented the result is exactly the rows and the client is ready for the next query;
  likewise for \<open>Exec\<close>, the iterator, batches, COPY in both directions, scans and \<^verbatim>\<open>database/sql\<close>.  For scanning:
  the unsafe writes stay inside the field they were chosen for, and the fast path changes nothing but for
  types with \<open>Scan\<close> methods.  For the pool: one owner per connection, exact counters, everyone who waits
  is answered, and a refinement of an abstract machine of leases.  Other theorems are runs in which the code does
  not do what it means to: they state precisely what happens (a query that takes the rows of a failed stream
  for its own, an answer that comes after its statement was given up, a commit reported although the server
  rolled back, a server accepted that never proved itself, a pool over its bound).

  \<^bold>\<open>Termination and bounds.\<close>  A message loop (\<open>msg_loop\<close>) is a recursion on the bytes that are left to read, so
  it needs no fuel; retries are structural recursions with the code's own bounds (two attempts for a stale
  statement, \<open>maxRetries\<close> for serialization failures).  Types and arrays recurse on their size.  Frames are below
  2 GiB (\<open>frame_ok\<close>), as the length field demands, and a plan has fewer than 2 to the 15 columns
  where a count is read back as a signed 16-bit number.

  \<^bold>\<open>Not modelled.\<close>  The table the benchmark prints, whose figures are floats.  Capacities and growth of slices and
  buffers, so memory limits, and the addresses behind unsafe pointers (a field is a path); Go types that refer to themselves
  through a pointer.  Socket options, the deadline of the handshake and how
  crypto/x509 verifies a chain.  URL parsing (net/url), of which \<open>ParseDSN\<close> gets the result.  Formatting of
  error texts.  What \<^verbatim>\<open>database/sql\<close>, OpenTelemetry and the user do with the interfaces they are given.
\<close>

end
